(* ===== verification/Prelude.thy ===== *)
theory Prelude
  imports Main "HOL-Library.Word"
begin

text \<open>
  Shared vocabulary of the development: the machine integers of the Rust sources as
  fixed-width words, little- and big-endian byte strings, slice reads and writes that make
  the out-of-range panic explicit, and the small facts about lists and words that every
  component uses.
\<close>

unbundle bit_operations_syntax

section \<open>Types\<close>

type_synonym u8 = "8 word"
type_synonym u16 = "16 word"
type_synonym u32 = "32 word"
type_synonym u64 = "64 word"
type_synonym i16 = "16 word"
type_synonym i32 = "32 word"
type_synonym i64 = "64 word"
type_synonym bytes = "u8 list"

text \<open>
  Collections of rewrite rules: \<open>wire_simps\<close> for byte strings and slices,
  \<open>word_bounds\<close> for the ranges of machine integers.
\<close>

named_theorems wire_simps
named_theorems word_bounds

section \<open>Ranges of machine integers\<close>

lemma sint_range16 [word_bounds]: "- 32768 \<le> sint (w :: 16 word)" "sint (w :: 16 word) < 32768"
  using sint_range_size [of w] by (simp_all add: word_size)

lemma sint_range32 [word_bounds]:
  "- 2147483648 \<le> sint (w :: 32 word)" "sint (w :: 32 word) < 2147483648"
  using sint_range_size [of w] by (simp_all add: word_size)

lemma sint_range64 [word_bounds]:
  "- 9223372036854775808 \<le> sint (w :: 64 word)" "sint (w :: 64 word) < 9223372036854775808"
  using sint_range_size [of w] by (simp_all add: word_size)

lemma unat_range8 [word_bounds]: "unat (w :: 8 word) < 256"
  using unsigned_less [of w, where 'a = nat] by simp

lemma unat_range16 [word_bounds]: "unat (w :: 16 word) < 65536"
  using unsigned_less [of w, where 'a = nat] by simp

lemma unat_range32 [word_bounds]: "unat (w :: 32 word) < 4294967296"
  using unsigned_less [of w, where 'a = nat] by simp

lemma uint_range16 [word_bounds]: "0 \<le> uint (w :: 16 word)" "uint (w :: 16 word) < 65536"
  using uint_bounded [of w] by simp_all

lemma unat_of_nat32: "k < 4294967296 \<Longrightarrow> unat (of_nat k :: u32) = k"
  by (simp add: unsigned_of_nat take_bit_nat_eq_self)

lemma uint_eq_int_unat: "uint (w :: 'a :: len word) = int (unat w)"
  by simp

lemma uint_range32 [word_bounds]: "0 \<le> uint (w :: 32 word)" "uint (w :: 32 word) < 4294967296"
  using unsigned_less [of w, where 'a = int] by simp_all

lemma sint_word_of_int64:
  "- 9223372036854775808 \<le> k \<Longrightarrow> k < 9223372036854775808 \<Longrightarrow> sint (word_of_int k :: 64 word) = k"
  by (simp add: signed_of_int signed_take_bit_int_eq_self)

lemma sint_add_16:
  fixes a b :: "16 word"
  assumes "- 32768 \<le> sint a + sint b" "sint a + sint b < 32768"
  shows "sint (a + b) = sint a + sint b"
  using assms by (simp add: sint_word_ariths signed_take_bit_int_eq_self)

lemma sint_sub_16:
  fixes a b :: "16 word"
  assumes "- 32768 \<le> sint a - sint b" "sint a - sint b < 32768"
  shows "sint (a - b) = sint a - sint b"
  using assms by (simp add: sint_word_ariths signed_take_bit_int_eq_self)

definition saturating_sub_u32 :: "u32 \<Rightarrow> u32 \<Rightarrow> u32" where
  "saturating_sub_u32 a b = (if b \<le> a then a - b else 0)"

text \<open>Division rounded up, the standard library's \<open>div_ceil\<close>.\<close>

definition div_ceil :: "nat \<Rightarrow> nat \<Rightarrow> nat" where
  "div_ceil a b = (a + b - 1) div b"

section \<open>Byte strings\<close>

text \<open>\<open>to_le_bytes\<close> of an \<open>n\<close>-byte integer, least significant byte first.\<close>

definition le_bytes :: "nat \<Rightarrow> 'a::len word \<Rightarrow> bytes" where
  "le_bytes n w = map (\<lambda>i. ucast (drop_bit (8 * i) w)) [0..<n]"

definition be_bytes :: "nat \<Rightarrow> 'a::len word \<Rightarrow> bytes" where
  "be_bytes n w = rev (le_bytes n w)"

primrec of_le_bytes :: "bytes \<Rightarrow> 'a::len word" where
  "of_le_bytes [] = 0"
| "of_le_bytes (b # bs) = ucast b OR push_bit 8 (of_le_bytes bs)"

definition of_be_bytes :: "bytes \<Rightarrow> 'a::len word" where
  "of_be_bytes bs = of_le_bytes (rev bs)"

lemma length_le_bytes [simp, wire_simps]: "length (le_bytes n w) = n"
  by (simp add: le_bytes_def)

lemma length_be_bytes [simp, wire_simps]: "length (be_bytes n w) = n"
  by (simp add: be_bytes_def)

lemma le_bytes_Suc:
  "le_bytes (Suc n) w = ucast w # le_bytes n (drop_bit 8 w)"
  by (simp add: le_bytes_def upt_conv_Cons map_Suc_upt [symmetric] drop_bit_drop_bit
      del: upt_Suc) (simp add: comp_def algebra_simps)

lemma bit_of_le_bytes:
  "bit (of_le_bytes bs :: 'a::len word) i \<longleftrightarrow>
     i < LENGTH('a) \<and> i div 8 < length bs \<and> bit (bs ! (i div 8)) (i mod 8)"
proof (induction bs arbitrary: i)
  case Nil
  then show ?case by simp
next
  case (Cons b bs)
  show ?case
  proof (cases "i < 8")
    case True
    then show ?thesis by (auto simp: bit_simps Cons)
  next
    case False
    then have "i div 8 = Suc ((i - 8) div 8)" "i mod 8 = (i - 8) mod 8"
      by (simp_all add: le_div_geq le_mod_geq)
    with False show ?thesis
      by (auto simp: bit_simps Cons dest: bit_imp_le_length)
  qed
qed

lemma of_le_bytes_le_bytes:
  "of_le_bytes (le_bytes n w) = take_bit (8 * n) (w :: 'a::len word)"
  by (rule bit_word_eqI)
    (auto simp: bit_of_le_bytes bit_simps le_bytes_def less_mult_imp_div_less
      div_less_iff_less_mult mult.commute)


lemma of_le_bytes_to_le16 [simp, wire_simps]: "of_le_bytes (le_bytes 2 w) = (w :: 16 word)"
  by (simp add: of_le_bytes_le_bytes take_bit_word_eq_self)

lemma of_le_bytes_to_le32 [simp, wire_simps]: "of_le_bytes (le_bytes 4 w) = (w :: 32 word)"
  by (simp add: of_le_bytes_le_bytes take_bit_word_eq_self)

lemma of_be_bytes_be_bytes [simp, wire_simps]: "of_be_bytes (be_bytes n w) = of_le_bytes (le_bytes n w)"
  by (simp add: of_be_bytes_def be_bytes_def)

lemma of_be_bytes_rev [simp, wire_simps]: "of_be_bytes (rev bs) = of_le_bytes bs"
  by (simp add: of_be_bytes_def)

lemma le_bytes_of_le_bytes:
  assumes "8 * length bs \<le> LENGTH('a)"
  shows "le_bytes (length bs) (of_le_bytes bs :: 'a::len word) = bs"
proof (rule nth_equalityI)
  show "length (le_bytes (length bs) (of_le_bytes bs :: 'a word)) = length bs" by simp
next
  fix i
  assume "i < length (le_bytes (length bs) (of_le_bytes bs :: 'a word))"
  then have i: "i < length bs" by simp
  show "le_bytes (length bs) (of_le_bytes bs :: 'a word) ! i = bs ! i"
  proof (rule bit_word_eqI)
    fix k
    assume "k < LENGTH(8)"
    then have k: "k < 8" by simp
    with i assms have "8 * i + k < LENGTH('a)" by linarith
    with i k show "bit (le_bytes (length bs) (of_le_bytes bs :: 'a word) ! i) k = bit (bs ! i) k"
      by (simp add: le_bytes_def bit_simps bit_of_le_bytes)
  qed
qed

section \<open>Slices\<close>

text \<open>
  A slice read \<open>data[off..off + n]\<close> panics when the range is not inside the slice; the
  panic is \<open>None\<close>. A slice write \<open>buf[off..off + n].copy_from_slice(src)\<close> panics
  likewise.
\<close>

definition slice :: "'a list \<Rightarrow> nat \<Rightarrow> nat \<Rightarrow> 'a list option" where
  "slice xs off n = (if off + n \<le> length xs then Some (take n (drop off xs)) else None)"

definition copy_from_slice :: "'a list \<Rightarrow> nat \<Rightarrow> 'a list \<Rightarrow> 'a list option" where
  "copy_from_slice buf off src =
     (if off + length src \<le> length buf
      then Some (take off buf @ src @ drop (off + length src) buf) else None)"

lemma slice_Some_length: "slice xs off n = Some ys \<Longrightarrow> length ys = n"
  by (auto simp: slice_def split: if_splits)

lemma copy_from_slice_length [wire_simps]:
  "copy_from_slice buf off src = Some buf' \<Longrightarrow> length buf' = length buf"
  by (auto simp: copy_from_slice_def split: if_splits)

lemma copy_from_slice_nth:
  assumes "copy_from_slice buf off src = Some buf'" "i < length buf"
  shows "buf' ! i = (if off \<le> i \<and> i < off + length src then src ! (i - off) else buf ! i)"
  using assms by (auto simp: copy_from_slice_def nth_append min_def split: if_splits)

lemma slice_copy_from_slice:
  assumes "copy_from_slice buf off src = Some buf'"
  shows "slice buf' off (length src) = Some src"
  using assms by (auto simp: copy_from_slice_def slice_def split: if_splits)

lemma slice_copy_from_slice_other:
  assumes "copy_from_slice buf off src = Some buf'"
    and "o2 + n \<le> off \<or> off + length src \<le> o2"
  shows "slice buf' o2 n = slice buf o2 n"
proof -
  from assms(1) have len: "length buf' = length buf" and b: "off + length src \<le> length buf"
    by (auto simp: copy_from_slice_def split: if_splits)
  show ?thesis
  proof (cases "o2 + n \<le> length buf")
    case False
    then show ?thesis by (simp add: slice_def len)
  next
    case True
    have "take n (drop o2 buf') = take n (drop o2 buf)"
    proof (rule nth_equalityI)
      fix i
      assume "i < length (take n (drop o2 buf'))"
      with True len have i: "i < n" "o2 + i < length buf" by auto
      with assms(2) copy_from_slice_nth [OF assms(1), of "o2 + i"] True len
      show "take n (drop o2 buf') ! i = take n (drop o2 buf) ! i" by auto
    qed (simp add: len)
    with True show ?thesis by (simp add: slice_def len)
  qed
qed

section \<open>Spans of a row\<close>

text \<open>The end of the span of positions below \<open>n\<close> with \<open>P\<close> that starts at \<open>x\<close>, and all spans from \<open>x\<close> on, as
  pairs of start and end.\<close>

function span_end :: "(nat \<Rightarrow> bool) \<Rightarrow> nat \<Rightarrow> nat \<Rightarrow> nat" where
  "span_end P n x =
     (if x < n then if \<not> P x then x else span_end P n (x + 1) else x)"
  by pat_completeness auto
termination
  by (relation "measure (\<lambda>(P, n, x). n - x)") auto

declare span_end.simps [simp del]

lemma span_end_ge: "x \<le> span_end P n x"
proof (induction P n x rule: span_end.induct)
  case (1 P n x)
  then show ?case by (subst span_end.simps) (auto intro: Suc_leD)
qed

lemma span_end_gt: "x < n \<Longrightarrow> P x \<Longrightarrow> x < span_end P n x"
  using span_end_ge [of "Suc x" P n] by (subst span_end.simps) simp

function spans :: "(nat \<Rightarrow> bool) \<Rightarrow> nat \<Rightarrow> nat \<Rightarrow> (nat \<times> nat) list" where
  "spans P n x =
     (if x < n
      then if \<not> P x then spans P n (x + 1)
           else (x, span_end P n x) # spans P n (span_end P n x)
      else [])"
  by pat_completeness auto
termination
  by (relation "measure (\<lambda>(P, n, x). n - x)")
     (auto intro!: diff_less_mono2 dest: span_end_gt)

declare spans.simps [simp del]

lemma span_end_le: "x \<le> n \<Longrightarrow> span_end P n x \<le> n"
proof (induction P n x rule: span_end.induct)
  case (1 P n x)
  then show ?case by (subst span_end.simps) auto
qed

lemma span_end_bits: "x \<le> i \<Longrightarrow> i < span_end P n x \<Longrightarrow> P i"
proof (induction P n x rule: span_end.induct)
  case (1 P n x)
  then show ?case
    by (cases "i = x"; subst (asm) span_end.simps) (auto split: if_splits)
qed

lemma span_end_stop: "span_end P n x < n \<Longrightarrow> \<not> P (span_end P n x)"
proof (induction P n x rule: span_end.induct)
  case (1 P n x)
  then show ?case by (subst span_end.simps, subst (asm) span_end.simps) (auto split: if_splits)
qed

lemma spans_cover:
  "(\<exists>(s, e) \<in> set (spans P n x). s \<le> i \<and> i < e) \<longleftrightarrow>
   x \<le> i \<and> i < n \<and> P i"
proof (induction P n x rule: spans.induct)
  case (1 P n x)
  show ?case
  proof (cases "x < n")
    case False
    then show ?thesis by (subst spans.simps) auto
  next
    case True
    show ?thesis
    proof (cases "P x")
      case False
      then have "spans P n x = spans P n (x + 1)" using True by (subst spans.simps) simp
      with 1(1) [OF True False] False show ?thesis
        by (metis Suc_eq_plus1 Suc_leD Suc_leI le_neq_implies_less)
    next
      case set: True
      let ?e = "span_end P n x"
      have eq: "spans P n x = (x, ?e) # spans P n ?e"
        using True set by (subst spans.simps) simp
      have "x < ?e" "?e \<le> n" using True set span_end_gt span_end_le by auto
      with 1(2) [OF True] set span_end_bits [of x i P n] show ?thesis
        unfolding eq by (auto simp: not_less)
    qed
  qed
qed

lemma spans_bounds:
  "(s, e) \<in> set (spans P n x) \<Longrightarrow> x \<le> s \<and> s < e \<and> e \<le> n"
proof (induction P n x rule: spans.induct)
  case (1 P n x)
  then show ?case
    using span_end_gt [of x n P] span_end_le [of x n P]
    by (subst (asm) (3) spans.simps) (force split: if_splits)
qed

section \<open>Step relations and invariants\<close>

text \<open>A component whose operations are the steps of a relation promises an invariant: every step keeps
  it, so it holds in every reachable state.\<close>

locale invariant_system =
  fixes step :: "'s \<Rightarrow> 's \<Rightarrow> bool" and inv :: "'s \<Rightarrow> bool"
  assumes keeps: "step s t \<Longrightarrow> inv s \<Longrightarrow> inv t"
begin

lemma reachable_inv: "step\<^sup>*\<^sup>* s t \<Longrightarrow> inv s \<Longrightarrow> inv t"
  by (induction rule: rtranclp_induct) (auto dest: keeps)

end

end
