(* ===== verification/Wire.thy ===== *)
theory Wire
  imports Prelude
begin

text \<open>
  The wire layer of the X server: \<open>xserver/core.rs\<close> (error replies, byte-order-aware reads
  and writes, alignment, visual depths), \<open>xserver/reply.rs\<close> (reply framing),
  \<open>xserver/event.rs\<close> (event framing and byte swapping), \<open>xserver/request.rs\<close> and the
  byte-order helpers of \<open>xserver/client/io.rs\<close>.

  The generated serialisers of the \<open>x11rb-protocol\<close> crate are not part of the repository:
  where the code calls \<open>serialize_into\<close> or \<open>serialize_endian_into\<close>, the model takes the
  bytes they produce as an argument.
\<close>

section \<open>Constants\<close>

text \<open>Error codes of the core protocol, re-exported by \<open>core.rs\<close>.\<close>

definition REQUEST_ERROR :: u8 where "REQUEST_ERROR = 1"
definition VALUE_ERROR :: u8 where "VALUE_ERROR = 2"
definition WINDOW_ERROR :: u8 where "WINDOW_ERROR = 3"
definition PIXMAP_ERROR :: u8 where "PIXMAP_ERROR = 4"
definition ATOM_ERROR :: u8 where "ATOM_ERROR = 5"
definition ROOT_COLORMAP :: u32 where "ROOT_COLORMAP = 0x20"
definition CURSOR_ERROR :: u8 where "CURSOR_ERROR = 6"
definition MATCH_ERROR :: u8 where "MATCH_ERROR = 8"
definition DRAWABLE_ERROR :: u8 where "DRAWABLE_ERROR = 9"
definition ACCESS_ERROR :: u8 where "ACCESS_ERROR = 10"
definition ALLOC_ERROR :: u8 where "ALLOC_ERROR = 11"
definition COLORMAP_ERROR :: u8 where "COLORMAP_ERROR = 12"
definition ID_CHOICE_ERROR :: u8 where "ID_CHOICE_ERROR = 14"
definition NAME_ERROR :: u8 where "NAME_ERROR = 15"
definition LENGTH_ERROR :: u8 where "LENGTH_ERROR = 16"

definition RESOURCE_ID_BASE_SHIFT :: nat where "RESOURCE_ID_BASE_SHIFT = 22"

definition RESOURCE_ID_MASK :: u32 where
  "RESOURCE_ID_MASK = push_bit RESOURCE_ID_BASE_SHIFT 1 - 1"

definition X11_EVENT_SIZE :: nat where "X11_EVENT_SIZE = 32"
definition X11_WORD_SIZE :: nat where "X11_WORD_SIZE = 4"

lemmas wire_sizes [simp] = X11_EVENT_SIZE_def X11_WORD_SIZE_def

definition align_to_4 :: "u64 \<Rightarrow> u64" where
  "align_to_4 n = (n + 3) AND NOT 3"

text \<open>Visual identifiers are the server's own assignment (\<open>VISUAL_*\<close> in \<open>core.rs\<close>).\<close>

definition depth_for_visual :: "u32 \<Rightarrow> u8" where
  "depth_for_visual visual =
     (if visual = 0x40 then 32
      else if visual = 0x21 \<or> visual = 0x22 then 24
      else if visual = 0x24 then 16
      else if visual = 0x23 \<or> visual = 0x26 \<or> visual = 0x27 then 8
      else if visual = 0x25 then 4
      else if visual = 0 then 0
      else 24)"

section \<open>Byte-order-aware access\<close>

definition read_u16_bo :: "bytes \<Rightarrow> nat \<Rightarrow> bool \<Rightarrow> u16 option" where
  "read_u16_bo data off msb_first =
     map_option (if msb_first then of_be_bytes else of_le_bytes) (slice data off 2)"

definition read_u32_bo :: "bytes \<Rightarrow> nat \<Rightarrow> bool \<Rightarrow> u32 option" where
  "read_u32_bo data off msb_first =
     map_option (if msb_first then of_be_bytes else of_le_bytes) (slice data off 4)"

definition read_i16_bo :: "bytes \<Rightarrow> nat \<Rightarrow> bool \<Rightarrow> i16 option" where
  "read_i16_bo data off msb_first =
     map_option (if msb_first then of_be_bytes else of_le_bytes) (slice data off 2)"

definition write_u16_bo :: "bytes \<Rightarrow> nat \<Rightarrow> u16 \<Rightarrow> bool \<Rightarrow> bytes option" where
  "write_u16_bo buf off v msb_first =
     copy_from_slice buf off (if msb_first then be_bytes 2 v else le_bytes 2 v)"

definition write_u32_bo :: "bytes \<Rightarrow> nat \<Rightarrow> u32 \<Rightarrow> bool \<Rightarrow> bytes option" where
  "write_u32_bo buf off v msb_first =
     copy_from_slice buf off (if msb_first then be_bytes 4 v else le_bytes 4 v)"

lemma read_write_u32 [wire_simps]:
  "write_u32_bo buf off v m = Some buf' \<Longrightarrow> read_u32_bo buf' off m = Some v"
  using slice_copy_from_slice [of buf off "if m then be_bytes 4 v else le_bytes 4 v" buf']
  by (auto simp: write_u32_bo_def read_u32_bo_def split: if_splits)

lemma read_write_u16 [wire_simps]:
  "write_u16_bo buf off v m = Some buf' \<Longrightarrow> read_u16_bo buf' off m = Some v"
  using slice_copy_from_slice [of buf off "if m then be_bytes 2 v else le_bytes 2 v" buf']
  by (auto simp: write_u16_bo_def read_u16_bo_def split: if_splits)

section \<open>Error replies\<close>

text \<open>
  \<open>build_error\<close> starts from 32 zero bytes and stores each field at its offset of
  \<open>error_layout\<close>; every store is inside the array, so there is no panic.
\<close>

definition store :: "bytes \<Rightarrow> nat \<Rightarrow> bytes \<Rightarrow> bytes" where
  "store buf off src = take off buf @ src @ drop (off + length src) buf"

definition build_error :: "u8 \<Rightarrow> u16 \<Rightarrow> u32 \<Rightarrow> u8 \<Rightarrow> u16 \<Rightarrow> bytes" where
  "build_error error_code seq bad_value major_opcode minor_opcode =
     (let err = replicate 32 0;
          err = store err 0 [0];
          err = store err 1 [error_code];
          err = store err 2 (le_bytes 2 seq);
          err = store err 4 (le_bytes 4 bad_value);
          err = store err 8 (le_bytes 2 minor_opcode);
          err = store err 10 [major_opcode]
      in err)"

definition reverse_range :: "'a list \<Rightarrow> nat \<Rightarrow> nat \<Rightarrow> 'a list" where
  "reverse_range xs off n = take off xs @ rev (take n (drop off xs)) @ drop (off + n) xs"

definition byteswap_error_in_place :: "bytes \<Rightarrow> bytes" where
  "byteswap_error_in_place err =
     (if length err < 32 \<or> err ! 0 \<noteq> 0 then err
      else reverse_range (reverse_range (reverse_range err 2 2) 4 4) 8 2)"

text \<open>What the connection writes: errors are swapped for a most-significant-byte-first client.\<close>

definition error_on_wire :: "bool \<Rightarrow> bytes \<Rightarrow> bytes" where
  "error_on_wire msb_first response =
     (if msb_first \<and> response \<noteq> [] \<and> response ! 0 = 0
      then byteswap_error_in_place response else response)"

lemma store_zeros:
  "length d = off \<Longrightarrow> length src \<le> k \<Longrightarrow>
     store (d @ replicate k 0) off src = (d @ src) @ replicate (k - length src) 0"
  by (simp add: store_def)

lemma build_error_eq:
  "build_error c s b mj mn =
     [0, c] @ le_bytes 2 s @ le_bytes 4 b @ le_bytes 2 mn @ [mj] @ replicate 21 0"
proof -
  have "store (replicate 32 0) 0 [0] = [0] @ replicate 31 (0 :: u8)"
    using store_zeros [of "[]" 0 "[0]" 32] by simp
  then show ?thesis
    by (simp only: build_error_def Let_def)
      (simp add: store_zeros del: append.simps append_assoc)
qed

lemma length_build_error [simp, wire_simps]: "length (build_error c s b mj mn) = 32"
  by (simp add: build_error_eq)

lemma build_error_nonempty [simp]: "build_error c s b mj mn \<noteq> []"
  by (simp add: build_error_eq)

lemma build_error_0 [simp, wire_simps]: "build_error c s b mj mn ! 0 = 0"
  by (simp add: build_error_eq)

lemma reverse_range_append:
  "length xs = off \<Longrightarrow> length ys = n \<Longrightarrow> reverse_range (xs @ ys @ zs) off n = xs @ rev ys @ zs"
  by (auto simp: reverse_range_def)

lemma byteswap_error_append:
  assumes "length h = 2" "h ! 0 = 0" "length s = 2" "length b = 4" "length m = 2" "22 \<le> length r"
  shows "byteswap_error_in_place (h @ s @ b @ m @ r) = h @ rev s @ rev b @ rev m @ r"
proof -
  have "reverse_range (h @ s @ (b @ m @ r)) 2 2 = h @ rev s @ b @ m @ r"
    by (rule reverse_range_append) (use assms in auto)
  moreover have "reverse_range ((h @ rev s) @ b @ (m @ r)) 4 4 = (h @ rev s) @ rev b @ m @ r"
    by (rule reverse_range_append) (use assms in auto)
  moreover have "reverse_range ((h @ rev s @ rev b) @ m @ r) 8 2 = (h @ rev s @ rev b) @ rev m @ r"
    by (rule reverse_range_append) (use assms in auto)
  moreover have "(h @ s @ b @ m @ r) ! 0 = 0" "32 \<le> length (h @ s @ b @ m @ r)"
    using assms by (auto simp: nth_append)
  ultimately show ?thesis by (simp add: byteswap_error_in_place_def)
qed

lemma error_on_wire_build_error:
  "error_on_wire m (build_error c s b mj mn) =
     (let f = (if m then rev else id)
      in [0, c] @ f (le_bytes 2 s) @ f (le_bytes 4 b) @ f (le_bytes 2 mn) @ [mj] @ replicate 21 0)"
  using byteswap_error_append [of "[0, c]" "le_bytes 2 s" "le_bytes 4 b" "le_bytes 2 mn"
      "[mj] @ replicate 21 0"]
  by (simp add: error_on_wire_def build_error_eq Let_def)

section \<open>Replies\<close>

text \<open>
  \<open>serialize_reply\<close> and \<open>serialize_var_reply\<close> take the bytes of the generated serialiser,
  pad them and stamp the length field. The subtraction of the header size is on \<open>usize\<close>,
  so it wraps when the payload is shorter than the header, which only
  \<open>serialize_var_reply\<close> can meet (its check is a \<open>debug_assert\<close>).
\<close>

definition reply_length :: "nat \<Rightarrow> u32" where
  "reply_length n = ucast ((of_nat n - of_nat X11_EVENT_SIZE :: u64) div of_nat X11_WORD_SIZE)"

definition word_pad :: "nat \<Rightarrow> nat" where
  "word_pad n = (X11_WORD_SIZE - n mod X11_WORD_SIZE) mod X11_WORD_SIZE"

definition stamp_length :: "bytes \<Rightarrow> bool \<Rightarrow> bytes option" where
  "stamp_length bs msb_first = write_u32_bo bs 4 (reply_length (length bs)) msb_first"

definition serialize_reply :: "bytes \<Rightarrow> bool \<Rightarrow> bytes option" where
  "serialize_reply data msb_first =
     (let bs = (if length data < X11_EVENT_SIZE
                then data @ replicate (X11_EVENT_SIZE - length data) 0 else data);
          bs = bs @ replicate (word_pad (length bs)) 0
      in stamp_length bs msb_first)"

definition serialize_var_reply :: "bytes \<Rightarrow> bool \<Rightarrow> bytes option" where
  "serialize_var_reply data msb_first =
     (let bs = data @ replicate (word_pad (length data)) 0
      in stamp_length bs msb_first)"

record reply_buf =
  rb_buf :: bytes
  rb_msb_first :: bool

definition reply_fixed :: "u16 \<Rightarrow> bool \<Rightarrow> reply_buf option" where
  "reply_fixed seq msb =
     map_option (\<lambda>b. \<lparr>rb_buf = b, rb_msb_first = msb\<rparr>)
       (write_u16_bo ((replicate X11_EVENT_SIZE 0)[0 := 1]) 2 seq msb)"

definition reply_with_extra :: "u16 \<Rightarrow> nat \<Rightarrow> bool \<Rightarrow> reply_buf option" where
  "reply_with_extra seq extra_bytes msb =
     Option.bind (write_u16_bo ((replicate (X11_EVENT_SIZE + extra_bytes) 0)[0 := 1]) 2 seq msb)
       (\<lambda>b. map_option (\<lambda>b'. \<lparr>rb_buf = b', rb_msb_first = msb\<rparr>)
              (write_u32_bo b 4 (of_nat (extra_bytes div X11_WORD_SIZE)) msb))"

definition reply_set_u32 :: "reply_buf \<Rightarrow> nat \<Rightarrow> u32 \<Rightarrow> reply_buf option" where
  "reply_set_u32 r off v =
     map_option (\<lambda>b. r\<lparr>rb_buf := b\<rparr>) (write_u32_bo (rb_buf r) off v (rb_msb_first r))"

definition reply_set_u16 :: "reply_buf \<Rightarrow> nat \<Rightarrow> u16 \<Rightarrow> reply_buf option" where
  "reply_set_u16 r off v =
     map_option (\<lambda>b. r\<lparr>rb_buf := b\<rparr>) (write_u16_bo (rb_buf r) off v (rb_msb_first r))"

definition reply_set_bytes :: "reply_buf \<Rightarrow> nat \<Rightarrow> bytes \<Rightarrow> reply_buf option" where
  "reply_set_bytes r off data =
     map_option (\<lambda>b. r\<lparr>rb_buf := b\<rparr>) (copy_from_slice (rb_buf r) off data)"

lemma word_pad_dvd: "4 dvd n + word_pad n"
proof -
  have "n mod 4 < 4" by simp
  then consider "n mod 4 = 0" | "n mod 4 = 1" | "n mod 4 = 2" | "n mod 4 = 3" by linarith
  then show ?thesis
    by cases (simp add: word_pad_def, presburger)+
qed

lemma word_pad_less: "word_pad n < 4"
  by (simp add: word_pad_def)

lemma unat_reply_length:
  assumes "32 \<le> n" "n < 2 ^ 34"
  shows "unat (reply_length n) = (n - 32) div 4"
proof -
  have n: "unat (of_nat n :: u64) = n"
    using assms by (simp add: unat_of_nat)
  have "unat ((of_nat n - 32 :: u64) div 4) = (n - 32) div 4"
    using assms n by (simp add: unat_div unat_sub word_le_nat_alt)
  moreover have "(n - 32) div 4 < 2 ^ 32" using assms by auto
  ultimately show ?thesis
    by (simp add: reply_length_def unsigned_ucast_eq take_bit_nat_eq_self)
qed

lemma stamp_length_ok:
  assumes "8 \<le> length bs"
  obtains r where "stamp_length bs m = Some r" "length r = length bs"
    "read_u32_bo r 4 m = Some (reply_length (length bs))"
    "\<And>i. i < length bs \<Longrightarrow> i < 4 \<or> 8 \<le> i \<Longrightarrow> r ! i = bs ! i"
proof -
  from assms have "stamp_length bs m \<noteq> None"
    by (simp add: stamp_length_def write_u32_bo_def copy_from_slice_def)
  then obtain r where r: "stamp_length bs m = Some r" by blast
  from r have cp: "copy_from_slice bs 4 (if m then be_bytes 4 (reply_length (length bs))
       else le_bytes 4 (reply_length (length bs))) = Some r"
    by (simp add: stamp_length_def write_u32_bo_def)
  show thesis
  proof (rule that [OF r])
    show "length r = length bs" using cp by (rule copy_from_slice_length)
    show "read_u32_bo r 4 m = Some (reply_length (length bs))"
      using r by (simp add: stamp_length_def read_write_u32)
    show "r ! i = bs ! i" if "i < length bs" "i < 4 \<or> 8 \<le> i" for i
      using copy_from_slice_nth [OF cp that(1)] that(2) by (auto split: if_splits)
  qed
qed

section \<open>Events\<close>

definition swap :: "'a list \<Rightarrow> nat \<Rightarrow> nat \<Rightarrow> 'a list" where
  "swap xs i j = xs[i := xs ! j, j := xs ! i]"

definition swap_word_at :: "nat \<Rightarrow> bytes \<Rightarrow> bytes" where
  "swap_word_at i bs =
     (if i + 3 < length bs then swap (swap bs i (i + 3)) (i + 1) (i + 2) else bs)"

text \<open>\<open>(4..end).step_by(4)\<close>\<close>

definition payload_offsets :: "nat \<Rightarrow> nat list" where
  "payload_offsets hi = map (\<lambda>k. 4 + X11_WORD_SIZE * k) [0..<(hi - 4 + 3) div X11_WORD_SIZE]"

definition byteswap_event_inplace :: "bytes \<Rightarrow> bytes" where
  "byteswap_event_inplace bs =
     (if length bs < 4 then bs
      else fold swap_word_at (payload_offsets (min (length bs) X11_EVENT_SIZE))
             (reverse_range bs 2 2))"

definition serialize_event :: "bytes \<Rightarrow> bool \<Rightarrow> bytes" where
  "serialize_event data msb_first =
     (let bs = store (replicate 32 0) 0 (take (min (length data) 32) data)
      in if msb_first then byteswap_event_inplace bs else bs)"

fun reverse_fields :: "bytes \<Rightarrow> (nat \<times> nat) list \<Rightarrow> bytes option" where
  "reverse_fields buf [] = Some buf"
| "reverse_fields buf ((off, sz) # layout) =
     (if off + sz \<le> length buf then reverse_fields (reverse_range buf off sz) layout else None)"

definition serialize_event_with_layout ::
    "bytes \<Rightarrow> bool \<Rightarrow> (nat \<times> nat) list \<Rightarrow> bytes option" where
  "serialize_event_with_layout data msb_first field_layout =
     (let buf = (if length data < 32 then data @ replicate (32 - length data) 0 else data)
      in if msb_first then reverse_fields buf field_layout else Some buf)"

record request_header_t =
  major_opcode :: u8
  minor_opcode :: u8
  remaining_length :: u32

definition request_header :: "bytes \<Rightarrow> request_header_t option" where
  "request_header data =
     (if 2 \<le> length data
      then Some \<lparr>major_opcode = data ! 0, minor_opcode = data ! 1, remaining_length = 0\<rparr>
      else None)"

lemma length_swap [simp]: "length (swap xs i j) = length xs"
  by (simp add: swap_def)

lemma length_swap_word_at [simp]: "length (swap_word_at i bs) = length bs"
  by (simp add: swap_word_at_def)

lemma length_reverse_range [simp]: "off + n \<le> length xs \<Longrightarrow> length (reverse_range xs off n) = length xs"
  by (simp add: reverse_range_def)

lemma swap_word_at_nth:
  assumes "j < length bs"
  shows "swap_word_at i bs ! j =
    (if i + 3 < length bs \<and> i \<le> j \<and> j < i + 4 then bs ! (2 * i + 3 - j) else bs ! j)"
proof (cases "i + 3 < length bs \<and> i \<le> j \<and> j < i + 4")
  case True
  then consider "j = i" | "j = i + 1" | "j = i + 2" | "j = i + 3" by linarith
  then show ?thesis using True by cases (simp_all add: swap_word_at_def swap_def nth_list_update)
next
  case False
  then show ?thesis using assms
    by (auto simp: swap_word_at_def swap_def nth_list_update)
qed

lemma length_fold_swap [simp]: "length (fold swap_word_at is bs) = length bs"
  by (induction "is" arbitrary: bs) auto

lemma fold_swap_nth_outside:
  "i < length bs \<Longrightarrow> i < 4 \<or> 4 + 4 * n \<le> i \<Longrightarrow>
     fold swap_word_at (map (\<lambda>k. 4 + 4 * k) [0..<n]) bs ! i = bs ! i"
  by (induction n) (auto simp: swap_word_at_nth)

lemma fold_swap_nth:
  "k < n \<Longrightarrow> r < 4 \<Longrightarrow> 4 + 4 * n \<le> length bs \<Longrightarrow>
     fold swap_word_at (map (\<lambda>k. 4 + 4 * k) [0..<n]) bs ! (4 + 4 * k + r) = bs ! (4 + 4 * k + (3 - r))"
proof (induction n)
  case 0
  then show ?case by simp
next
  case (Suc n)
  let ?bs' = "fold swap_word_at (map (\<lambda>k. 4 + 4 * k) [0..<n]) bs"
  have step: "fold swap_word_at (map (\<lambda>k. 4 + 4 * k) [0..<Suc n]) bs = swap_word_at (4 + 4 * n) ?bs'"
    by simp
  show ?case
  proof (cases "k = n")
    case True
    have m: "2 * (4 + 4 * n) + 3 - (4 + 4 * k + r) = 4 + 4 * k + (3 - r)"
      using True Suc.prems(2) by simp
    have "?bs' ! (4 + 4 * k + (3 - r)) = bs ! (4 + 4 * k + (3 - r))"
      by (rule fold_swap_nth_outside) (use True Suc.prems in auto)
    moreover have "swap_word_at (4 + 4 * n) ?bs' ! (4 + 4 * k + r) = ?bs' ! (4 + 4 * k + (3 - r))"
      using True Suc.prems m by (subst swap_word_at_nth) auto
    ultimately show ?thesis by (simp only: step)
  next
    case False
    with Suc.prems have "k < n" by simp
    with Suc.IH Suc.prems have "?bs' ! (4 + 4 * k + r) = bs ! (4 + 4 * k + (3 - r))" by simp
    with \<open>k < n\<close> Suc.prems show ?thesis
      by (simp only: step) (simp add: swap_word_at_nth)
  qed
qed

lemma length_byteswap_event [simp]: "length (byteswap_event_inplace bs) = length bs"
  by (simp add: byteswap_event_inplace_def)

lemma length_serialize_event [simp]: "length (serialize_event data m) = 32"
  by (simp add: serialize_event_def store_def Let_def)

lemma payload_offsets_32 [simp]: "payload_offsets 32 = map (\<lambda>k. 4 + 4 * k) [0..<7]"
  by (simp add: payload_offsets_def)

lemma reverse_range_nth_outside:
  "i < length xs \<Longrightarrow> off + n \<le> length xs \<Longrightarrow> i < off \<or> off + n \<le> i \<Longrightarrow> reverse_range xs off n ! i = xs ! i"
  by (auto simp: reverse_range_def nth_append min_def)

lemma reverse_range_nth_inside:
  "i < n \<Longrightarrow> off + n \<le> length xs \<Longrightarrow> reverse_range xs off n ! (off + i) = xs ! (off + (n - 1 - i))"
  by (cases "length xs - off = n") (auto simp: reverse_range_def nth_append min_def rev_nth)

text \<open>Each byte of a swapped 32-byte event, by its position in the wire word.\<close>

lemma byteswap_event_word:
  assumes "length bs = 32" "1 \<le> k" "k < 8" "r < 4"
  shows "byteswap_event_inplace bs ! (4 * k + r) = bs ! (4 * k + (3 - r))"
proof -
  obtain q where q: "k = Suc q" using assms(2) by (cases k) auto
  have "byteswap_event_inplace bs ! (4 + 4 * q + r) = reverse_range bs 2 2 ! (4 + 4 * q + (3 - r))"
    using assms q by (simp only: byteswap_event_inplace_def) (simp add: fold_swap_nth)
  also have "\<dots> = bs ! (4 + 4 * q + (3 - r))"
    by (rule reverse_range_nth_outside) (use assms q in auto)
  finally show ?thesis using q by simp
qed

lemma byteswap_event_head:
  assumes "length bs = 32" "i < 4"
  shows "byteswap_event_inplace bs ! i = (if i < 2 then bs ! i else bs ! (5 - i))"
proof -
  have "byteswap_event_inplace bs ! i = reverse_range bs 2 2 ! i"
    using assms by (simp add: byteswap_event_inplace_def fold_swap_nth_outside)
  also have "\<dots> = (if i < 2 then bs ! i else bs ! (5 - i))"
  proof (cases "i < 2")
    case True
    with assms show ?thesis by (simp add: reverse_range_nth_outside)
  next
    case False
    with assms have "i = 2 + (i - 2)" "i - 2 < 2" "2 + (2 - 1 - (i - 2)) = 5 - i" by linarith+
    with reverse_range_nth_inside [of "i - 2" 2 2 bs] assms False show ?thesis by auto
  qed
  finally show ?thesis .
qed

lemma slice_eq_map: "off + n \<le> length xs \<Longrightarrow> slice xs off n = Some (map (\<lambda>i. xs ! (off + i)) [0..<n])"
  by (auto simp: slice_def intro!: nth_equalityI)

lemma list4: "map f [0..<4] = [f 0, f 1, f 2, f (3::nat)]"
  by (simp add: eval_nat_numeral)

lemma list2: "map f [0..<2] = [f 0, f (1::nat)]"
  by (simp add: upt_rec)

lemmas slice_fields = slice_eq_map list4 list2

section \<open>Properties of the wire layer\<close>

text \<open>Every error reply, once swapped for the byte order the client negotiated, is 32 bytes
  long and a client that reads it in that byte order finds the error code, sequence number,
  bad value, minor and major opcode that the handler gave to \<open>build_error\<close>.\<close>

theorem error_reply_roundtrip:
  "let e = error_on_wire msb (build_error code seq bad major minor) in
     length e = 32 \<and> e ! 0 = 0 \<and> e ! 1 = code \<and>
     read_u16_bo e 2 msb = Some seq \<and> read_u32_bo e 4 msb = Some bad \<and>
     read_u16_bo e 8 msb = Some minor \<and> e ! 10 = major"
proof -
  let ?f = "if msb then rev else id"
  define e where "e = error_on_wire msb (build_error code seq bad major minor)"
  have e: "e = [0, code] @ ?f (le_bytes 2 seq) @ ?f (le_bytes 4 bad) @ ?f (le_bytes 2 minor) @
      [major] @ replicate 21 0"
    by (simp add: e_def error_on_wire_build_error Let_def)
  have "slice e 2 2 = Some (?f (le_bytes 2 seq))" "slice e 4 4 = Some (?f (le_bytes 4 bad))"
    "slice e 8 2 = Some (?f (le_bytes 2 minor))"
    by (simp_all add: e slice_def)
  then show ?thesis
    unfolding e_def [symmetric]
    by (simp add: read_u16_bo_def read_u32_bo_def) (simp add: e nth_append)
qed

text \<open>A reply framed by \<open>serialize_reply\<close> never panics, is a whole number of 4-byte words
  and at least 32 bytes long, its length field read in the client's byte order counts exactly
  the words after the 32-byte header, and every byte of the serialised struct outside the
  length field is kept.\<close>

theorem serialize_reply_framing:
  assumes "length data < 2 ^ 33"
  shows "\<exists>r. serialize_reply data msb = Some r \<and> 32 \<le> length r \<and> length r mod 4 = 0 \<and>
    map_option unat (read_u32_bo r 4 msb) = Some ((length r - 32) div 4) \<and>
    (\<forall>i < length data. i < 4 \<or> 8 \<le> i \<longrightarrow> r ! i = data ! i)"
proof -
  define d where "d = (if length data < 32 then data @ replicate (32 - length data) 0 else data)"
  define bs where "bs = d @ replicate (word_pad (length d)) 0"
  have len: "32 \<le> length bs" "length bs mod 4 = 0" "length bs < 2 ^ 34"
    using word_pad_dvd [of "length d"] word_pad_less [of "length d"] assms
    by (auto simp: bs_def d_def mod_eq_0_iff_dvd)
  then have "8 \<le> length bs" by simp
  then obtain r where r: "stamp_length bs msb = Some r" "length r = length bs"
    "read_u32_bo r 4 msb = Some (reply_length (length bs))"
    "\<And>i. i < length bs \<Longrightarrow> i < 4 \<or> 8 \<le> i \<Longrightarrow> r ! i = bs ! i"
    by (rule stamp_length_ok) blast
  have "bs ! i = data ! i" "i < length bs" if "i < length data" for i
    using that by (auto simp: bs_def d_def nth_append)
  moreover have "serialize_reply data msb = stamp_length bs msb"
    by (simp add: serialize_reply_def Let_def d_def bs_def)
  ultimately show ?thesis using r len by (intro exI [of _ r]) (auto simp: unat_reply_length)
qed

theorem serialize_reply_framing_witness:
  "\<exists>r. serialize_reply [1, 0, 7, 0, 0, 0, 0, 0, 42] True = Some r \<and> 32 \<le> length r \<and> length r mod 4 = 0 \<and>
    map_option unat (read_u32_bo r 4 True) = Some ((length r - 32) div 4) \<and>
    (\<forall>i < length [1, 0, 7, 0, 0, 0, 0, 0, 42 :: u8]. i < 4 \<or> 8 \<le> i \<longrightarrow>
       r ! i = [1, 0, 7, 0, 0, 0, 0, 0, 42] ! i)"
  by (rule serialize_reply_framing) simp

text \<open>For a most-significant-byte-first client, the event bytes produced by
  \<open>serialize_event\<close> decode to the sequence number and to every aligned 32-bit field that the
  little-endian form of the same event carries.\<close>

theorem serialize_event_u32_fields:
  assumes "1 \<le> k" "k < 8"
  shows "length (serialize_event data True) = 32 \<and>
    read_u16_bo (serialize_event data True) 2 True = read_u16_bo (serialize_event data False) 2 False \<and>
    read_u32_bo (serialize_event data True) (4 * k) True =
      read_u32_bo (serialize_event data False) (4 * k) False"
proof -
  let ?le = "serialize_event data False"
  have be: "serialize_event data True = byteswap_event_inplace ?le"
    by (simp add: serialize_event_def)
  have w: "byteswap_event_inplace ?le ! (4 * k + r) = ?le ! (4 * k + (3 - r))" if "r < 4" for r
    using assms that by (intro byteswap_event_word) auto
  have h: "byteswap_event_inplace ?le ! 2 = ?le ! 3" "byteswap_event_inplace ?le ! 3 = ?le ! 2"
    using byteswap_event_head [of ?le 2] byteswap_event_head [of ?le 3] by auto
  show ?thesis
    using assms w [of 0] w [of 1] w [of 2] w [of 3] h unfolding be
    by (simp add: read_u32_bo_def read_u16_bo_def slice_fields of_be_bytes_def
        eval_nat_numeral del: of_le_bytes.simps)
qed

theorem serialize_event_u32_fields_witness:
  "length (serialize_event [18, 0, 1, 0, 0x65, 0, 0, 0] True) = 32 \<and>
    read_u16_bo (serialize_event [18, 0, 1, 0, 0x65, 0, 0, 0] True) 2 True =
      read_u16_bo (serialize_event [18, 0, 1, 0, 0x65, 0, 0, 0] False) 2 False \<and>
    read_u32_bo (serialize_event [18, 0, 1, 0, 0x65, 0, 0, 0] True) (4 * 1) True =
      read_u32_bo (serialize_event [18, 0, 1, 0, 0x65, 0, 0, 0] False) (4 * 1) False"
  by (rule serialize_event_u32_fields) simp_all

text \<open>An event that packs two 16-bit fields in one wire word (the coordinates and sizes of
  \<open>ConfigureNotify\<close>, for instance) reaches a most-significant-byte-first client with the
  two fields exchanged: \<open>serialize_event\<close> swaps whole words.\<close>

theorem serialize_event_u16_fields_exchanged:
  assumes "1 \<le> k" "k < 8"
  shows "read_u16_bo (serialize_event data True) (4 * k) True =
      read_u16_bo (serialize_event data False) (4 * k + 2) False \<and>
    read_u16_bo (serialize_event data True) (4 * k + 2) True =
      read_u16_bo (serialize_event data False) (4 * k) False"
proof -
  let ?le = "serialize_event data False"
  have be: "serialize_event data True = byteswap_event_inplace ?le"
    by (simp add: serialize_event_def)
  have w: "byteswap_event_inplace ?le ! (4 * k + r) = ?le ! (4 * k + (3 - r))" if "r < 4" for r
    using assms that by (intro byteswap_event_word) auto
  show ?thesis
    using assms w [of 0] w [of 1] w [of 2] w [of 3] unfolding be
    by (simp add: read_u16_bo_def slice_fields of_be_bytes_def eval_nat_numeral del: of_le_bytes.simps)
qed

theorem serialize_event_u16_fields_exchanged_witness:
  "read_u16_bo (serialize_event (replicate 16 0 @ [10, 0, 20, 0]) True) (4 * 4) True =
      read_u16_bo (serialize_event (replicate 16 0 @ [10, 0, 20, 0]) False) (4 * 4 + 2) False \<and>
    read_u16_bo (serialize_event (replicate 16 0 @ [10, 0, 20, 0]) True) (4 * 4 + 2) True =
      read_u16_bo (serialize_event (replicate 16 0 @ [10, 0, 20, 0]) False) (4 * 4) False"
  by (rule serialize_event_u16_fields_exchanged) simp_all

end
