(* ===== verification/Client.thy ===== *)
theory Client
  imports Wire
begin

text \<open>
  The part of \<open>ClientState\<close> (\<open>xserver/client/mod.rs\<close>) that every request handler shares:
  the resource-ID range of the connection, the recycled identifiers, the byte order and the
  queue of events to be written, with the operations of \<open>client/io.rs\<close> on it, the
  \<open>parse_minor!\<close> macro of \<open>handlers/mod.rs\<close> and the XC-MISC extension
  (\<open>handlers/xc_misc.rs\<close>).

  A component extends the record by the fields of \<open>ClientState\<close> its handlers use. Events and
  replies are the structures handed to \<open>serialize_event\<close>, \<open>serialize_reply\<close> and
  \<open>serialize_var_reply\<close>; their framing is the subject of the theory Wire. A parsed request is
  an argument of the handler (\<open>None\<close> when the generated parser of \<open>x11rb-protocol\<close> fails).
\<close>

section \<open>Shared state and results\<close>

record 'e client_base =
  resource_id_base :: u32
  next_xid :: u32
  freed_xids :: "u32 list"
  msb_first :: bool
  pending_events :: "'e list"

text \<open>A pixmap with the bytes of its framebuffer, four for each pixel.\<close>

record pixmap_state =
  px_width :: u16
  px_height :: u16
  px_data :: bytes

datatype 'r response = NoReply | Reply 'r | ErrorReply bytes

definition parse_minor ::
    "'q option \<Rightarrow> 's \<Rightarrow> u16 \<Rightarrow> u8 \<Rightarrow> u16 \<Rightarrow> ('q \<Rightarrow> 's \<times> 'r response) \<Rightarrow> 's \<times> 'r response" where
  "parse_minor req st seq major minor body =
     (case req of
        None \<Rightarrow> (st, ErrorReply (build_error LENGTH_ERROR seq 0 major minor))
      | Some r \<Rightarrow> body r)"

lemma parse_minor_simps [simp]:
  "parse_minor (Some r) st seq major minor body = body r"
  "parse_minor None st seq major minor body =
     (st, ErrorReply (build_error LENGTH_ERROR seq 0 major minor))"
  by (simp_all add: parse_minor_def)

lemma parse_minor_invariant:
  assumes "P st" "\<And>r. req = Some r \<Longrightarrow> P (fst (body r))"
  shows "P (fst (parse_minor req st seq major minor body))"
  using assms by (cases req) simp_all

definition push_event :: "'e \<Rightarrow> ('e, 'm) client_base_scheme \<Rightarrow> ('e, 'm) client_base_scheme" where
  "push_event e st = st\<lparr>pending_events := pending_events st @ [e]\<rparr>"

section \<open>Resource identifiers\<close>

definition validate_resource_id :: "('e, 'm) client_base_scheme \<Rightarrow> u32 \<Rightarrow> bool" where
  "validate_resource_id st i \<longleftrightarrow> i AND NOT RESOURCE_ID_MASK = resource_id_base st"

definition recycle_xid :: "u32 \<Rightarrow> ('e, 'm) client_base_scheme \<Rightarrow> ('e, 'm) client_base_scheme" where
  "recycle_xid i st =
     (if validate_resource_id st i then st\<lparr>freed_xids := freed_xids st @ [i]\<rparr> else st)"

lemma recycle_xid_simps [simp]:
  "resource_id_base (recycle_xid i st) = resource_id_base st"
  "next_xid (recycle_xid i st) = next_xid st"
  "msb_first (recycle_xid i st) = msb_first st"
  "pending_events (recycle_xid i st) = pending_events st"
  "client_base.more (recycle_xid i st) = client_base.more st"
  "freed_xids (recycle_xid i st) =
     freed_xids st @ (if validate_resource_id st i then [i] else [])"
  by (simp_all add: recycle_xid_def)

end
