(* ===== verification/Region.thy ===== *)
theory Region
  imports Prelude "HOL-Library.Product_Lexorder"
begin

text \<open>
  Regions as lists of rectangles: \<open>xserver/types/region.rs\<close> (the XFIXES region type),
  \<open>point_in_shape\<close> of \<open>xserver/types/window.rs\<close> and the second copy of the same
  operations in \<open>xserver/handlers/shape.rs\<close>.

  Coordinates are \<open>i16\<close> and sizes \<open>u16\<close>; the additions and subtractions of the code wrap
  at 16 bits, as they do in the release builds that are shipped. The abstract view of a
  rectangle is its set of integer points, and the operations are compared with set operations
  on rectangles whose far corner is representable (\<open>rect_ok\<close>).
\<close>

section \<open>Data\<close>

record region_rect =
  rect_x :: i16
  rect_y :: i16
  rect_width :: u16
  rect_height :: u16

text \<open>\<open>XFixesRegion\<close> has the single field \<open>rects\<close>.\<close>

type_synonym xfixes_region = "region_rect list"

abbreviation mk_rect :: "i16 \<Rightarrow> i16 \<Rightarrow> u16 \<Rightarrow> u16 \<Rightarrow> region_rect" where
  "mk_rect x y w h \<equiv> \<lparr>rect_x = x, rect_y = y, rect_width = w, rect_height = h\<rparr>"

text \<open>Signed comparison and saturation on \<open>i16\<close>.\<close>

definition smin :: "i16 \<Rightarrow> i16 \<Rightarrow> i16" where
  "smin a b = (if sint a \<le> sint b then a else b)"

definition smax :: "i16 \<Rightarrow> i16 \<Rightarrow> i16" where
  "smax a b = (if sint a \<le> sint b then b else a)"

definition saturating_add_i16 :: "i16 \<Rightarrow> i16 \<Rightarrow> i16" where
  "saturating_add_i16 a b = word_of_int (max (- 32768) (min 32767 (sint a + sint b)))"

definition saturating_sub_i16 :: "i16 \<Rightarrow> i16 \<Rightarrow> i16" where
  "saturating_sub_i16 a b = word_of_int (max (- 32768) (min 32767 (sint a - sint b)))"

section \<open>Operations of \<open>XFixesRegion\<close>\<close>

definition region_new :: xfixes_region where
  "region_new = []"

definition region_from_rects :: "region_rect list \<Rightarrow> xfixes_region" where
  "region_from_rects rs = rs"

text \<open>The loop of \<open>extents\<close> over the running corner values \<open>(x1, y1, x2, y2)\<close>.\<close>

fun extents_loop :: "i16 \<times> i16 \<times> i16 \<times> i16 \<Rightarrow> region_rect list \<Rightarrow> i16 \<times> i16 \<times> i16 \<times> i16" where
  "extents_loop acc [] = acc"
| "extents_loop (x1, y1, x2, y2) (r # rs) =
     extents_loop
       (smin x1 (rect_x r), smin y1 (rect_y r),
        smax x2 (saturating_add_i16 (rect_x r) (rect_width r)),
        smax y2 (saturating_add_i16 (rect_y r) (rect_height r))) rs"

definition region_extents :: "xfixes_region \<Rightarrow> region_rect" where
  "region_extents rs =
     (if rs = [] then mk_rect 0 0 0 0
      else case extents_loop (32767, 32767, - 32768, - 32768) rs of
        (x1, y1, x2, y2) \<Rightarrow> mk_rect x1 y1 (x2 - x1) (y2 - y1))"

definition region_union :: "xfixes_region \<Rightarrow> xfixes_region \<Rightarrow> xfixes_region" where
  "region_union a b = a @ b"

definition intersect_pair :: "region_rect \<Rightarrow> region_rect \<Rightarrow> region_rect list" where
  "intersect_pair a b =
     (let x1 = smax (rect_x a) (rect_x b);
          y1 = smax (rect_y a) (rect_y b);
          x2 = smin (rect_x a + rect_width a) (rect_x b + rect_width b);
          y2 = smin (rect_y a + rect_height a) (rect_y b + rect_height b)
      in if sint x1 < sint x2 \<and> sint y1 < sint y2
         then [mk_rect x1 y1 (x2 - x1) (y2 - y1)] else [])"

definition region_intersect :: "xfixes_region \<Rightarrow> xfixes_region \<Rightarrow> xfixes_region" where
  "region_intersect as bs = concat (map (\<lambda>a. concat (map (intersect_pair a) bs)) as)"

definition subtract_rect :: "region_rect \<Rightarrow> region_rect \<Rightarrow> region_rect list" where
  "subtract_rect r sub =
     (let rx2 = rect_x r + rect_width r;
          ry2 = rect_y r + rect_height r;
          sx2 = rect_x sub + rect_width sub;
          sy2 = rect_y sub + rect_height sub
      in if sint (rect_x sub) \<ge> sint rx2 \<or> sint sx2 \<le> sint (rect_x r) \<or>
            sint (rect_y sub) \<ge> sint ry2 \<or> sint sy2 \<le> sint (rect_y r)
         then [r]
         else
           (let mid_y = smax (rect_y r) (rect_y sub);
                mid_y2 = smin ry2 sy2
            in (if sint (rect_y sub) > sint (rect_y r)
                then [mk_rect (rect_x r) (rect_y r) (rect_width r) (rect_y sub - rect_y r)]
                else []) @
               (if sint mid_y < sint mid_y2
                then (if sint (rect_x sub) > sint (rect_x r)
                      then [mk_rect (rect_x r) mid_y (rect_x sub - rect_x r) (mid_y2 - mid_y)]
                      else []) @
                     (if sint sx2 < sint rx2
                      then [mk_rect sx2 mid_y (rx2 - sx2) (mid_y2 - mid_y)] else [])
                else []) @
               (if sint sy2 < sint ry2
                then [mk_rect (rect_x r) sy2 (rect_width r) (ry2 - sy2)] else [])))"

text \<open>Each rectangle of \<open>other\<close> is cut out of every fragment left so far.\<close>

definition region_subtract :: "xfixes_region \<Rightarrow> xfixes_region \<Rightarrow> xfixes_region" where
  "region_subtract rs other =
     fold (\<lambda>sub result. concat (map (\<lambda>r. subtract_rect r sub) result)) other rs"

definition region_translate :: "i16 \<Rightarrow> i16 \<Rightarrow> xfixes_region \<Rightarrow> xfixes_region" where
  "region_translate dx dy rs =
     map (\<lambda>r. r\<lparr>rect_x := saturating_add_i16 (rect_x r) dx,
               rect_y := saturating_add_i16 (rect_y r) dy\<rparr>) rs"

definition region_invert :: "xfixes_region \<Rightarrow> region_rect \<Rightarrow> xfixes_region" where
  "region_invert rs bounds = region_subtract (region_from_rects [bounds]) rs"

text \<open>The body of \<open>ExpandRegion\<close> (\<open>handlers/xfixes/region.rs\<close>).\<close>

definition saturating_add_u16 :: "u16 \<Rightarrow> u16 \<Rightarrow> u16" where
  "saturating_add_u16 a b = (if unat a + unat b < 65536 then a + b else 65535)"

definition region_expand :: "u16 \<Rightarrow> u16 \<Rightarrow> u16 \<Rightarrow> u16 \<Rightarrow> xfixes_region \<Rightarrow> xfixes_region" where
  "region_expand l r t b rs =
     map (\<lambda>q. mk_rect (saturating_sub_i16 (rect_x q) l) (saturating_sub_i16 (rect_y q) t)
               (saturating_add_u16 (rect_width q) (l + r))
               (saturating_add_u16 (rect_height q) (t + b))) rs"

definition point_in_shape :: "region_rect list \<Rightarrow> i16 \<Rightarrow> i16 \<Rightarrow> bool" where
  "point_in_shape shape x y =
     list_ex (\<lambda>r. sint x \<ge> sint (rect_x r) \<and> sint x < sint (rect_x r + rect_width r) \<and>
                  sint y \<ge> sint (rect_y r) \<and> sint y < sint (rect_y r + rect_height r)) shape"

section \<open>The copies in \<open>handlers/shape.rs\<close>\<close>

fun compute_extents_loop :: "region_rect list \<Rightarrow> i16 \<Rightarrow> i16 \<Rightarrow> i16 \<Rightarrow> i16 \<Rightarrow> region_rect" where
  "compute_extents_loop [] x1 y1 x2 y2 = mk_rect x1 y1 (x2 - x1) (y2 - y1)"
| "compute_extents_loop (r # rs) x1 y1 x2 y2 =
     compute_extents_loop rs (smin x1 (rect_x r)) (smin y1 (rect_y r))
       (smax x2 (saturating_add_i16 (rect_x r) (rect_width r)))
       (smax y2 (saturating_add_i16 (rect_y r) (rect_height r)))"

definition compute_extents :: "region_rect list \<Rightarrow> region_rect" where
  "compute_extents rs =
     (if rs = [] then mk_rect 0 0 0 0
      else compute_extents_loop rs 32767 32767 (- 32768) (- 32768))"

fun intersect_row :: "region_rect \<Rightarrow> region_rect list \<Rightarrow> region_rect list \<Rightarrow> region_rect list" where
  "intersect_row ra [] result = result"
| "intersect_row ra (rb # b) result =
     (let x1 = smax (rect_x ra) (rect_x rb);
          y1 = smax (rect_y ra) (rect_y rb);
          x2 = smin (rect_x ra + rect_width ra) (rect_x rb + rect_width rb);
          y2 = smin (rect_y ra + rect_height ra) (rect_y rb + rect_height rb)
      in intersect_row ra b
           (if sint x2 > sint x1 \<and> sint y2 > sint y1
            then result @ [mk_rect x1 y1 (x2 - x1) (y2 - y1)] else result))"

fun intersect_rects_loop ::
    "region_rect list \<Rightarrow> region_rect list \<Rightarrow> region_rect list \<Rightarrow> region_rect list" where
  "intersect_rects_loop [] b result = result"
| "intersect_rects_loop (ra # a) b result = intersect_rects_loop a b (intersect_row ra b result)"

definition intersect_rects :: "region_rect list \<Rightarrow> region_rect list \<Rightarrow> region_rect list" where
  "intersect_rects a b = intersect_rects_loop a b []"

definition subtract_single_rect ::
    "region_rect \<Rightarrow> region_rect \<Rightarrow> region_rect list \<Rightarrow> region_rect list" where
  "subtract_single_rect r sub out =
     (let rx2 = rect_x r + rect_width r;
          ry2 = rect_y r + rect_height r;
          sx2 = rect_x sub + rect_width sub;
          sy2 = rect_y sub + rect_height sub
      in if sint (rect_x sub) \<ge> sint rx2 \<or> sint sx2 \<le> sint (rect_x r) \<or>
            sint (rect_y sub) \<ge> sint ry2 \<or> sint sy2 \<le> sint (rect_y r)
         then out @ [r]
         else
           (let out = (if sint (rect_y sub) > sint (rect_y r)
                  then out @ [mk_rect (rect_x r) (rect_y r) (rect_width r) (rect_y sub - rect_y r)]
                  else out);
                mid_y = smax (rect_y r) (rect_y sub);
                mid_y2 = smin ry2 sy2;
                out = (if sint mid_y < sint mid_y2
                  then (let out = (if sint (rect_x sub) > sint (rect_x r)
                              then out @ [mk_rect (rect_x r) mid_y (rect_x sub - rect_x r) (mid_y2 - mid_y)]
                              else out)
                        in if sint sx2 < sint rx2
                           then out @ [mk_rect sx2 mid_y (rx2 - sx2) (mid_y2 - mid_y)] else out)
                  else out)
            in if sint sy2 < sint ry2
               then out @ [mk_rect (rect_x r) sy2 (rect_width r) (ry2 - sy2)] else out))"

definition subtract_rects :: "region_rect list \<Rightarrow> region_rect list \<Rightarrow> region_rect list" where
  "subtract_rects a b =
     fold (\<lambda>sub result. fold (\<lambda>r out. subtract_single_rect r sub out) result []) b a"

fun coalesce_loop :: "region_rect list \<Rightarrow> region_rect list" where
  "coalesce_loop (a # b # rs) =
     (if rect_x a = rect_x b \<and> rect_width a = rect_width b \<and> rect_y a + rect_height a = rect_y b
      then coalesce_loop (a\<lparr>rect_height := rect_height a + rect_height b\<rparr> # rs)
      else a # coalesce_loop (b # rs))"
| "coalesce_loop rs = rs"

definition coalesce_rects :: "region_rect list \<Rightarrow> region_rect list" where
  "coalesce_rects rs =
     (if length rs < 2 then rs
      else coalesce_loop (sort_key (\<lambda>r. (sint (rect_x r), sint (rect_y r))) rs))"

section \<open>The abstract view: sets of points\<close>

definition rect_points :: "region_rect \<Rightarrow> (int \<times> int) set" where
  "rect_points r =
     {sint (rect_x r)..<sint (rect_x r) + uint (rect_width r)} \<times>
     {sint (rect_y r)..<sint (rect_y r) + uint (rect_height r)}"

definition region_points :: "xfixes_region \<Rightarrow> (int \<times> int) set" where
  "region_points rs = (\<Union>r \<in> set rs. rect_points r)"

definition rect_ok :: "region_rect \<Rightarrow> bool" where
  "rect_ok r \<longleftrightarrow> sint (rect_x r) + uint (rect_width r) \<le> 32767 \<and>
     sint (rect_y r) + uint (rect_height r) \<le> 32767"

definition region_ok :: "xfixes_region \<Rightarrow> bool" where
  "region_ok rs = list_all rect_ok rs"

definition region_disjoint :: "xfixes_region \<Rightarrow> bool" where
  "region_disjoint rs \<longleftrightarrow> sorted_wrt (\<lambda>a b. rect_points a \<inter> rect_points b = {}) rs"

lemma sint_smin [simp]: "sint (smin a b) = min (sint a) (sint b)"
  by (simp add: smin_def)

lemma sint_smax [simp]: "sint (smax a b) = max (sint a) (sint b)"
  by (simp add: smax_def)

lemma sint_word_of_int16: "- 32768 \<le> k \<Longrightarrow> k < 32768 \<Longrightarrow> sint (word_of_int k :: 16 word) = k"
  by (simp add: sint_sbintrunc' signed_take_bit_int_eq_self)

lemma uint_word_of_int16: "0 \<le> k \<Longrightarrow> k < 65536 \<Longrightarrow> uint (word_of_int k :: 16 word) = k"
  by (simp add: uint_word_of_int take_bit_int_eq_self)

lemma sint_add_uint16:
  fixes a b :: "16 word"
  assumes "sint a + uint b \<le> 32767"
  shows "sint (a + b) = sint a + uint b"
proof -
  have eq: "a + b = word_of_int (sint a + uint b)" by (simp add: wi_hom_add [symmetric])
  show ?thesis
    unfolding eq by (rule sint_word_of_int16)
      (use assms sint_range16(1) [of a] uint_range16(1) [of b] in linarith)+
qed

lemma uint_sub_sint16:
  fixes a b :: "16 word"
  assumes "sint b \<le> sint a"
  shows "uint (a - b) = sint a - sint b"
proof -
  have eq: "a - b = word_of_int (sint a - sint b)" by (simp add: wi_hom_sub [symmetric])
  show ?thesis
    unfolding eq by (rule uint_word_of_int16)
      (use assms sint_range16 [of a] sint_range16 [of b] in linarith)+
qed

lemma region_points_Nil [simp]: "region_points [] = {}"
  by (simp add: region_points_def)

lemma region_points_Cons [simp]: "region_points (r # rs) = rect_points r \<union> region_points rs"
  by (simp add: region_points_def)

lemma region_points_append [simp]: "region_points (a @ b) = region_points a \<union> region_points b"
  by (simp add: region_points_def)

lemma region_ok_simps [simp]:
  "region_ok []" "region_ok (r # rs) \<longleftrightarrow> rect_ok r \<and> region_ok rs"
  "region_ok (a @ b) \<longleftrightarrow> region_ok a \<and> region_ok b"
  by (simp_all add: region_ok_def)

text \<open>The corner arithmetic of a representable rectangle is exact.\<close>

lemma rect_ok_corner:
  assumes "rect_ok r"
  shows "sint (rect_x r + rect_width r) = sint (rect_x r) + uint (rect_width r)"
    and "sint (rect_y r + rect_height r) = sint (rect_y r) + uint (rect_height r)"
  using assms by (simp_all add: rect_ok_def sint_add_uint16)

lemma rect_points_corner:
  assumes "rect_ok r"
  shows "rect_points r = {sint (rect_x r)..<sint (rect_x r + rect_width r)} \<times>
     {sint (rect_y r)..<sint (rect_y r + rect_height r)}"
  using assms by (simp add: rect_points_def rect_ok_corner)

lemma rect_points_span:
  assumes "sint x1 \<le> sint x2" "sint y1 \<le> sint y2"
  shows "rect_points (mk_rect x1 y1 (x2 - x1) (y2 - y1)) = {sint x1..<sint x2} \<times> {sint y1..<sint y2}"
    and "rect_ok (mk_rect x1 y1 (x2 - x1) (y2 - y1))"
  using assms sint_range16(2) [of x2] sint_range16(2) [of y2]
  by (simp_all add: rect_points_def rect_ok_def uint_sub_sint16)

section \<open>Intersection and subtraction against the set view\<close>

lemma intersect_pair_points:
  assumes "rect_ok a" "rect_ok b"
  shows "region_points (intersect_pair a b) = rect_points a \<inter> rect_points b"
    and "region_ok (intersect_pair a b)"
  using assms
  by (auto simp: intersect_pair_def Let_def rect_points_span rect_points_corner simp del: rect_points_span(2))
    (auto simp: rect_points_span)

lemma region_points_concat_map:
  "region_points (concat (map f xs)) = (\<Union>x \<in> set xs. region_points (f x))"
  by (auto simp: region_points_def)

lemma region_ok_concat_map:
  "region_ok (concat (map f xs)) \<longleftrightarrow> (\<forall>x \<in> set xs. region_ok (f x))"
  by (auto simp: region_ok_def list_all_iff)

lemma region_okD: "region_ok rs \<Longrightarrow> r \<in> set rs \<Longrightarrow> rect_ok r"
  by (simp add: region_ok_def list_all_iff)

lemma region_intersect_points:
  assumes "region_ok as" "region_ok bs"
  shows "region_points (region_intersect as bs) = region_points as \<inter> region_points bs"
    and "region_ok (region_intersect as bs)"
  using assms
  by (auto simp: region_intersect_def region_points_concat_map region_ok_concat_map
      intersect_pair_points region_okD region_points_def [of as] region_points_def [of bs])

text \<open>
  The corners as integers: the fragments of \<open>subtract_rect\<close> are the boxes of the plane
  picture, so that the set equation is linear arithmetic.
\<close>

lemma rect_points_height_span:
  assumes "sint y1 \<le> sint y2" "sint x + uint w \<le> 32767"
  shows "rect_points (mk_rect x y1 w (y2 - y1)) = {sint x..<sint x + uint w} \<times> {sint y1..<sint y2}"
    and "rect_ok (mk_rect x y1 w (y2 - y1))"
  using assms sint_range16(2) [of y2]
  by (simp_all add: rect_points_def rect_ok_def uint_sub_sint16)

lemma region_disjoint_append:
  "region_disjoint (a @ b) \<longleftrightarrow>
     region_disjoint a \<and> region_disjoint b \<and> region_points a \<inter> region_points b = {}"
  by (fastforce simp: region_disjoint_def sorted_wrt_append region_points_def)

lemma region_disjoint_single: "length rs \<le> 1 \<Longrightarrow> region_disjoint rs"
  by (cases rs) (auto simp: region_disjoint_def)

lemma box_cut:
  fixes x x2 y y2 u u2 v v2 :: int
  assumes "u < x2" "x < u2" "v < y2" "y < v2" "u \<le> u2" "v \<le> v2"
  defines "lo \<equiv> max y v" and "hi \<equiv> min y2 v2"
  defines "T \<equiv> {x..<x2} \<times> {y..<v}" and "L \<equiv> {x..<u} \<times> {lo..<hi}"
    and "R \<equiv> {u2..<x2} \<times> {lo..<hi}" and "B \<equiv> {x..<x2} \<times> {v2..<y2}"
  shows "T \<union> (L \<union> R \<union> B) = {x..<x2} \<times> {y..<y2} - {u..<u2} \<times> {v..<v2}"
    and "T \<inter> (L \<union> R \<union> B) = {}" "(L \<union> R) \<inter> B = {}" "L \<inter> R = {}"
  using assms(1-6) unfolding lo_def hi_def T_def L_def R_def B_def by auto

lemma subtract_rect_apart:
  assumes "rect_ok r" "rect_ok s"
    and "sint (rect_x s) \<ge> sint (rect_x r) + uint (rect_width r) \<or>
      sint (rect_x s) + uint (rect_width s) \<le> sint (rect_x r) \<or>
      sint (rect_y s) \<ge> sint (rect_y r) + uint (rect_height r) \<or>
      sint (rect_y s) + uint (rect_height s) \<le> sint (rect_y r)"
  shows "subtract_rect r s = [r]" "rect_points r \<inter> rect_points s = {}"
  using assms by (auto simp: subtract_rect_def rect_ok_corner rect_points_def)

lemma subtract_rect_fragments:
  assumes "rect_ok r" "rect_ok s"
  shows "region_points (subtract_rect r s) = rect_points r - rect_points s"
    and "region_ok (subtract_rect r s)"
    and "region_disjoint (subtract_rect r s)"
proof -
  let ?x = "sint (rect_x r)" and ?y = "sint (rect_y r)"
  let ?u = "sint (rect_x s)" and ?v = "sint (rect_y s)"
  let ?x2 = "sint (rect_x r) + uint (rect_width r)" and ?y2 = "sint (rect_y r) + uint (rect_height r)"
  let ?u2 = "sint (rect_x s) + uint (rect_width s)" and ?v2 = "sint (rect_y s) + uint (rect_height s)"
  have ok: "?x2 \<le> 32767" "?y2 \<le> 32767" "?u2 \<le> 32767" "?v2 \<le> 32767"
    using assms by (simp_all add: rect_ok_def)
  note c = rect_ok_corner [OF assms(1)] rect_ok_corner [OF assms(2)]
  consider (apart) "?u \<ge> ?x2 \<or> ?u2 \<le> ?x \<or> ?v \<ge> ?y2 \<or> ?v2 \<le> ?y"
    | (meet) "?u < ?x2" "?x < ?u2" "?v < ?y2" "?y < ?v2"
    by linarith
  then have all: "region_points (subtract_rect r s) = rect_points r - rect_points s \<and>
      region_ok (subtract_rect r s) \<and> region_disjoint (subtract_rect r s)"
  proof cases
    case apart
    from subtract_rect_apart [OF assms apart] show ?thesis
      using assms by (auto simp: region_disjoint_def)
  next
    case meet
    define top_s where "top_s = (if ?v > ?y then [mk_rect (rect_x r) (rect_y r) (rect_width r)
        (rect_y s - rect_y r)] else [])"
    define lo where "lo = smax (rect_y r) (rect_y s)"
    define hi where "hi = smin (rect_y r + rect_height r) (rect_y s + rect_height s)"
    define left_s where "left_s = (if ?u > ?x then [mk_rect (rect_x r) lo (rect_x s - rect_x r)
        (hi - lo)] else [])"
    define right_s where "right_s = (if ?u2 < ?x2 then [mk_rect (rect_x s + rect_width s) lo
        ((rect_x r + rect_width r) - (rect_x s + rect_width s)) (hi - lo)] else [])"
    define bot_s where "bot_s = (if ?v2 < ?y2 then [mk_rect (rect_x r) (rect_y s + rect_height s)
        (rect_width r) ((rect_y r + rect_height r) - (rect_y s + rect_height s))] else [])"
    have mid: "sint lo = max ?y ?v" "sint hi = min ?y2 ?v2"
      by (simp_all add: lo_def hi_def c)
    have eq: "subtract_rect r s =
        top_s @ (if sint lo < sint hi then left_s @ right_s else []) @ bot_s"
      using meet by (simp add: subtract_rect_def c top_s_def left_s_def right_s_def bot_s_def
          lo_def hi_def Let_def)
    have p: "region_points top_s = {?x..<?x2} \<times> {?y..<?v}" "region_ok top_s"
      "region_points bot_s = {?x..<?x2} \<times> {?v2..<?y2}" "region_ok bot_s"
      using ok c by (auto simp: top_s_def bot_s_def rect_points_height_span)
    have q: "region_points left_s = {?x..<?u} \<times> {sint lo..<sint hi}" "region_ok left_s"
      "region_points right_s = {?u2..<?x2} \<times> {sint lo..<sint hi}" "region_ok right_s"
      if "sint lo < sint hi"
      using that c by (auto simp: left_s_def right_s_def rect_points_span)
    have single: "region_disjoint top_s" "region_disjoint left_s" "region_disjoint right_s"
      "region_disjoint bot_s"
      by (simp_all add: top_s_def left_s_def right_s_def bot_s_def region_disjoint_single)
    define mids where "mids = (if sint lo < sint hi then left_s @ right_s else [])"
    have pos: "?u \<le> ?u2" "?v \<le> ?v2"
      using uint_range16(1) [of "rect_width s"] uint_range16(1) [of "rect_height s"] by simp_all
    note cut = box_cut [OF meet pos, folded mid]
    have m: "region_points mids = {?x..<?u} \<times> {sint lo..<sint hi} \<union> {?u2..<?x2} \<times> {sint lo..<sint hi}"
      "region_ok mids" "region_disjoint mids"
      using q cut(4) single by (auto simp: mids_def region_disjoint_append region_disjoint_single)
    have eq: "subtract_rect r s = top_s @ mids @ bot_s" using eq by (simp add: mids_def)
    have pts: "region_points (subtract_rect r s) = rect_points r - rect_points s"
      unfolding eq using cut(1) by (simp add: p m rect_points_def)
    have disj: "region_disjoint (subtract_rect r s)"
      unfolding eq using cut single m(3) by (simp add: region_disjoint_append p m(1))
    show ?thesis using pts disj p m by (simp add: eq)
  qed
  show "region_points (subtract_rect r s) = rect_points r - rect_points s"
    and "region_ok (subtract_rect r s)"
    and "region_disjoint (subtract_rect r s)"
    using all by blast+
qed

lemma concat_map_subtract:
  assumes "region_ok rs" "rect_ok s"
  shows "region_points (concat (map (\<lambda>r. subtract_rect r s) rs)) = region_points rs - rect_points s"
    and "region_ok (concat (map (\<lambda>r. subtract_rect r s) rs))"
    and "region_disjoint rs \<Longrightarrow> region_disjoint (concat (map (\<lambda>r. subtract_rect r s) rs))"
proof -
  have pts: "region_points (concat (map (\<lambda>r. subtract_rect r s) qs)) = region_points qs - rect_points s"
    if "region_ok qs" for qs
    using that assms(2) by (induction qs) (auto simp: subtract_rect_fragments)
  then show "region_points (concat (map (\<lambda>r. subtract_rect r s) rs)) = region_points rs - rect_points s"
    using assms(1) .
  show "region_ok (concat (map (\<lambda>r. subtract_rect r s) rs))"
    using assms by (induction rs) (auto simp: subtract_rect_fragments)
  show "region_disjoint (concat (map (\<lambda>r. subtract_rect r s) rs))" if "region_disjoint rs"
    using assms that
  proof (induction rs)
    case (Cons r rs)
    have "region_disjoint ([r] @ rs)" using Cons.prems by simp
    then have "region_disjoint rs" "rect_points r \<inter> region_points rs = {}"
      by (simp_all only: region_disjoint_append) simp
    with Cons show ?case
      by (auto simp: region_disjoint_append subtract_rect_fragments pts)
  qed (simp add: region_disjoint_def)
qed

lemma region_subtract_correct:
  assumes "region_ok rs" "region_ok other"
  shows "region_points (region_subtract rs other) = region_points rs - region_points other"
    and "region_ok (region_subtract rs other)"
    and "region_disjoint rs \<Longrightarrow> region_disjoint (region_subtract rs other)"
  using assms unfolding region_subtract_def
  by (induction other arbitrary: rs) (auto simp: concat_map_subtract)

section \<open>Extents, translation, shape tests\<close>

lemma saturating_add_exact:
  assumes "- 32768 \<le> sint a + sint b" "sint a + sint b \<le> 32767"
  shows "sint (saturating_add_i16 a b) = sint a + sint b"
proof -
  have m: "max (- 32768) (min 32767 (sint a + sint b)) = sint a + sint b"
    using assms by linarith
  show ?thesis unfolding saturating_add_i16_def m by (rule sint_word_of_int16) (use assms in auto)
qed

lemma sint_small_u16: "uint (w :: u16) \<le> 32767 \<Longrightarrow> sint w = uint w"
  using sint_word_of_int16 [of "uint w"] uint_range16(1) [of w] by simp

definition rect_small :: "region_rect \<Rightarrow> bool" where
  "rect_small r \<longleftrightarrow> uint (rect_width r) \<le> 32767 \<and> uint (rect_height r) \<le> 32767"

lemma saturating_add_size:
  assumes "sint a + uint w \<le> 32767" "uint w \<le> 32767"
  shows "sint (saturating_add_i16 a w) = sint a + uint w"
proof -
  have "- 32768 \<le> sint a + sint w" "sint a + sint w \<le> 32767"
    using assms sint_range16(1) [of a] uint_range16(1) [of w] sint_small_u16 [OF assms(2)]
    by linarith+
  from saturating_add_exact [OF this] show ?thesis using sint_small_u16 [OF assms(2)] by simp
qed

lemma saturating_corner:
  assumes "rect_ok r" "rect_small r"
  shows "sint (saturating_add_i16 (rect_x r) (rect_width r)) = sint (rect_x r) + uint (rect_width r)"
    and "sint (saturating_add_i16 (rect_y r) (rect_height r)) = sint (rect_y r) + uint (rect_height r)"
  using assms by (simp_all add: rect_ok_def rect_small_def saturating_add_size)

lemma Min_insert_min: "finite A \<Longrightarrow> Min (insert (min a b) A) = Min (insert a (insert b A))"
  for a b :: int
  by (cases "A = {}") (auto simp: min.assoc)

lemma Max_insert_max: "finite A \<Longrightarrow> Max (insert (max a b) A) = Max (insert a (insert b A))"
  for a b :: int
  by (cases "A = {}") (auto simp: max.assoc)

lemma extents_loop_bounds:
  assumes "list_all (\<lambda>r. rect_ok r \<and> rect_small r) rs"
    and "extents_loop (x1, y1, x2, y2) rs = (a, b, c, d)"
  shows "sint a = Min (insert (sint x1) ((\<lambda>r. sint (rect_x r)) ` set rs)) \<and>
    sint b = Min (insert (sint y1) ((\<lambda>r. sint (rect_y r)) ` set rs)) \<and>
    sint c = Max (insert (sint x2) ((\<lambda>r. sint (rect_x r) + uint (rect_width r)) ` set rs)) \<and>
    sint d = Max (insert (sint y2) ((\<lambda>r. sint (rect_y r) + uint (rect_height r)) ` set rs))"
  using assms
proof (induction rs arbitrary: x1 y1 x2 y2)
  case (Cons r rs)
  then show ?case by (simp add: saturating_corner Min_insert_min Max_insert_max del: Min_insert Max_insert)
qed simp

lemma Min_insert_drop: "finite A \<Longrightarrow> A \<noteq> {} \<Longrightarrow> \<forall>x \<in> A. x \<le> b \<Longrightarrow> Min (insert b A) = Min A" for b :: int
  by (metis Min_in Min_insert min.absorb2)

lemma Max_insert_drop: "finite A \<Longrightarrow> A \<noteq> {} \<Longrightarrow> \<forall>x \<in> A. b \<le> x \<Longrightarrow> Max (insert b A) = Max A" for b :: int
  by (metis Max_in Max_insert max.absorb2)

lemma corner_range:
  "sint (rect_x r) \<le> 32767" "sint (rect_y r) \<le> 32767"
  "- 32768 \<le> sint (rect_x r) + uint (rect_width r)" "- 32768 \<le> sint (rect_y r) + uint (rect_height r)"
  using sint_range16 [of "rect_x r"] sint_range16 [of "rect_y r"]
    uint_range16(1) [of "rect_width r"] uint_range16(1) [of "rect_height r"] by linarith+

lemma extents_loop_corners:
  assumes "list_all (\<lambda>r. rect_ok r \<and> rect_small r) rs" and ne: "rs \<noteq> []"
    and "extents_loop (32767, 32767, - 32768, - 32768) rs = (a, b, c, d)"
  shows "sint a = Min ((\<lambda>r. sint (rect_x r)) ` set rs)" "sint b = Min ((\<lambda>r. sint (rect_y r)) ` set rs)"
    "sint c = Max ((\<lambda>r. sint (rect_x r) + uint (rect_width r)) ` set rs)"
    "sint d = Max ((\<lambda>r. sint (rect_y r) + uint (rect_height r)) ` set rs)"
proof -
  have "Min (insert 32767 ((\<lambda>r. sint (rect_x r)) ` set rs)) = Min ((\<lambda>r. sint (rect_x r)) ` set rs)"
    "Min (insert 32767 ((\<lambda>r. sint (rect_y r)) ` set rs)) = Min ((\<lambda>r. sint (rect_y r)) ` set rs)"
    by (rule Min_insert_drop; use ne corner_range in auto)+
  moreover have "Max (insert (- 32768) ((\<lambda>r. sint (rect_x r) + uint (rect_width r)) ` set rs)) =
      Max ((\<lambda>r. sint (rect_x r) + uint (rect_width r)) ` set rs)"
    "Max (insert (- 32768) ((\<lambda>r. sint (rect_y r) + uint (rect_height r)) ` set rs)) =
      Max ((\<lambda>r. sint (rect_y r) + uint (rect_height r)) ` set rs)"
    by (rule Max_insert_drop; use ne corner_range in auto)+
  moreover have "sint (32767 :: i16) = 32767" "sint (- 32768 :: i16) = - 32768" by simp_all
  ultimately show "sint a = Min ((\<lambda>r. sint (rect_x r)) ` set rs)"
    "sint b = Min ((\<lambda>r. sint (rect_y r)) ` set rs)"
    "sint c = Max ((\<lambda>r. sint (rect_x r) + uint (rect_width r)) ` set rs)"
    "sint d = Max ((\<lambda>r. sint (rect_y r) + uint (rect_height r)) ` set rs)"
    using extents_loop_bounds [OF assms(1,3)] by metis+
qed

lemma Min_le_Max_image:
  assumes "rs \<noteq> []" "\<And>r. (f r :: int) \<le> g r"
  shows "Min (f ` set rs) \<le> Max (g ` set rs)"
proof -
  obtain r where r: "r \<in> set rs" using assms(1) by (cases rs) auto
  then have "Min (f ` set rs) \<le> f r" "g r \<le> Max (g ` set rs)" by simp_all
  with assms(2) [of r] show ?thesis by linarith
qed

lemma region_extents_corners:
  assumes ok: "list_all (\<lambda>r. rect_ok r \<and> rect_small r) rs" and ne: "rs \<noteq> []"
  defines "e \<equiv> region_extents rs"
  shows "sint (rect_x e) = Min ((\<lambda>r. sint (rect_x r)) ` set rs)"
    and "sint (rect_y e) = Min ((\<lambda>r. sint (rect_y r)) ` set rs)"
    and "sint (rect_x e) + uint (rect_width e) = Max ((\<lambda>r. sint (rect_x r) + uint (rect_width r)) ` set rs)"
    and "sint (rect_y e) + uint (rect_height e) = Max ((\<lambda>r. sint (rect_y r) + uint (rect_height r)) ` set rs)"
proof -
  obtain a b c d where l: "extents_loop (32767, 32767, - 32768, - 32768) rs = (a, b, c, d)"
    by (metis prod_cases4)
  have e: "e = mk_rect a b (c - a) (d - b)" using ne l by (simp add: e_def region_extents_def)
  note m = extents_loop_corners [OF ok ne l]
  have "sint a \<le> sint c" "sint b \<le> sint d"
    unfolding m by (rule Min_le_Max_image [OF ne]; simp)+
  then show "sint (rect_x e) = Min ((\<lambda>r. sint (rect_x r)) ` set rs)"
    and "sint (rect_y e) = Min ((\<lambda>r. sint (rect_y r)) ` set rs)"
    and "sint (rect_x e) + uint (rect_width e) = Max ((\<lambda>r. sint (rect_x r) + uint (rect_width r)) ` set rs)"
    and "sint (rect_y e) + uint (rect_height e) = Max ((\<lambda>r. sint (rect_y r) + uint (rect_height r)) ` set rs)"
    using m by (simp_all add: e uint_sub_sint16)
qed

lemma region_translate_points:
  assumes "list_all (\<lambda>r. - 32768 \<le> sint (rect_x r) + sint dx \<and> sint (rect_x r) + sint dx \<le> 32767 \<and>
      - 32768 \<le> sint (rect_y r) + sint dy \<and> sint (rect_y r) + sint dy \<le> 32767) rs"
  shows "region_points (region_translate dx dy rs) =
    (\<lambda>(px, py). (px + sint dx, py + sint dy)) ` region_points rs"
proof -
  have one: "{a + d..<a + d + w} \<times> {b + e..<b + e + h} = (\<lambda>(px, py). (px + d, py + e)) ` ({a..<a + w} \<times> {b..<b + h})"
    for a b d e w h :: int
  proof (intro equalityI subsetI)
    fix p
    assume "p \<in> {a + d..<a + d + w} \<times> {b + e..<b + e + h}"
    then show "p \<in> (\<lambda>(px, py). (px + d, py + e)) ` ({a..<a + w} \<times> {b..<b + h})"
      by (intro image_eqI [of _ _ "(fst p - d, snd p - e)"]) auto
  qed auto
  show ?thesis
    using assms unfolding region_translate_def
    by (induction rs) (auto simp: rect_points_def saturating_add_exact one [symmetric] image_Un)
qed

lemma point_in_shape_points:
  "region_ok rs \<Longrightarrow> point_in_shape rs x y \<longleftrightarrow> (sint x, sint y) \<in> region_points rs"
  by (induction rs) (auto simp: point_in_shape_def rect_points_corner)

section \<open>The copies agree\<close>

lemma compute_extents_loop_eq:
  "compute_extents_loop rs x1 y1 x2 y2 =
     (case extents_loop (x1, y1, x2, y2) rs of (a, b, c, d) \<Rightarrow> mk_rect a b (c - a) (d - b))"
  by (induction rs arbitrary: x1 y1 x2 y2) auto

lemma intersect_row_eq: "intersect_row a bs result = result @ concat (map (intersect_pair a) bs)"
  by (induction bs arbitrary: result) (auto simp: intersect_pair_def Let_def)

lemma intersect_rects_loop_eq: "intersect_rects_loop a b result = result @ region_intersect a b"
  by (induction a arbitrary: result) (auto simp: region_intersect_def intersect_row_eq)

lemma subtract_single_rect_eq: "subtract_single_rect r s out = out @ subtract_rect r s"
  by (simp add: subtract_single_rect_def subtract_rect_def Let_def)

lemma fold_subtract_single: "fold (\<lambda>r out. subtract_single_rect r s out) rs out =
    out @ concat (map (\<lambda>r. subtract_rect r s) rs)"
  by (induction rs arbitrary: out) (auto simp: subtract_single_rect_eq)

lemma interval_join: "0 \<le> h \<Longrightarrow> 0 \<le> k \<Longrightarrow> {y..<y + (h + k)} = {y..<y + h} \<union> {y + h..<y + h + k}"
  for y h k :: int
  by auto

lemma coalesce_step_points:
  assumes "rect_ok a" "rect_ok b" "rect_x a = rect_x b" "rect_width a = rect_width b"
    "rect_y a + rect_height a = rect_y b"
  defines "m \<equiv> a\<lparr>rect_height := rect_height a + rect_height b\<rparr>"
  shows "rect_points m = rect_points a \<union> rect_points b" "rect_ok m"
proof -
  have y: "sint (rect_y b) = sint (rect_y a) + uint (rect_height a)"
    using rect_ok_corner(2) [OF assms(1)] assms(5) by simp
  have le: "sint (rect_y b) + uint (rect_height b) \<le> 32767" using assms(2) by (simp add: rect_ok_def)
  have "uint (rect_height a) + uint (rect_height b) < 65536"
    using y le sint_range16(1) [of "rect_y a"] by linarith
  then have "uint (rect_height a + rect_height b) = uint (rect_height a) + uint (rect_height b)"
    using uint_add_lem [of "rect_height a" "rect_height b"] by simp
  moreover have "{sint (rect_y a)..<sint (rect_y a) + (uint (rect_height a) + uint (rect_height b))} =
      {sint (rect_y a)..<sint (rect_y b)} \<union> {sint (rect_y b)..<sint (rect_y b) + uint (rect_height b)}"
    unfolding y by (rule interval_join) simp_all
  ultimately show "rect_points m = rect_points a \<union> rect_points b" "rect_ok m"
    using y le assms(1,3,4) by (simp_all add: m_def rect_points_def rect_ok_def Sigma_Un_distrib2)
qed

lemma coalesce_loop_points:
  "region_ok rs \<Longrightarrow> region_points (coalesce_loop rs) = region_points rs \<and> region_ok (coalesce_loop rs)"
proof (induction rs rule: coalesce_loop.induct)
  case (1 a b rs)
  then show ?case by (auto simp: coalesce_step_points)
qed simp_all

lemma region_points_mset: "set rs = set qs \<Longrightarrow> region_points rs = region_points qs \<and> region_ok rs = region_ok qs"
  by (simp add: region_points_def region_ok_def list_all_iff)

section \<open>The region contract\<close>

text \<open>
  What the clients of a region implementation rely on: intersection and subtraction are the
  set operations on the points of representable regions and stay representable. The laws are
  proved once and hold for both implementations of the repository.
\<close>

locale region_algebra =
  fixes inter :: "'r \<Rightarrow> 'r \<Rightarrow> 'r"
    and sub :: "'r \<Rightarrow> 'r \<Rightarrow> 'r"
    and pts :: "'r \<Rightarrow> (int \<times> int) set"
    and ok :: "'r \<Rightarrow> bool"
  assumes pts_inter: "ok a \<Longrightarrow> ok b \<Longrightarrow> pts (inter a b) = pts a \<inter> pts b"
    and ok_inter: "ok a \<Longrightarrow> ok b \<Longrightarrow> ok (inter a b)"
    and pts_sub: "ok a \<Longrightarrow> ok b \<Longrightarrow> pts (sub a b) = pts a - pts b"
    and ok_sub: "ok a \<Longrightarrow> ok b \<Longrightarrow> ok (sub a b)"
begin

lemma partition:
  assumes "ok a" "ok b"
  shows "pts (sub a b) \<union> pts (inter a b) = pts a" "pts (sub a b) \<inter> pts (inter a b) = {}"
  using assms by (auto simp: pts_inter pts_sub)

lemma sub_sub_inter:
  assumes "ok a" "ok b"
  shows "pts (sub a (sub a b)) = pts (inter a b)"
  using assms by (auto simp: pts_inter pts_sub ok_sub)

lemma invert_twice:
  assumes "ok bounds" "ok a" "pts a \<subseteq> pts bounds"
  shows "pts (sub bounds (sub bounds a)) = pts a"
  using assms by (auto simp: pts_sub ok_sub)

end

interpretation xr: region_algebra region_intersect region_subtract region_points region_ok
  by unfold_locales (simp_all add: region_intersect_points region_subtract_correct)

lemma intersect_rects_eq: "intersect_rects = region_intersect"
  by (intro ext) (simp add: intersect_rects_def intersect_rects_loop_eq)

lemma subtract_rects_eq: "subtract_rects = region_subtract"
  by (intro ext) (simp add: subtract_rects_def region_subtract_def fold_subtract_single)

interpretation sh: region_algebra intersect_rects subtract_rects region_points region_ok
  unfolding intersect_rects_eq subtract_rects_eq by (rule xr.region_algebra_axioms)

section \<open>Properties of regions\<close>

text \<open>C10. Subtracting a region is exact: on representable rectangles the fragments of
  \<open>subtract\<close> cover precisely the points of the first region outside the second, they stay
  representable, and fragments of disjoint rectangles are disjoint (so areas add up).\<close>

theorem region_subtract_exact:
  assumes "region_ok a" "region_ok b"
  shows "region_points (region_subtract a b) = region_points a - region_points b \<and>
    region_ok (region_subtract a b) \<and>
    (region_disjoint a \<longrightarrow> region_disjoint (region_subtract a b))"
  using region_subtract_correct [OF assms] by blast

theorem region_subtract_exact_witness:
  "region_points (region_subtract [mk_rect 0 0 30 30] [mk_rect 10 10 10 10]) =
     region_points [mk_rect 0 0 30 30] - region_points [mk_rect 10 10 10 10] \<and>
   region_ok (region_subtract [mk_rect 0 0 30 30] [mk_rect 10 10 10 10]) \<and>
   region_disjoint (region_subtract [mk_rect 0 0 30 30] [mk_rect 10 10 10 10])"
  using region_subtract_exact [of "[mk_rect 0 0 30 30]" "[mk_rect 10 10 10 10]"]
  by (simp add: rect_ok_def region_disjoint_def)

text \<open>Intersection and subtraction split a region: together they cover it and they do
  not overlap, and subtracting the difference again gives the intersection.\<close>

theorem region_intersect_partition:
  assumes "region_ok a" "region_ok b"
  shows "region_points (region_intersect a b) = region_points a \<inter> region_points b \<and>
    region_ok (region_intersect a b) \<and>
    region_points (region_subtract a b) \<union> region_points (region_intersect a b) = region_points a \<and>
    region_points (region_subtract a (region_subtract a b)) = region_points (region_intersect a b)"
  using xr.pts_inter [OF assms] xr.ok_inter [OF assms] xr.partition(1) [OF assms]
    xr.sub_sub_inter [OF assms] by blast

theorem region_intersect_partition_witness:
  "region_points (region_intersect [mk_rect 0 0 20 20] [mk_rect 10 10 20 20]) =
     region_points [mk_rect 0 0 20 20] \<inter> region_points [mk_rect 10 10 20 20] \<and>
   region_ok (region_intersect [mk_rect 0 0 20 20] [mk_rect 10 10 20 20]) \<and>
   region_points (region_subtract [mk_rect 0 0 20 20] [mk_rect 10 10 20 20]) \<union>
     region_points (region_intersect [mk_rect 0 0 20 20] [mk_rect 10 10 20 20]) =
     region_points [mk_rect 0 0 20 20] \<and>
   region_points (region_subtract [mk_rect 0 0 20 20]
       (region_subtract [mk_rect 0 0 20 20] [mk_rect 10 10 20 20])) =
     region_points (region_intersect [mk_rect 0 0 20 20] [mk_rect 10 10 20 20])"
  by (rule region_intersect_partition) (simp_all add: rect_ok_def)

text \<open>Inverting a region twice within the same bounds gives back its points.\<close>

theorem region_invert_involutive:
  assumes "rect_ok bounds" "region_ok a" "region_points a \<subseteq> rect_points bounds"
  shows "region_points (region_invert (region_invert a bounds) bounds) = region_points a"
  using xr.invert_twice [of "[bounds]" a] assms
  by (simp add: region_invert_def region_from_rects_def)

theorem region_invert_involutive_witness:
  "region_points (region_invert (region_invert [mk_rect 10 10 10 10] (mk_rect 0 0 30 30)) (mk_rect 0 0 30 30))
     = region_points [mk_rect 10 10 10 10]"
  by (rule region_invert_involutive) (auto simp: rect_ok_def rect_points_def)

text \<open>The extents of a region are exactly its bounding box, for rectangles whose sizes
  and far corners fit in 16 signed bits.\<close>

theorem region_extents_exact:
  assumes "list_all (\<lambda>r. rect_ok r \<and> rect_small r) rs" "rs \<noteq> []"
  shows "let e = region_extents rs in
    region_points rs \<subseteq> rect_points e \<and>
    sint (rect_x e) = Min ((\<lambda>r. sint (rect_x r)) ` set rs) \<and>
    sint (rect_y e) = Min ((\<lambda>r. sint (rect_y r)) ` set rs) \<and>
    sint (rect_x e) + uint (rect_width e) = Max ((\<lambda>r. sint (rect_x r) + uint (rect_width r)) ` set rs) \<and>
    sint (rect_y e) + uint (rect_height e) = Max ((\<lambda>r. sint (rect_y r) + uint (rect_height r)) ` set rs)"
proof -
  define e where "e = region_extents rs"
  note c = region_extents_corners [OF assms, folded e_def]
  have "region_points rs \<subseteq> rect_points e"
  proof
    fix p
    assume "p \<in> region_points rs"
    then obtain r where r: "r \<in> set rs" "p \<in> rect_points r" by (auto simp: region_points_def)
    have "sint (rect_x e) \<le> sint (rect_x r)" "sint (rect_y e) \<le> sint (rect_y r)"
      using r(1) by (simp_all add: c(1,2))
    moreover have "sint (rect_x r) + uint (rect_width r) \<le> sint (rect_x e) + uint (rect_width e)"
      using r(1) by (subst c(3)) simp
    moreover have "sint (rect_y r) + uint (rect_height r) \<le> sint (rect_y e) + uint (rect_height e)"
      using r(1) by (subst c(4)) simp
    ultimately show "p \<in> rect_points e" using r(2) by (auto simp: rect_points_def)
  qed
  with c show ?thesis by (simp add: e_def)
qed

theorem region_extents_exact_witness:
  "let e = region_extents [mk_rect 0 0 10 10, mk_rect 20 20 10 10] in
    region_points [mk_rect 0 0 10 10, mk_rect 20 20 10 10] \<subseteq> rect_points e \<and>
    sint (rect_x e) = Min ((\<lambda>r. sint (rect_x r)) ` set [mk_rect 0 0 10 10, mk_rect 20 20 10 10]) \<and>
    sint (rect_y e) = Min ((\<lambda>r. sint (rect_y r)) ` set [mk_rect 0 0 10 10, mk_rect 20 20 10 10]) \<and>
    sint (rect_x e) + uint (rect_width e) =
      Max ((\<lambda>r. sint (rect_x r) + uint (rect_width r)) ` set [mk_rect 0 0 10 10, mk_rect 20 20 10 10]) \<and>
    sint (rect_y e) + uint (rect_height e) =
      Max ((\<lambda>r. sint (rect_y r) + uint (rect_height r)) ` set [mk_rect 0 0 10 10, mk_rect 20 20 10 10])"
  by (rule region_extents_exact) (simp_all add: rect_ok_def rect_small_def)

text \<open>A rectangle at a non-negative coordinate that is 32768 or more units wide is treated
  as empty, although it covers points: no point lies in its shape, and intersecting it with
  any representable rectangle to its right gives nothing.\<close>

theorem wide_rect_is_lost:
  assumes "0 \<le> sint x" "32768 \<le> uint w" "0 < uint h"
  shows "rect_points (mk_rect x y w h) \<noteq> {} \<and> \<not> point_in_shape [mk_rect x y w h] px py \<and>
    (\<forall>b. sint (rect_x b) \<ge> sint x \<longrightarrow> region_intersect [mk_rect x y w h] [b] = [])"
proof -
  have eq: "x + w = word_of_int (sint x + uint w - 65536)"
  proof -
    have "(word_of_int (sint x + uint w - 65536) :: i16) = x + w - word_of_int 65536"
      by (simp add: wi_hom_add [symmetric] wi_hom_sub [symmetric])
    then show ?thesis by simp
  qed
  have "sint (x + w) = sint x + uint w - 65536"
    unfolding eq using assms sint_range16(2) [of x] uint_range16(2) [of w]
    by (intro sint_word_of_int16) linarith+
  then have neg: "sint (x + w) < sint x" using uint_range16(2) [of w] by linarith
  have "(sint x, sint y) \<in> rect_points (mk_rect x y w h)"
    using assms by (simp add: rect_points_def)
  with neg show ?thesis
    by (auto simp: point_in_shape_def region_intersect_def intersect_pair_def Let_def)
qed

theorem wide_rect_is_lost_witness:
  "rect_points (mk_rect 0 0 40000 100) \<noteq> {} \<and> \<not> point_in_shape [mk_rect 0 0 40000 100] 5 5 \<and>
    region_intersect [mk_rect 0 0 40000 100] [mk_rect 3 4 20 20] = []"
  using wide_rect_is_lost [of 0 40000 100 0 5 5] by simp

lemma coalesce_rects_points:
  assumes "region_ok rs"
  shows "region_points (coalesce_rects rs) = region_points rs" "region_ok (coalesce_rects rs)"
proof -
  let ?s = "sort_key (\<lambda>r. (sint (rect_x r), sint (rect_y r))) rs"
  have "region_points ?s = region_points rs" "region_ok ?s"
    using region_points_mset [of ?s rs] assms by simp_all
  with coalesce_loop_points [of ?s] assms
  show "region_points (coalesce_rects rs) = region_points rs" "region_ok (coalesce_rects rs)"
    by (simp_all add: coalesce_rects_def)
qed

text \<open>The region code of the SHAPE extension computes the same extents, intersection and
  subtraction as the XFIXES region type, and coalescing keeps the set of points.\<close>

theorem shape_ops_agree:
  assumes "region_ok rs"
  shows "compute_extents a = region_extents a \<and> intersect_rects a b = region_intersect a b \<and>
    subtract_rects a b = region_subtract a b \<and>
    region_points (coalesce_rects rs) = region_points rs \<and> region_ok (coalesce_rects rs)"
  using coalesce_rects_points [OF assms]
  by (simp add: compute_extents_def region_extents_def compute_extents_loop_eq intersect_rects_eq subtract_rects_eq)

theorem shape_ops_agree_witness:
  "compute_extents [mk_rect 1 2 3 4] = region_extents [mk_rect 1 2 3 4] \<and>
    intersect_rects [mk_rect 1 2 3 4] [mk_rect 0 0 9 9] = region_intersect [mk_rect 1 2 3 4] [mk_rect 0 0 9 9] \<and>
    subtract_rects [mk_rect 1 2 3 4] [mk_rect 0 0 9 9] = region_subtract [mk_rect 1 2 3 4] [mk_rect 0 0 9 9] \<and>
    region_points (coalesce_rects [mk_rect 0 5 9 5, mk_rect 0 0 9 5]) =
      region_points [mk_rect 0 5 9 5, mk_rect 0 0 9 5] \<and>
    region_ok (coalesce_rects [mk_rect 0 5 9 5, mk_rect 0 0 9 5])"
  by (rule shape_ops_agree) (simp add: rect_ok_def)

end
