(* ===== verification/Clip.thy ===== *)
theory Clip
  imports Region
begin

text \<open>
  Clipping and raster operations of the drawing code: \<open>should_draw_pixel\<close>, \<open>apply_rop\<close> and
  \<open>intersect_rects\<close> of \<open>handlers/drawing.rs\<close> and the bitmap clip mask of \<open>types/gc.rs\<close>.
  Pixel coordinates are \<open>i32\<close> values; they are integers here, since no operation on them
  leaves the 32-bit range.
\<close>

unbundle bit_operations_syntax

section \<open>Operations\<close>

type_synonym clip_rect = "i16 \<times> i16 \<times> u16 \<times> u16"

definition should_draw_pixel :: "int \<Rightarrow> int \<Rightarrow> clip_rect list \<Rightarrow> bool" where
  "should_draw_pixel x y clip_rects \<longleftrightarrow>
     (if clip_rects = [] then True
      else list_ex (\<lambda>(rx, ry, rw, rh). x \<ge> sint rx \<and> x < sint rx + uint rw \<and>
                                       y \<ge> sint ry \<and> y < sint ry + uint rh) clip_rects)"

definition apply_rop :: "u8 \<Rightarrow> u32 \<Rightarrow> u32 \<Rightarrow> u32" where
  "apply_rop f src dst =
     (if f = 0 then 0
      else if f = 1 then src AND dst
      else if f = 2 then src AND NOT dst
      else if f = 3 then src
      else if f = 4 then NOT src AND dst
      else if f = 5 then dst
      else if f = 6 then src XOR dst
      else if f = 7 then src OR dst
      else if f = 8 then NOT (src OR dst)
      else if f = 9 then NOT (src XOR dst)
      else if f = 10 then NOT dst
      else if f = 11 then src OR NOT dst
      else if f = 12 then NOT src
      else if f = 13 then NOT src OR dst
      else if f = 14 then NOT (src AND dst)
      else if f = 15 then 0xFFFFFFFF
      else src)"

definition drawing_intersect_rects ::
    "i16 \<Rightarrow> i16 \<Rightarrow> u16 \<Rightarrow> u16 \<Rightarrow> i16 \<Rightarrow> i16 \<Rightarrow> u16 \<Rightarrow> u16 \<Rightarrow> clip_rect" where
  "drawing_intersect_rects x1 y1 w1 h1 x2 y2 w2 h2 =
     (let ix0 = max (sint x1) (sint x2);
          iy0 = max (sint y1) (sint y2);
          ix1 = min (sint x1 + uint w1) (sint x2 + uint w2);
          iy1 = min (sint y1 + uint h1) (sint y2 + uint h2)
      in if ix0 < ix1 \<and> iy0 < iy1
         then (word_of_int ix0, word_of_int iy0, word_of_int (ix1 - ix0), word_of_int (iy1 - iy0))
         else (0, 0, 0, 0))"

record clip_mask_bitmap =
  cm_width :: u16
  cm_height :: u16
  cm_bits :: "u8 list"

definition mask_bit :: "clip_mask_bitmap \<Rightarrow> nat \<Rightarrow> nat \<Rightarrow> bool" where
  "mask_bit bm y x \<longleftrightarrow>
     (let stride = (unat (cm_width bm) + 7) div 8;
          byte_idx = y * stride + x div 8;
          bit_idx = x mod 8
      in \<not> (byte_idx \<ge> length (cm_bits bm) \<or> cm_bits bm ! byte_idx AND push_bit bit_idx 1 = 0))"

text \<open>The loop over one row: the runs of set bits as pairs of start and end.\<close>

definition row_runs :: "clip_mask_bitmap \<Rightarrow> nat \<Rightarrow> nat \<Rightarrow> (nat \<times> nat) list" where
  "row_runs bm y x = spans (mask_bit bm y) (unat (cm_width bm)) x"

lemmas row_runs_cover = spans_cover [of "mask_bit bm y" "unat (cm_width bm)" for bm y, folded row_runs_def]
lemmas row_runs_bounds = spans_bounds [of _ _ "mask_bit bm y" "unat (cm_width bm)" for bm y, folded row_runs_def]

definition to_clip_rects :: "clip_mask_bitmap \<Rightarrow> i16 \<Rightarrow> i16 \<Rightarrow> clip_rect list" where
  "to_clip_rects bm origin_x origin_y =
     concat (map (\<lambda>y. map (\<lambda>(s, e). (of_nat s + origin_x, of_nat y + origin_y, of_nat (e - s), 1))
                        (row_runs bm y 0))
       [0..<unat (cm_height bm)])"

section \<open>Properties\<close>

lemma less_16_cases:
  fixes f :: u8
  assumes "f < 16"
  shows "f \<in> {0, 1, 2, 3, 4, 5, 6, 7, 8, 9, 10, 11, 12, 13, 14, 15}"
proof -
  have "unat f < 16" using assms by (simp add: word_less_nat_alt)
  then have "unat f \<in> {0, 1, 2, 3, 4, 5, 6, 7, 8, 9, 10, 11, 12, 13, 14, 15}"
    unfolding insert_iff empty_iff by presburger
  then have "(of_nat (unat f) :: u8) \<in> of_nat ` {0, 1, 2, 3, 4, 5, 6, 7, 8, 9, 10, 11, 12, 13, 14, 15 :: nat}"
    by (rule imageI)
  then show ?thesis by simp
qed

lemma apply_rop_cases:
  "apply_rop 0 s d = 0" "apply_rop 1 s d = s AND d" "apply_rop 2 s d = s AND NOT d"
  "apply_rop 3 s d = s" "apply_rop 4 s d = NOT s AND d" "apply_rop 5 s d = d"
  "apply_rop 6 s d = s XOR d" "apply_rop 7 s d = s OR d" "apply_rop 8 s d = NOT (s OR d)"
  "apply_rop 9 s d = NOT (s XOR d)" "apply_rop 10 s d = NOT d" "apply_rop 11 s d = s OR NOT d"
  "apply_rop 12 s d = NOT s" "apply_rop 13 s d = NOT s OR d" "apply_rop 14 s d = NOT (s AND d)"
  "apply_rop 15 s d = - 1"
  by (simp_all add: apply_rop_def)

lemma rop_bits:
  assumes "n < 32"
  defines "k \<equiv> \<lambda>s d :: u32. (if bit s n then 0 else 2) + (if bit d n then 0 else 1 :: nat)"
  shows "bit (apply_rop 0 s d) n = bit (0 :: u8) (k s d)" "bit (apply_rop 1 s d) n = bit (1 :: u8) (k s d)"
    "bit (apply_rop 2 s d) n = bit (2 :: u8) (k s d)" "bit (apply_rop 3 s d) n = bit (3 :: u8) (k s d)"
    "bit (apply_rop 4 s d) n = bit (4 :: u8) (k s d)" "bit (apply_rop 5 s d) n = bit (5 :: u8) (k s d)"
    "bit (apply_rop 6 s d) n = bit (6 :: u8) (k s d)" "bit (apply_rop 7 s d) n = bit (7 :: u8) (k s d)"
    "bit (apply_rop 8 s d) n = bit (8 :: u8) (k s d)" "bit (apply_rop 9 s d) n = bit (9 :: u8) (k s d)"
    "bit (apply_rop 10 s d) n = bit (10 :: u8) (k s d)" "bit (apply_rop 11 s d) n = bit (11 :: u8) (k s d)"
    "bit (apply_rop 12 s d) n = bit (12 :: u8) (k s d)" "bit (apply_rop 13 s d) n = bit (13 :: u8) (k s d)"
    "bit (apply_rop 14 s d) n = bit (14 :: u8) (k s d)" "bit (apply_rop 15 s d) n = bit (15 :: u8) (k s d)"
  using assms(1) by (simp_all add: k_def apply_rop_cases bit_simps)

text \<open>The sixteen raster operations are the sixteen boolean functions their code numbers: bit
  \<open>n\<close> of the result is the entry of the four-bit truth table \<open>f\<close> selected by the source and
  destination bits.\<close>

theorem apply_rop_truth_table:
  assumes "f < 16" "n < 32"
  shows "bit (apply_rop f src dst) n \<longleftrightarrow>
    bit f ((if bit src n then 0 else 2) + (if bit dst n then 0 else 1))"
  using less_16_cases [OF assms(1)] rop_bits [OF assms(2), of src dst]
  by (elim insertE emptyE) simp_all

theorem apply_rop_truth_table_witness:
  "bit (apply_rop 6 0xFF00FF 0x00FF00) 9 \<longleftrightarrow>
     bit (6 :: u8) ((if bit (0xFF00FF :: u32) 9 then 0 else 2) + (if bit (0x00FF00 :: u32) 9 then 0 else 1))"
  by (rule apply_rop_truth_table) simp_all

lemma ex_concat_map:
  "(\<exists>r \<in> set (concat (map (\<lambda>y. map (g y) (R y)) ys)). P r) \<longleftrightarrow> (\<exists>y \<in> set ys. \<exists>q \<in> set (R y). P (g y q))"
  by auto

lemma sint_of_nat_plus16:
  assumes "int k + sint b \<le> 32767"
  shows "sint (of_nat k + b :: i16) = int k + sint b"
proof -
  have "of_nat k + b = word_of_int (int k + sint b)" by simp
  moreover have "- 32768 \<le> int k + sint b" "int k + sint b < 32768"
    using assms sint_range16(1) [of b] by linarith+
  ultimately show ?thesis using sint_word_of_int16 by metis
qed

text \<open>The masks whose rectangles are representable around the clip origin.\<close>

definition mask_fits :: "clip_mask_bitmap \<Rightarrow> i16 \<Rightarrow> i16 \<Rightarrow> bool" where
  "mask_fits bm ox oy \<longleftrightarrow>
     sint ox + uint (cm_width bm) \<le> 32767 \<and> sint oy + uint (cm_height bm) \<le> 32767"

lemma run_rect_admits:
  assumes "mask_fits bm ox oy" "y < unat (cm_height bm)" "(s, e) \<in> set (row_runs bm y 0)"
  shows "px \<ge> sint (of_nat s + ox) \<and> px < sint (of_nat s + ox) + uint (of_nat (e - s) :: u16) \<and>
      py \<ge> sint (of_nat y + oy) \<and> py < sint (of_nat y + oy) + uint (1 :: u16) \<longleftrightarrow>
      (\<exists>i. s \<le> i \<and> i < e \<and> px = sint ox + int i) \<and> py = sint oy + int y"
proof -
  have b: "s < e" "e \<le> unat (cm_width bm)" using row_runs_bounds [OF assms(3)] by auto
  note w = assms(1) [unfolded mask_fits_def uint_eq_int_unat]
  have "sint (of_nat s + ox) = int s + sint ox"
    by (rule sint_of_nat_plus16) (use b w in linarith)
  moreover have "sint (of_nat y + oy) = int y + sint oy"
    by (rule sint_of_nat_plus16) (use assms(2) w in linarith)
  moreover have "uint (of_nat (e - s) :: u16) = int e - int s"
  proof -
    have "0 \<le> int e - int s" "int e - int s < 65536" using b unat_range16 [of "cm_width bm"] by linarith+
    from uint_word_of_int16 [OF this] b(1) show ?thesis by (simp add: of_nat_diff)
  qed
  moreover have "(\<exists>i. s \<le> i \<and> i < e \<and> px = sint ox + int i) \<longleftrightarrow>
      sint ox + int s \<le> px \<and> px < sint ox + int e"
    by (auto intro: exI [of _ "nat (px - sint ox)"])
  ultimately show ?thesis by auto
qed

lemma row_admits:
  "(\<exists>(s, e) \<in> set (row_runs bm y 0). (\<exists>i. s \<le> i \<and> i < e \<and> px = sint ox + int i) \<and> py = sint oy + int y)
   \<longleftrightarrow> (\<exists>i < unat (cm_width bm). mask_bit bm y i \<and> px = sint ox + int i \<and> py = sint oy + int y)"
proof -
  have "(\<exists>(s, e) \<in> set (row_runs bm y 0). (\<exists>i. s \<le> i \<and> i < e \<and> px = sint ox + int i) \<and> py = sint oy + int y)
    \<longleftrightarrow> (\<exists>i. (\<exists>(s, e) \<in> set (row_runs bm y 0). s \<le> i \<and> i < e) \<and> px = sint ox + int i \<and> py = sint oy + int y)"
    unfolding case_prod_unfold by blast
  then show ?thesis unfolding row_runs_cover by (simp add: conj_assoc)
qed

text \<open>A bitmap clip mask is decoded exactly: the rectangles made from it admit a pixel if and only
  if the mask bit at that position, relative to the clip origin, is set. The exception is a
  mask with no bit set: its list of rectangles is empty, and an empty list admits every pixel.\<close>

theorem clip_mask_exact:
  assumes "mask_fits bm ox oy"
  shows "should_draw_pixel px py (to_clip_rects bm ox oy) \<longleftrightarrow>
    (\<forall>x < unat (cm_width bm). \<forall>y < unat (cm_height bm). \<not> mask_bit bm y x) \<or>
    (\<exists>x < unat (cm_width bm). \<exists>y < unat (cm_height bm).
       mask_bit bm y x \<and> px = sint ox + int x \<and> py = sint oy + int y)"
proof -
  have empty: "to_clip_rects bm ox oy = [] \<longleftrightarrow>
      (\<forall>x < unat (cm_width bm). \<forall>y < unat (cm_height bm). \<not> mask_bit bm y x)"
  proof -
    have "row_runs bm y 0 = [] \<longleftrightarrow> (\<forall>x < unat (cm_width bm). \<not> mask_bit bm y x)" for y
    proof
      assume "row_runs bm y 0 = []"
      then show "\<forall>x < unat (cm_width bm). \<not> mask_bit bm y x" using row_runs_cover [of bm y 0] by simp
    next
      assume none: "\<forall>x < unat (cm_width bm). \<not> mask_bit bm y x"
      have "(s, e) \<notin> set (row_runs bm y 0)" for s e
        using none row_runs_cover [of bm y 0 s] row_runs_bounds [of s e bm y 0] by fastforce
      then show "row_runs bm y 0 = []" by (metis list.set_intros(1) neq_Nil_conv surj_pair)
    qed
    then show ?thesis unfolding to_clip_rects_def by auto
  qed
  show ?thesis
  proof (cases "to_clip_rects bm ox oy = []")
    case True
    then show ?thesis using empty by (simp add: should_draw_pixel_def)
  next
    case False
    then have "should_draw_pixel px py (to_clip_rects bm ox oy) \<longleftrightarrow>
      (\<exists>y < unat (cm_height bm). \<exists>(s, e) \<in> set (row_runs bm y 0).
         px \<ge> sint (of_nat s + ox) \<and> px < sint (of_nat s + ox) + uint (of_nat (e - s) :: u16) \<and>
         py \<ge> sint (of_nat y + oy) \<and> py < sint (of_nat y + oy) + uint (1 :: u16))"
      unfolding should_draw_pixel_def list_ex_iff
      by (simp only: if_False to_clip_rects_def ex_concat_map) (simp add: case_prod_unfold Bex_def)
    also have "\<dots> \<longleftrightarrow> (\<exists>y < unat (cm_height bm). \<exists>(s, e) \<in> set (row_runs bm y 0).
         (\<exists>i. s \<le> i \<and> i < e \<and> px = sint ox + int i) \<and> py = sint oy + int y)"
      unfolding case_prod_unfold
      by (intro ex_cong conj_cong refl bex_cong run_rect_admits [OF assms]) simp_all
    finally show ?thesis unfolding row_admits using False empty by blast
  qed
qed

theorem clip_mask_exact_witness:
  "let bm = \<lparr>cm_width = 8, cm_height = 1, cm_bits = [4]\<rparr>
   in \<not> (should_draw_pixel 10 20 (to_clip_rects bm 10 20)) \<and>
      should_draw_pixel 12 20 (to_clip_rects bm 10 20)"
proof -
  let ?bm = "\<lparr>cm_width = 8, cm_height = 1, cm_bits = [4]\<rparr>"
  have m: "mask_bit ?bm 0 x \<longleftrightarrow> x = 2" if "x < 8" for x
  proof -
    have "x \<in> {0, 1, 2, 3, 4, 5, 6, 7}" using that by auto
    then show ?thesis by (auto simp: mask_bit_def Let_def)
  qed
  have "mask_fits ?bm 10 20" by (simp add: mask_fits_def)
  from clip_mask_exact [OF this, of 10 20] clip_mask_exact [OF this, of 12 20] m show ?thesis
    by (auto simp: Let_def)
qed

text \<open>The rectangle intersection of the drawing code covers exactly the common points of the two
  rectangles, for all positions and sizes: it computes in 32 bits and the result always fits.\<close>

theorem drawing_intersect_exact:
  "case drawing_intersect_rects x1 y1 w1 h1 x2 y2 w2 h2 of (x, y, w, h) \<Rightarrow>
     rect_points (mk_rect x y w h) = rect_points (mk_rect x1 y1 w1 h1) \<inter> rect_points (mk_rect x2 y2 w2 h2)"
proof -
  have pick: "sint (word_of_int (max (sint a) (sint b)) :: i16) = max (sint a) (sint b)" for a b :: i16
    using sint_range16 [of a] sint_range16 [of b] by (intro sint_word_of_int16) auto
  have len: "uint (word_of_int (min (sint a + uint c) (sint b + uint d) - max (sint a) (sint b)) :: u16) =
      min (sint a + uint c) (sint b + uint d) - max (sint a) (sint b)"
    if "max (sint a) (sint b) < min (sint a + uint c) (sint b + uint d)" for a b :: i16 and c d :: u16
    using that uint_range16 [of c] by (intro uint_word_of_int16) linarith+
  show ?thesis
  proof (cases "max (sint x1) (sint x2) < min (sint x1 + uint w1) (sint x2 + uint w2) \<and>
      max (sint y1) (sint y2) < min (sint y1 + uint h1) (sint y2 + uint h2)")
    case True
    then show ?thesis
      unfolding drawing_intersect_rects_def Let_def rect_points_def
      by (simp only: if_True simp_thms prod.case region_rect.select_convs pick
          len [OF conjunct1 [OF True]] len [OF conjunct2 [OF True]]) auto
  next
    case False
    then show ?thesis
      unfolding drawing_intersect_rects_def Let_def by (auto simp: rect_points_def)
  qed
qed

end
