(* ===== verification/Xfixes.thy ===== *)
theory Xfixes
  imports Client Clip
begin

text \<open>
  The XFIXES extension (\<open>handlers/xfixes/\<close>): the region requests on the \<open>regions\<close> table, their
  use as clip lists of graphics contexts, pictures and windows, pointer barriers, the hide
  counter of the cursor, the save set and the selection subscriptions. The cursor-image
  requests, which read image data, are left out; the dispatcher takes them as a parameter.

  Of a pixmap, window, graphics context and picture only the fields these handlers use are kept.
  The additions to coordinates wrap at 16 bits.
\<close>

unbundle bit_operations_syntax

section \<open>State\<close>

record pixmap_dims =
  pm_width :: u16
  pm_height :: u16

record shaped_window =
  win_width :: u16
  win_height :: u16
  bounding_shape :: "region_rect list option"
  clip_shape :: "region_rect list option"
  input_shape :: "region_rect list option"

record gc_clip =
  gc_clip_rects :: "clip_rect list"
  gc_clip_x :: i16
  gc_clip_y :: i16

record picture =
  pic_drawable :: u32
  pic_clip_rects :: "clip_rect list option"
  pic_clip_origin_x :: i16
  pic_clip_origin_y :: i16

record pointer_barrier =
  barrier_id :: u32
  barrier_window :: u32
  barrier_x1 :: i16
  barrier_y1 :: i16
  barrier_x2 :: i16
  barrier_y2 :: i16
  directions :: u32
  device_ids :: "u16 list"

record xfixes_client = "unit client_base" +
  root_window :: u32
  pixmaps :: "u32 \<rightharpoonup> pixmap_dims"
  windows :: "u32 \<rightharpoonup> shaped_window"
  gcs :: "u32 \<rightharpoonup> gc_clip"
  pictures :: "u32 \<rightharpoonup> picture"
  save_set :: "u32 list"
  regions :: "u32 \<rightharpoonup> xfixes_region"
  selection_event_subscribers :: "u32 \<rightharpoonup> u32"
  cursor_hidden :: u32
  barriers :: "u32 \<rightharpoonup> pointer_barrier"
  disconnect_mode :: u32

datatype xfixes_reply =
    QueryVersionReply u32 u32
  | FetchRegionReply region_rect "region_rect list"
  | GetClientDisconnectModeReply u32

type_synonym xfixes_result = "xfixes_client \<times> xfixes_reply response"

section \<open>Region requests\<close>

definition region_of :: "xfixes_client \<Rightarrow> u32 \<Rightarrow> xfixes_region" where
  "region_of st rid = (case regions st rid of Some r \<Rightarrow> r | None \<Rightarrow> region_new)"

definition insert_region :: "u32 \<Rightarrow> xfixes_region \<Rightarrow> xfixes_client \<Rightarrow> xfixes_client" where
  "insert_region rid r st = st\<lparr>regions := (regions st)(rid \<mapsto> r)\<rparr>"

definition rect_of_clip :: "clip_rect \<Rightarrow> region_rect" where
  "rect_of_clip = (\<lambda>(x, y, w, h). mk_rect x y w h)"

definition handle_create_region ::
    "(u32 \<times> region_rect list) option \<Rightarrow> u16 \<Rightarrow> xfixes_client \<Rightarrow> xfixes_result" where
  "handle_create_region req seq st = parse_minor req st seq 138 5 (\<lambda>(rid, rects).
     (insert_region rid (region_from_rects rects) st, NoReply))"

definition handle_create_region_from_bitmap ::
    "(u32 \<times> u32) option \<Rightarrow> u16 \<Rightarrow> xfixes_client \<Rightarrow> xfixes_result" where
  "handle_create_region_from_bitmap req seq st = parse_minor req st seq 138 6 (\<lambda>(rid, bitmap).
     (insert_region rid
        (case pixmaps st bitmap of
           Some pm \<Rightarrow> region_from_rects [mk_rect 0 0 (pm_width pm) (pm_height pm)]
         | None \<Rightarrow> region_new) st, NoReply))"

definition handle_create_region_from_window ::
    "(u32 \<times> u32) option \<Rightarrow> u16 \<Rightarrow> xfixes_client \<Rightarrow> xfixes_result" where
  "handle_create_region_from_window req seq st = parse_minor req st seq 138 7 (\<lambda>(rid, window).
     (insert_region rid
        (case windows st window of
           Some w \<Rightarrow> region_from_rects [mk_rect 0 0 (win_width w) (win_height w)]
         | None \<Rightarrow> region_new) st, NoReply))"

definition handle_create_region_from_gc ::
    "(u32 \<times> u32) option \<Rightarrow> u16 \<Rightarrow> xfixes_client \<Rightarrow> xfixes_result" where
  "handle_create_region_from_gc req seq st = parse_minor req st seq 138 8 (\<lambda>(rid, gc).
     (insert_region rid
        (case gcs st gc of
           Some g \<Rightarrow> if gc_clip_rects g = [] then region_new
                     else region_from_rects (map rect_of_clip (gc_clip_rects g))
         | None \<Rightarrow> region_new) st, NoReply))"

definition picture_clip_rects :: "xfixes_client \<Rightarrow> u32 \<Rightarrow> clip_rect list option" where
  "picture_clip_rects st pic = Option.bind (pictures st pic) pic_clip_rects"

definition picture_drawable :: "xfixes_client \<Rightarrow> u32 \<Rightarrow> u32 option" where
  "picture_drawable st pic = map_option pic_drawable (pictures st pic)"

definition handle_create_region_from_picture ::
    "(u32 \<times> u32) option \<Rightarrow> u16 \<Rightarrow> xfixes_client \<Rightarrow> xfixes_result" where
  "handle_create_region_from_picture req seq st = parse_minor req st seq 138 9 (\<lambda>(rid, pic).
     (insert_region rid
        (case picture_clip_rects st pic of
           Some rects \<Rightarrow> region_from_rects (map rect_of_clip rects)
         | None \<Rightarrow>
             (case picture_drawable st pic of
                Some drawable \<Rightarrow>
                  (case pixmaps st drawable of
                     Some pm \<Rightarrow> region_from_rects [mk_rect 0 0 (pm_width pm) (pm_height pm)]
                   | None \<Rightarrow>
                       (case windows st drawable of
                          Some w \<Rightarrow> region_from_rects [mk_rect 0 0 (win_width w) (win_height w)]
                        | None \<Rightarrow> region_new))
              | None \<Rightarrow> region_new)) st, NoReply))"

definition handle_destroy_region :: "u32 option \<Rightarrow> u16 \<Rightarrow> xfixes_client \<Rightarrow> xfixes_result" where
  "handle_destroy_region req seq st = parse_minor req st seq 138 10 (\<lambda>rid.
     (recycle_xid rid (st\<lparr>regions := (regions st)(rid := None)\<rparr>), NoReply))"

definition handle_set_region ::
    "(u32 \<times> region_rect list) option \<Rightarrow> u16 \<Rightarrow> xfixes_client \<Rightarrow> xfixes_result" where
  "handle_set_region req seq st = parse_minor req st seq 138 11 (\<lambda>(rid, rects).
     (insert_region rid (region_from_rects rects) st, NoReply))"

definition handle_copy_region ::
    "(u32 \<times> u32) option \<Rightarrow> u16 \<Rightarrow> xfixes_client \<Rightarrow> xfixes_result" where
  "handle_copy_region req seq st = parse_minor req st seq 138 12 (\<lambda>(src, dst).
     (insert_region dst (region_of st src) st, NoReply))"

definition handle_union_region ::
    "(u32 \<times> u32 \<times> u32) option \<Rightarrow> u16 \<Rightarrow> xfixes_client \<Rightarrow> xfixes_result" where
  "handle_union_region req seq st = parse_minor req st seq 138 13 (\<lambda>(src1, src2, dst).
     (insert_region dst (region_union (region_of st src1) (region_of st src2)) st, NoReply))"

definition handle_intersect_region ::
    "(u32 \<times> u32 \<times> u32) option \<Rightarrow> u16 \<Rightarrow> xfixes_client \<Rightarrow> xfixes_result" where
  "handle_intersect_region req seq st = parse_minor req st seq 138 14 (\<lambda>(src1, src2, dst).
     (insert_region dst (region_intersect (region_of st src1) (region_of st src2)) st, NoReply))"

definition handle_subtract_region ::
    "(u32 \<times> u32 \<times> u32) option \<Rightarrow> u16 \<Rightarrow> xfixes_client \<Rightarrow> xfixes_result" where
  "handle_subtract_region req seq st = parse_minor req st seq 138 15 (\<lambda>(src1, src2, dst).
     (insert_region dst (region_subtract (region_of st src1) (region_of st src2)) st, NoReply))"

definition handle_invert_region ::
    "(u32 \<times> region_rect \<times> u32) option \<Rightarrow> u16 \<Rightarrow> xfixes_client \<Rightarrow> xfixes_result" where
  "handle_invert_region req seq st = parse_minor req st seq 138 16 (\<lambda>(src, bounds, dst).
     (insert_region dst (region_invert (region_of st src) bounds) st, NoReply))"

definition handle_translate_region ::
    "(u32 \<times> i16 \<times> i16) option \<Rightarrow> u16 \<Rightarrow> xfixes_client \<Rightarrow> xfixes_result" where
  "handle_translate_region req seq st = parse_minor req st seq 138 17 (\<lambda>(rid, dx, dy).
     (case regions st rid of
        Some r \<Rightarrow> insert_region rid (region_translate dx dy r) st
      | None \<Rightarrow> st, NoReply))"

definition handle_region_extents ::
    "(u32 \<times> u32) option \<Rightarrow> u16 \<Rightarrow> xfixes_client \<Rightarrow> xfixes_result" where
  "handle_region_extents req seq st = parse_minor req st seq 138 18 (\<lambda>(src, dst).
     (insert_region dst (region_from_rects
        [case regions st src of Some r \<Rightarrow> region_extents r | None \<Rightarrow> mk_rect 0 0 0 0]) st, NoReply))"

definition handle_fetch_region :: "u32 option \<Rightarrow> u16 \<Rightarrow> xfixes_client \<Rightarrow> xfixes_result" where
  "handle_fetch_region req seq st = parse_minor req st seq 138 19 (\<lambda>rid.
     (st, Reply (case regions st rid of
        Some r \<Rightarrow> FetchRegionReply (region_extents r) r
      | None \<Rightarrow> FetchRegionReply (mk_rect 0 0 0 0) [])))"

definition offset_clip :: "i16 \<Rightarrow> i16 \<Rightarrow> region_rect \<Rightarrow> clip_rect" where
  "offset_clip x_origin y_origin r =
     (rect_x r + x_origin, rect_y r + y_origin, rect_width r, rect_height r)"

definition handle_set_gc_clip_region ::
    "(u32 \<times> u32 \<times> i16 \<times> i16) option \<Rightarrow> u16 \<Rightarrow> xfixes_client \<Rightarrow> xfixes_result" where
  "handle_set_gc_clip_region req seq st = parse_minor req st seq 138 20
     (\<lambda>(gc_id, region_id, x_origin, y_origin).
     (case gcs st gc_id of
        None \<Rightarrow> st
      | Some gc \<Rightarrow>
          if region_id = 0
          then st\<lparr>gcs := (gcs st)(gc_id \<mapsto> gc\<lparr>gc_clip_rects := [], gc_clip_x := 0, gc_clip_y := 0\<rparr>)\<rparr>
          else (case regions st region_id of
             Some r \<Rightarrow> st\<lparr>gcs := (gcs st)(gc_id \<mapsto> gc\<lparr>gc_clip_x := x_origin, gc_clip_y := y_origin,
                             gc_clip_rects := map (offset_clip x_origin y_origin) r\<rparr>)\<rparr>
           | None \<Rightarrow> st), NoReply))"

definition offset_shape :: "i16 \<Rightarrow> i16 \<Rightarrow> region_rect \<Rightarrow> region_rect" where
  "offset_shape x_offset y_offset r =
     mk_rect (rect_x r + x_offset) (rect_y r + y_offset) (rect_width r) (rect_height r)"

text \<open>\<open>parse_or_void!\<close>: a request that cannot be parsed is dropped without an error. The parser
  result is \<open>None\<close> as well when the request is shorter than 20 bytes.\<close>

definition handle_set_window_shape_region ::
    "(u32 \<times> u8 \<times> i16 \<times> i16 \<times> u32) option \<Rightarrow> u16 \<Rightarrow> xfixes_client \<Rightarrow> xfixes_result" where
  "handle_set_window_shape_region req seq st =
     (case req of
        None \<Rightarrow> (st, NoReply)
      | Some (window_id, kind, x_offset, y_offset, region_id) \<Rightarrow>
          (case windows st window_id of
             None \<Rightarrow> (st, NoReply)
           | Some win \<Rightarrow>
               (let shape = (if region_id = 0 then None
                             else map_option (map (offset_shape x_offset y_offset)) (regions st region_id));
                    win' = (if kind = 0 then win\<lparr>bounding_shape := shape\<rparr>
                            else if kind = 1 then win\<lparr>clip_shape := shape\<rparr>
                            else if kind = 2 then win\<lparr>input_shape := shape\<rparr>
                            else win)
                in (st\<lparr>windows := (windows st)(window_id \<mapsto> win')\<rparr>, NoReply))))"

definition set_picture_clip_region ::
    "u32 \<Rightarrow> clip_rect list option \<Rightarrow> i16 \<Rightarrow> i16 \<Rightarrow> xfixes_client \<Rightarrow> xfixes_client" where
  "set_picture_clip_region pic_id clip_rects ox oy st =
     (case pictures st pic_id of
        Some pic \<Rightarrow> st\<lparr>pictures := (pictures st)(pic_id \<mapsto>
          pic\<lparr>pic_clip_rects := clip_rects, pic_clip_origin_x := ox, pic_clip_origin_y := oy\<rparr>)\<rparr>
      | None \<Rightarrow> st)"

definition handle_set_picture_clip_region ::
    "(u32 \<times> u32 \<times> i16 \<times> i16) option \<Rightarrow> u16 \<Rightarrow> xfixes_client \<Rightarrow> xfixes_result" where
  "handle_set_picture_clip_region req seq st = parse_minor req st seq 138 22
     (\<lambda>(pic_id, region_id, x_origin, y_origin).
     (if region_id = 0 then set_picture_clip_region pic_id None 0 0 st
      else (case regions st region_id of
        Some r \<Rightarrow> set_picture_clip_region pic_id (Some (map (offset_clip x_origin y_origin) r))
                    x_origin y_origin st
      | None \<Rightarrow> st), NoReply))"

definition handle_expand_region ::
    "(u32 \<times> u32 \<times> u16 \<times> u16 \<times> u16 \<times> u16) option \<Rightarrow> u16 \<Rightarrow> xfixes_client \<Rightarrow> xfixes_result" where
  "handle_expand_region req seq st = parse_minor req st seq 138 28
     (\<lambda>(src, dst, left, right, top, bottom).
     (insert_region dst (region_expand left right top bottom (region_of st src)) st, NoReply))"

section \<open>Other requests\<close>

definition saturating_add_u32 :: "u32 \<Rightarrow> u32 \<Rightarrow> u32" where
  "saturating_add_u32 a b = (if unat a + unat b < 4294967296 then a + b else 0xFFFFFFFF)"

definition saturating_dec_u32 :: "u32 \<Rightarrow> u32" where
  "saturating_dec_u32 a = (if a = 0 then 0 else a - 1)"

definition change_save_set :: "(u32 \<times> u8) option \<Rightarrow> u16 \<Rightarrow> xfixes_client \<Rightarrow> xfixes_result" where
  "change_save_set req seq st = parse_minor req st seq 138 1 (\<lambda>(window, mode).
     if mode = 0
     then (if List.member (save_set st) window then st
           else st\<lparr>save_set := save_set st @ [window]\<rparr>, NoReply)
     else if mode = 1 then (st\<lparr>save_set := filter (\<lambda>w. w \<noteq> window) (save_set st)\<rparr>, NoReply)
     else (st, ErrorReply (build_error VALUE_ERROR seq (ucast mode) 138 1)))"

definition select_selection_input ::
    "(u32 \<times> u32 \<times> u32) option \<Rightarrow> u16 \<Rightarrow> xfixes_client \<Rightarrow> xfixes_result" where
  "select_selection_input req seq st = parse_minor req st seq 138 2 (\<lambda>(window, selection, event_mask).
     (st\<lparr>selection_event_subscribers := (selection_event_subscribers st)
           (selection := (if event_mask \<noteq> 0 then Some event_mask else None))\<rparr>, NoReply))"

definition handle_hide_cursor :: "u32 option \<Rightarrow> u16 \<Rightarrow> xfixes_client \<Rightarrow> xfixes_result" where
  "handle_hide_cursor req seq st = parse_minor req st seq 138 29 (\<lambda>window.
     (st\<lparr>cursor_hidden := saturating_add_u32 (cursor_hidden st) 1\<rparr>, NoReply))"

definition handle_show_cursor :: "u32 option \<Rightarrow> u16 \<Rightarrow> xfixes_client \<Rightarrow> xfixes_result" where
  "handle_show_cursor req seq st = parse_minor req st seq 138 30 (\<lambda>window.
     (st\<lparr>cursor_hidden := saturating_dec_u32 (cursor_hidden st)\<rparr>, NoReply))"

record barrier_request =
  br_barrier :: u32
  br_window :: u32
  br_x1 :: u16
  br_y1 :: u16
  br_x2 :: u16
  br_y2 :: u16
  br_directions :: u32
  br_devices :: "u16 list"

definition handle_create_pointer_barrier ::
    "barrier_request option \<Rightarrow> u16 \<Rightarrow> xfixes_client \<Rightarrow> xfixes_result" where
  "handle_create_pointer_barrier req seq st = parse_minor req st seq 138 31 (\<lambda>r.
     if br_window r \<noteq> root_window st \<and> windows st (br_window r) = None
     then (st, ErrorReply (build_error WINDOW_ERROR seq (br_window r) 138 31))
     else (st\<lparr>barriers := (barriers st)(br_barrier r \<mapsto>
             \<lparr>barrier_id = br_barrier r, barrier_window = br_window r,
              barrier_x1 = br_x1 r, barrier_y1 = br_y1 r, barrier_x2 = br_x2 r, barrier_y2 = br_y2 r,
              directions = br_directions r AND 0xF, device_ids = br_devices r\<rparr>)\<rparr>, NoReply))"

definition handle_delete_pointer_barrier :: "u32 option \<Rightarrow> u16 \<Rightarrow> xfixes_client \<Rightarrow> xfixes_result" where
  "handle_delete_pointer_barrier req seq st = parse_minor req st seq 138 32 (\<lambda>bid.
     (recycle_xid bid (st\<lparr>barriers := (barriers st)(bid := None)\<rparr>), NoReply))"

definition handle_set_client_disconnect_mode ::
    "u32 option \<Rightarrow> u16 \<Rightarrow> xfixes_client \<Rightarrow> xfixes_result" where
  "handle_set_client_disconnect_mode req seq st = parse_minor req st seq 138 33 (\<lambda>mode.
     (st\<lparr>disconnect_mode := mode AND 0x1\<rparr>, NoReply))"

definition handle_get_client_disconnect_mode ::
    "unit option \<Rightarrow> u16 \<Rightarrow> xfixes_client \<Rightarrow> xfixes_result" where
  "handle_get_client_disconnect_mode req seq st = parse_minor req st seq 138 34 (\<lambda>_.
     (st, Reply (GetClientDisconnectModeReply (disconnect_mode st))))"

section \<open>Regions as point sets\<close>

text \<open>The abstract state: what each region identifier denotes.\<close>

definition region_sem :: "xfixes_client \<Rightarrow> u32 \<Rightarrow> (int \<times> int) set" where
  "region_sem st rid = region_points (region_of st rid)"

definition regions_ok :: "xfixes_client \<Rightarrow> bool" where
  "regions_ok st \<longleftrightarrow> (\<forall>rid. region_ok (region_of st rid))"

datatype region_request =
    SetRegion u32 "region_rect list"
  | CopyRegion u32 u32
  | UnionRegion u32 u32 u32
  | IntersectRegion u32 u32 u32
  | SubtractRegion u32 u32 u32
  | InvertRegion u32 region_rect u32
  | DestroyRegion u32

fun run_request :: "region_request \<Rightarrow> u16 \<Rightarrow> xfixes_client \<Rightarrow> xfixes_result" where
  "run_request (SetRegion rid rects) seq st = handle_set_region (Some (rid, rects)) seq st"
| "run_request (CopyRegion src dst) seq st = handle_copy_region (Some (src, dst)) seq st"
| "run_request (UnionRegion a b dst) seq st = handle_union_region (Some (a, b, dst)) seq st"
| "run_request (IntersectRegion a b dst) seq st = handle_intersect_region (Some (a, b, dst)) seq st"
| "run_request (SubtractRegion a b dst) seq st = handle_subtract_region (Some (a, b, dst)) seq st"
| "run_request (InvertRegion src bounds dst) seq st = handle_invert_region (Some (src, bounds, dst)) seq st"
| "run_request (DestroyRegion rid) seq st = handle_destroy_region (Some rid) seq st"

fun abstract_request ::
    "region_request \<Rightarrow> (u32 \<Rightarrow> (int \<times> int) set) \<Rightarrow> u32 \<Rightarrow> (int \<times> int) set" where
  "abstract_request (SetRegion rid rects) m = m(rid := region_points rects)"
| "abstract_request (CopyRegion src dst) m = m(dst := m src)"
| "abstract_request (UnionRegion a b dst) m = m(dst := m a \<union> m b)"
| "abstract_request (IntersectRegion a b dst) m = m(dst := m a \<inter> m b)"
| "abstract_request (SubtractRegion a b dst) m = m(dst := m a - m b)"
| "abstract_request (InvertRegion src bounds dst) m = m(dst := rect_points bounds - m src)"
| "abstract_request (DestroyRegion rid) m = m(rid := {})"

fun request_ok :: "region_request \<Rightarrow> bool" where
  "request_ok (SetRegion rid rects) = region_ok rects"
| "request_ok (InvertRegion src bounds dst) = rect_ok bounds"
| "request_ok _ = True"

lemma region_of_insert [simp]: "region_of (insert_region rid r st) = (region_of st)(rid := r)"
  by (auto simp: region_of_def insert_region_def)

lemma region_of_destroy [simp]:
  "region_of (recycle_xid rid (st\<lparr>regions := (regions st)(rid := None)\<rparr>)) = (region_of st)(rid := [])"
  by (auto simp: region_of_def recycle_xid_def region_new_def)

lemmas region_handlers =
  handle_set_region_def handle_copy_region_def handle_union_region_def handle_intersect_region_def
  handle_subtract_region_def handle_invert_region_def handle_destroy_region_def
  region_from_rects_def region_union_def region_invert_def

lemma run_request_refines:
  assumes "regions_ok st" "request_ok q"
  shows "region_sem (fst (run_request q seq st)) = abstract_request q (region_sem st)"
    and "regions_ok (fst (run_request q seq st))"
proof -
  have ok: "region_ok (region_of st rid)" for rid using assms(1) by (simp add: regions_ok_def)
  show "region_sem (fst (run_request q seq st)) = abstract_request q (region_sem st)"
    using ok assms(2)
    by (cases q) (auto simp: fun_eq_iff region_sem_def region_handlers xr.pts_inter xr.pts_sub)
  show "regions_ok (fst (run_request q seq st))"
    using ok assms(2)
    by (cases q) (auto simp: regions_ok_def region_handlers xr.ok_inter xr.ok_sub)
qed

text \<open>A client's sequence of region requests.\<close>

definition run_requests :: "(region_request \<times> u16) list \<Rightarrow> xfixes_client \<Rightarrow> xfixes_client" where
  "run_requests qs st = fold (\<lambda>(q, seq) st. fst (run_request q seq st)) qs st"

section \<open>Properties\<close>


definition empty_xfixes :: xfixes_client where
  "empty_xfixes = \<lparr>resource_id_base = 0x400000, next_xid = 0x400000, freed_xids = [], msb_first = False,
     pending_events = [], root_window = 0x62, pixmaps = Map.empty, windows = Map.empty,
     gcs = Map.empty, pictures = Map.empty, save_set = [], regions = Map.empty,
     selection_event_subscribers = Map.empty, cursor_hidden = 0, barriers = Map.empty,
     disconnect_mode = 0\<rparr>"


text \<open>A region used as the clip of a graphics context admits exactly the points of the region,
  moved by the clip origin -- unless the region is empty: then the list of rectangles is empty,
  which the drawing code reads as no clipping, so every pixel is drawn instead of none.\<close>

theorem gc_clip_region_pixels:
  assumes "gcs st gc_id = Some gc" "regions st rid = Some r" "rid \<noteq> 0"
    and fits: "list_all (\<lambda>q. - 32768 \<le> sint (rect_x q) + sint ox \<and> sint (rect_x q) + sint ox \<le> 32767 \<and>
                 - 32768 \<le> sint (rect_y q) + sint oy \<and> sint (rect_y q) + sint oy \<le> 32767) r"
  shows "\<exists>gc'. gcs (fst (handle_set_gc_clip_region (Some (gc_id, rid, ox, oy)) seq st)) gc_id = Some gc' \<and>
    (r \<noteq> [] \<longrightarrow> (\<forall>x y. should_draw_pixel x y (gc_clip_rects gc') \<longleftrightarrow>
                    (x - sint ox, y - sint oy) \<in> region_points r)) \<and>
    (r = [] \<longrightarrow> (\<forall>x y. should_draw_pixel x y (gc_clip_rects gc')))"
proof -
  let ?rects = "map (offset_clip ox oy) r"
  have add: "sint (a + b) = sint a + sint b" if "- 32768 \<le> sint a + sint b" "sint a + sint b \<le> 32767"
    for a b :: i16
    using that by (simp add: sint_add_16)
  have "should_draw_pixel x y ?rects \<longleftrightarrow> (x - sint ox, y - sint oy) \<in> region_points r"
    if "r \<noteq> []" for x y
  proof -
    have "should_draw_pixel x y ?rects \<longleftrightarrow> (\<exists>q \<in> set r.
        x \<ge> sint (rect_x q + ox) \<and> x < sint (rect_x q + ox) + uint (rect_width q) \<and>
        y \<ge> sint (rect_y q + oy) \<and> y < sint (rect_y q + oy) + uint (rect_height q))"
      using that by (simp add: should_draw_pixel_def list_ex_iff offset_clip_def)
    also have "\<dots> \<longleftrightarrow> (\<exists>q \<in> set r. (x - sint ox, y - sint oy) \<in> rect_points q)"
      using fits by (intro bex_cong refl) (auto simp: list_all_iff add rect_points_def)
    finally show ?thesis by (simp add: region_points_def)
  qed
  then show ?thesis
    using assms(1-3) by (auto simp: handle_set_gc_clip_region_def should_draw_pixel_def)
qed

theorem gc_clip_region_pixels_witness:
  "let st = empty_xfixes\<lparr>gcs := [9 \<mapsto> \<lparr>gc_clip_rects = [(0, 0, 1, 1)], gc_clip_x = 0, gc_clip_y = 0\<rparr>],
              regions := [7 \<mapsto> []]\<rparr>
   in \<exists>gc'. gcs (fst (handle_set_gc_clip_region (Some (9, 7, 0, 0)) 1 st)) 9 = Some gc' \<and>
        should_draw_pixel 500 500 (gc_clip_rects gc')"
proof -
  define st where "st = empty_xfixes\<lparr>gcs := [9 \<mapsto> \<lparr>gc_clip_rects = [(0, 0, 1, 1)], gc_clip_x = 0, gc_clip_y = 0\<rparr>],
              regions := [7 \<mapsto> []]\<rparr>"
  have "gcs st 9 = Some \<lparr>gc_clip_rects = [(0, 0, 1, 1)], gc_clip_x = 0, gc_clip_y = 0\<rparr>"
    "regions st 7 = Some []" "(7 :: u32) \<noteq> 0" by (simp_all add: st_def)
  from gc_clip_region_pixels [OF this, of 0 0 1] show ?thesis by (auto simp: st_def)
qed

end
