(* ===== verification/Xid.thy ===== *)
theory Xid
  imports Client
begin

text \<open>
  The XC-MISC extension (\<open>handlers/xc_misc.rs\<close>): it hands out unused resource identifiers of
  the client's range, recycled ones first.
\<close>

unbundle bit_operations_syntax

section \<open>Operations\<close>

datatype xc_misc_reply =
    GetVersionReply u16 u16
  | GetXIDRangeReply u32 u32
  | GetXIDListReply "u32 list"

definition current_offset :: "('e, 'm) client_base_scheme \<Rightarrow> u32" where
  "current_offset st = (next_xid st - resource_id_base st) AND RESOURCE_ID_MASK"

definition remaining_ids :: "('e, 'm) client_base_scheme \<Rightarrow> u32" where
  "remaining_ids st = saturating_sub_u32 RESOURCE_ID_MASK (current_offset st) + 1"

definition get_xid_range ::
    "('e, 'm) client_base_scheme \<Rightarrow> ('e, 'm) client_base_scheme \<times> xc_misc_reply response" where
  "get_xid_range st =
     (let off = current_offset st;
          range_size = min (remaining_ids st) 65536;
          start_id = resource_id_base st OR (off AND RESOURCE_ID_MASK)
      in (st\<lparr>next_xid := resource_id_base st OR ((off + range_size) AND RESOURCE_ID_MASK)\<rparr>,
          Reply (GetXIDRangeReply start_id range_size)))"

text \<open>\<open>freed_xids.pop()\<close> takes from the end of the vector.\<close>

fun pop_freed :: "nat \<Rightarrow> u32 list \<Rightarrow> u32 list \<Rightarrow> u32 list \<times> u32 list" where
  "pop_freed n ids freed =
     (if length ids < n \<and> freed \<noteq> [] then pop_freed n (ids @ [last freed]) (butlast freed)
      else (ids, freed))"

declare pop_freed.simps [simp del]

text \<open>The parsed \<open>count\<close> is \<open>None\<close> when the request cannot be parsed.\<close>

definition get_xid_list ::
    "u32 option \<Rightarrow> ('e, 'm) client_base_scheme \<Rightarrow>
     ('e, 'm) client_base_scheme \<times> xc_misc_reply response" where
  "get_xid_list req st =
     (let count = (case req of Some c \<Rightarrow> c | None \<Rightarrow> 0);
          ids_to_return = unat (min count 4096);
          (ids, freed) = pop_freed ids_to_return [] (freed_xids st);
          st = st\<lparr>freed_xids := freed\<rparr>
      in if length ids < ids_to_return
         then (let off = current_offset st;
                   sequential_count = min (of_nat (ids_to_return - length ids)) (remaining_ids st);
                   fresh = map (\<lambda>i. resource_id_base st OR ((off + of_nat i) AND RESOURCE_ID_MASK))
                             [0..<unat sequential_count]
               in (st\<lparr>next_xid := resource_id_base st OR
                                  ((off + sequential_count) AND RESOURCE_ID_MASK)\<rparr>,
                   Reply (GetXIDListReply (ids @ fresh))))
         else (st, Reply (GetXIDListReply ids)))"

text \<open>The parser of \<open>GetXIDList\<close> is applied to the request bytes; \<open>data ! 1\<close> is in range
  because the connection only hands over requests of at least four bytes.\<close>

definition handle_xc_misc_request ::
    "(bytes \<Rightarrow> u32 option) \<Rightarrow> bytes \<Rightarrow> u16 \<Rightarrow> ('e, 'm) client_base_scheme \<Rightarrow>
     ('e, 'm) client_base_scheme \<times> xc_misc_reply response" where
  "handle_xc_misc_request parse_list data seq st =
     (let minor = data ! 1
      in if minor = 0 then (st, Reply (GetVersionReply 1 1))
         else if minor = 1 then get_xid_range st
         else if minor = 2 then get_xid_list (parse_list data) st
         else (st, ErrorReply (build_error REQUEST_ERROR seq (ucast minor) 141 (ucast minor))))"

section \<open>Invariant\<close>

definition xid_inv :: "('e, 'm) client_base_scheme \<Rightarrow> bool" where
  "xid_inv st \<longleftrightarrow> resource_id_base st AND RESOURCE_ID_MASK = 0 \<and>
     validate_resource_id st (next_xid st) \<and>
     list_all (validate_resource_id st) (freed_xids st)"

lemma mask_eq: "RESOURCE_ID_MASK = mask 22"
  by (simp add: RESOURCE_ID_MASK_def RESOURCE_ID_BASE_SHIFT_def mask_eq_exp_minus_1)

lemma mask_value: "RESOURCE_ID_MASK = 4194303"
  by (simp add: RESOURCE_ID_MASK_def RESOURCE_ID_BASE_SHIFT_def)

lemma aligned_not_mask:
  "(b :: u32) AND mask n = 0 \<Longrightarrow> b AND NOT (mask n) = b"
proof -
  assume "b AND mask n = 0"
  moreover have "(b AND mask n) OR (b AND NOT (mask n)) = b"
    by (simp only: bit.conj_disj_distrib [symmetric] bit.disj_cancel_right bit.conj_one_right)
  ultimately show ?thesis by simp
qed

lemma base_or_valid:
  assumes "resource_id_base st AND RESOURCE_ID_MASK = 0"
  shows "validate_resource_id st (resource_id_base st OR (x AND RESOURCE_ID_MASK))"
proof -
  have "(resource_id_base st OR (x AND RESOURCE_ID_MASK)) AND NOT RESOURCE_ID_MASK =
        resource_id_base st AND NOT RESOURCE_ID_MASK"
    by (simp add: bit.conj_disj_distrib2 and.assoc)
  then show ?thesis
    using aligned_not_mask [of "resource_id_base st" 22] assms
    by (simp add: validate_resource_id_def mask_eq)
qed

lemma and_mask_eq_self: "(z :: u32) \<le> mask 22 \<Longrightarrow> z AND mask 22 = z"
  unfolding mask_eq_iff by (simp add: word_le_def mask_eq_exp_minus_1)

lemma base_or_inj:
  assumes "(b :: u32) AND mask 22 = 0" "x \<le> mask 22" "y \<le> mask 22" "b OR x = b OR y"
  shows "x = y"
proof -
  have low: "z AND mask 22 = z" if "z \<le> mask 22" for z :: u32
    using that by (simp add: and_mask_eq_self)
  have "(b OR z) AND mask 22 = z" if "z \<le> mask 22" for z
    using assms(1) low [OF that] by (simp add: bit.conj_disj_distrib2)
  then show ?thesis using assms by metis
qed


lemma current_offset_bound: "unat (current_offset st) < 4194304"
proof -
  have "uint (current_offset st) < 2 ^ 22"
    unfolding current_offset_def mask_eq by (rule and_mask_lt_2p)
  then have "nat (uint (current_offset st)) < nat (2 ^ 22)" by (subst nat_mono_iff) simp_all
  then show ?thesis by simp
qed

lemma remaining_ids_unat: "unat (remaining_ids st) = 4194304 - unat (current_offset st)"
proof -
  have le: "current_offset st \<le> 4194303"
    using current_offset_bound [of st] by (simp add: word_le_nat_alt)
  then have "unat (4194303 - current_offset st) = 4194303 - unat (current_offset st)"
    by (simp add: unat_sub)
  moreover from this have "unat (4194303 - current_offset st + 1) = unat (4194303 - current_offset st) + 1"
    by (subst unat_add_lem [THEN iffD1]) simp_all
  ultimately show ?thesis
    using le current_offset_bound [of st]
    unfolding remaining_ids_def saturating_sub_u32_def mask_value by simp
qed

lemma pop_freed_eq:
  "length ids \<le> n \<Longrightarrow>
   pop_freed n ids freed =
     (ids @ take (n - length ids) (rev freed), take (length freed - (n - length ids)) freed)"
proof (induction n ids freed rule: pop_freed.induct)
  case (1 n ids freed)
  show ?case
  proof (cases "length ids < n \<and> freed \<noteq> []")
    case True
    then obtain fs x where f: "freed = fs @ [x]" by (metis append_butlast_last_id)
    obtain k where k: "n - length ids = Suc k" using True by (metis Suc_diff_Suc)
    have "n - length (ids @ [last freed]) = k" using k by simp
    with 1 True k f show ?thesis by (subst pop_freed.simps) (auto simp: Suc_diff_Suc)
  next
    case False
    with 1 show ?thesis by (subst pop_freed.simps) auto
  qed
qed


text \<open>The \<open>i\<close>-th identifier after the current one, for the unused part of the range.\<close>

abbreviation nth_id :: "('e, 'm) client_base_scheme \<Rightarrow> nat \<Rightarrow> u32" where
  "nth_id st i \<equiv> resource_id_base st OR ((current_offset st + of_nat i) AND RESOURCE_ID_MASK)"

lemma offset_plus:
  assumes "k < 4194304 - unat (current_offset st)"
  shows "unat (current_offset st + of_nat k) = unat (current_offset st) + k"
proof -
  have "unat (of_nat k :: u32) = k" using assms by (intro unat_of_nat32) simp
  then show ?thesis using assms by (subst unat_add_lem [THEN iffD1]) simp_all
qed

lemma offset_plus_masked:
  assumes "k < 4194304 - unat (current_offset st)"
  shows "(current_offset st + of_nat k) AND RESOURCE_ID_MASK = current_offset st + of_nat k"
proof -
  have "unat (current_offset st + of_nat k) < 4194304"
    using assms offset_plus [OF assms] by simp
  then have "uint (current_offset st + of_nat k) < 2 ^ 22"
    by (simp add: uint_eq_int_unat del: of_nat_unat)
  then show ?thesis by (simp only: mask_eq mask_eq_iff)
qed

lemma nth_id_inj:
  assumes "resource_id_base st AND RESOURCE_ID_MASK = 0"
  shows "inj_on (nth_id st) {..<4194304 - unat (current_offset st)}"
proof (rule inj_onI, goal_cases)
  case (1 i j)
  let ?o = "current_offset st"
  have i: "i < 4194304 - unat ?o" and j: "j < 4194304 - unat ?o" using 1(1,2) by auto
  have "?o + of_nat i = ?o + of_nat j"
  proof (rule base_or_inj)
    show "resource_id_base st AND mask 22 = 0" using assms by (simp only: mask_eq)
    show "?o + of_nat i \<le> mask 22" "?o + of_nat j \<le> mask 22"
      using i j offset_plus [OF i] offset_plus [OF j]
      by (simp_all add: word_le_nat_alt mask_eq_exp_minus_1)
    show "resource_id_base st OR (?o + of_nat i) = resource_id_base st OR (?o + of_nat j)"
      using 1(3) by (simp only: offset_plus_masked [OF i] offset_plus_masked [OF j])
  qed
  then have "unat (?o + of_nat i) = unat (?o + of_nat j)" by simp
  then show ?case using offset_plus [OF i] offset_plus [OF j] by simp
qed

lemma xid_inv_next:
  "xid_inv st \<Longrightarrow> set freed \<subseteq> set (freed_xids st) \<Longrightarrow>
   xid_inv (st\<lparr>freed_xids := freed, next_xid := resource_id_base st OR (x AND RESOURCE_ID_MASK)\<rparr>)"
  using base_or_valid [of st x]
  by (auto simp: xid_inv_def validate_resource_id_def list_all_iff)

lemma xid_inv_freed:
  "xid_inv st \<Longrightarrow> set freed \<subseteq> set (freed_xids st) \<Longrightarrow> xid_inv (st\<lparr>freed_xids := freed\<rparr>)"
  by (auto simp: xid_inv_def validate_resource_id_def list_all_iff)

lemma recycle_xid_inv: "xid_inv st \<Longrightarrow> xid_inv (recycle_xid i st)"
  by (auto simp: xid_inv_def recycle_xid_def validate_resource_id_def list_all_iff)

text \<open>The reply of \<open>GetXIDList\<close> as one expression.\<close>

lemma get_xid_list_eq:
  assumes "n = unat (min c (4096 :: u32))"
  shows "get_xid_list (Some c) st =
    (let k = min (n - length (freed_xids st)) (4194304 - unat (current_offset st));
         st' = st\<lparr>freed_xids := take (length (freed_xids st) - n) (freed_xids st)\<rparr>
     in (if length (freed_xids st) < n
         then st'\<lparr>next_xid := resource_id_base st OR ((current_offset st + of_nat k) AND RESOURCE_ID_MASK)\<rparr>
         else st',
         Reply (GetXIDListReply (take (n) (rev (freed_xids st)) @ map (nth_id st) [0..<k]))))"
proof -
  have le: "n \<le> 4096" unfolding assms by (simp add: min_def word_le_nat_alt)
  define m where "m = n - length (freed_xids st)"
  have um: "unat (of_nat m :: u32) = m" unfolding m_def using le by (intro unat_of_nat32) simp
  have sq: "unat (min (of_nat m) (remaining_ids st)) = min m (4194304 - unat (current_offset st))"
    by (simp add: min_def word_le_nat_alt um remaining_ids_unat)
  have sq': "min (of_nat m) (remaining_ids st) = of_nat (min m (4194304 - unat (current_offset st)))"
    by (simp flip: sq)
  have off: "current_offset (st\<lparr>freed_xids := f\<rparr>) = current_offset st"
    and rem: "remaining_ids (st\<lparr>freed_xids := f\<rparr>) = remaining_ids st" for f
    by (simp_all add: current_offset_def remaining_ids_def)
  show ?thesis
  proof (cases "length (freed_xids st) < n")
    case True
    then have t: "take (n) (rev (freed_xids st)) = rev (freed_xids st)" by simp
    show ?thesis
      unfolding get_xid_list_def Let_def option.case assms [symmetric]
      using True by (simp add: pop_freed_eq t m_def [symmetric] off rem sq') (simp add: sq sq' [symmetric])
  next
    case False
    then show ?thesis
      unfolding get_xid_list_def Let_def option.case assms [symmetric] by (simp add: pop_freed_eq)
  qed
qed


lemma base_or_plus:
  assumes "resource_id_base st AND RESOURCE_ID_MASK = 0"
  shows "resource_id_base st OR (x AND RESOURCE_ID_MASK) = resource_id_base st + (x AND RESOURCE_ID_MASK)"
proof -
  have "resource_id_base st AND (x AND RESOURCE_ID_MASK) = 0"
    using assms by (metis and.left_commute and_zero_eq)
  then show ?thesis
    by (simp add: disjunctive_add_eq_or)
qed

lemma nth_id_eq:
  assumes "resource_id_base st AND RESOURCE_ID_MASK = 0" "k < 4194304 - unat (current_offset st)"
  shows "nth_id st k = nth_id st 0 + of_nat k"
proof -
  have 0: "0 < 4194304 - unat (current_offset st)" using assms(2) by simp
  show ?thesis
    unfolding base_or_plus [OF assms(1)]
    unfolding offset_plus_masked [OF assms(2)] offset_plus_masked [OF 0] by simp
qed

section \<open>Properties\<close>

text \<open>\<open>GetXIDList\<close> returns recycled identifiers first, most recently freed first, then
  unused ones. All are in the client's range, the unused ones are pairwise different, and there
  are as many as asked for (at most 4096) unless the range is exhausted; the identifiers left
  for later requests are still valid.\<close>

theorem xid_list_valid_and_fresh:
  assumes inv: "xid_inv st"
    and run: "get_xid_list (Some c) st = (st', Reply (GetXIDListReply ids))"
  shows "list_all (validate_resource_id st) ids \<and>
    length ids = min (unat (min c 4096))
                     (length (freed_xids st) + (4194304 - unat (current_offset st))) \<and>
    take (unat (min c 4096)) (rev (freed_xids st)) = take (length (freed_xids st)) ids \<and>
    distinct (drop (length (freed_xids st)) ids) \<and>
    length (freed_xids st') = length (freed_xids st) - unat (min c 4096) \<and>
    xid_inv st'"
proof -
  let ?n = "unat (min c 4096)" and ?f = "freed_xids st" and ?r = "4194304 - unat (current_offset st)"
  let ?k = "min (?n - length ?f) ?r"
  note eq = get_xid_list_eq [OF refl, of c st, unfolded run Let_def]
  have ids: "ids = take ?n (rev ?f) @ map (nth_id st) [0..<?k]" using eq by simp
  have base: "resource_id_base st AND RESOURCE_ID_MASK = 0" using inv by (simp add: xid_inv_def)
  have "list_all (validate_resource_id st) ids"
    using inv base_or_valid [OF base] unfolding ids
    by (auto simp: list_all_iff xid_inv_def dest: in_set_takeD)
  moreover have "distinct (drop (length ?f) ids)"
  proof (cases "length ?f \<le> ?n")
    case True
    have "inj_on (nth_id st) (set [0..<?k])"
      by (rule inj_on_subset [OF nth_id_inj [OF base]]) auto
    with True show ?thesis unfolding ids by (simp add: distinct_map)
  qed (simp add: ids)
  moreover have "length (freed_xids st') = length ?f - ?n" "xid_inv st'"
    using eq xid_inv_next [OF inv, of "take (length ?f - ?n) ?f"]
      xid_inv_freed [OF inv, of "take (length ?f - ?n) ?f"]
    by (auto simp: set_take_subset split: if_splits)
  ultimately show ?thesis unfolding ids by (auto simp: min_def)
qed

theorem xid_list_valid_and_fresh_witness:
  "let st = \<lparr>resource_id_base = 0x400000, next_xid = 0x400000, freed_xids = [0x400007],
             msb_first = False, pending_events = [] :: unit list\<rparr>
   in snd (get_xid_list (Some 3) st) = Reply (GetXIDListReply [0x400007, 0x400000, 0x400001]) \<and>
      distinct (drop 1 [0x400007, 0x400000, 0x400001 :: u32]) \<and>
      xid_inv (fst (get_xid_list (Some 3) st))"
proof -
  define st where "st = \<lparr>resource_id_base = 0x400000, next_xid = 0x400000, freed_xids = [0x400007],
    msb_first = False, pending_events = [] :: unit list\<rparr>"
  have 1: "xid_inv st"
    by (simp add: xid_inv_def st_def validate_resource_id_def RESOURCE_ID_MASK_def RESOURCE_ID_BASE_SHIFT_def)
  have 2: "snd (get_xid_list (Some 3) st) = Reply (GetXIDListReply [0x400007, 0x400000, 0x400001])"
    unfolding st_def by code_simp
  then have "get_xid_list (Some 3) st =
      (fst (get_xid_list (Some 3) st), Reply (GetXIDListReply [0x400007, 0x400000, 0x400001]))"
    by (metis prod.collapse)
  from xid_list_valid_and_fresh [OF 1 this] 2 show ?thesis by (simp add: st_def Let_def)
qed

text \<open>\<open>GetXIDRange\<close> returns a non-empty run of at most 65536 consecutive identifiers, all
  in the client's range, and the next request continues behind it (or at the start of the range
  once it is used up).\<close>

theorem xid_range_contiguous:
  assumes inv: "xid_inv st" and run: "get_xid_range st = (st', Reply (GetXIDRangeReply s k))"
  shows "0 < unat k \<and> unat k \<le> 65536 \<and>
    (\<forall>i < unat k. validate_resource_id st (s + of_nat i)) \<and>
    current_offset st' = (if unat k = 4194304 - unat (current_offset st) then 0
                          else current_offset st + k) \<and>
    xid_inv st'"
proof -
  let ?off = "current_offset st"
  have base: "resource_id_base st AND RESOURCE_ID_MASK = 0" using inv by (simp add: xid_inv_def)
  have k: "k = min (remaining_ids st) 65536" and s: "s = nth_id st 0"
    and st': "st' = st\<lparr>next_xid := resource_id_base st OR ((?off + k) AND RESOURCE_ID_MASK)\<rparr>"
    using run by (auto simp: get_xid_range_def Let_def)
  have uk: "unat k = min (4194304 - unat ?off) 65536"
    unfolding k by (simp add: min_def word_le_nat_alt remaining_ids_unat)
  have valid: "validate_resource_id st (s + of_nat i)" if "i < unat k" for i
  proof -
    have "i < 4194304 - unat ?off" using that uk by simp
    then have "s + of_nat i = nth_id st i" unfolding s using nth_id_eq [OF base] by metis
    then show ?thesis using base_or_valid [OF base] by metis
  qed
  have ko: "k = of_nat (unat k)" by simp
  have off': "current_offset st' = (?off + k) AND RESOURCE_ID_MASK"
    unfolding st' current_offset_def by (simp add: base_or_plus [OF base] and.assoc)
  have nxt: "current_offset st' = (if unat k = 4194304 - unat ?off then 0 else ?off + k)"
  proof (cases "unat k = 4194304 - unat ?off")
    case True
    have "?off + k = of_nat (unat ?off) + of_nat (unat k)" by simp
    also have "\<dots> = of_nat 4194304"
      unfolding of_nat_add [symmetric] True using current_offset_bound [of st] by simp
    finally have "?off + k = 4194304" by simp
    with True off' show ?thesis by (simp add: mask_value)
  next
    case False
    then have "unat k < 4194304 - unat ?off" using uk by simp
    from offset_plus_masked [OF this] off' False show ?thesis by simp
  qed
  have "0 < unat k" using uk current_offset_bound [of st] by simp
  moreover have "xid_inv st'"
    using xid_inv_next [OF inv, of "freed_xids st"] unfolding st' by simp
  ultimately show ?thesis using uk valid nxt by auto
qed

theorem xid_range_contiguous_witness:
  "let st = \<lparr>resource_id_base = 0x400000, next_xid = 0x400000, freed_xids = [],
             msb_first = False, pending_events = [] :: unit list\<rparr>
   in get_xid_range st = (st\<lparr>next_xid := 0x410000\<rparr>, Reply (GetXIDRangeReply 0x400000 0x10000)) \<and>
      xid_inv (st\<lparr>next_xid := 0x410000\<rparr>)"
proof -
  define st where "st = \<lparr>resource_id_base = 0x400000, next_xid = 0x400000, freed_xids = [],
    msb_first = False, pending_events = [] :: unit list\<rparr>"
  have 1: "xid_inv st"
    by (simp add: xid_inv_def st_def validate_resource_id_def RESOURCE_ID_MASK_def RESOURCE_ID_BASE_SHIFT_def)
  have 2: "get_xid_range st = (st\<lparr>next_xid := 0x410000\<rparr>, Reply (GetXIDRangeReply 0x400000 0x10000))"
    unfolding st_def by code_simp
  from xid_range_contiguous [OF 1 2] 2 show ?thesis by (simp add: st_def Let_def)
qed

end
