(* ===== verification/Sync.thy ===== *)
theory Sync
  imports Client "HOL-Library.AList"
begin

text \<open>
  The SYNC extension (\<open>handlers/sync/\<close>): counters, alarms, fences, priorities and the blocking
  requests \<open>Await\<close> and \<open>AwaitFence\<close>, with the per-frame update of the SERVERTIME counter
  (\<open>connection/mod.rs\<close>) and the counter update of a resize (\<open>connection/resize.rs\<close>).

  Hash maps that the code only looks up are maps; \<open>alarms\<close>, which the code iterates over, is an
  association list whose order stands for the iteration order of the hash map. The 64-bit
  values are \<open>64 word\<close> read with \<open>sint\<close>. A clock reading is an argument of the handler that
  takes it; \<open>Await\<close> reads the clock once per trigger, so its clock is a function of the position.
\<close>

unbundle bit_operations_syntax

section \<open>Data\<close>

record int64 =
  hi :: i32
  lo :: u32

text \<open>\<open>((hi as i64) << 32) | (lo as i64)\<close>\<close>

definition i64_of :: "i32 \<Rightarrow> u32 \<Rightarrow> i64" where
  "i64_of h l = push_bit 32 (scast h) OR ucast l"

definition i64_hi :: "i64 \<Rightarrow> i32" where
  "i64_hi v = ucast (signed_drop_bit 32 v)"

definition i64_lo :: "i64 \<Rightarrow> u32" where
  "i64_lo v = ucast v"

record sync_counter =
  value_hi :: i32
  value_lo :: u32
  is_system :: bool

definition value_i64 :: "sync_counter \<Rightarrow> i64" where
  "value_i64 c = i64_of (value_hi c) (value_lo c)"

definition set_from_i64 :: "i64 \<Rightarrow> sync_counter \<Rightarrow> sync_counter" where
  "set_from_i64 v c = c\<lparr>value_hi := i64_hi v, value_lo := i64_lo v\<rparr>"

record sync_alarm =
  alarm_counter :: u32
  alarm_value_type :: u8
  alarm_value_hi :: i32
  alarm_value_lo :: u32
  alarm_test_type :: u8
  alarm_delta_hi :: i32
  alarm_delta_lo :: u32
  alarm_events :: bool
  alarm_state :: u8

record fence_state =
  fence_id :: u32
  triggered :: bool
  initially_triggered :: bool
  fence_fd :: i32

record await_trigger =
  counter_id :: u32
  value_type :: u32
  wait_value :: i64
  test_type :: u32
  event_threshold :: i64

record pending_await =
  triggers :: "await_trigger list"
  await_seq :: u16

record pending_fence_await =
  fence_ids :: "u32 list"
  fence_await_seq :: u16

record sync_state =
  counters :: "u32 \<rightharpoonup> sync_counter"
  alarms :: "(u32 \<times> sync_alarm) list"
  fences :: "u32 \<rightharpoonup> fence_state"
  priorities :: "u32 \<rightharpoonup> i32"
  pending_awaits :: "pending_await list"
  pending_fence_awaits :: "pending_fence_await list"
  blocked :: bool

definition sync_state_default :: sync_state where
  "sync_state_default = \<lparr>counters = Map.empty, alarms = [], fences = Map.empty,
     priorities = Map.empty, pending_awaits = [], pending_fence_awaits = [], blocked = False\<rparr>"

definition sync_state_new :: sync_state where
  "sync_state_new = sync_state_default
     \<lparr>counters := [1 \<mapsto> \<lparr>value_hi = 0, value_lo = 0, is_system = True\<rparr>]\<rparr>"

text \<open>Protocol constants of \<open>TESTTYPE\<close> and \<open>ALARMSTATE\<close>.\<close>

abbreviation (input) "POSITIVE_TRANSITION \<equiv> 0"
abbreviation (input) "NEGATIVE_TRANSITION \<equiv> 1"
abbreviation (input) "POSITIVE_COMPARISON \<equiv> 2"
abbreviation (input) "NEGATIVE_COMPARISON \<equiv> 3"
abbreviation (input) ACTIVE :: u8 where "ACTIVE \<equiv> 0"
abbreviation (input) INACTIVE :: u8 where "INACTIVE \<equiv> 1"
abbreviation SYNC_FIRST_EVENT :: u8 where "SYNC_FIRST_EVENT \<equiv> 83"

record alarm_notify_event =
  response_type :: u8
  kind :: u8
  event_sequence :: u16
  alarm :: u32
  counter_value :: int64
  alarm_value :: int64
  timestamp :: u32
  event_state :: u8

section \<open>Alarms and pending requests\<close>

abbreviation alarm_threshold :: "sync_alarm \<Rightarrow> i64" where
  "alarm_threshold a \<equiv> i64_of (alarm_value_hi a) (alarm_value_lo a)"

abbreviation alarm_delta :: "sync_alarm \<Rightarrow> i64" where
  "alarm_delta a \<equiv> i64_of (alarm_delta_hi a) (alarm_delta_lo a)"

definition alarm_test :: "sync_alarm \<Rightarrow> i64 \<Rightarrow> i64 \<Rightarrow> bool" where
  "alarm_test a old_value new_value =
     (let threshold = alarm_threshold a
      in if alarm_test_type a = POSITIVE_TRANSITION
         then sint old_value < sint threshold \<and> sint new_value \<ge> sint threshold
         else if alarm_test_type a = NEGATIVE_TRANSITION
         then sint old_value > sint threshold \<and> sint new_value \<le> sint threshold
         else if alarm_test_type a = POSITIVE_COMPARISON then sint new_value \<ge> sint threshold
         else if alarm_test_type a = NEGATIVE_COMPARISON then sint new_value \<le> sint threshold
         else False)"

definition alarm_fires :: "u32 \<Rightarrow> i64 \<Rightarrow> i64 \<Rightarrow> sync_alarm \<Rightarrow> bool" where
  "alarm_fires cid old_value new_value a \<longleftrightarrow>
     (alarm_counter a = cid \<and> alarm_state a = ACTIVE \<and> alarm_events a) \<and>
     alarm_test a old_value new_value"

definition alarm_notify :: "u16 \<Rightarrow> i64 \<Rightarrow> u32 \<Rightarrow> sync_alarm \<Rightarrow> alarm_notify_event" where
  "alarm_notify seq new_value alarm_id a =
     \<lparr>response_type = SYNC_FIRST_EVENT, kind = 0, event_sequence = seq, alarm = alarm_id,
      counter_value = \<lparr>hi = i64_hi new_value, lo = i64_lo new_value\<rparr>,
      alarm_value = \<lparr>hi = alarm_value_hi a, lo = alarm_value_lo a\<rparr>,
      timestamp = 0, event_state = alarm_state a\<rparr>"

definition alarm_advance :: "sync_alarm \<Rightarrow> sync_alarm" where
  "alarm_advance a =
     (let delta = alarm_delta a
      in if delta \<noteq> 0
         then (let new_threshold = alarm_threshold a + delta
               in a\<lparr>alarm_value_hi := i64_hi new_threshold, alarm_value_lo := i64_lo new_threshold\<rparr>)
         else a\<lparr>alarm_state := INACTIVE\<rparr>)"

text \<open>The loop over the identifiers collected in \<open>triggered\<close>; a missing alarm ends it.\<close>

fun fire_alarms ::
    "u16 \<Rightarrow> i64 \<Rightarrow> u32 list \<Rightarrow> (u32 \<times> sync_alarm) list \<times> alarm_notify_event list \<Rightarrow>
     (u32 \<times> sync_alarm) list \<times> alarm_notify_event list" where
  "fire_alarms seq new_value [] (als, evs) = (als, evs)"
| "fire_alarms seq new_value (i # is) (als, evs) =
     (case map_of als i of
        None \<Rightarrow> (als, evs)
      | Some a \<Rightarrow> fire_alarms seq new_value is
                   (AList.update i (alarm_advance a) als, evs @ [alarm_notify seq new_value i a]))"

definition check_alarms ::
    "(u32 \<times> sync_alarm) list \<Rightarrow> u32 \<Rightarrow> i64 \<Rightarrow> i64 \<Rightarrow> alarm_notify_event list \<Rightarrow> u16 \<Rightarrow>
     (u32 \<times> sync_alarm) list \<times> alarm_notify_event list" where
  "check_alarms als cid old_value new_value evs seq =
     fire_alarms seq new_value
       (map fst (filter (\<lambda>(_, a). alarm_fires cid old_value new_value a) als)) (als, evs)"

definition is_trigger_satisfied :: "await_trigger \<Rightarrow> i64 \<Rightarrow> bool" where
  "is_trigger_satisfied t current_value =
     (if test_type t = POSITIVE_TRANSITION \<or> test_type t = POSITIVE_COMPARISON
      then sint current_value \<ge> sint (wait_value t)
      else if test_type t = NEGATIVE_TRANSITION \<or> test_type t = NEGATIVE_COMPARISON
      then sint current_value \<le> sint (wait_value t)
      else True)"

definition current_value :: "(u32 \<rightharpoonup> sync_counter) \<Rightarrow> u32 \<Rightarrow> u32 \<Rightarrow> i64" where
  "current_value cs ts cid =
     (if cid = 1 then ucast ts
      else case cs cid of Some c \<Rightarrow> value_i64 c | None \<Rightarrow> 0)"

definition await_satisfied :: "(u32 \<rightharpoonup> sync_counter) \<Rightarrow> u32 \<Rightarrow> pending_await \<Rightarrow> bool" where
  "await_satisfied cs ts pa =
     list_ex (\<lambda>t. is_trigger_satisfied t (current_value cs ts (counter_id t))) (triggers pa)"

definition check_pending_awaits_ext :: "u32 \<Rightarrow> sync_state \<Rightarrow> sync_state" where
  "check_pending_awaits_ext ts s =
     (if pending_awaits s = [] then s
      else
        (let unblocked = list_ex (await_satisfied (counters s) ts) (pending_awaits s);
             s = s\<lparr>pending_awaits :=
                     filter (\<lambda>pa. \<not> await_satisfied (counters s) ts pa) (pending_awaits s)\<rparr>
         in if unblocked \<and> pending_awaits s = [] \<and> pending_fence_awaits s = []
            then s\<lparr>blocked := False\<rparr> else s))"

definition fence_triggered :: "(u32 \<rightharpoonup> fence_state) \<Rightarrow> u32 \<Rightarrow> bool" where
  "fence_triggered fs fid = (case fs fid of Some f \<Rightarrow> triggered f | None \<Rightarrow> False)"

definition fence_await_satisfied :: "(u32 \<rightharpoonup> fence_state) \<Rightarrow> pending_fence_await \<Rightarrow> bool" where
  "fence_await_satisfied fs pfa = list_ex (fence_triggered fs) (fence_ids pfa)"

definition check_pending_fence_awaits_ext :: "sync_state \<Rightarrow> sync_state" where
  "check_pending_fence_awaits_ext s =
     (if pending_fence_awaits s = [] then s
      else
        (let unblocked = list_ex (fence_await_satisfied (fences s)) (pending_fence_awaits s);
             s = s\<lparr>pending_fence_awaits :=
                     filter (\<lambda>p. \<not> fence_await_satisfied (fences s) p) (pending_fence_awaits s)\<rparr>
         in if unblocked \<and> pending_fence_awaits s = [] \<and> pending_awaits s = []
            then s\<lparr>blocked := False\<rparr> else s))"


section \<open>Request handlers\<close>

record sync_client = "alarm_notify_event client_base" +
  sync_st :: sync_state

abbreviation upd_sync :: "(sync_state \<Rightarrow> sync_state) \<Rightarrow> sync_client \<Rightarrow> sync_client" where
  "upd_sync f st \<equiv> st\<lparr>sync_st := f (sync_st st)\<rparr>"

record sync_trigger =
  trigger_counter :: u32
  trigger_wait_type :: u32
  trigger_wait_value :: int64
  trigger_test_type :: u32

record wait_condition =
  wc_trigger :: sync_trigger
  wc_event_threshold :: int64

text \<open>The optional fields of \<open>CreateAlarm\<close> and \<open>ChangeAlarm\<close>.\<close>

record alarm_values =
  av_counter :: "u32 option"
  av_value_type :: "u32 option"
  av_value :: "int64 option"
  av_test_type :: "u32 option"
  av_delta :: "int64 option"
  av_events :: "u32 option"

datatype sync_reply =
    InitializeReply u8 u8
  | ListSystemCountersReply "(u32 \<times> int64 \<times> string) list"
  | QueryCounterReply int64
  | QueryAlarmReply sync_trigger int64 bool u8
  | GetPriorityReply i32
  | QueryFenceReply bool

type_synonym sync_result = "sync_client \<times> sync_reply response"

definition list_system_counters :: "sync_client \<Rightarrow> sync_result" where
  "list_system_counters st =
     (st, Reply (ListSystemCountersReply [(1, \<lparr>hi = 0, lo = 1\<rparr>, ''SERVERTIME'')]))"

definition create_counter :: "(u32 \<times> int64) option \<Rightarrow> u16 \<Rightarrow> sync_client \<Rightarrow> sync_result" where
  "create_counter req seq st = parse_minor req st seq 134 2 (\<lambda>(cid, initial_value).
     (upd_sync (counters_update (\<lambda>cs. cs(cid \<mapsto>
        \<lparr>value_hi = hi initial_value, value_lo = lo initial_value, is_system = False\<rparr>))) st,
      NoReply))"

text \<open>The part shared by \<open>SetCounter\<close> and \<open>ChangeCounter\<close>: alarms, then pending awaits.\<close>

definition counter_changed ::
    "u32 \<Rightarrow> i64 \<Rightarrow> i64 \<Rightarrow> u16 \<Rightarrow> u32 \<Rightarrow> sync_client \<Rightarrow> sync_client" where
  "counter_changed cid old_value new_value seq ts st =
     (let (als, evs) = check_alarms (alarms (sync_st st)) cid old_value new_value
                         (pending_events st) seq;
          st = st\<lparr>pending_events := evs, sync_st := (sync_st st)\<lparr>alarms := als\<rparr>\<rparr>
      in upd_sync (check_pending_awaits_ext ts) st)"

definition stored_value :: "sync_state \<Rightarrow> u32 \<Rightarrow> i64" where
  "stored_value s cid = (case counters s cid of Some c \<Rightarrow> value_i64 c | None \<Rightarrow> 0)"

definition set_counter ::
    "(u32 \<times> int64) option \<Rightarrow> u16 \<Rightarrow> u32 \<Rightarrow> sync_client \<Rightarrow> sync_result" where
  "set_counter req seq ts st = parse_minor req st seq 134 3 (\<lambda>(cid, v).
     (let old_value = stored_value (sync_st st) cid;
          st = upd_sync (counters_update (\<lambda>cs. case cs cid of
                 Some c \<Rightarrow> cs(cid \<mapsto> c\<lparr>value_hi := hi v, value_lo := lo v\<rparr>)
               | None \<Rightarrow> cs)) st;
          new_value = i64_of (hi v) (lo v)
      in (counter_changed cid old_value new_value seq ts st, NoReply)))"

definition change_counter ::
    "(u32 \<times> int64) option \<Rightarrow> u16 \<Rightarrow> u32 \<Rightarrow> sync_client \<Rightarrow> sync_result" where
  "change_counter req seq ts st = parse_minor req st seq 134 4 (\<lambda>(cid, amount).
     (let delta = i64_of (hi amount) (lo amount);
          old_value = stored_value (sync_st st) cid;
          new_value = old_value + delta;
          st = upd_sync (counters_update (\<lambda>cs. case cs cid of
                 Some c \<Rightarrow> cs(cid \<mapsto> set_from_i64 new_value c)
               | None \<Rightarrow> cs)) st
      in (counter_changed cid old_value new_value seq ts st, NoReply)))"

definition query_counter :: "u32 option \<Rightarrow> u16 \<Rightarrow> u32 \<Rightarrow> sync_client \<Rightarrow> sync_result" where
  "query_counter req seq ts st = parse_minor req st seq 134 5 (\<lambda>cid.
     if cid = 1 then (st, Reply (QueryCounterReply \<lparr>hi = 0, lo = ts\<rparr>))
     else case counters (sync_st st) cid of
       Some c \<Rightarrow> (st, Reply (QueryCounterReply \<lparr>hi = value_hi c, lo = value_lo c\<rparr>))
     | None \<Rightarrow> (st, ErrorReply (build_error VALUE_ERROR seq cid 134 5)))"

definition destroy_counter :: "u32 option \<Rightarrow> u16 \<Rightarrow> sync_client \<Rightarrow> sync_result" where
  "destroy_counter req seq st = parse_minor req st seq 134 6 (\<lambda>cid.
     (let st = upd_sync (counters_update (\<lambda>cs. cs(cid := None))) st;
          st = recycle_xid cid st;
          st = upd_sync (alarms_update (map (\<lambda>(i, a).
                 (i, if alarm_counter a = cid then a\<lparr>alarm_state := INACTIVE\<rparr> else a)))) st;
          had_pending = (pending_awaits (sync_st st) \<noteq> []);
          st = upd_sync (pending_awaits_update (filter (\<lambda>pa.
                 \<not> list_ex (\<lambda>t. counter_id t = cid) (triggers pa)))) st
      in (if had_pending \<and> pending_awaits (sync_st st) = [] \<and> pending_fence_awaits (sync_st st) = []
          then upd_sync (blocked_update (\<lambda>_. False)) st else st,
          NoReply)))"

definition new_alarm :: "alarm_values \<Rightarrow> sync_alarm" where
  "new_alarm vl =
     \<lparr>alarm_counter = (case av_counter vl of Some c \<Rightarrow> c | None \<Rightarrow> 0),
      alarm_value_type = (case av_value_type vl of Some v \<Rightarrow> ucast v | None \<Rightarrow> 0),
      alarm_value_hi = (case av_value vl of Some v \<Rightarrow> hi v | None \<Rightarrow> 0),
      alarm_value_lo = (case av_value vl of Some v \<Rightarrow> lo v | None \<Rightarrow> 0),
      alarm_test_type = (case av_test_type vl of Some v \<Rightarrow> ucast v | None \<Rightarrow> POSITIVE_TRANSITION),
      alarm_delta_hi = (case av_delta vl of Some v \<Rightarrow> hi v | None \<Rightarrow> 0),
      alarm_delta_lo = (case av_delta vl of Some v \<Rightarrow> lo v | None \<Rightarrow> 1),
      alarm_events = (case av_events vl of Some v \<Rightarrow> v \<noteq> 0 | None \<Rightarrow> True),
      alarm_state = ACTIVE\<rparr>"

definition create_alarm :: "(u32 \<times> alarm_values) option \<Rightarrow> u16 \<Rightarrow> sync_client \<Rightarrow> sync_result" where
  "create_alarm req seq st = parse_minor req st seq 134 8 (\<lambda>(aid, vl).
     (upd_sync (alarms_update (AList.update aid (new_alarm vl))) st, NoReply))"

definition changed_alarm :: "alarm_values \<Rightarrow> sync_alarm \<Rightarrow> sync_alarm" where
  "changed_alarm vl a =
     (let a = (case av_counter vl of Some c \<Rightarrow> a\<lparr>alarm_counter := c\<rparr> | None \<Rightarrow> a);
          a = (case av_value_type vl of Some v \<Rightarrow> a\<lparr>alarm_value_type := ucast v\<rparr> | None \<Rightarrow> a);
          a = (case av_value vl of Some v \<Rightarrow> a\<lparr>alarm_value_hi := hi v, alarm_value_lo := lo v\<rparr>
                                 | None \<Rightarrow> a);
          a = (case av_test_type vl of Some v \<Rightarrow> a\<lparr>alarm_test_type := ucast v\<rparr> | None \<Rightarrow> a);
          a = (case av_delta vl of Some v \<Rightarrow> a\<lparr>alarm_delta_hi := hi v, alarm_delta_lo := lo v\<rparr>
                                 | None \<Rightarrow> a);
          a = (case av_events vl of Some v \<Rightarrow> a\<lparr>alarm_events := (v \<noteq> 0)\<rparr> | None \<Rightarrow> a)
      in if alarm_state a = INACTIVE then a\<lparr>alarm_state := ACTIVE\<rparr> else a)"

definition change_alarm :: "(u32 \<times> alarm_values) option \<Rightarrow> u16 \<Rightarrow> sync_client \<Rightarrow> sync_result" where
  "change_alarm req seq st = parse_minor req st seq 134 9 (\<lambda>(aid, vl).
     (upd_sync (alarms_update (\<lambda>als. case map_of als aid of
        Some a \<Rightarrow> AList.update aid (changed_alarm vl a) als | None \<Rightarrow> als)) st, NoReply))"

definition query_alarm :: "u32 option \<Rightarrow> u16 \<Rightarrow> sync_client \<Rightarrow> sync_result" where
  "query_alarm req seq st = parse_minor req st seq 134 10 (\<lambda>aid.
     case map_of (alarms (sync_st st)) aid of
       Some a \<Rightarrow> (st, Reply (QueryAlarmReply
         \<lparr>trigger_counter = alarm_counter a, trigger_wait_type = ucast (alarm_value_type a),
          trigger_wait_value = \<lparr>hi = alarm_value_hi a, lo = alarm_value_lo a\<rparr>,
          trigger_test_type = ucast (alarm_test_type a)\<rparr>
         \<lparr>hi = alarm_delta_hi a, lo = alarm_delta_lo a\<rparr> (alarm_events a) (alarm_state a)))
     | None \<Rightarrow> (st, Reply (QueryAlarmReply
         \<lparr>trigger_counter = 0, trigger_wait_type = 0, trigger_wait_value = \<lparr>hi = 0, lo = 0\<rparr>,
          trigger_test_type = 0\<rparr> \<lparr>hi = 0, lo = 0\<rparr> False INACTIVE)))"

definition destroy_alarm :: "u32 option \<Rightarrow> u16 \<Rightarrow> sync_client \<Rightarrow> sync_result" where
  "destroy_alarm req seq st = parse_minor req st seq 134 11 (\<lambda>aid.
     (recycle_xid aid (upd_sync (alarms_update (AList.delete aid)) st), NoReply))"

text \<open>The loop of \<open>Await\<close> over the wait list, with the clock reading of each position.\<close>

fun await_loop ::
    "(u32 \<rightharpoonup> sync_counter) \<Rightarrow> (nat \<Rightarrow> u32) \<Rightarrow> wait_condition list \<Rightarrow> bool \<Rightarrow> await_trigger list \<Rightarrow>
     bool \<times> await_trigger list" where
  "await_loop cs clock [] any_satisfied ts = (any_satisfied, ts)"
| "await_loop cs clock (wc # wcs) any_satisfied ts =
     (let tr = wc_trigger wc;
          current = current_value cs (clock (length ts)) (trigger_counter tr);
          trig = \<lparr>counter_id = trigger_counter tr, value_type = trigger_wait_type tr,
                  wait_value = i64_of (hi (trigger_wait_value tr)) (lo (trigger_wait_value tr)),
                  test_type = trigger_test_type tr,
                  event_threshold = i64_of (hi (wc_event_threshold wc)) (lo (wc_event_threshold wc))\<rparr>
      in await_loop cs clock wcs (any_satisfied \<or> is_trigger_satisfied trig current) (ts @ [trig]))"

definition await_op ::
    "wait_condition list option \<Rightarrow> u16 \<Rightarrow> (nat \<Rightarrow> u32) \<Rightarrow> sync_client \<Rightarrow> sync_result" where
  "await_op req seq clock st = parse_minor req st seq 134 7 (\<lambda>wait_list.
     (let (any_satisfied, ts) = await_loop (counters (sync_st st)) clock wait_list False []
      in if any_satisfied \<or> ts = [] then (st, NoReply)
         else (upd_sync (\<lambda>s. s\<lparr>pending_awaits := pending_awaits s @ [\<lparr>triggers = ts, await_seq = seq\<rparr>],
                                blocked := True\<rparr>) st, NoReply)))"

definition set_priority :: "(u32 \<times> i32) option \<Rightarrow> u16 \<Rightarrow> sync_client \<Rightarrow> sync_result" where
  "set_priority req seq st = parse_minor req st seq 134 12 (\<lambda>(rid, priority).
     (upd_sync (priorities_update (\<lambda>p. p(rid \<mapsto> priority))) st, NoReply))"

definition get_priority :: "u32 option \<Rightarrow> u16 \<Rightarrow> sync_client \<Rightarrow> sync_result" where
  "get_priority req seq st = parse_minor req st seq 134 13 (\<lambda>rid.
     (st, Reply (GetPriorityReply (case priorities (sync_st st) rid of Some p \<Rightarrow> p | None \<Rightarrow> 0))))"

definition create_fence :: "(u32 \<times> bool) option \<Rightarrow> u16 \<Rightarrow> sync_client \<Rightarrow> sync_result" where
  "create_fence req seq st = parse_minor req st seq 134 14 (\<lambda>(fid, init).
     (upd_sync (fences_update (\<lambda>fs. fs(fid \<mapsto>
        \<lparr>fence_id = fid, triggered = init, initially_triggered = init, fence_fd = - 1\<rparr>))) st,
      NoReply))"

definition trigger_fence :: "u32 option \<Rightarrow> u16 \<Rightarrow> sync_client \<Rightarrow> sync_result" where
  "trigger_fence req seq st = parse_minor req st seq 134 15 (\<lambda>fid.
     (upd_sync (\<lambda>s. check_pending_fence_awaits_ext (s\<lparr>fences :=
        (case fences s fid of
           Some f \<Rightarrow> (fences s)(fid \<mapsto> f\<lparr>triggered := True\<rparr>)
         | None \<Rightarrow> fences s)\<rparr>)) st, NoReply))"

definition reset_fence :: "u32 option \<Rightarrow> u16 \<Rightarrow> sync_client \<Rightarrow> sync_result" where
  "reset_fence req seq st = parse_minor req st seq 134 16 (\<lambda>fid.
     case fences (sync_st st) fid of
       Some f \<Rightarrow>
         if \<not> triggered f then (st, ErrorReply (build_error MATCH_ERROR seq fid 134 16))
         else (upd_sync (fences_update (\<lambda>fs. fs(fid \<mapsto> f\<lparr>triggered := False\<rparr>))) st, NoReply)
     | None \<Rightarrow> (st, ErrorReply (build_error VALUE_ERROR seq fid 134 16)))"

text \<open>Closing the file descriptor of an fd-backed fence is outside the state.\<close>

definition destroy_fence :: "u32 option \<Rightarrow> u16 \<Rightarrow> sync_client \<Rightarrow> sync_result" where
  "destroy_fence req seq st = parse_minor req st seq 134 17 (\<lambda>fid.
     (let st = recycle_xid fid st;
          st = upd_sync (fences_update (\<lambda>fs. fs(fid := None))) st;
          had_pending = (pending_fence_awaits (sync_st st) \<noteq> []);
          st = upd_sync (pending_fence_awaits_update
                 (filter (\<lambda>pfa. \<not> List.member (fence_ids pfa) fid))) st
      in (if had_pending \<and> pending_fence_awaits (sync_st st) = [] \<and> pending_awaits (sync_st st) = []
          then upd_sync (blocked_update (\<lambda>_. False)) st else st,
          NoReply)))"

definition query_fence :: "u32 option \<Rightarrow> u16 \<Rightarrow> sync_client \<Rightarrow> sync_result" where
  "query_fence req seq st = parse_minor req st seq 134 18 (\<lambda>fid.
     (st, Reply (QueryFenceReply
        (case fences (sync_st st) fid of Some f \<Rightarrow> triggered f | None \<Rightarrow> True))))"

definition await_fence :: "u32 list option \<Rightarrow> u16 \<Rightarrow> sync_client \<Rightarrow> sync_result" where
  "await_fence req seq st = parse_minor req st seq 134 19 (\<lambda>fids.
     if list_ex (fence_triggered (fences (sync_st st))) fids \<or> fids = [] then (st, NoReply)
     else (upd_sync (\<lambda>s. s\<lparr>pending_fence_awaits :=
                            pending_fence_awaits s @ [\<lparr>fence_ids = fids, fence_await_seq = seq\<rparr>],
                            blocked := True\<rparr>) st, NoReply))"


text \<open>The generated parsers, one per request type; each gets the request and the byte order.\<close>

record sync_parsers =
  parse_initialize :: "bytes \<Rightarrow> bool \<Rightarrow> unit option"
  parse_create_counter :: "bytes \<Rightarrow> bool \<Rightarrow> (u32 \<times> int64) option"
  parse_set_counter :: "bytes \<Rightarrow> bool \<Rightarrow> (u32 \<times> int64) option"
  parse_change_counter :: "bytes \<Rightarrow> bool \<Rightarrow> (u32 \<times> int64) option"
  parse_query_counter :: "bytes \<Rightarrow> bool \<Rightarrow> u32 option"
  parse_destroy_counter :: "bytes \<Rightarrow> bool \<Rightarrow> u32 option"
  parse_await :: "bytes \<Rightarrow> bool \<Rightarrow> wait_condition list option"
  parse_create_alarm :: "bytes \<Rightarrow> bool \<Rightarrow> (u32 \<times> alarm_values) option"
  parse_change_alarm :: "bytes \<Rightarrow> bool \<Rightarrow> (u32 \<times> alarm_values) option"
  parse_query_alarm :: "bytes \<Rightarrow> bool \<Rightarrow> u32 option"
  parse_destroy_alarm :: "bytes \<Rightarrow> bool \<Rightarrow> u32 option"
  parse_set_priority :: "bytes \<Rightarrow> bool \<Rightarrow> (u32 \<times> i32) option"
  parse_get_priority :: "bytes \<Rightarrow> bool \<Rightarrow> u32 option"
  parse_create_fence :: "bytes \<Rightarrow> bool \<Rightarrow> (u32 \<times> bool) option"
  parse_trigger_fence :: "bytes \<Rightarrow> bool \<Rightarrow> u32 option"
  parse_reset_fence :: "bytes \<Rightarrow> bool \<Rightarrow> u32 option"
  parse_destroy_fence :: "bytes \<Rightarrow> bool \<Rightarrow> u32 option"
  parse_query_fence :: "bytes \<Rightarrow> bool \<Rightarrow> u32 option"
  parse_await_fence :: "bytes \<Rightarrow> bool \<Rightarrow> u32 list option"

definition handle_sync_request ::
    "sync_parsers \<Rightarrow> (nat \<Rightarrow> u32) \<Rightarrow> bytes \<Rightarrow> u16 \<Rightarrow> sync_client \<Rightarrow> sync_result" where
  "handle_sync_request P clock data seq st =
     (let minor = data ! 1; bo = msb_first st; ts = clock 0
      in if minor = 0 then parse_minor (parse_initialize P data bo) st seq 134 0
           (\<lambda>_. (st, Reply (InitializeReply 3 1)))
         else if minor = 1 then list_system_counters st
         else if minor = 2 then create_counter (parse_create_counter P data bo) seq st
         else if minor = 3 then set_counter (parse_set_counter P data bo) seq ts st
         else if minor = 4 then change_counter (parse_change_counter P data bo) seq ts st
         else if minor = 5 then query_counter (parse_query_counter P data bo) seq ts st
         else if minor = 6 then destroy_counter (parse_destroy_counter P data bo) seq st
         else if minor = 7 then await_op (parse_await P data bo) seq clock st
         else if minor = 8 then create_alarm (parse_create_alarm P data bo) seq st
         else if minor = 9 then change_alarm (parse_change_alarm P data bo) seq st
         else if minor = 10 then query_alarm (parse_query_alarm P data bo) seq st
         else if minor = 11 then destroy_alarm (parse_destroy_alarm P data bo) seq st
         else if minor = 12 then set_priority (parse_set_priority P data bo) seq st
         else if minor = 13 then get_priority (parse_get_priority P data bo) seq st
         else if minor = 14 then create_fence (parse_create_fence P data bo) seq st
         else if minor = 15 then trigger_fence (parse_trigger_fence P data bo) seq st
         else if minor = 16 then reset_fence (parse_reset_fence P data bo) seq st
         else if minor = 17 then destroy_fence (parse_destroy_fence P data bo) seq st
         else if minor = 18 then query_fence (parse_query_fence P data bo) seq st
         else if minor = 19 then await_fence (parse_await_fence P data bo) seq st
         else (st, ErrorReply (build_error REQUEST_ERROR seq (ucast minor) 134 (ucast minor))))"

section \<open>The connection around the handlers\<close>

text \<open>The SYNC part of the frame tick: the SERVERTIME counter is set to the first clock reading,
  its alarms are checked, and a blocked connection re-examines what it waits for.\<close>

definition tick_servertime :: "u32 \<Rightarrow> u16 \<Rightarrow> sync_client \<Rightarrow> sync_client" where
  "tick_servertime now seq st =
     (case counters (sync_st st) 1 of
        None \<Rightarrow> st
      | Some c \<Rightarrow>
          (let old_value = value_i64 c;
               c' = set_from_i64 (ucast now) c;
               new_value = value_i64 c';
               st = upd_sync (counters_update (\<lambda>cs. cs(1 \<mapsto> c'))) st
           in if old_value \<noteq> new_value
              then (let (als, evs) = check_alarms (alarms (sync_st st)) 1 old_value new_value
                                       (pending_events st) seq
                    in st\<lparr>pending_events := evs, sync_st := (sync_st st)\<lparr>alarms := als\<rparr>\<rparr>)
              else st))"

definition frame_tick :: "u32 \<Rightarrow> u32 \<Rightarrow> u16 \<Rightarrow> sync_client \<Rightarrow> sync_client" where
  "frame_tick now ts seq st =
     (let st = tick_servertime now seq st
      in if blocked (sync_st st)
         then upd_sync (\<lambda>s. check_pending_fence_awaits_ext (check_pending_awaits_ext ts s)) st
         else st)"

text \<open>A resize announces a new value on the window's \<open>_NET_WM_SYNC_REQUEST\<close> counter.\<close>

definition announce_sync_value :: "u32 \<Rightarrow> i64 \<Rightarrow> sync_client \<Rightarrow> sync_client" where
  "announce_sync_value cid new_value st =
     upd_sync (counters_update (\<lambda>cs. case cs cid of
        Some c \<Rightarrow> cs(cid \<mapsto> c\<lparr>value_lo := i64_lo new_value, value_hi := i64_hi new_value\<rparr>)
      | None \<Rightarrow> cs)) st"

text \<open>The request loop stops while the connection is blocked; ticks and resizes go on.\<close>

inductive sync_step :: "sync_parsers \<Rightarrow> u32 set \<Rightarrow> sync_client \<Rightarrow> sync_client \<Rightarrow> bool"
  for P :: sync_parsers and W :: "u32 set" where
  request: "\<not> blocked (sync_st st) \<Longrightarrow> handle_sync_request P clock data seq st = (st', r) \<Longrightarrow>
     sync_step P W st st'"
| tick: "sync_step P W st (frame_tick now ts seq st)"
| announce: "cid \<in> W \<Longrightarrow> sync_step P W st (announce_sync_value cid v st)"

section \<open>64-bit values\<close>

lemma i64_of_word: "i64_of h l = word_of_int (sint h * 4294967296 + uint l)"
proof -
  have disj: "push_bit 32 (scast h :: i64) AND ucast l = 0"
    by (rule bit_word_eqI) (auto simp: bit_simps dest: bit_imp_le_length)
  have "i64_of h l = push_bit 32 (scast h) + ucast l"
    unfolding i64_of_def by (rule disjunctive_add_eq_or [OF disj, symmetric])
  also have "\<dots> = word_of_int (sint h * 4294967296 + uint l)"
    unfolding push_bit_eq_mult scast_eq ucast_eq by simp
  finally show ?thesis .
qed

lemma sint_i64_of: "sint (i64_of h l) = sint h * 4294967296 + uint l"
proof -
  have "- 9223372036854775808 \<le> sint h * 4294967296 + uint l"
       "sint h * 4294967296 + uint l < 9223372036854775808"
    using sint_range32 [of h] uint_range32 [of l] by linarith+
  then show ?thesis unfolding i64_of_word by (rule sint_word_of_int64)
qed


lemma i64_of_split: "i64_of (i64_hi v) (i64_lo v) = v"
proof (rule bit_word_eqI)
  fix n :: nat
  assume "n < LENGTH(64)"
  then show "bit (i64_of (i64_hi v) (i64_lo v)) n = bit v n"
    by (auto simp: i64_of_def i64_hi_def i64_lo_def bit_simps dest: bit_imp_le_length)
qed

lemma i64_split_of [simp]: "i64_hi (i64_of h l) = h" "i64_lo (i64_of h l) = l"
proof -
  show "i64_hi (i64_of h l) = h"
    by (rule bit_word_eqI) (auto simp: i64_of_def i64_hi_def bit_simps dest: bit_imp_le_length)
  show "i64_lo (i64_of h l) = l"
    by (rule bit_word_eqI) (auto simp: i64_of_def i64_lo_def bit_simps)
qed

lemma value_set_i64 [simp]: "value_i64 (set_from_i64 v c) = v"
  by (simp add: value_i64_def set_from_i64_def i64_of_split)

section \<open>Alarms\<close>

lemma map_of_advance:
  assumes "distinct (map fst als)" "map_of als i = Some a"
  shows "AList.update i (f a) als = map (\<lambda>(j, b). (j, if j = i then f b else b)) als"
  using assms
proof (induction als)
  case (Cons p als)
  obtain j b where p: "p = (j, b)" by fastforce
  show ?case
  proof (cases "j = i")
    case True
    have "map (\<lambda>(j, b). (j, if j = i then f b else b)) als = als"
      using Cons.prems(1) True p by (intro map_idI) (force simp: image_iff)
    with True Cons.prems(2) p show ?thesis by simp
  next
    case False
    with Cons p show ?thesis by simp
  qed
qed simp

lemma fire_alarms_eq:
  assumes "distinct ids" "set ids \<subseteq> fst ` set als" "distinct (map fst als)"
  shows "fire_alarms seq v ids (als, evs) =
    (map (\<lambda>(i, a). (i, if i \<in> set ids then alarm_advance a else a)) als,
     evs @ map (\<lambda>i. alarm_notify seq v i (the (map_of als i))) ids)"
  using assms
proof (induction ids arbitrary: als evs)
  case (Cons i ids)
  then obtain a where a: "map_of als i = Some a" by (auto simp: map_of_eq_Some_iff)
  define als' where "als' = map (\<lambda>(j, b). (j, if j = i then alarm_advance b else b)) als"
  have keys: "map fst als' = map fst als" unfolding als'_def by (induction als) auto
  have other: "map_of als' j = map_of als j" if "j \<noteq> i" for j
    unfolding als'_def using that by (induction als) auto
  have "fire_alarms seq v (i # ids) (als, evs) =
      fire_alarms seq v ids (als', evs @ [alarm_notify seq v i a])"
    using a Cons.prems(3) by (simp add: map_of_advance als'_def)
  also have "\<dots> = (map (\<lambda>(j, b). (j, if j \<in> set ids then alarm_advance b else b)) als',
     (evs @ [alarm_notify seq v i a]) @ map (\<lambda>j. alarm_notify seq v j (the (map_of als' j))) ids)"
    by (rule Cons.IH) (use Cons.prems keys in \<open>auto simp flip: set_map\<close>)
  also have "map (\<lambda>(j, b). (j, if j \<in> set ids then alarm_advance b else b)) als' =
      map (\<lambda>(j, b). (j, if j \<in> set (i # ids) then alarm_advance b else b)) als"
    using Cons.prems(1) unfolding als'_def by (auto simp: case_prod_unfold)
  also have "map (\<lambda>j. alarm_notify seq v j (the (map_of als' j))) ids =
      map (\<lambda>j. alarm_notify seq v j (the (map_of als j))) ids"
    using Cons.prems(1) other by (intro map_cong refl) (metis distinct.simps(2))
  finally show ?case using a by simp
qed (simp add: case_prod_unfold)

lemma check_alarms_eq:
  assumes "distinct (map fst als)"
  shows "check_alarms als cid old new evs seq =
    (map (\<lambda>(i, a). (i, if alarm_fires cid old new a then alarm_advance a else a)) als,
     evs @ map (\<lambda>(i, a). alarm_notify seq new i a) (filter (\<lambda>(_, a). alarm_fires cid old new a) als))"
proof -
  let ?hit = "filter (\<lambda>(_, a). alarm_fires cid old new a) als"
  have get: "map_of als i = Some a" if "(i, a) \<in> set als" for i a
    using assms that by simp
  have mem: "i \<in> set (map fst ?hit) \<longleftrightarrow> alarm_fires cid old new a" if "(i, a) \<in> set als" for i a
  proof
    assume "i \<in> set (map fst ?hit)"
    then obtain b where "(i, b) \<in> set als" "alarm_fires cid old new b" by auto
    with get [OF that] get [of i b] show "alarm_fires cid old new a" by simp
  qed (use that in force)
  have "distinct (map fst ?hit)" using assms by (rule distinct_map_filter)
  then have "check_alarms als cid old new evs seq =
    (map (\<lambda>(i, a). (i, if i \<in> set (map fst ?hit) then alarm_advance a else a)) als,
     evs @ map (\<lambda>i. alarm_notify seq new i (the (map_of als i))) (map fst ?hit))"
    unfolding check_alarms_def using assms by (intro fire_alarms_eq) auto
  also have "map (\<lambda>(i, a). (i, if i \<in> set (map fst ?hit) then alarm_advance a else a)) als =
      map (\<lambda>(i, a). (i, if alarm_fires cid old new a then alarm_advance a else a)) als"
    using mem by (intro map_cong refl) (auto simp del: set_map)
  also have "map (\<lambda>i. alarm_notify seq new i (the (map_of als i))) (map fst ?hit) =
      map (\<lambda>(i, a). alarm_notify seq new i a) ?hit"
    using get by (auto simp: case_prod_unfold)
  finally show ?thesis .
qed

lemma keys_map_values: "map fst (map (\<lambda>(i, a). (i, f i a)) xs) = map fst xs"
  by (induction xs) auto

section \<open>Invariant\<close>

definition sync_inv :: "sync_state \<Rightarrow> bool" where
  "sync_inv s \<longleftrightarrow> (blocked s \<longleftrightarrow> pending_awaits s \<noteq> [] \<or> pending_fence_awaits s \<noteq> []) \<and>
     distinct (map fst (alarms s))"

lemma sync_inv_new: "sync_inv sync_state_new" "sync_inv sync_state_default"
  by (simp_all add: sync_inv_def sync_state_new_def sync_state_default_def)

lemma sync_inv_frame [simp]:
  "sync_inv (counters_update f s) = sync_inv s"
  "sync_inv (fences_update g s) = sync_inv s"
  "sync_inv (priorities_update h s) = sync_inv s"
  by (simp_all add: sync_inv_def)

lemma sync_inv_alarms:
  "sync_inv s \<Longrightarrow> distinct (map fst (f (alarms s))) \<Longrightarrow> sync_inv (alarms_update f s)"
  by (simp add: sync_inv_def)

lemma check_awaits_inv: "sync_inv s \<Longrightarrow> sync_inv (check_pending_awaits_ext ts s)"
  by (auto simp: check_pending_awaits_ext_def sync_inv_def Let_def list_ex_iff filter_empty_conv)

lemma check_fence_awaits_inv: "sync_inv s \<Longrightarrow> sync_inv (check_pending_fence_awaits_ext s)"
  by (auto simp: check_pending_fence_awaits_ext_def sync_inv_def Let_def list_ex_iff
      filter_empty_conv ex_in_conv)

lemma counter_changed_eq:
  "sync_inv (sync_st st) \<Longrightarrow>
   counter_changed cid old new seq ts st =
     st\<lparr>pending_events := pending_events st @ map (\<lambda>(i, a). alarm_notify seq new i a)
          (filter (\<lambda>(_, a). alarm_fires cid old new a) (alarms (sync_st st))),
        sync_st := check_pending_awaits_ext ts ((sync_st st)\<lparr>alarms :=
          map (\<lambda>(i, a). (i, if alarm_fires cid old new a then alarm_advance a else a))
            (alarms (sync_st st))\<rparr>)\<rparr>"
  by (simp add: counter_changed_def sync_inv_def check_alarms_eq)

lemma counter_changed_inv:
  assumes "sync_inv (sync_st st)"
  shows "sync_inv (sync_st (counter_changed cid old new seq ts st))"
  using assms
  by (simp add: counter_changed_eq, intro check_awaits_inv sync_inv_alarms)
     (simp_all add: keys_map_values sync_inv_def del: map_map)

named_theorems sync_handlers

lemma sync_st_recycle [simp]: "sync_st (recycle_xid i st) = sync_st st"
  by (simp add: recycle_xid_def)

lemma pure_handlers_keep [sync_handlers]:
  "sync_st (fst (list_system_counters st)) = sync_st st"
  "sync_st (fst (query_counter q1 seq ts st)) = sync_st st"
  "sync_st (fst (query_alarm q2 seq st)) = sync_st st"
  "sync_st (fst (get_priority q3 seq st)) = sync_st st"
  "sync_st (fst (query_fence q4 seq st)) = sync_st st"
  by (cases q1; cases q2; cases q3; cases q4;
      simp add: list_system_counters_def query_counter_def query_alarm_def get_priority_def
        query_fence_def split: option.split)+

lemma counter_handlers_inv [sync_handlers]:
  assumes "sync_inv (sync_st st)"
  shows "sync_inv (sync_st (fst (create_counter q seq st)))"
    and "sync_inv (sync_st (fst (set_counter q seq ts st)))"
    and "sync_inv (sync_st (fst (change_counter q seq ts st)))"
  using assms
  by (cases q; force simp: create_counter_def set_counter_def change_counter_def Let_def
      intro: counter_changed_inv)+

lemma destroy_inv [sync_handlers]:
  assumes "sync_inv (sync_st st)"
  shows "sync_inv (sync_st (fst (destroy_counter q seq st)))"
    and "sync_inv (sync_st (fst (destroy_fence q seq st)))"
  using assms
  by (cases q; auto simp: destroy_counter_def destroy_fence_def Let_def sync_inv_def keys_map_values
      simp del: map_map)+

lemma alarm_handlers_inv [sync_handlers]:
  assumes "sync_inv (sync_st st)"
  shows "sync_inv (sync_st (fst (create_alarm q seq st)))"
    and "sync_inv (sync_st (fst (change_alarm q seq st)))"
    and "sync_inv (sync_st (fst (destroy_alarm q' seq st)))"
  using assms
  by (cases q; cases q'; force simp: create_alarm_def change_alarm_def destroy_alarm_def sync_inv_def
      distinct_update distinct_delete split: option.split)+

lemma await_inv [sync_handlers]:
  assumes "sync_inv (sync_st st)"
  shows "sync_inv (sync_st (fst (await_op q seq clock st)))"
    and "sync_inv (sync_st (fst (await_fence q' seq st)))"
    and "sync_inv (sync_st (fst (set_priority q'' seq st)))"
  using assms
  by (cases q; cases q'; cases q''; force simp: await_op_def await_fence_def set_priority_def sync_inv_def
      split: prod.split)+

lemma fence_handlers_inv [sync_handlers]:
  assumes "sync_inv (sync_st st)"
  shows "sync_inv (sync_st (fst (create_fence q seq st)))"
    and "sync_inv (sync_st (fst (trigger_fence q' seq st)))"
    and "sync_inv (sync_st (fst (reset_fence q' seq st)))"
  using assms
  by (cases q; cases q'; force simp: create_fence_def trigger_fence_def reset_fence_def
      intro!: check_fence_awaits_inv split: option.split)+


lemma handle_sync_request_inv:
  assumes "sync_inv (sync_st st)"
  shows "sync_inv (sync_st (fst (handle_sync_request P clock data seq st)))"
proof -
  have init: "sync_inv (sync_st (fst (parse_minor q st seq 134 0 (\<lambda>_. (st, Reply (InitializeReply 3 1))))))"
    for q :: "unit option" using assms by (cases q) simp_all
  note h = init counter_handlers_inv [OF assms] destroy_inv [OF assms] alarm_handlers_inv [OF assms]
    await_inv [OF assms] fence_handlers_inv [OF assms] pure_handlers_keep assms
  show ?thesis
    unfolding handle_sync_request_def Let_def by (simp add: h split: if_split)
qed

lemma tick_inv:
  assumes "sync_inv (sync_st st)"
  shows "sync_inv (sync_st (tick_servertime now seq st))"
  using assms
  by (auto simp: tick_servertime_def Let_def sync_inv_def check_alarms_eq keys_map_values
      split: option.split simp del: map_map)

lemma frame_tick_inv:
  "sync_inv (sync_st st) \<Longrightarrow> sync_inv (sync_st (frame_tick now ts seq st))"
  by (simp add: frame_tick_def Let_def tick_inv check_awaits_inv check_fence_awaits_inv)

lemma sync_step_inv: "sync_step P W st st' \<Longrightarrow> sync_inv (sync_st st) \<Longrightarrow> sync_inv (sync_st st')"
proof (induction rule: sync_step.induct)
  case (request st clock data seq st' r)
  then show ?case using handle_sync_request_inv [of st P clock data seq] by simp
next
  case (tick st now ts seq)
  then show ?case by (rule frame_tick_inv)
next
  case (announce cid st v)
  then show ?case by (simp add: announce_sync_value_def)
qed

interpretation sync_conn: invariant_system "sync_step P W" "\<lambda>st. sync_inv (sync_st st)" for P W
  by unfold_locales (rule sync_step_inv)

section \<open>Waiting and waking\<close>

lemma check_awaits_result:
  assumes "sync_inv s" "s' = check_pending_awaits_ext ts s"
  shows "pending_awaits s' = filter (\<lambda>pa. \<not> await_satisfied (counters s) ts pa) (pending_awaits s)"
    and "counters s' = counters s" "pending_fence_awaits s' = pending_fence_awaits s"
    and "alarms s' = alarms s"
    and "blocked s' \<longleftrightarrow> pending_awaits s' \<noteq> [] \<or> pending_fence_awaits s' \<noteq> []"
  using assms check_awaits_inv [OF assms(1), of ts]
  by (auto simp: check_pending_awaits_ext_def Let_def sync_inv_def)

lemma counter_changed_result:
  assumes "sync_inv (sync_st st)" "st' = counter_changed cid old new seq ts st"
  defines "s \<equiv> sync_st st" and "s' \<equiv> sync_st st'"
  shows "counters s' = counters s"
    and "pending_awaits s' = filter (\<lambda>pa. \<not> await_satisfied (counters s) ts pa) (pending_awaits s)"
    and "blocked s' \<longleftrightarrow> pending_awaits s' \<noteq> [] \<or> pending_fence_awaits s' \<noteq> []"
    and "pending_fence_awaits s' = pending_fence_awaits s"
    and "alarms s' = map (\<lambda>(i, a). (i, if alarm_fires cid old new a then alarm_advance a else a)) (alarms s)"
    and "pending_events st' = pending_events st @ map (\<lambda>(i, a). alarm_notify seq new i a)
          (filter (\<lambda>(_, a). alarm_fires cid old new a) (alarms s))"
proof -
  have inv: "sync_inv (s\<lparr>alarms := map (\<lambda>(i, a). (i, if alarm_fires cid old new a then alarm_advance a else a)) (alarms s)\<rparr>)"
    using assms by (simp add: sync_inv_def keys_map_values del: map_map)
  note eq = counter_changed_eq [OF assms(1), of cid old new seq ts]
  note r = check_awaits_result [OF inv refl, of ts]
  show "counters s' = counters s"
    and "pending_awaits s' = filter (\<lambda>pa. \<not> await_satisfied (counters s) ts pa) (pending_awaits s)"
    and "blocked s' \<longleftrightarrow> pending_awaits s' \<noteq> [] \<or> pending_fence_awaits s' \<noteq> []"
    and "pending_fence_awaits s' = pending_fence_awaits s"
    and "alarms s' = map (\<lambda>(i, a). (i, if alarm_fires cid old new a then alarm_advance a else a)) (alarms s)"
    and "pending_events st' = pending_events st @ map (\<lambda>(i, a). alarm_notify seq new i a)
          (filter (\<lambda>(_, a). alarm_fires cid old new a) (alarms s))"
    using r by (simp_all add: s_def s'_def assms(2) eq)
qed

text \<open>A state in which some pending \<open>Await\<close> only names unsatisfied counters that neither the
  clock nor a resize changes.\<close>

definition stuck_await :: "u32 set \<Rightarrow> sync_state \<Rightarrow> pending_await \<Rightarrow> bool" where
  "stuck_await W s pa \<longleftrightarrow> pa \<in> set (pending_awaits s) \<and>
     list_all (\<lambda>t. counter_id t \<noteq> 1 \<and> counter_id t \<notin> W \<and>
        \<not> is_trigger_satisfied t (current_value (counters s) 0 (counter_id t))) (triggers pa)"

lemma current_value_clock: "cid \<noteq> 1 \<Longrightarrow> current_value cs ts cid = current_value cs ts' cid"
  by (simp add: current_value_def)

lemma stuck_not_satisfied: "stuck_await W s pa \<Longrightarrow> \<not> await_satisfied (counters s) ts pa"
  unfolding stuck_await_def await_satisfied_def list_all_iff list_ex_iff
  using current_value_clock by metis

lemma stuck_check_awaits:
  assumes "stuck_await W s pa" "blocked s"
  shows "stuck_await W (check_pending_awaits_ext ts s) pa \<and> blocked (check_pending_awaits_ext ts s)"
proof -
  have mem: "pa \<in> set (filter (\<lambda>pa. \<not> await_satisfied (counters s) ts pa) (pending_awaits s))"
    using stuck_not_satisfied [OF assms(1), of ts] assms(1) by (simp add: stuck_await_def)
  then have "filter (\<lambda>pa. \<not> await_satisfied (counters s) ts pa) (pending_awaits s) \<noteq> []"
    by (metis empty_iff list.set(1))
  then have "check_pending_awaits_ext ts s =
      s\<lparr>pending_awaits := filter (\<lambda>pa. \<not> await_satisfied (counters s) ts pa) (pending_awaits s)\<rparr>"
    by (auto simp: check_pending_awaits_ext_def Let_def)
  with mem assms show ?thesis by (simp add: stuck_await_def)
qed

lemma stuck_check_fences:
  assumes "stuck_await W s pa" "blocked s"
  shows "stuck_await W (check_pending_fence_awaits_ext s) pa \<and> blocked (check_pending_fence_awaits_ext s)"
  using assms by (auto simp: stuck_await_def check_pending_fence_awaits_ext_def Let_def)

lemma stuck_counters:
  assumes "stuck_await W s pa" "\<And>c. c \<noteq> 1 \<Longrightarrow> c \<notin> W \<Longrightarrow> counters s' c = counters s c"
    "pending_awaits s' = pending_awaits s"
  shows "stuck_await W s' pa"
  using assms unfolding stuck_await_def list_all_iff by (auto simp: current_value_def)

lemma tick_servertime_frame:
  "c \<noteq> 1 \<Longrightarrow> counters (sync_st (tick_servertime now seq st)) c = counters (sync_st st) c"
  "pending_awaits (sync_st (tick_servertime now seq st)) = pending_awaits (sync_st st)"
  "blocked (sync_st (tick_servertime now seq st)) = blocked (sync_st st)"
  by (auto simp: tick_servertime_def Let_def split: option.split prod.split)

lemma sync_step_stuck:
  assumes "sync_step P W st st'" "stuck_await W (sync_st st) pa" "blocked (sync_st st)"
  shows "stuck_await W (sync_st st') pa \<and> blocked (sync_st st')"
  using assms(1)
proof (cases rule: sync_step.cases)
  case (tick now ts seq)
  have "stuck_await W (sync_st (tick_servertime now seq st)) pa"
    using stuck_counters [OF assms(2), of "sync_st (tick_servertime now seq st)"]
    by (simp add: tick_servertime_frame)
  from stuck_check_awaits [OF this] stuck_check_fences show ?thesis
    using tick assms(3) by (auto simp: frame_tick_def Let_def tick_servertime_frame)
next
  case (announce cid v)
  have "stuck_await W (sync_st st') pa"
    unfolding announce by (rule stuck_counters [OF assms(2)])
      (use announce in \<open>auto simp: announce_sync_value_def split: option.split\<close>)
  with announce assms(3) show ?thesis by (simp add: announce_sync_value_def)
qed (use assms(3) in simp)

interpretation stuck: invariant_system "sync_step P W" "\<lambda>st. stuck_await W (sync_st st) pa \<and> blocked (sync_st st)" for P W pa
  by unfold_locales (use sync_step_stuck in blast)

section \<open>Properties\<close>

text \<open>Concrete instances for the examples below: a connection as it is set up, and parsers that
  reject every request.\<close>

definition fresh_client :: sync_client where
  "fresh_client = \<lparr>resource_id_base = 0x400000, next_xid = 0x400000, freed_xids = [],
     msb_first = False, pending_events = [], sync_st = sync_state_new\<rparr>"

definition reject_all :: sync_parsers where
  "reject_all = \<lparr>parse_initialize = \<lambda>_ _. None, parse_create_counter = \<lambda>_ _. None,
     parse_set_counter = \<lambda>_ _. None, parse_change_counter = \<lambda>_ _. None,
     parse_query_counter = \<lambda>_ _. None, parse_destroy_counter = \<lambda>_ _. None,
     parse_await = \<lambda>_ _. None, parse_create_alarm = \<lambda>_ _. None, parse_change_alarm = \<lambda>_ _. None,
     parse_query_alarm = \<lambda>_ _. None, parse_destroy_alarm = \<lambda>_ _. None,
     parse_set_priority = \<lambda>_ _. None, parse_get_priority = \<lambda>_ _. None,
     parse_create_fence = \<lambda>_ _. None, parse_trigger_fence = \<lambda>_ _. None,
     parse_reset_fence = \<lambda>_ _. None, parse_destroy_fence = \<lambda>_ _. None,
     parse_query_fence = \<lambda>_ _. None, parse_await_fence = \<lambda>_ _. None\<rparr>"

text \<open>C1. Whatever requests, frame ticks and resizes a connection goes through, it is blocked
  exactly while an \<open>Await\<close> or \<open>AwaitFence\<close> is pending, whatever the request parsers accept.\<close>

theorem sync_blocked_iff_waiting:
  assumes "sync_st st = sync_state_new" "(sync_step P W)\<^sup>*\<^sup>* st st'"
  shows "blocked (sync_st st') \<longleftrightarrow>
     pending_awaits (sync_st st') \<noteq> [] \<or> pending_fence_awaits (sync_st st') \<noteq> []"
  using sync_conn.reachable_inv [OF assms(2)] assms(1) sync_inv_new(1) by (simp add: sync_inv_def)

theorem sync_blocked_iff_waiting_witness:
  "\<exists>st'. (sync_step (reject_all\<lparr>parse_await_fence := \<lambda>_ _. Some [7]\<rparr>) {})\<^sup>*\<^sup>* fresh_client st' \<and>
     blocked (sync_st st') \<and>
     (pending_awaits (sync_st st') \<noteq> [] \<or> pending_fence_awaits (sync_st st') \<noteq> [])"
proof -
  let ?P = "reject_all\<lparr>parse_await_fence := \<lambda>_ _. Some [7]\<rparr>"
  define st' where "st' = fst (handle_sync_request ?P (\<lambda>_. 0) [134, 19, 0, 0] 1 fresh_client)"
  have "handle_sync_request ?P (\<lambda>_. 0) [134, 19, 0, 0] 1 fresh_client =
      (st', snd (handle_sync_request ?P (\<lambda>_. 0) [134, 19, 0, 0] 1 fresh_client))"
    by (simp add: st'_def)
  then have "sync_step ?P {} fresh_client st'"
    by (rule sync_step.request [rotated])
       (simp add: fresh_client_def sync_state_new_def sync_state_default_def)
  then have reach: "(sync_step ?P {})\<^sup>*\<^sup>* fresh_client st'" by blast
  have "blocked (sync_st st')"
    by (simp add: st'_def handle_sync_request_def Let_def await_fence_def fresh_client_def
        sync_state_new_def sync_state_default_def fence_triggered_def)
  with sync_blocked_iff_waiting [OF _ reach] reach show ?thesis
    by (auto simp: fresh_client_def)
qed

text \<open>No wake-up is lost: after \<open>SetCounter\<close> or \<open>ChangeCounter\<close> the pending \<open>Await\<close>s are exactly
  those that the new counter values do not satisfy, and the connection is released precisely
  when nothing is pending any more.\<close>

theorem counter_update_wakes:
  assumes "sync_inv (sync_st st)"
    and "st' = fst (set_counter (Some (cid, v)) seq ts st) \<or>
         st' = fst (change_counter (Some (cid, v)) seq ts st)"
  shows "pending_awaits (sync_st st') =
      filter (\<lambda>pa. \<not> await_satisfied (counters (sync_st st')) ts pa) (pending_awaits (sync_st st)) \<and>
    (blocked (sync_st st') \<longleftrightarrow> pending_awaits (sync_st st') \<noteq> [] \<or> pending_fence_awaits (sync_st st) \<noteq> [])"
proof -
  obtain f old new where st': "st' = counter_changed cid old new seq ts (upd_sync (counters_update f) st)"
    using assms(2) by (auto simp: set_counter_def change_counter_def Let_def)
  have "sync_inv (sync_st (upd_sync (counters_update f) st))" using assms(1) by simp
  from counter_changed_result [OF this st'] show ?thesis by simp
qed

theorem counter_update_wakes_witness:
  "let pa = \<lparr>triggers = [\<lparr>counter_id = 5, value_type = 0, wait_value = 10, test_type = 2,
                         event_threshold = 0\<rparr>], await_seq = 3\<rparr>;
       st = fresh_client\<lparr>sync_st := sync_state_new
              \<lparr>counters := [5 \<mapsto> \<lparr>value_hi = 0, value_lo = 4, is_system = False\<rparr>],
               pending_awaits := [pa], blocked := True\<rparr>\<rparr>;
       st' = fst (change_counter (Some (5, \<lparr>hi = 0, lo = 6\<rparr>)) 9 0 st)
   in pending_awaits (sync_st st') = [] \<and> \<not> blocked (sync_st st')"
proof -
  define pa where "pa = \<lparr>triggers = [\<lparr>counter_id = 5, value_type = 0, wait_value = 10, test_type = 2,
    event_threshold = 0\<rparr>], await_seq = 3\<rparr>"
  define st where "st = fresh_client\<lparr>sync_st := sync_state_new
              \<lparr>counters := [5 \<mapsto> \<lparr>value_hi = 0, value_lo = 4, is_system = False\<rparr>],
               pending_awaits := [pa], blocked := True\<rparr>\<rparr>"
  define st' where "st' = fst (change_counter (Some (5, \<lparr>hi = 0, lo = 6\<rparr>)) 9 0 st)"
  have inv: "sync_inv (sync_st st)"
    by (simp add: st_def sync_inv_def sync_state_new_def sync_state_default_def)
  have c: "counters (sync_st st') = [5 \<mapsto> \<lparr>value_hi = 0, value_lo = 10, is_system = False\<rparr>]"
    unfolding st'_def change_counter_def parse_minor_simps prod.case Let_def fst_conv
    using inv
    by (subst counter_changed_result(1) [OF _ refl])
       (simp_all add: st_def sync_inv_def sync_state_new_def sync_state_default_def stored_value_def set_from_i64_def value_i64_def i64_of_def i64_hi_def i64_lo_def)
  from counter_update_wakes [OF inv, of st' 5 "\<lparr>hi = 0, lo = 6\<rparr>" 9 0] show ?thesis
    by (simp add: c st'_def [symmetric] st_def [symmetric] pa_def [symmetric])
       (simp add: st_def pa_def sync_state_new_def sync_state_default_def await_satisfied_def
         current_value_def value_i64_def is_trigger_satisfied_def i64_of_def)
qed

text \<open>Alarms: setting a counter reports exactly the active alarms on it that have events
  enabled and whose test the transition passes, in one event each; such an alarm moves its
  threshold by its delta or, with a zero delta, becomes inactive, and all others are unchanged.\<close>

theorem set_counter_alarms:
  assumes "sync_inv (sync_st st)" "counters (sync_st st) cid = Some c"
    "new = i64_of (hi v) (lo v)" "st' = fst (set_counter (Some (cid, v)) seq ts st)"
  shows "counters (sync_st st') cid = Some (set_from_i64 new c) \<and>
    pending_events st' = pending_events st @
      map (\<lambda>(i, a). alarm_notify seq new i a)
        (filter (\<lambda>(_, a). alarm_fires cid (value_i64 c) new a) (alarms (sync_st st))) \<and>
    (\<forall>i. map_of (alarms (sync_st st')) i =
       map_option (\<lambda>a. if alarm_fires cid (value_i64 c) new a
                       then if alarm_delta a \<noteq> 0
                            then a\<lparr>alarm_value_hi := i64_hi (alarm_threshold a + alarm_delta a),
                                   alarm_value_lo := i64_lo (alarm_threshold a + alarm_delta a)\<rparr>
                            else a\<lparr>alarm_state := INACTIVE\<rparr>
                       else a)
         (map_of (alarms (sync_st st)) i))"
proof -
  let ?f = "\<lambda>cs :: u32 \<rightharpoonup> sync_counter. case cs cid of
    Some c \<Rightarrow> cs(cid \<mapsto> c\<lparr>value_hi := hi v, value_lo := lo v\<rparr>) | None \<Rightarrow> cs"
  let ?st = "upd_sync (counters_update ?f) st"
  have st': "st' = counter_changed cid (value_i64 c) new seq ts ?st"
    using assms(2) by (simp add: assms(3,4) set_counter_def Let_def stored_value_def)
  have "sync_inv (sync_st ?st)" using assms(1) by simp
  note r = counter_changed_result [OF this st']
  have "counters (sync_st st') cid = Some (set_from_i64 new c)"
    using r(1) assms(2) by (simp add: assms(3) set_from_i64_def)
  moreover have "pending_events st' = pending_events st @
      map (\<lambda>(i, a). alarm_notify seq new i a)
        (filter (\<lambda>(_, a). alarm_fires cid (value_i64 c) new a) (alarms (sync_st st)))"
    using r(6) by simp
  moreover have "map_of (alarms (sync_st st')) i =
      map_option (\<lambda>a. if alarm_fires cid (value_i64 c) new a then alarm_advance a else a)
        (map_of (alarms (sync_st st)) i)" for i
    using r(5) by (simp add: map_of_map)
  ultimately show ?thesis by (simp add: alarm_advance_def Let_def cong: if_cong)
qed

theorem set_counter_alarms_witness:
  "let a = \<lparr>alarm_counter = 5, alarm_value_type = 0, alarm_value_hi = 0, alarm_value_lo = 10,
            alarm_test_type = 0, alarm_delta_hi = 0, alarm_delta_lo = 0, alarm_events = True,
            alarm_state = ACTIVE\<rparr>;
       st = fresh_client\<lparr>sync_st := sync_state_new
              \<lparr>counters := [5 \<mapsto> \<lparr>value_hi = 0, value_lo = 4, is_system = False\<rparr>],
               alarms := [(8, a)]\<rparr>\<rparr>;
       st' = fst (set_counter (Some (5, \<lparr>hi = 0, lo = 12\<rparr>)) 9 0 st)
   in pending_events st' = [alarm_notify 9 12 8 a] \<and>
      map_of (alarms (sync_st st')) 8 = Some (a\<lparr>alarm_state := INACTIVE\<rparr>)"
proof -
  define a where "a = \<lparr>alarm_counter = 5, alarm_value_type = 0, alarm_value_hi = 0, alarm_value_lo = 10,
            alarm_test_type = 0, alarm_delta_hi = 0, alarm_delta_lo = 0, alarm_events = True,
            alarm_state = ACTIVE\<rparr>"
  define st where "st = fresh_client\<lparr>sync_st := sync_state_new
              \<lparr>counters := [5 \<mapsto> \<lparr>value_hi = 0, value_lo = 4, is_system = False\<rparr>],
               alarms := [(8, a)]\<rparr>\<rparr>"
  have inv: "sync_inv (sync_st st)"
    by (simp add: st_def sync_inv_def sync_state_new_def sync_state_default_def)
  have c: "counters (sync_st st) 5 = Some \<lparr>value_hi = 0, value_lo = 4, is_system = False\<rparr>"
    by (simp add: st_def)
  have 12: "i64_of 0 12 = 12" and d: "alarm_delta a = 0"
    by (simp_all add: i64_of_def a_def)
  have hit: "alarm_fires 5 (value_i64 \<lparr>value_hi = 0, value_lo = 4, is_system = False\<rparr>) 12 a"
    by (simp add: a_def alarm_fires_def alarm_test_def Let_def value_i64_def i64_of_def)
  have al: "alarms (sync_st st) = [(8, a)]" and ev: "pending_events st = []"
    by (simp_all add: st_def fresh_client_def)
  from set_counter_alarms [OF inv c refl refl, of "\<lparr>hi = 0, lo = 12\<rparr>" 9 0] show ?thesis
    by (simp add: 12 hit al ev d Let_def a_def [symmetric] st_def [symmetric])
qed

text \<open>Reading back: \<open>QueryCounter\<close> returns the value last set, and after \<open>ChangeCounter\<close> the
  signed 64-bit sum of the old value and the amount, wrapping only beyond that range.\<close>

theorem counter_read_back:
  assumes "sync_inv (sync_st st)" "cid \<noteq> 1" "counters (sync_st st) cid = Some c"
  shows "snd (query_counter (Some cid) seq' ts' (fst (set_counter (Some (cid, v)) seq ts st))) =
      Reply (QueryCounterReply v) \<and>
    (\<exists>r. snd (query_counter (Some cid) seq' ts' (fst (change_counter (Some (cid, v)) seq ts st))) =
           Reply (QueryCounterReply r) \<and>
         (let sum = sint (value_i64 c) + sint (i64_of (hi v) (lo v))
          in - (2 ^ 63) \<le> sum \<and> sum < 2 ^ 63 \<longrightarrow> sint (hi r) * 2 ^ 32 + uint (lo r) = sum))"
proof -
  let ?new = "value_i64 c + i64_of (hi v) (lo v)"
  have inv: "sync_inv (sync_st (upd_sync (counters_update f) st))" for f using assms(1) by simp
  note r = counter_changed_result(1) [OF inv refl]
  have 1: "snd (query_counter (Some cid) seq' ts' (fst (set_counter (Some (cid, v)) seq ts st))) =
      Reply (QueryCounterReply v)"
    using assms(2,3) by (simp add: query_counter_def set_counter_def Let_def r)
  have 2: "snd (query_counter (Some cid) seq' ts' (fst (change_counter (Some (cid, v)) seq ts st))) =
      Reply (QueryCounterReply \<lparr>hi = i64_hi ?new, lo = i64_lo ?new\<rparr>)"
    using assms(2,3)
    by (simp add: query_counter_def change_counter_def Let_def r stored_value_def set_from_i64_def)
  have 3: "sint ?new = sint (value_i64 c) + sint (i64_of (hi v) (lo v))"
    if "- 9223372036854775808 \<le> sint (value_i64 c) + sint (i64_of (hi v) (lo v))"
       "sint (value_i64 c) + sint (i64_of (hi v) (lo v)) < 9223372036854775808"
  proof -
    have "?new = word_of_int (sint (value_i64 c) + sint (i64_of (hi v) (lo v)))" by simp
    then show ?thesis using sint_word_of_int64 [OF that] by metis
  qed
  have "sint (i64_hi ?new) * 4294967296 + uint (i64_lo ?new) = sint ?new"
    using sint_i64_of [of "i64_hi ?new" "i64_lo ?new"] by (simp only: i64_of_split)
  with 1 2 3 show ?thesis by (auto simp: Let_def)
qed

theorem counter_read_back_witness:
  "let c = \<lparr>value_hi = 0, value_lo = 0xFFFFFFFF, is_system = False\<rparr>;
       st = fresh_client\<lparr>sync_st := sync_state_new\<lparr>counters := [5 \<mapsto> c]\<rparr>\<rparr>
   in \<exists>r. snd (query_counter (Some 5) 2 0 (fst (change_counter (Some (5, \<lparr>hi = 0, lo = 1\<rparr>)) 1 0 st))) =
           Reply (QueryCounterReply r) \<and> sint (hi r) * 2 ^ 32 + uint (lo r) = 2 ^ 32"
proof -
  define c where "c = \<lparr>value_hi = 0, value_lo = 0xFFFFFFFF, is_system = False\<rparr>"
  define st where "st = fresh_client\<lparr>sync_st := sync_state_new\<lparr>counters := [5 \<mapsto> c]\<rparr>\<rparr>"
  have inv: "sync_inv (sync_st st)"
    by (simp add: st_def sync_inv_def sync_state_new_def sync_state_default_def)
  have c: "counters (sync_st st) 5 = Some c" by (simp add: st_def)
  have v: "sint (value_i64 c) = 4294967295" "sint (i64_of 0 1) = 1"
    by (simp_all add: c_def value_i64_def sint_i64_of)
  from counter_read_back [OF inv _ c, of 2 0 "\<lparr>hi = 0, lo = 1\<rparr>" 1 0] show ?thesis
    by (simp add: v Let_def c_def [symmetric] st_def [symmetric])
qed

text \<open>C38. An \<open>Await\<close> on counters of its own client is never answered: counters live in the state of
  one connection, the connection handles no request while it waits, and the clock and window
  resizes change other counters. Once every trigger of a pending \<open>Await\<close> names such a counter
  and is unsatisfied, every state the connection can reach is blocked.\<close>

theorem own_counter_await_blocks_forever:
  assumes "stuck_await W (sync_st st) pa" "blocked (sync_st st)" "(sync_step P W)\<^sup>*\<^sup>* st st'"
  shows "blocked (sync_st st') \<and> pa \<in> set (pending_awaits (sync_st st'))"
proof -
  from assms have "stuck_await W (sync_st st') pa \<and> blocked (sync_st st')"
    using stuck.reachable_inv by blast
  then show ?thesis by (simp add: stuck_await_def)
qed

theorem own_counter_await_blocks_forever_witness:
  "let wc = \<lparr>wc_trigger = \<lparr>trigger_counter = 5, trigger_wait_type = 0, trigger_wait_value = \<lparr>hi = 0, lo = 10\<rparr>,
                          trigger_test_type = 2\<rparr>, wc_event_threshold = \<lparr>hi = 0, lo = 0\<rparr>\<rparr>;
       st1 = fst (create_counter (Some (5, \<lparr>hi = 0, lo = 4\<rparr>)) 1 fresh_client);
       st2 = fst (await_op (Some [wc]) 2 (\<lambda>_. 0) st1)
   in blocked (sync_st (frame_tick 100 100 2 st2))"
proof -
  define wc where "wc = \<lparr>wc_trigger = \<lparr>trigger_counter = 5, trigger_wait_type = 0,
    trigger_wait_value = \<lparr>hi = 0, lo = 10\<rparr>, trigger_test_type = 2\<rparr>, wc_event_threshold = \<lparr>hi = 0, lo = 0\<rparr>\<rparr>"
  define st2 where "st2 = fst (await_op (Some [wc]) 2 (\<lambda>_. 0)
    (fst (create_counter (Some (5, \<lparr>hi = 0, lo = 4\<rparr>)) 1 fresh_client)))"
  obtain pa where "stuck_await {} (sync_st st2) pa" and "blocked (sync_st st2)"
    by (simp add: st2_def wc_def await_op_def create_counter_def fresh_client_def sync_state_new_def
        sync_state_default_def stuck_await_def current_value_def value_i64_def i64_of_def
        is_trigger_satisfied_def)
  from own_counter_await_blocks_forever [OF this, of reject_all] show ?thesis
    by (simp add: Let_def wc_def [symmetric] st2_def [symmetric] r_into_rtranclp sync_step.tick)
qed

end
