(* ===== verification/Atoms.thy ===== *)
theory Atoms
  imports Client
begin

text \<open>
  Atoms: the name table \<open>AtomManager\<close> (\<open>xserver/atoms.rs\<close>) with its predefined entries, and the
  requests InternAtom and GetAtomName (\<open>handlers/property/atom.rs\<close>), which decode the name with
  \<open>String::from_utf8_lossy\<close>. A Rust string is the list of its UTF-8 bytes.
\<close>

unbundle bit_operations_syntax

section \<open>Decoding names\<close>

text \<open>\<open>String::from_utf8_lossy\<close> walks over the bytes: a well-formed sequence is kept, the longest
  proper prefix of one (or a single byte) becomes the replacement character. \<open>utf8_step\<close> gives
  the number of bytes taken and whether they are well-formed.\<close>

definition is_cont :: "u8 \<Rightarrow> bool" where
  "is_cont b \<longleftrightarrow> 0x80 \<le> b \<and> b \<le> 0xBF"

fun byte_at :: "bytes \<Rightarrow> nat \<Rightarrow> u8" where
  "byte_at bs i = (if i < length bs then bs ! i else 0)"

definition second_ok :: "u8 \<Rightarrow> u8 \<Rightarrow> bool" where
  "second_ok b c \<longleftrightarrow>
     (if b = 0xE0 then 0xA0 \<le> c \<and> c \<le> 0xBF
      else if b = 0xED then 0x80 \<le> c \<and> c \<le> 0x9F
      else if b = 0xF0 then 0x90 \<le> c \<and> c \<le> 0xBF
      else if b = 0xF4 then 0x80 \<le> c \<and> c \<le> 0x8F
      else is_cont c)"

definition char_width :: "u8 \<Rightarrow> nat" where
  "char_width b = (if b < 0x80 then 1 else if 0xC2 \<le> b \<and> b \<le> 0xDF then 2
     else if 0xE0 \<le> b \<and> b \<le> 0xEF then 3 else if 0xF0 \<le> b \<and> b \<le> 0xF4 then 4 else 0)"

definition utf8_step :: "u8 \<Rightarrow> bytes \<Rightarrow> nat \<times> bool" where
  "utf8_step b bs =
     (let w = char_width b
      in if w = 1 then (1, True)
         else if w = 2 then if is_cont (byte_at bs 0) then (2, True) else (1, False)
         else if w = 3 then
           if \<not> second_ok b (byte_at bs 0) then (1, False)
           else if \<not> is_cont (byte_at bs 1) then (2, False) else (3, True)
         else if w = 4 then
           if \<not> second_ok b (byte_at bs 0) then (1, False)
           else if \<not> is_cont (byte_at bs 1) then (2, False)
           else if \<not> is_cont (byte_at bs 2) then (3, False) else (4, True)
         else (1, False))"

definition replacement :: bytes where "replacement = [0xEF, 0xBF, 0xBD]"

function from_utf8_lossy :: "bytes \<Rightarrow> bytes" where
  "from_utf8_lossy [] = []"
| "from_utf8_lossy (b # bs) =
     (case utf8_step b bs of (n, ok) \<Rightarrow>
        (if ok then take n (b # bs) else replacement) @ from_utf8_lossy (drop (n - 1) bs))"
  by pat_completeness auto
termination by (relation "measure length") auto

section \<open>The atom table\<close>

record atom_manager =
  atoms :: "bytes \<rightharpoonup> u32"
  reverse :: "u32 \<rightharpoonup> bytes"
  next_atom :: u32

definition PREDEFINED_ATOMS :: "(string \<times> u32) list" where
  "PREDEFINED_ATOMS = [
    (''PRIMARY'', 1), (''SECONDARY'', 2), (''ARC'', 3), (''ATOM'', 4), (''BITMAP'', 5),
    (''CARDINAL'', 6), (''COLORMAP'', 7), (''CURSOR'', 8), (''CUT_BUFFER0'', 9),
    (''CUT_BUFFER1'', 10), (''CUT_BUFFER2'', 11), (''CUT_BUFFER3'', 12), (''CUT_BUFFER4'', 13),
    (''CUT_BUFFER5'', 14), (''CUT_BUFFER6'', 15), (''CUT_BUFFER7'', 16), (''DRAWABLE'', 17),
    (''FONT'', 18), (''INTEGER'', 19), (''PIXMAP'', 20), (''POINT'', 21), (''RECTANGLE'', 22),
    (''RESOURCE_MANAGER'', 23), (''RGB_COLOR_MAP'', 24), (''RGB_BEST_MAP'', 25),
    (''RGB_BLUE_MAP'', 26), (''RGB_DEFAULT_MAP'', 27), (''RGB_GRAY_MAP'', 28),
    (''RGB_GREEN_MAP'', 29), (''RGB_RED_MAP'', 30), (''STRING'', 31), (''VISUALID'', 32),
    (''WINDOW'', 33), (''WM_COMMAND'', 34), (''WM_HINTS'', 35), (''WM_CLIENT_MACHINE'', 36),
    (''WM_ICON_NAME'', 37), (''WM_ICON_SIZE'', 38), (''WM_NAME'', 39), (''WM_NORMAL_HINTS'', 40),
    (''WM_SIZE_HINTS'', 41), (''WM_ZOOM_HINTS'', 42), (''MIN_SPACE'', 43), (''NORM_SPACE'', 44),
    (''MAX_SPACE'', 45), (''END_SPACE'', 46), (''SUPERSCRIPT_X'', 47), (''SUPERSCRIPT_Y'', 48),
    (''SUBSCRIPT_X'', 49), (''SUBSCRIPT_Y'', 50), (''UNDERLINE_POSITION'', 51),
    (''UNDERLINE_THICKNESS'', 52), (''STRIKEOUT_ASCENT'', 53), (''STRIKEOUT_DESCENT'', 54),
    (''ITALIC_ANGLE'', 55), (''X_HEIGHT'', 56), (''QUAD_WIDTH'', 57), (''WEIGHT'', 58),
    (''POINT_SIZE'', 59), (''RESOLUTION'', 60), (''COPYRIGHT'', 61), (''NOTICE'', 62),
    (''FONT_NAME'', 63), (''FAMILY_NAME'', 64), (''FULL_NAME'', 65), (''CAP_HEIGHT'', 66),
    (''WM_CLASS'', 67), (''WM_TRANSIENT_FOR'', 68), (''WM_PROTOCOLS'', 69),
    (''WM_DELETE_WINDOW'', 70), (''WM_TAKE_FOCUS'', 71), (''WM_STATE'', 72),
    (''WM_CHANGE_STATE'', 73), (''WM_COLORMAP_WINDOWS'', 74), (''_NET_SUPPORTED'', 75),
    (''_NET_SUPPORTING_WM_CHECK'', 76), (''_NET_WM_NAME'', 77), (''_NET_WM_ICON_NAME'', 78),
    (''_NET_WM_WINDOW_TYPE'', 79), (''_NET_WM_WINDOW_TYPE_NORMAL'', 80),
    (''_NET_WM_WINDOW_TYPE_DIALOG'', 81), (''_NET_WM_WINDOW_TYPE_TOOLBAR'', 82),
    (''_NET_WM_WINDOW_TYPE_MENU'', 83), (''_NET_WM_WINDOW_TYPE_UTILITY'', 84),
    (''_NET_WM_WINDOW_TYPE_SPLASH'', 85), (''_NET_WM_WINDOW_TYPE_DOCK'', 86),
    (''_NET_WM_WINDOW_TYPE_DESKTOP'', 87), (''_NET_WM_WINDOW_TYPE_DROPDOWN_MENU'', 88),
    (''_NET_WM_WINDOW_TYPE_POPUP_MENU'', 89), (''_NET_WM_WINDOW_TYPE_TOOLTIP'', 90),
    (''_NET_WM_WINDOW_TYPE_NOTIFICATION'', 91), (''_NET_WM_STATE'', 92),
    (''_NET_WM_STATE_MODAL'', 93), (''_NET_WM_STATE_STICKY'', 94),
    (''_NET_WM_STATE_MAXIMIZED_VERT'', 95), (''_NET_WM_STATE_MAXIMIZED_HORZ'', 96),
    (''_NET_WM_STATE_SHADED'', 97), (''_NET_WM_STATE_SKIP_TASKBAR'', 98),
    (''_NET_WM_STATE_SKIP_PAGER'', 99), (''_NET_WM_STATE_HIDDEN'', 100),
    (''_NET_WM_STATE_FULLSCREEN'', 101), (''_NET_WM_STATE_ABOVE'', 102),
    (''_NET_WM_STATE_BELOW'', 103), (''_NET_WM_STATE_DEMANDS_ATTENTION'', 104),
    (''_NET_WM_STATE_FOCUSED'', 105), (''_NET_WM_ALLOWED_ACTIONS'', 106),
    (''_NET_WM_ACTION_MOVE'', 107), (''_NET_WM_ACTION_RESIZE'', 108),
    (''_NET_WM_ACTION_MINIMIZE'', 109), (''_NET_WM_ACTION_SHADE'', 110),
    (''_NET_WM_ACTION_STICK'', 111), (''_NET_WM_ACTION_MAXIMIZE_HORZ'', 112),
    (''_NET_WM_ACTION_MAXIMIZE_VERT'', 113), (''_NET_WM_ACTION_FULLSCREEN'', 114),
    (''_NET_WM_ACTION_CHANGE_DESKTOP'', 115), (''_NET_WM_ACTION_CLOSE'', 116),
    (''_NET_ACTIVE_WINDOW'', 117), (''_NET_CLIENT_LIST'', 118),
    (''_NET_CLIENT_LIST_STACKING'', 119), (''_NET_NUMBER_OF_DESKTOPS'', 120),
    (''_NET_CURRENT_DESKTOP'', 121), (''_NET_DESKTOP_NAMES'', 122), (''_NET_WORKAREA'', 123),
    (''_NET_DESKTOP_GEOMETRY'', 124), (''_NET_DESKTOP_VIEWPORT'', 125),
    (''_NET_FRAME_EXTENTS'', 126), (''_NET_WM_PID'', 127), (''_NET_WM_USER_TIME'', 128),
    (''_NET_WM_STRUT'', 129), (''_NET_WM_STRUT_PARTIAL'', 130), (''_NET_WM_ICON'', 131),
    (''_NET_WM_VISIBLE_NAME'', 132), (''UTF8_STRING'', 133), (''CLIPBOARD'', 134),
    (''TARGETS'', 135), (''MULTIPLE'', 136), (''TIMESTAMP'', 137), (''INCR'', 138),
    (''_NET_WM_PING'', 139), (''_NET_WM_SYNC_REQUEST'', 140), (''_MOTIF_WM_HINTS'', 141),
    (''XdndAware'', 142), (''XdndSelection'', 143), (''XdndEnter'', 144), (''XdndLeave'', 145),
    (''XdndPosition'', 146), (''XdndDrop'', 147), (''XdndFinished'', 148), (''XdndStatus'', 149),
    (''XdndActionCopy'', 150), (''XdndActionMove'', 151), (''XdndActionLink'', 152),
    (''XdndActionAsk'', 153), (''XdndActionPrivate'', 154), (''XdndTypeList'', 155),
    (''XdndProxy'', 156), (''_XIM_PROTOCOL'', 157), (''_XIM_XCONNECT'', 158),
    (''XIM_SERVERS'', 159), (''LOCALES'', 160), (''TRANSPORT'', 161), (''_XIM_MOREDATA'', 162),
    (''_XSETTINGS_SETTINGS'', 163), (''_XSETTINGS_S0'', 164), (''MANAGER'', 165),
    (''_NET_WM_WINDOW_OPACITY'', 166), (''_NET_WM_MOVERESIZE'', 167),
    (''_NET_REQUEST_FRAME_EXTENTS'', 168), (''_NET_WM_FULL_PLACEMENT'', 169),
    (''_NET_STARTUP_ID'', 170), (''_NET_WM_DESKTOP'', 171), (''_NET_CLOSE_WINDOW'', 172),
    (''_NET_MOVERESIZE_WINDOW'', 173), (''_NET_RESTACK_WINDOW'', 174),
    (''_NET_WM_FULLSCREEN_MONITORS'', 175), (''_NET_WM_CM_S0'', 176), (''_XEMBED'', 177),
    (''_XEMBED_INFO'', 178), (''CLIPBOARD_MANAGER'', 179), (''SAVE_TARGETS'', 180),
    (''COMPOUND_TEXT'', 181), (''TEXT'', 182), (''text/plain'', 183),
    (''text/plain;charset=utf-8'', 184), (''_XKB_RULES_NAMES'', 185),
    (''_NET_SYSTEM_TRAY_S0'', 186), (''_NET_SYSTEM_TRAY_OPCODE'', 187),
    (''_NET_SYSTEM_TRAY_ORIENTATION'', 188), (''_NET_SYSTEM_TRAY_VISUAL'', 189),
    (''DELETE'', 190), (''INSERT_SELECTION'', 191), (''INSERT_PROPERTY'', 192)
  ]"

definition name_bytes :: "string \<Rightarrow> bytes" where
  "name_bytes = map of_char"

definition insert_predefined :: "string \<times> u32 \<Rightarrow> atom_manager \<Rightarrow> atom_manager" where
  "insert_predefined = (\<lambda>(name, i) mgr.
     (let mgr = mgr\<lparr>atoms := (atoms mgr)(name_bytes name \<mapsto> i),
                     reverse := (reverse mgr)(i \<mapsto> name_bytes name)\<rparr>
      in if i \<ge> next_atom mgr then mgr\<lparr>next_atom := i + 1\<rparr> else mgr))"

definition atom_manager_new :: atom_manager where
  "atom_manager_new = fold insert_predefined PREDEFINED_ATOMS
     \<lparr>atoms = Map.empty, reverse = Map.empty, next_atom = 1\<rparr>"

definition intern :: "bytes \<Rightarrow> bool \<Rightarrow> atom_manager \<Rightarrow> atom_manager \<times> u32" where
  "intern name only_if_exists mgr =
     (case atoms mgr name of
        Some i \<Rightarrow> (mgr, i)
      | None \<Rightarrow>
          if only_if_exists then (mgr, 0)
          else (let i = next_atom mgr
                in (mgr\<lparr>next_atom := next_atom mgr + 1, atoms := (atoms mgr)(name \<mapsto> i),
                        reverse := (reverse mgr)(i \<mapsto> name)\<rparr>, i)))"

definition get_name :: "u32 \<Rightarrow> atom_manager \<Rightarrow> bytes option" where
  "get_name atom mgr = reverse mgr atom"

section \<open>Requests\<close>

datatype atom_reply = InternAtomReply u32 | GetAtomNameReply bytes

definition handle_intern_atom ::
    "bytes \<times> bool \<Rightarrow> atom_manager \<Rightarrow> atom_manager \<times> atom_reply response" where
  "handle_intern_atom req mgr =
     (case req of (name, only_if_exists) \<Rightarrow>
        (let (mgr, atom) = intern (from_utf8_lossy name) only_if_exists mgr
         in (mgr, Reply (InternAtomReply atom))))"

definition handle_get_atom_name ::
    "u32 \<Rightarrow> u16 \<Rightarrow> atom_manager \<Rightarrow> atom_manager \<times> atom_reply response" where
  "handle_get_atom_name atom seq mgr =
     (case get_name atom mgr of
        None \<Rightarrow> (mgr, ErrorReply (build_error ATOM_ERROR seq atom 17 0))
      | Some name \<Rightarrow> (mgr, Reply (GetAtomNameReply name)))"

lemma predef_ids: "map snd PREDEFINED_ATOMS = map of_nat [1..<193]"
  unfolding PREDEFINED_ATOMS_def by code_simp

lemma predef_names_distinct: "distinct (map fst PREDEFINED_ATOMS)"
  unfolding PREDEFINED_ATOMS_def
  by (simp only: list.map prod.sel distinct.simps list.set insert_iff empty_iff list.inject
      char.inject simp_thms list.distinct)

section \<open>The table is a bijection\<close>

definition atom_inv :: "atom_manager \<Rightarrow> bool" where
  "atom_inv mgr \<longleftrightarrow> (\<forall>n i. atoms mgr n = Some i \<longleftrightarrow> reverse mgr i = Some n) \<and>
     (\<forall>i \<in> dom (reverse mgr). 0 < unat i \<and> unat i < unat (next_atom mgr))"

lemma of_char_inj8: "(of_char c :: u8) = of_char d \<longleftrightarrow> c = d"
proof
  assume eq: "(of_char c :: u8) = of_char d"
  have u: "unat (of_char e :: u8) = of_char e" for e
  proof -
    have "(of_char e :: nat) < 256" by (metis of_char_mod_256 mod_less_divisor zero_less_numeral)
    then have "unat (of_nat (of_char e) :: u8) = of_char e"
      by (simp add: unsigned_of_nat take_bit_nat_eq_self)
    then show ?thesis by (simp only: of_nat_of_char)
  qed
  then have "(of_char c :: nat) = of_char d" by (metis eq)
  then show "c = d" by simp
qed simp

lemma name_bytes_inj: "name_bytes a = name_bytes b \<longleftrightarrow> a = b"
  by (simp add: name_bytes_def inj_map_eq_map inj_def of_char_inj8)

lemma atom_inv_insert:
  assumes "atom_inv mgr" "atoms mgr name = None" "0 < unat (next_atom mgr)"
    and "unat (next_atom mgr + 1) = Suc (unat (next_atom mgr))"
    and "atoms mgr' = (atoms mgr)(name \<mapsto> next_atom mgr)"
    and "reverse mgr' = (reverse mgr)(next_atom mgr \<mapsto> name)" "next_atom mgr' = next_atom mgr + 1"
  shows "atom_inv mgr'"
proof -
  have fresh: "reverse mgr (next_atom mgr) = None" using assms(1) by (auto simp: atom_inv_def)
  have unused: "reverse mgr i \<noteq> Some name" for i
    using assms(1,2) by (metis atom_inv_def option.distinct(1))
  show ?thesis
    using assms fresh unused unfolding atom_inv_def by (auto simp: dom_def less_SucI)
qed

lemma fold_predefined_inv:
  assumes "atom_inv mgr" "next_atom mgr = of_nat k" "map snd xs = map of_nat [k..<k + length xs]"
    and "distinct (map fst xs)" "\<forall>n \<in> fst ` set xs. atoms mgr (name_bytes n) = None"
    and "0 < k" "k + length xs < 4294967296"
  shows "atom_inv (fold insert_predefined xs mgr) \<and>
    next_atom (fold insert_predefined xs mgr) = of_nat (k + length xs)"
  using assms
proof (induction xs arbitrary: mgr k)
  case (Cons x xs)
  obtain name i where x: "x = (name, i)" by fastforce
  have upt: "[k..<k + length (x # xs)] = k # [Suc k..<Suc k + length xs]"
    by (subst upt_conv_Cons) simp_all
  have i: "i = of_nat k" and rest: "map snd xs = map of_nat [Suc k..<Suc k + length xs]"
    using Cons.prems(3) x unfolding upt by simp_all
  have ui: "unat i = k" "unat (i + 1) = Suc k"
    using Cons.prems(7) i unat_of_nat32 [of k] unat_of_nat32 [of "Suc k"] by (simp_all add: add.commute)
  have eq: "insert_predefined x mgr = mgr\<lparr>atoms := (atoms mgr)(name_bytes name \<mapsto> i),
      reverse := (reverse mgr)(i \<mapsto> name_bytes name), next_atom := i + 1\<rparr>"
    using Cons.prems(2) by (simp add: insert_predefined_def x i Let_def)
  have "atoms mgr (name_bytes name) = None" using Cons.prems(5) x by simp
  from atom_inv_insert [OF Cons.prems(1) this] have "atom_inv (insert_predefined x mgr)"
    using Cons.prems(2,6) ui i unfolding eq by simp
  moreover have "next_atom (insert_predefined x mgr) = of_nat (Suc k)"
    unfolding eq by (simp add: i add.commute)
  moreover have "\<forall>n \<in> fst ` set xs. atoms (insert_predefined x mgr) (name_bytes n) = None"
    using Cons.prems(4,5) x unfolding eq by (auto simp: name_bytes_inj image_iff)
  ultimately show ?case
    using Cons.IH [of "insert_predefined x mgr" "Suc k"] Cons.prems(4,7) rest by simp
qed simp

lemma atom_inv_new: "atom_inv atom_manager_new" "next_atom atom_manager_new = 193"
proof -
  have len: "length PREDEFINED_ATOMS = 192" using arg_cong [OF predef_ids, of length] by simp
  have "atom_inv \<lparr>atoms = Map.empty, reverse = Map.empty, next_atom = 1\<rparr>" by (simp add: atom_inv_def)
  from fold_predefined_inv [OF this, of 1 PREDEFINED_ATOMS] predef_ids predef_names_distinct
  show "atom_inv atom_manager_new" "next_atom atom_manager_new = 193"
    by (simp_all add: atom_manager_new_def len)
qed

lemma intern_inv:
  assumes "atom_inv mgr" "unat (next_atom mgr) < 4294967295" "0 < unat (next_atom mgr)"
  shows "atom_inv (fst (intern name f mgr))"
    and "unat (next_atom mgr) \<le> unat (next_atom (fst (intern name f mgr)))"
    and "unat (next_atom (fst (intern name f mgr))) \<le> unat (next_atom mgr) + 1"
    and "reverse mgr \<subseteq>\<^sub>m reverse (fst (intern name f mgr))"
proof -
  have s: "unat (next_atom mgr + 1) = unat (next_atom mgr) + 1"
    using assms(2) by (subst unat_add_lem [THEN iffD1]) simp_all
  have fresh: "reverse mgr (next_atom mgr) = None" using assms(1) by (auto simp: atom_inv_def)
  show "atom_inv (fst (intern name f mgr))"
    using assms(1,3) s atom_inv_insert [OF assms(1), of name]
    by (auto simp: intern_def Let_def split: option.split)
  show "unat (next_atom mgr) \<le> unat (next_atom (fst (intern name f mgr)))"
    "unat (next_atom (fst (intern name f mgr))) \<le> unat (next_atom mgr) + 1"
    "reverse mgr \<subseteq>\<^sub>m reverse (fst (intern name f mgr))"
    using s fresh by (auto simp: intern_def Let_def map_le_def split: option.split)
qed

text \<open>A history of requests to intern names.\<close>

definition run_interns :: "(bytes \<times> bool) list \<Rightarrow> atom_manager \<Rightarrow> atom_manager" where
  "run_interns ops mgr = fold (\<lambda>(name, f) mgr. fst (intern name f mgr)) ops mgr"

lemma run_interns_inv:
  assumes "atom_inv mgr" "0 < unat (next_atom mgr)" "unat (next_atom mgr) + length ops < 4294967296"
  shows "atom_inv (run_interns ops mgr) \<and> 0 < unat (next_atom (run_interns ops mgr)) \<and>
    unat (next_atom (run_interns ops mgr)) \<le> unat (next_atom mgr) + length ops"
  using assms unfolding run_interns_def
proof (induction ops arbitrary: mgr)
  case (Cons op ops)
  obtain name f where op: "op = (name, f)" by fastforce
  have lt: "unat (next_atom mgr) < 4294967295" using Cons.prems(3) by simp
  note i = intern_inv [OF Cons.prems(1) lt Cons.prems(2), of name f]
  from Cons.IH [OF i(1)] i(2,3) Cons.prems(2,3) show ?case by (simp add: op)
qed simp

lemma interned_inv:
  assumes "length ops < 4294967000"
  shows "atom_inv (run_interns ops atom_manager_new)"
    and "0 < unat (next_atom (run_interns ops atom_manager_new))"
    and "unat (next_atom (run_interns ops atom_manager_new)) < 4294967295"
  using run_interns_inv [OF atom_inv_new(1), of ops] assms by (simp_all add: atom_inv_new(2))

section \<open>Decoding ASCII and Latin-1\<close>

lemma from_utf8_lossy_ascii: "list_all (\<lambda>b. b < 0x80) bs \<Longrightarrow> from_utf8_lossy bs = bs"
  by (induction bs) (auto simp: utf8_step_def char_width_def Let_def)

lemma from_utf8_lossy_single: "0x80 \<le> b \<Longrightarrow> from_utf8_lossy [b] = replacement"
proof -
  assume "0x80 \<le> b"
  then have "char_width b \<noteq> 1" by (auto simp: char_width_def)
  moreover have "\<not> is_cont 0" "\<not> second_ok b 0"
    by (simp_all add: is_cont_def second_ok_def)
  ultimately have "utf8_step b [] = (1, False)" by (simp add: utf8_step_def Let_def)
  then show ?thesis by simp
qed

section \<open>Properties\<close>

text \<open>C24. Atoms are stable names: after any history of requests, interning a name gives a non-zero
  atom whose name it is and interning it again gives the same atom; every atom given out before
  keeps its name, and asking only for existing atoms changes nothing and gives 0 exactly for
  unknown names. (The table numbers atoms in 32 bits, hence the bound on the history.)\<close>

theorem intern_roundtrip:
  assumes "mgr = run_interns ops atom_manager_new" "length ops < 4294967000"
    and "intern name False mgr = (mgr', i)"
  shows "i \<noteq> 0 \<and> get_name i mgr' = Some name \<and> intern name f mgr' = (mgr', i) \<and>
    (\<forall>j n. get_name j mgr = Some n \<longrightarrow> get_name j mgr' = Some n \<and> intern n f mgr' = (mgr', j)) \<and>
    intern name True mgr = (mgr, if atoms mgr name = None then 0 else i)"
proof -
  note inv = interned_inv [OF assms(2), folded assms(1)]
  note step = intern_inv [OF inv(1,3,2), of name False, unfolded assms(3) fst_conv]
  have bij: "atoms m n = Some j \<longleftrightarrow> reverse m j = Some n" if "atom_inv m" for m n j
    using that by (simp add: atom_inv_def)
  have name: "reverse mgr' i = Some name"
    using assms(3) bij [OF inv(1)] by (auto simp: intern_def Let_def split: option.splits)
  then have "0 < unat i" using step(1) by (auto simp: atom_inv_def)
  then have "i \<noteq> 0" by auto
  moreover have again: "intern n f mgr' = (mgr', j)" if "reverse mgr' j = Some n" for n j
    using bij [OF step(1), of n j, THEN iffD2, OF that] by (simp add: intern_def)
  moreover have "get_name j mgr' = Some n" if "get_name j mgr = Some n" for j n
    using step(4) that by (force simp: get_name_def map_le_def dom_def)
  moreover have "intern name True mgr = (mgr, if atoms mgr name = None then 0 else i)"
    using assms(3) by (auto simp: intern_def Let_def split: option.splits)
  ultimately show ?thesis using name by (simp add: get_name_def)
qed

theorem intern_roundtrip_witness:
  "let (mgr', i) = intern (name_bytes ''MY_ATOM'') False (run_interns [] atom_manager_new)
   in i \<noteq> 0 \<and> get_name i mgr' = Some (name_bytes ''MY_ATOM'')"
proof (cases "intern (name_bytes ''MY_ATOM'') False (run_interns [] atom_manager_new)")
  case (Pair mgr' i)
  show ?thesis
    using intern_roundtrip [OF refl _ Pair, of False] by (simp add: Pair)
qed

text \<open>The requests: GetAtomName returns the bytes that InternAtom was given whenever they are
  ASCII, and answers BadAtom with the offending identifier for an atom that does not exist.\<close>

theorem atom_name_roundtrip:
  assumes "mgr = run_interns ops atom_manager_new" "length ops < 4294967000"
    and "list_all (\<lambda>b. b < 0x80) name"
    and "handle_intern_atom (name, False) mgr = (mgr', Reply (InternAtomReply atom))"
  shows "handle_get_atom_name atom seq mgr' = (mgr', Reply (GetAtomNameReply name)) \<and>
    (reverse mgr j = None \<longrightarrow>
       handle_get_atom_name j seq mgr = (mgr, ErrorReply (build_error ATOM_ERROR seq j 17 0)))"
proof -
  have run: "intern name False mgr = (mgr', atom)"
    using assms(4) from_utf8_lossy_ascii [OF assms(3)]
    by (auto simp: handle_intern_atom_def split: prod.splits)
  note inv = interned_inv [OF assms(2), folded assms(1)]
  have "reverse mgr' atom = Some name"
    using run inv(1) by (auto simp: intern_def Let_def atom_inv_def split: option.splits)
  then show ?thesis by (simp add: handle_get_atom_name_def get_name_def)
qed

theorem atom_name_roundtrip_witness:
  "let (mgr', r) = handle_intern_atom ([0x46, 0x4F, 0x4F], False) (run_interns [] atom_manager_new)
   in \<exists>atom. r = Reply (InternAtomReply atom) \<and>
        handle_get_atom_name atom 7 mgr' = (mgr', Reply (GetAtomNameReply [0x46, 0x4F, 0x4F]))"
proof (cases "handle_intern_atom ([0x46, 0x4F, 0x4F], False) (run_interns [] atom_manager_new)")
  case (Pair mgr' r)
  then obtain atom where r: "r = Reply (InternAtomReply atom)"
    by (auto simp: handle_intern_atom_def split: prod.splits)
  show ?thesis
    using atom_name_roundtrip [OF refl _ _ Pair [unfolded r], of 7] by (simp add: Pair r)
qed

text \<open>Names are decoded as UTF-8, so two different one-byte Latin-1 names above 0x7F become the
  same atom, and its name is neither of them.\<close>

theorem latin1_atoms_collide:
  assumes "0x80 \<le> b" "0x80 \<le> c" "b \<noteq> c"
    and "handle_intern_atom ([b], False) mgr = (mgr1, r1)"
    and "handle_intern_atom ([c], False) mgr1 = (mgr2, r2)"
  shows "r1 = r2 \<and> mgr1 = mgr2 \<and> [b] \<noteq> replacement \<and> [c] \<noteq> replacement \<and>
    (\<exists>atom. r1 = Reply (InternAtomReply atom) \<and> atoms mgr1 replacement = Some atom)"
  using assms(4,5) from_utf8_lossy_single [OF assms(1)] from_utf8_lossy_single [OF assms(2)]
  by (auto simp: handle_intern_atom_def intern_def Let_def replacement_def split: option.splits)

theorem latin1_atoms_collide_witness:
  "let (mgr1, r1) = handle_intern_atom ([0xE9], False) atom_manager_new;
       (mgr2, r2) = handle_intern_atom ([0xE8], False) mgr1
   in r1 = r2"
proof (cases "handle_intern_atom ([0xE9], False) atom_manager_new")
  case 1: (Pair mgr1 r1)
  show ?thesis
  proof (cases "handle_intern_atom ([0xE8], False) mgr1")
    case 2: (Pair mgr2 r2)
    have "r1 = r2" by (rule latin1_atoms_collide [OF _ _ _ 1 2, THEN conjunct1]) simp_all
    then show ?thesis by (simp add: 1 2)
  qed
qed

end
