(* ===== verification/Colormap.thy ===== *)
theory Colormap
  imports Prelude
begin

text \<open>
  Colormaps (\<open>types/colormap.rs\<close>) for the six visual classes: lookup, allocation of shared and
  private cells, contiguous blocks, freeing and storing, with the pixel packing of
  \<open>framebuffer/mod.rs\<close>. Cell indices are \<open>usize\<close> values and are natural numbers here; pixels are
  \<open>u32\<close>, and the conversions between the two are written out.
\<close>

unbundle bit_operations_syntax

section \<open>Data\<close>

datatype visual_class =
  STATIC_GRAY | GRAY_SCALE | STATIC_COLOR | PSEUDO_COLOR | TRUE_COLOR | DIRECT_COLOR

type_synonym rgb = "u16 \<times> u16 \<times> u16"

record colormap_state =
  visual :: u32
  cm_class :: visual_class
  entries :: "rgb list"
  allocated :: "bool list"
  next_free :: nat

definition unpack_rgb :: "u32 \<Rightarrow> u8 \<times> u8 \<times> u8" where
  "unpack_rgb rgb =
     (ucast (drop_bit 16 rgb AND 0xFF), ucast (drop_bit 8 rgb AND 0xFF), ucast (rgb AND 0xFF))"

definition pack_rgb :: "u8 \<Rightarrow> u8 \<Rightarrow> u8 \<Rightarrow> u32" where
  "pack_rgb r g b = push_bit 16 (ucast r) OR push_bit 8 (ucast g) OR ucast b"

section \<open>Construction\<close>

definition ramp :: "nat \<Rightarrow> rgb list" where
  "ramp n = map (\<lambda>i. let v = of_nat ((i * 65535) div max n 1) in (v, v, v)) [0..<n]"

definition new_truecolor :: "u32 \<Rightarrow> colormap_state" where
  "new_truecolor v =
     \<lparr>visual = v, cm_class = TRUE_COLOR, entries = [], allocated = [], next_free = 0\<rparr>"

definition new_pseudocolor :: "u32 \<Rightarrow> nat \<Rightarrow> colormap_state" where
  "new_pseudocolor v n = \<lparr>visual = v, cm_class = PSEUDO_COLOR, entries = ramp n,
     allocated = replicate n False, next_free = 0\<rparr>"

definition new_directcolor :: "u32 \<Rightarrow> nat \<Rightarrow> colormap_state" where
  "new_directcolor v n = \<lparr>visual = v, cm_class = DIRECT_COLOR, entries = ramp n,
     allocated = replicate n False, next_free = 0\<rparr>"

definition new_grayscale :: "u32 \<Rightarrow> nat \<Rightarrow> colormap_state" where
  "new_grayscale v n = \<lparr>visual = v, cm_class = GRAY_SCALE, entries = ramp n,
     allocated = replicate n False, next_free = 0\<rparr>"

definition new_staticgray :: "u32 \<Rightarrow> nat \<Rightarrow> colormap_state" where
  "new_staticgray v n = \<lparr>visual = v, cm_class = STATIC_GRAY, entries = ramp n,
     allocated = replicate n True, next_free = n\<rparr>"

text \<open>The \<open>RRRGGGBB\<close> palette; the products stay far below \<open>2 ^ 32\<close>.\<close>

definition rgb_332 :: "nat \<Rightarrow> rgb" where
  "rgb_332 i =
     (let i = of_nat i :: u32;
          r = drop_bit 5 i AND 0x7;
          g = drop_bit 2 i AND 0x7;
          b = i AND 0x3
      in (ucast ((r * 65535) div 7), ucast ((g * 65535) div 7), ucast ((b * 65535) div 3)))"

definition new_staticcolor :: "u32 \<Rightarrow> nat \<Rightarrow> colormap_state" where
  "new_staticcolor v n = \<lparr>visual = v, cm_class = STATIC_COLOR, entries = map rgb_332 [0..<n],
     allocated = replicate n True, next_free = n\<rparr>"

section \<open>Operations\<close>

definition is_writable :: "colormap_state \<Rightarrow> bool" where
  "is_writable cm = (case cm_class cm of
     GRAY_SCALE \<Rightarrow> True | PSEUDO_COLOR \<Rightarrow> True | DIRECT_COLOR \<Rightarrow> True | _ \<Rightarrow> False)"

definition widen :: "u8 \<Rightarrow> u16" where
  "widen c = push_bit 8 (ucast c) OR ucast c"

definition lookup :: "colormap_state \<Rightarrow> u32 \<Rightarrow> rgb" where
  "lookup cm pixel =
     (case cm_class cm of
        DIRECT_COLOR \<Rightarrow>
          (case unpack_rgb pixel of (r8, g8, b8) \<Rightarrow>
             (let n = length (entries cm)
              in (if unat r8 < n then fst (entries cm ! unat r8) else widen r8,
                  if unat g8 < n then fst (snd (entries cm ! unat g8)) else widen g8,
                  if unat b8 < n then snd (snd (entries cm ! unat b8)) else widen b8)))
      | TRUE_COLOR \<Rightarrow>
          (case unpack_rgb pixel of (r8, g8, b8) \<Rightarrow> (widen r8, widen g8, widen b8))
      | _ \<Rightarrow> if unat pixel < length (entries cm) then entries cm ! unat pixel else (0, 0, 0))"

definition color_distance :: "rgb \<Rightarrow> rgb \<Rightarrow> nat" where
  "color_distance = (\<lambda>(r, g, b) (er, eg, eb).
     (let dr = nat \<bar>uint r - uint er\<bar>; dg = nat \<bar>uint g - uint eg\<bar>; db = nat \<bar>uint b - uint eb\<bar>
      in dr * dr + dg * dg + db * db))"

text \<open>The scan for the closest entry; \<open>i\<close> is the position of the head of the rest, and the
  initial distance is \<open>u64::MAX\<close>.\<close>

fun closest :: "rgb \<Rightarrow> rgb list \<Rightarrow> nat \<Rightarrow> u32 \<Rightarrow> nat \<Rightarrow> u32" where
  "closest c [] i best_idx best_dist = best_idx"
| "closest c (e # es) i best_idx best_dist =
     (let dist = color_distance c e
      in if dist < best_dist then closest c es (i + 1) (of_nat i) dist
         else closest c es (i + 1) best_idx best_dist)"

text \<open>The first index below \<open>n\<close> that satisfies \<open>P\<close>, as a search loop returns it.\<close>

definition first_index :: "(nat \<Rightarrow> bool) \<Rightarrow> nat \<Rightarrow> nat option" where
  "first_index P n = List.find P [0..<n]"

definition alloc_color :: "rgb \<Rightarrow> colormap_state \<Rightarrow> colormap_state \<times> u32 option" where
  "alloc_color c cm =
     (case cm_class cm of
        TRUE_COLOR \<Rightarrow> (cm, Some (case c of (r, g, b) \<Rightarrow>
          pack_rgb (ucast (drop_bit 8 r)) (ucast (drop_bit 8 g)) (ucast (drop_bit 8 b))))
      | DIRECT_COLOR \<Rightarrow> (cm, Some (case c of (r, g, b) \<Rightarrow>
          pack_rgb (ucast (drop_bit 8 r)) (ucast (drop_bit 8 g)) (ucast (drop_bit 8 b))))
      | STATIC_GRAY \<Rightarrow> (cm, Some (closest c (entries cm) 0 0 (2 ^ 64 - 1)))
      | STATIC_COLOR \<Rightarrow> (cm, Some (closest c (entries cm) 0 0 (2 ^ 64 - 1)))
      | _ \<Rightarrow>
          (case first_index (\<lambda>i. entries cm ! i = c \<and> allocated cm ! i) (length (entries cm)) of
             Some i \<Rightarrow> (cm, Some (of_nat i))
           | None \<Rightarrow>
               (case first_index (\<lambda>i. \<not> allocated cm ! ((next_free cm + i) mod length (entries cm)))
                       (length (entries cm)) of
                  Some i \<Rightarrow>
                    (let idx = (next_free cm + i) mod length (entries cm)
                     in (cm\<lparr>entries := (entries cm)[idx := c], allocated := (allocated cm)[idx := True],
                            next_free := (idx + 1) mod length (entries cm)\<rparr>, Some (of_nat idx)))
                | None \<Rightarrow> (cm, None))))"

fun alloc_loop :: "nat \<Rightarrow> nat list \<Rightarrow> bool list \<Rightarrow> u32 list \<Rightarrow> bool list \<times> u32 list" where
  "alloc_loop n [] al pixels = (al, pixels)"
| "alloc_loop n (i # is) al pixels =
     (if length pixels \<ge> n then (al, pixels)
      else if \<not> al ! i then alloc_loop n is (al[i := True]) (pixels @ [of_nat i])
      else alloc_loop n is al pixels)"

definition alloc_cells :: "u16 \<Rightarrow> colormap_state \<Rightarrow> colormap_state \<times> u32 list option" where
  "alloc_cells n_colors cm =
     (if \<not> is_writable cm then (cm, None)
      else
        (let n = unat n_colors;
             (al, pixels) = alloc_loop n [0..<length (entries cm)] (allocated cm) []
         in if length pixels < n
            then (cm\<lparr>allocated := fold (\<lambda>p al. al[unat p := False]) pixels al\<rparr>, None)
            else (cm\<lparr>allocated := al\<rparr>, Some pixels)))"

text \<open>The scan for a run of \<open>n\<close> free cells, with the start and length of the current run.\<close>

fun find_run :: "nat \<Rightarrow> bool list \<Rightarrow> nat list \<Rightarrow> nat \<Rightarrow> nat \<Rightarrow> nat option" where
  "find_run n al [] run_start run_len = None"
| "find_run n al (i # is) run_start run_len =
     (if \<not> al ! i
      then (let run_start = (if run_len = 0 then i else run_start);
                run_len = run_len + 1
            in if run_len \<ge> n then Some run_start else find_run n al is run_start run_len)
      else find_run n al is run_start 0)"

definition alloc_cells_contiguous ::
    "u16 \<Rightarrow> colormap_state \<Rightarrow> colormap_state \<times> u32 list option" where
  "alloc_cells_contiguous n_colors cm =
     (if \<not> is_writable cm then (cm, None)
      else
        (let n = unat n_colors
         in if n = 0 then (cm, Some [])
            else (case find_run n (allocated cm) [0..<length (entries cm)] 0 0 of
                    Some s \<Rightarrow> (cm\<lparr>allocated := fold (\<lambda>j al. al[j := True]) [s..<s + n] (allocated cm)\<rparr>,
                               Some (map of_nat [s..<s + n]))
                  | None \<Rightarrow> (cm, None))))"

definition free_cells :: "u32 list \<Rightarrow> colormap_state \<Rightarrow> colormap_state" where
  "free_cells pixels cm = cm\<lparr>allocated := fold (\<lambda>p al.
     if unat p < length al then al[unat p := False] else al) pixels (allocated cm)\<rparr>"

definition store_entry :: "u32 \<times> u16 \<times> u16 \<times> u16 \<times> u8 \<Rightarrow> rgb list \<Rightarrow> rgb list" where
  "store_entry = (\<lambda>(pixel, r, g, b, flags) es.
     if unat pixel < length es
     then (let (er, eg, eb) = es ! unat pixel;
               er = (if flags AND 1 \<noteq> 0 then r else er);
               eg = (if flags AND 2 \<noteq> 0 then g else eg);
               eb = (if flags AND 4 \<noteq> 0 then b else eb)
           in es[unat pixel := (if flags = 0 then (r, g, b) else (er, eg, eb))])
     else es)"

definition store_colors :: "(u32 \<times> u16 \<times> u16 \<times> u16 \<times> u8) list \<Rightarrow> colormap_state \<Rightarrow> colormap_state" where
  "store_colors items cm = cm\<lparr>entries := fold store_entry items (entries cm)\<rparr>"

section \<open>Invariant\<close>

definition cm_inv :: "colormap_state \<Rightarrow> bool" where
  "cm_inv cm \<longleftrightarrow> length (allocated cm) = length (entries cm) \<and> length (entries cm) < 4294967296"

lemma first_index_Some: "first_index P n = Some i \<Longrightarrow> i < n \<and> P i \<and> (\<forall>j < i. \<not> P j)"
  unfolding first_index_def find_Some_iff by (auto simp: less_trans)

lemma first_index_None: "first_index P n = None \<longleftrightarrow> (\<forall>i < n. \<not> P i)"
  by (auto simp: first_index_def find_None_iff)

lemma rotate_covers:
  assumes "0 < n" "j < (n :: nat)"
  shows "\<exists>i < n. (k + i) mod n = j"
proof -
  have "(k + (j + n - k mod n) mod n) mod n = (k mod n + (j + n - k mod n)) mod n"
    by (simp add: mod_simps)
  also have "k mod n + (j + n - k mod n) = j + n"
    using assms(1) mod_less_divisor [OF assms(1), of k] by linarith
  finally show ?thesis using assms by (intro exI [of _ "(j + n - k mod n) mod n"]) simp
qed

lemma new_inv:
  "n < 4294967296 \<Longrightarrow> cm_inv (new_pseudocolor v n)" "n < 4294967296 \<Longrightarrow> cm_inv (new_directcolor v n)"
  "n < 4294967296 \<Longrightarrow> cm_inv (new_grayscale v n)" "n < 4294967296 \<Longrightarrow> cm_inv (new_staticgray v n)"
  "n < 4294967296 \<Longrightarrow> cm_inv (new_staticcolor v n)" "cm_inv (new_truecolor v)"
  by (simp_all add: cm_inv_def new_pseudocolor_def new_directcolor_def new_grayscale_def
      new_staticgray_def new_staticcolor_def new_truecolor_def ramp_def)

lemma alloc_loop_result:
  assumes "alloc_loop n is al pixels = (al', pixels')" "distinct is" "set is \<subseteq> {..<length al}"
  shows "\<exists>new. pixels' = pixels @ map of_nat new \<and> distinct new \<and> set new \<subseteq> {i \<in> set is. \<not> al ! i} \<and>
    length al' = length al \<and> (\<forall>i < length al. al' ! i \<longleftrightarrow> al ! i \<or> i \<in> set new) \<and>
    (length pixels' < n \<longrightarrow> set new = {i \<in> set is. \<not> al ! i}) \<and>
    (length pixels \<le> n \<longrightarrow> length pixels' \<le> n)"
  using assms
proof (induction n "is" al pixels arbitrary: al' pixels' rule: alloc_loop.induct)
  case (2 n i "is" al pixels)
  show ?case
  proof (cases "n \<le> length pixels")
    case True
    then show ?thesis using 2 by (auto intro!: exI [of _ "[]"])
  next
    case nfull: False
    show ?thesis
    proof (cases "al ! i")
      case True
      with 2 nfull obtain new where "pixels' = pixels @ map of_nat new" "distinct new"
        "set new \<subseteq> {i \<in> set is. \<not> al ! i}" "length al' = length al"
        "\<forall>i < length al. al' ! i \<longleftrightarrow> al ! i \<or> i \<in> set new"
        "length pixels' < n \<longrightarrow> set new = {i \<in> set is. \<not> al ! i}"
        "length pixels \<le> n \<longrightarrow> length pixels' \<le> n" by auto
      then show ?thesis using True by (intro exI [of _ new]) auto
    next
      case False
      with 2 nfull have run: "alloc_loop n is (al[i := True]) (pixels @ [of_nat i]) = (al', pixels')" by simp
      have pre: "distinct is" "set is \<subseteq> {..<length (al[i := True])}" "i \<notin> set is" "i < length al"
        using 2 by auto
      from "2.IH"(1) [OF nfull] False run pre(1,2) obtain new where new:
        "pixels' = (pixels @ [of_nat i]) @ map of_nat new" "distinct new"
        "set new \<subseteq> {j \<in> set is. \<not> al[i := True] ! j}" "length al' = length al"
        "\<forall>j < length al. al' ! j \<longleftrightarrow> al[i := True] ! j \<or> j \<in> set new"
        "length pixels' < n \<longrightarrow> set new = {j \<in> set is. \<not> al[i := True] ! j}"
        "Suc (length pixels) \<le> n \<longrightarrow> length pixels' \<le> n" by auto
      have "{j \<in> set is. \<not> al[i := True] ! j} = {j \<in> set is. \<not> al ! j}"
        using pre(3) by (metis (no_types, lifting) nth_list_update_neq)
      with new pre nfull False show ?thesis
        by (intro exI [of _ "i # new"]) (auto simp: nth_list_update)
    qed
  qed
qed auto

lemma length_fold_update [simp]: "length (fold (\<lambda>j al. al[j := v]) is al) = length al"
  by (induction "is" arbitrary: al) auto

lemma nth_fold_update:
  "i < length al \<Longrightarrow> fold (\<lambda>j al. al[j := v]) is al ! i = (if i \<in> set is then v else al ! i)"
  by (induction "is" arbitrary: al) (auto simp: nth_list_update)

lemma fold_unat_update:
  assumes "\<forall>i \<in> set is. i < 4294967296"
  shows "fold (\<lambda>p al. al[unat p := v]) (map (of_nat :: nat \<Rightarrow> u32) is) al = fold (\<lambda>j al. al[j := v]) is al"
  using assms by (induction "is" arbitrary: al) (simp_all add: unat_of_nat32)

text \<open>\<open>alloc_cells\<close> in one piece: all or nothing.\<close>

lemma alloc_cells_cases:
  assumes "cm_inv cm" "is_writable cm" "alloc_cells n cm = (cm', r)"
  shows "(\<exists>new. r = Some (map of_nat new) \<and> length new = unat n \<and> distinct new \<and>
       (\<forall>i \<in> set new. i < length (entries cm) \<and> \<not> allocated cm ! i) \<and>
       entries cm' = entries cm \<and> length (allocated cm') = length (allocated cm) \<and>
       (\<forall>i < length (entries cm). allocated cm' ! i \<longleftrightarrow> allocated cm ! i \<or> i \<in> set new)) \<or>
     (r = None \<and> cm' = cm \<and> card {i. i < length (entries cm) \<and> \<not> allocated cm ! i} < unat n)"
proof -
  let ?m = "length (entries cm)"
  obtain al pixels where loop: "alloc_loop (unat n) [0..<?m] (allocated cm) [] = (al, pixels)" by fastforce
  have len: "length (allocated cm) = ?m" "?m < 4294967296" using assms(1) by (auto simp: cm_inv_def)
  have "set [0..<?m] \<subseteq> {..<length (allocated cm)}" using len(1) by auto
  from alloc_loop_result [OF loop distinct_upt this] len(1) obtain new where new:
    "pixels = map of_nat new" "distinct new" "set new \<subseteq> {i. i < ?m \<and> \<not> allocated cm ! i}"
    "length al = ?m" "\<forall>i < ?m. al ! i \<longleftrightarrow> allocated cm ! i \<or> i \<in> set new"
    "length pixels < unat n \<longrightarrow> set new = {i. i < ?m \<and> \<not> allocated cm ! i}" "length pixels \<le> unat n"
    by auto
  show ?thesis
  proof (cases "length pixels < unat n")
    case True
    have "\<forall>i \<in> set new. i < 4294967296" using new(3) len(2) by auto
    then have undo: "fold (\<lambda>p al. al[unat p := False]) pixels al = fold (\<lambda>j al. al[j := False]) new al"
      unfolding new(1) by (rule fold_unat_update)
    have "fold (\<lambda>j al. al[j := False]) new al = allocated cm"
      using new(3,4,5) len(1) by (intro nth_equalityI) (auto simp: nth_fold_update)
    with undo have "fold (\<lambda>p al. al[unat p := False]) pixels al = allocated cm" by simp
    moreover have "card {i. i < ?m \<and> \<not> allocated cm ! i} < unat n"
      using True new(1,2,6) by (simp add: distinct_card flip: new(6) [rule_format, OF True])
    ultimately show ?thesis using True assms(2,3) loop by (auto simp: alloc_cells_def)
  next
    case False
    then show ?thesis using assms(2,3) loop new len by (auto simp: alloc_cells_def intro!: exI [of _ new])
  qed
qed

lemma find_run_correct:
  assumes "k \<le> m" "rl < n" "rl \<le> k" "rl > 0 \<longrightarrow> rs = k - rl" "\<forall>j. k - rl \<le> j \<and> j < k \<longrightarrow> \<not> al ! j"
  shows "case find_run n al [k..<m] rs rl of
      Some s \<Rightarrow> s + n \<le> m \<and> (\<forall>j. s \<le> j \<and> j < s + n \<longrightarrow> \<not> al ! j)
    | None \<Rightarrow> \<forall>s. k - rl \<le> s \<and> s + n \<le> m \<longrightarrow> (\<exists>j. s \<le> j \<and> j < s + n \<and> al ! j)"
  using assms
proof (induction "m - k" arbitrary: k rs rl)
  case 0
  then show ?case by simp linarith
next
  case (Suc d)
  then have upt: "[k..<m] = k # [Suc k..<m]" by (simp add: upt_rec)
  show ?case
  proof (cases "al ! k")
    case True
    have "case find_run n al [Suc k..<m] rs 0 of
      Some s \<Rightarrow> s + n \<le> m \<and> (\<forall>j. s \<le> j \<and> j < s + n \<longrightarrow> \<not> al ! j)
    | None \<Rightarrow> \<forall>s. Suc k - 0 \<le> s \<and> s + n \<le> m \<longrightarrow> (\<exists>j. s \<le> j \<and> j < s + n \<and> al ! j)"
      using Suc by (intro Suc.hyps(1)) auto
    moreover have "\<exists>j. s \<le> j \<and> j < s + n \<and> al ! j" if "k - rl \<le> s" "s \<le> k" for s
      using True that Suc.prems(2,3) by (intro exI [of _ k]) auto
    ultimately show ?thesis
      using True unfolding upt by (auto split: option.splits) (metis not_less_eq_eq)
  next
    case False
    let ?rs = "if rl = 0 then k else rs"
    have rs: "?rs = k - rl" using Suc.prems(4) by simp
    have free: "\<forall>j. k - rl \<le> j \<and> j < Suc k \<longrightarrow> \<not> al ! j"
      using False Suc.prems(5) by (auto simp: less_Suc_eq)
    show ?thesis
    proof (cases "rl + 1 \<ge> n")
      case True
      then have "find_run n al [k..<m] rs rl = Some (k - rl)"
        using False rs unfolding upt by (simp add: Let_def)
      moreover have "n = Suc rl" using True Suc.prems(2) by simp
      ultimately show ?thesis using free Suc.prems(3) Suc.hyps(2) by (auto simp: Suc_diff_le)
    next
      case more: False
      have "case find_run n al [Suc k..<m] ?rs (rl + 1) of
        Some s \<Rightarrow> s + n \<le> m \<and> (\<forall>j. s \<le> j \<and> j < s + n \<longrightarrow> \<not> al ! j)
      | None \<Rightarrow> \<forall>s. Suc k - (rl + 1) \<le> s \<and> s + n \<le> m \<longrightarrow> (\<exists>j. s \<le> j \<and> j < s + n \<and> al ! j)"
        using Suc more free rs by (intro Suc.hyps(1)) auto
      then show ?thesis using False more unfolding upt 
        by (cases "rl = 0") (simp_all add: Let_def split: option.splits)
    qed
  qed
qed

lemma first_indexI: "i < n \<Longrightarrow> P i \<Longrightarrow> \<forall>j < i. \<not> P j \<Longrightarrow> first_index P n = Some i"
  unfolding first_index_def find_Some_iff by (intro exI [of _ i]) auto

lemma alloc_color_result:
  assumes "cm_inv cm" "cm_class cm \<in> {PSEUDO_COLOR, GRAY_SCALE}" "alloc_color c cm = (cm', r)"
  shows "case r of
      Some p \<Rightarrow> lookup cm' p = c \<and> unat p < length (entries cm) \<and> allocated cm' ! unat p \<and> cm_inv cm' \<and>
        (\<forall>i < length (entries cm). i \<noteq> unat p \<longrightarrow>
           entries cm' ! i = entries cm ! i \<and> allocated cm' ! i = allocated cm ! i) \<and>
        (allocated cm ! unat p \<longrightarrow> cm' = cm)
    | None \<Rightarrow> cm' = cm \<and> (\<forall>i < length (entries cm). allocated cm ! i \<and> entries cm ! i \<noteq> c)"
proof -
  let ?n = "length (entries cm)"
  have len: "length (allocated cm) = ?n" "?n < 4294967296" using assms(1) by (auto simp: cm_inv_def)
  have u: "unat (of_nat i :: u32) = i" if "i < ?n" for i using that len(2) by (intro unat_of_nat32) simp
  have cls: "alloc_color c cm =
    (case first_index (\<lambda>i. entries cm ! i = c \<and> allocated cm ! i) ?n of
       Some i \<Rightarrow> (cm, Some (of_nat i))
     | None \<Rightarrow>
        (case first_index (\<lambda>i. \<not> allocated cm ! ((next_free cm + i) mod ?n)) ?n of
           Some i \<Rightarrow> (let idx = (next_free cm + i) mod ?n
              in (cm\<lparr>entries := (entries cm)[idx := c], allocated := (allocated cm)[idx := True],
                     next_free := (idx + 1) mod ?n\<rparr>, Some (of_nat idx)))
         | None \<Rightarrow> (cm, None)))"
    using assms(2) by (auto simp: alloc_color_def)
  have look: "lookup m p = entries m ! unat p"
    if "cm_class m \<in> {PSEUDO_COLOR, GRAY_SCALE}" "unat p < length (entries m)" for m p
    using that by (auto simp: lookup_def)
  show ?thesis
  proof (cases "first_index (\<lambda>i. entries cm ! i = c \<and> allocated cm ! i) ?n")
    case (Some i)
    have "cm' = cm" "r = Some (of_nat i)" using assms(3) cls Some by simp_all
    then show ?thesis
      using assms(1,2) first_index_Some [OF Some] u [of i] look [of cm "of_nat i"] by simp
  next
    case none: None
    show ?thesis
    proof (cases "first_index (\<lambda>i. \<not> allocated cm ! ((next_free cm + i) mod ?n)) ?n")
      case (Some i)
      let ?idx = "(next_free cm + i) mod ?n"
      note f = first_index_Some [OF Some]
      have "0 < ?n" using conjunct1 [OF f] by linarith
      then have idx: "?idx < ?n" by (rule mod_less_divisor)
      let ?cm = "cm\<lparr>entries := (entries cm)[?idx := c], allocated := (allocated cm)[?idx := True],
                     next_free := (?idx + 1) mod ?n\<rparr>"
      have res: "cm' = ?cm" "r = Some (of_nat ?idx)"
        using assms(3) cls none Some by (simp_all add: Let_def)
      have "lookup ?cm (of_nat ?idx) = c"
        using look [of ?cm "of_nat ?idx"] assms(2) idx u [OF idx] by simp
      then show ?thesis using res assms(1) idx u [OF idx] len f by (simp add: cm_inv_def)
    next
      case None
      then have "allocated cm ! j" if "j < ?n" for j
        using rotate_covers [of ?n j "next_free cm"] that by (force simp: first_index_None)
      then show ?thesis using assms(3) cls none None by (auto simp: first_index_None)
    qed
  qed
qed

lemma alloc_color_again:
  assumes "cm_inv cm" "cm_class cm \<in> {PSEUDO_COLOR, GRAY_SCALE}" "alloc_color c cm = (cm1, Some p)"
  shows "alloc_color c cm1 = (cm1, Some p)"
proof (cases "first_index (\<lambda>i. entries cm ! i = c \<and> allocated cm ! i) (length (entries cm))")
  case (Some i)
  then have "cm1 = cm" using assms(2,3) by (auto simp: alloc_color_def)
  then show ?thesis using assms(3) by simp
next
  case None
  note a = alloc_color_result [OF assms, simplified]
  have len: "length (entries cm1) = length (entries cm)" and cls: "cm_class cm1 = cm_class cm"
    using assms(2,3) by (auto simp: alloc_color_def Let_def split: option.splits)
  have "entries cm1 ! unat p = c" using a cls assms(2) len by (auto simp: lookup_def)
  moreover have "\<not> (entries cm1 ! j = c \<and> allocated cm1 ! j)" if "j < unat p" for j
    using a None that by (auto simp: first_index_None)
  ultimately have "first_index (\<lambda>i. entries cm1 ! i = c \<and> allocated cm1 ! i) (length (entries cm1)) = Some (unat p)"
    using a len by (intro first_indexI) auto
  then show ?thesis using cls assms(2) by (auto simp: alloc_color_def)
qed

lemma closest_result:
  "(closest c es i b d = b \<and> (\<forall>e \<in> set es. d \<le> color_distance c e)) \<or>
   (\<exists>j < length es. closest c es i b d = of_nat (i + j) \<and>
      (\<forall>e \<in> set es. color_distance c (es ! j) \<le> color_distance c e) \<and> color_distance c (es ! j) < d)"
proof (induction es arbitrary: i b d)
  case (Cons e es)
  show ?case
  proof (cases "color_distance c e < d")
    case True
    from Cons.IH [of "i + 1" "of_nat i" "color_distance c e"] show ?thesis
    proof (elim disjE exE conjE)
      assume "closest c es (i + 1) (of_nat i) (color_distance c e) = of_nat i"
        "\<forall>e' \<in> set es. color_distance c e \<le> color_distance c e'"
      then show ?thesis using True by (intro disjI2 exI [of _ 0]) (simp add: Let_def)
    next
      fix j
      assume "j < length es" "closest c es (i + 1) (of_nat i) (color_distance c e) = of_nat (i + 1 + j)"
        "\<forall>e' \<in> set es. color_distance c (es ! j) \<le> color_distance c e'"
        "color_distance c (es ! j) < color_distance c e"
      then show ?thesis using True by (intro disjI2 exI [of _ "Suc j"]) (simp add: Let_def)
    qed
  next
    case False
    from Cons.IH [of "i + 1" b d] show ?thesis
    proof (elim disjE exE conjE)
      fix j
      assume "j < length es" "closest c es (i + 1) b d = of_nat (i + 1 + j)"
        "\<forall>e' \<in> set es. color_distance c (es ! j) \<le> color_distance c e'" "color_distance c (es ! j) < d"
      then show ?thesis using False by (intro disjI2 exI [of _ "Suc j"]) (simp add: Let_def)
    qed (use False in \<open>simp add: Let_def\<close>)
  qed
qed simp

lemma color_distance_bound: "color_distance c e < 2 ^ 64 - 1"
proof -
  obtain r g b er eg eb where ce: "c = (r, g, b)" "e = (er, eg, eb)" by (metis prod_cases3)
  have sq: "nat \<bar>uint x - uint y\<bar> * nat \<bar>uint x - uint y\<bar> \<le> 65535 * 65535" for x y :: u16
    using uint_range16 [of x] uint_range16 [of y] by (intro mult_le_mono) linarith+
  from sq [of r er] sq [of g eg] sq [of b eb] show ?thesis
    by (simp add: color_distance_def ce Let_def)
qed

section \<open>Properties\<close>

text \<open>In a writable indexed colormap, the pixel that \<open>alloc_color\<close> returns looks up to the colour
  asked for, its cell is allocated, no other allocated cell changes, and the allocation fails
  only when every cell is allocated and none of them has the colour.\<close>

theorem alloc_color_lookup:
  assumes "cm_inv cm" "cm_class cm \<in> {PSEUDO_COLOR, GRAY_SCALE}" "alloc_color c cm = (cm', r)"
  shows "case r of
      Some p \<Rightarrow> lookup cm' p = c \<and> unat p < length (entries cm) \<and> allocated cm' ! unat p \<and> cm_inv cm' \<and>
        (\<forall>i < length (entries cm). i \<noteq> unat p \<longrightarrow>
           entries cm' ! i = entries cm ! i \<and> allocated cm' ! i = allocated cm ! i) \<and>
        (allocated cm ! unat p \<longrightarrow> cm' = cm)
    | None \<Rightarrow> cm' = cm \<and> (\<forall>i < length (entries cm). allocated cm ! i \<and> entries cm ! i \<noteq> c)"
  using assms by (rule alloc_color_result)

text \<open>Two-cell colormaps for the examples.\<close>

definition two_cells :: "bool list \<Rightarrow> colormap_state" where
  "two_cells al = \<lparr>visual = 0x23, cm_class = PSEUDO_COLOR, entries = [(0, 0, 0), (7, 7, 7)],
     allocated = al, next_free = 0\<rparr>"

lemma two_cells_ok:
  "length al = 2 \<Longrightarrow> cm_inv (two_cells al)" "is_writable (two_cells al)"
  "cm_class (two_cells al) \<in> {PSEUDO_COLOR, GRAY_SCALE}"
  by (simp_all add: two_cells_def cm_inv_def is_writable_def)

theorem alloc_color_lookup_witness:
  "let (cm', r) = alloc_color (1, 2, 3) (two_cells [False, False])
   in r = Some 0 \<and> lookup cm' 0 = (1, 2, 3)"
proof (cases "alloc_color (1, 2, 3) (two_cells [False, False])")
  case (Pair cm' r)
  have "snd (alloc_color (1, 2, 3) (two_cells [False, False])) = Some 0" by code_simp
  then have r: "r = Some 0" by (simp add: Pair)
  from alloc_color_lookup [OF two_cells_ok(1) two_cells_ok(3) Pair] show ?thesis by (simp add: Pair r)
qed

text \<open>C26. \<open>alloc_cells\<close> is all or nothing: it returns exactly the number of cells asked for, all
  different and all free before, and allocates just these; or it fails because fewer cells are
  free, and then leaves the colormap as it was.\<close>

theorem alloc_cells_all_or_nothing:
  assumes "cm_inv cm" "is_writable cm" "alloc_cells n cm = (cm', r)"
  shows "case r of
      Some ps \<Rightarrow> length ps = unat n \<and> distinct ps \<and>
        (\<forall>p \<in> set ps. unat p < length (entries cm) \<and> \<not> allocated cm ! unat p) \<and>
        (\<forall>i < length (entries cm). allocated cm' ! i \<longleftrightarrow> allocated cm ! i \<or> of_nat i \<in> set ps) \<and>
        entries cm' = entries cm \<and> cm_inv cm'
    | None \<Rightarrow> cm' = cm \<and> card {i. i < length (entries cm) \<and> \<not> allocated cm ! i} < unat n"
proof (cases r)
  case None
  then show ?thesis using alloc_cells_cases [OF assms] by auto
next
  case (Some ps)
  then obtain new where new: "ps = map of_nat new" "length new = unat n" "distinct new"
    "\<forall>i \<in> set new. i < length (entries cm) \<and> \<not> allocated cm ! i" "entries cm' = entries cm"
    "length (allocated cm') = length (allocated cm)"
    "\<forall>i < length (entries cm). allocated cm' ! i \<longleftrightarrow> allocated cm ! i \<or> i \<in> set new"
    using alloc_cells_cases [OF assms] by auto
  have u: "unat (of_nat i :: u32) = i" if "i < length (entries cm)" for i
    using that assms(1) by (intro unat_of_nat32) (simp add: cm_inv_def)
  have inj: "(of_nat i :: u32) = of_nat j \<longleftrightarrow> i = j"
    if "i < length (entries cm)" "j < length (entries cm)" for i j
    using u [OF that(1)] u [OF that(2)] by metis
  have "distinct ps" using new(1,3,4) inj by (simp add: distinct_map inj_on_def)
  moreover have "(of_nat i :: u32) \<in> set ps \<longleftrightarrow> i \<in> set new" if "i < length (entries cm)" for i
    using new(1,4) inj [OF that] by auto
  ultimately show ?thesis
    using Some new u assms(1) by (auto simp: cm_inv_def)
qed

theorem alloc_cells_all_or_nothing_witness:
  "let (cm', r) = alloc_cells 3 (two_cells [False, False])
   in r = None \<and> cm' = two_cells [False, False] \<and>
      (let (cm'', r') = alloc_cells 2 (two_cells [False, False])
       in r' = Some [0, 1] \<and> cm_inv cm'')"
proof -
  let ?cm = "two_cells [False, False]"
  have w: "is_writable ?cm" by (rule two_cells_ok)
  have inv: "cm_inv ?cm" by (rule two_cells_ok) simp
  have 1: "snd (alloc_cells 3 ?cm) = None" "snd (alloc_cells 2 ?cm) = Some [0, 1]" by code_simp+
  show ?thesis
    using alloc_cells_all_or_nothing [OF inv w surjective_pairing, of 3]
      alloc_cells_all_or_nothing [OF inv w surjective_pairing, of 2]
    by (simp add: 1 case_prod_unfold Let_def)
qed

text \<open>The contiguous allocation finds a block of free neighbouring cells whenever there is one,
  returns consecutive pixels and allocates just these; otherwise nothing changes.\<close>

theorem alloc_contiguous_complete:
  assumes "cm_inv cm" "is_writable cm" "0 < unat n" "alloc_cells_contiguous n cm = (cm', r)"
  shows "case r of
      Some ps \<Rightarrow> \<exists>s. ps = map of_nat [s..<s + unat n] \<and> s + unat n \<le> length (entries cm) \<and>
        (\<forall>j. s \<le> j \<and> j < s + unat n \<longrightarrow> \<not> allocated cm ! j) \<and>
        (\<forall>i < length (entries cm). allocated cm' ! i \<longleftrightarrow> allocated cm ! i \<or> s \<le> i \<and> i < s + unat n) \<and>
        entries cm' = entries cm \<and> cm_inv cm'
    | None \<Rightarrow> cm' = cm \<and> \<not> (\<exists>s. s + unat n \<le> length (entries cm) \<and>
        (\<forall>j. s \<le> j \<and> j < s + unat n \<longrightarrow> \<not> allocated cm ! j))"
proof -
  have len: "length (allocated cm) = length (entries cm)" using assms(1) by (simp add: cm_inv_def)
  have "case find_run (unat n) (allocated cm) [0..<length (entries cm)] 0 0 of
      Some s \<Rightarrow> s + unat n \<le> length (entries cm) \<and> (\<forall>j. s \<le> j \<and> j < s + unat n \<longrightarrow> \<not> allocated cm ! j)
    | None \<Rightarrow> \<forall>s. 0 - 0 \<le> s \<and> s + unat n \<le> length (entries cm) \<longrightarrow>
        (\<exists>j. s \<le> j \<and> j < s + unat n \<and> allocated cm ! j)"
    by (rule find_run_correct) (use assms(3) in auto)
  with assms len show ?thesis
    by (auto simp: alloc_cells_contiguous_def Let_def nth_fold_update cm_inv_def split: option.splits)
qed

theorem alloc_contiguous_complete_witness:
  "case snd (alloc_cells_contiguous 1 (two_cells [True, False])) of
     Some ps \<Rightarrow> ps = [1] \<and> cm_inv (fst (alloc_cells_contiguous 1 (two_cells [True, False])))
   | None \<Rightarrow> False"
proof -
  let ?cm = "two_cells [True, False]"
  have 1: "snd (alloc_cells_contiguous 1 ?cm) = Some [1]" by code_simp
  show ?thesis
    using alloc_contiguous_complete [OF two_cells_ok(1) two_cells_ok(2) _ surjective_pairing,
        of "[True, False]" 1]
    by (auto simp: 1)
qed

text \<open>In a read-only indexed colormap, \<open>alloc_color\<close> returns an entry of the palette that no other
  entry beats in distance to the colour asked for, and changes nothing.\<close>

theorem static_color_nearest:
  assumes "cm_inv cm" "cm_class cm \<in> {STATIC_GRAY, STATIC_COLOR}" "entries cm \<noteq> []"
  shows "\<exists>p. alloc_color c cm = (cm, Some p) \<and> unat p < length (entries cm) \<and>
    (\<forall>e \<in> set (entries cm). color_distance c (lookup cm p) \<le> color_distance c e)"
proof -
  let ?p = "closest c (entries cm) 0 0 (2 ^ 64 - 1)"
  have "\<not> (\<forall>e \<in> set (entries cm). 2 ^ 64 - 1 \<le> color_distance c e)"
    using assms(3) color_distance_bound [of c "hd (entries cm)"] by (meson hd_in_set not_less)
  with closest_result [of c "entries cm" 0 0 "2 ^ 64 - 1"] obtain j where j: "j < length (entries cm)"
    "?p = of_nat j" "\<forall>e \<in> set (entries cm). color_distance c (entries cm ! j) \<le> color_distance c e"
    by auto
  have "unat ?p = j" unfolding j(2) using j(1) assms(1) by (intro unat_of_nat32) (simp add: cm_inv_def)
  moreover have "alloc_color c cm = (cm, Some ?p)" using assms(2) by (auto simp: alloc_color_def)
  ultimately show ?thesis using j assms(2) by (intro exI [of _ ?p]) (auto simp: lookup_def)
qed

theorem static_color_nearest_witness:
  "let cm = (two_cells [True, True])\<lparr>cm_class := STATIC_COLOR\<rparr>
   in \<exists>p. alloc_color (6, 6, 6) cm = (cm, Some p) \<and>
        color_distance (6, 6, 6) (lookup cm p) \<le> color_distance (6, 6, 6) (7, 7, 7)"
proof -
  define cm where "cm = (two_cells [True, True])\<lparr>cm_class := STATIC_COLOR\<rparr>"
  have "cm_inv cm" "cm_class cm \<in> {STATIC_GRAY, STATIC_COLOR}" "entries cm \<noteq> []"
    "(7, 7, 7) \<in> set (entries cm)"
    by (simp_all add: cm_def cm_inv_def two_cells_def)
  with static_color_nearest [of cm "(6, 6, 6)"] show ?thesis unfolding cm_def by metis
qed

text \<open>Cells are shared without a count of their users: a colour allocated twice gives one pixel,
  and freeing it once makes the cell available again, so that a later allocation of another
  colour overwrites the colour the other user still relies on.\<close>

theorem shared_cell_freed_early:
  assumes "cm_inv cm" "cm_class cm \<in> {PSEUDO_COLOR, GRAY_SCALE}"
    and "alloc_color c cm = (cm1, Some p)" "alloc_color d (free_cells [p] cm1) = (cm2, r)"
    and "\<forall>i < length (entries cm). i \<noteq> unat p \<longrightarrow> allocated cm1 ! i \<and> entries cm1 ! i \<noteq> d"
  shows "alloc_color c cm1 = (cm1, Some p) \<and> r = Some p \<and> lookup cm2 p = d"
proof -
  note a = alloc_color_result [OF assms(1-3), simplified]
  have again: "alloc_color c cm1 = (cm1, Some p)" by (rule alloc_color_again [OF assms(1-3)])
  have cls: "cm_class (free_cells [p] cm1) \<in> {PSEUDO_COLOR, GRAY_SCALE}"
    using assms(2,3) by (auto simp: free_cells_def alloc_color_def Let_def split: option.splits)
  have len: "length (entries cm1) = length (entries cm)"
    using assms(2,3) by (auto simp: alloc_color_def Let_def split: option.splits)
  have inv: "cm_inv (free_cells [p] cm1)" using a by (simp add: free_cells_def cm_inv_def)
  have al: "allocated (free_cells [p] cm1) = (allocated cm1)[unat p := False]"
    "entries (free_cells [p] cm1) = entries cm1"
    using a len by (simp_all add: free_cells_def cm_inv_def)
  note b = alloc_color_result [OF inv cls assms(4)]
  have pfree: "\<not> allocated (free_cells [p] cm1) ! unat p" "unat p < length (entries cm1)"
    using a len al by (simp_all add: cm_inv_def)
  show ?thesis
  proof (cases r)
    case None
    then show ?thesis using b pfree al by auto
  next
    case (Some q)
    have "unat q = unat p"
    proof (rule ccontr)
      assume ne: "unat q \<noteq> unat p"
      then have "allocated cm1 ! unat q" "entries cm1 ! unat q \<noteq> d"
        using b Some assms(5) al len by auto
      then have "cm2 = free_cells [p] cm1" using b Some ne al by simp
      moreover have "lookup cm2 q = entries cm2 ! unat q"
        using b Some cls al calculation by (auto simp: lookup_def)
      ultimately show False using b Some al \<open>entries cm1 ! unat q \<noteq> d\<close> by simp
    qed
    then have "q = p" by (simp add: word_unat_eq_iff)
    with again b Some show ?thesis by simp
  qed
qed

theorem shared_cell_freed_early_witness:
  "let cm = two_cells [True, False];
       (cm1, r1) = alloc_color (1, 1, 1) cm;
       (cm2, r2) = alloc_color (9, 9, 9) (free_cells [1] cm1)
   in r1 = Some 1 \<and> alloc_color (1, 1, 1) cm1 = (cm1, Some 1) \<and> r2 = Some 1 \<and> lookup cm2 1 = (9, 9, 9)"
proof -
  let ?cm = "two_cells [True, False]"
  define cm1 where "cm1 = fst (alloc_color (1, 1, 1) ?cm)"
  have s: "snd (alloc_color (1, 1, 1) ?cm) = Some 1" by code_simp
  have c1: "cm1 = two_cells [True, True]\<lparr>entries := [(0, 0, 0), (1, 1, 1)]\<rparr>"
    unfolding cm1_def by code_simp
  have run: "alloc_color (1, 1, 1) ?cm = (cm1, Some 1)" using s by (simp add: cm1_def prod_eq_iff)
  obtain cm2 r where run2: "alloc_color (9, 9, 9) (free_cells [1] cm1) = (cm2, r)" by fastforce
  have other: "\<forall>i < length (entries ?cm). i \<noteq> unat (1 :: u32) \<longrightarrow> allocated cm1 ! i \<and> entries cm1 ! i \<noteq> (9, 9, 9)"
    unfolding c1 by (simp add: two_cells_def less_Suc_eq)
  show ?thesis
    using shared_cell_freed_early [OF two_cells_ok(1) two_cells_ok(3) run run2 other]
    by (simp add: run run2)
qed

end
