(* ===== verification/Color_Names.thy ===== *)
theory Color_Names
  imports Colormap "HOL-Library.AList"
begin

text \<open>
  Colour specifications (\<open>src/crates/x11-server/src/colors.rs\<close>): hexadecimal colours, intensities and
  the database of names read from \<open>rgb.txt\<close>.

  A Rust string is the list of its Unicode code points; its length and its slices count the bytes of
  the UTF-8 encoding, and a slice that cuts a character panics, which is the value \<open>None\<close>. The
  contents of the file and the reading of a floating-point intensity (\<open>f64::from_str\<close>, scaled and
  rounded to 16 bits) are arguments.
\<close>

section \<open>Strings\<close>

type_synonym str = "nat list"

definition utf8_len :: "nat \<Rightarrow> nat" where
  "utf8_len c = (if c < 0x80 then 1 else if c < 0x800 then 2 else if c < 0x10000 then 3 else 4)"

definition str_len :: "str \<Rightarrow> nat" where
  "str_len s = sum_list (map utf8_len s)"

text \<open>The string cut at a byte offset, \<open>None\<close> when the offset is not at a character boundary.\<close>

fun split_at :: "nat \<Rightarrow> str \<Rightarrow> (str \<times> str) option" where
  "split_at n s =
     (if n = 0 then Some ([], s)
      else case s of
             [] \<Rightarrow> None
           | c # cs \<Rightarrow> if utf8_len c \<le> n then map_option (apfst ((#) c)) (split_at (n - utf8_len c) cs) else None)"

declare split_at.simps [simp del]

definition continuation :: "nat \<Rightarrow> bool" where
  "continuation b \<longleftrightarrow> 0x80 \<le> b \<and> b \<le> 0xBF"

text \<open>The bytes of one character at the front: its code point and the rest.\<close>

fun decode_char :: "nat list \<Rightarrow> (nat \<times> nat list) option" where
  "decode_char [] = None"
| "decode_char (b # bs) =
     (if b < 0x80 then Some (b, bs)
      else case bs of
        [] \<Rightarrow> None
      | b1 # bs1 \<Rightarrow>
          if \<not> continuation b1 then None
          else if 0xC2 \<le> b \<and> b \<le> 0xDF then Some ((b - 0xC0) * 64 + (b1 - 0x80), bs1)
          else case bs1 of
            [] \<Rightarrow> None
          | b2 # bs2 \<Rightarrow>
              if \<not> continuation b2 then None
              else if 0xE0 \<le> b \<and> b \<le> 0xEF
              then (let c = ((b - 0xE0) * 64 + (b1 - 0x80)) * 64 + (b2 - 0x80)
                    in if 0x800 \<le> c \<and> \<not> (0xD800 \<le> c \<and> c \<le> 0xDFFF) then Some (c, bs2) else None)
              else case bs2 of
                [] \<Rightarrow> None
              | b3 # bs3 \<Rightarrow>
                  if \<not> continuation b3 then None
                  else if 0xF0 \<le> b \<and> b \<le> 0xF4
                  then (let c = (((b - 0xF0) * 64 + (b1 - 0x80)) * 64 + (b2 - 0x80)) * 64 + (b3 - 0x80)
                        in if 0x10000 \<le> c \<and> c \<le> 0x10FFFF then Some (c, bs3) else None)
                  else None)"

lemma decode_char_shorter: "decode_char bs = Some (c, rest) \<Longrightarrow> length rest < length bs"
  by (cases bs) (auto simp: Let_def split: if_splits list.splits)

function decode_utf8 :: "nat list \<Rightarrow> str option" where
  "decode_utf8 bs =
     (if bs = [] then Some []
      else case decode_char bs of
             None \<Rightarrow> None
           | Some (c, rest) \<Rightarrow> map_option ((#) c) (decode_utf8 rest))"
  by auto
termination by (relation "measure length") (auto dest: decode_char_shorter)

declare decode_utf8.simps [simp del]

definition from_utf8 :: "bytes \<Rightarrow> str option" where
  "from_utf8 bs = decode_utf8 (map unat bs)"

text \<open>\<open>char::is_whitespace\<close> and \<open>char::is_ascii_whitespace\<close>.\<close>

definition is_whitespace :: "nat \<Rightarrow> bool" where
  "is_whitespace c \<longleftrightarrow> 9 \<le> c \<and> c \<le> 13 \<or> c \<in> {32, 0x85, 0xA0, 0x1680, 0x2028, 0x2029, 0x202F, 0x205F, 0x3000}
     \<or> 0x2000 \<le> c \<and> c \<le> 0x200A"

definition is_ascii_whitespace :: "nat \<Rightarrow> bool" where
  "is_ascii_whitespace c \<longleftrightarrow> c \<in> {9, 10, 12, 13, 32}"

definition trim :: "str \<Rightarrow> str" where
  "trim s = rev (dropWhile is_whitespace (rev (dropWhile is_whitespace s)))"

definition to_ascii_lowercase :: "nat \<Rightarrow> nat" where
  "to_ascii_lowercase c = (if 65 \<le> c \<and> c \<le> 90 then c + 32 else c)"

definition strip_prefix :: "str \<Rightarrow> str \<Rightarrow> str option" where
  "strip_prefix p s = (if take (length p) s = p then Some (drop (length p) s) else None)"

fun split_on :: "(nat \<Rightarrow> bool) \<Rightarrow> str \<Rightarrow> str list" where
  "split_on p [] = [[]]"
| "split_on p (c # cs) =
     (if p c then [] # split_on p cs
      else case split_on p cs of [] \<Rightarrow> [[c]] | w # ws \<Rightarrow> (c # w) # ws)"

definition digit :: "nat \<Rightarrow> nat \<Rightarrow> nat option" where
  "digit radix c =
     (let v = (if 48 \<le> c \<and> c \<le> 57 then c - 48 else if 97 \<le> c \<and> c \<le> 122 then c - 87
               else if 65 \<le> c \<and> c \<le> 90 then c - 55 else radix)
      in if v < radix then Some v else None)"

fun digits_value :: "nat \<Rightarrow> nat \<Rightarrow> nat \<Rightarrow> str \<Rightarrow> nat option" where
  "digits_value radix limit acc [] = Some acc"
| "digits_value radix limit acc (c # cs) =
     (case digit radix c of
        None \<Rightarrow> None
      | Some d \<Rightarrow> if acc * radix + d \<le> limit then digits_value radix limit (acc * radix + d) cs else None)"

text \<open>\<open>from_str_radix\<close> of an unsigned type with the largest value \<open>limit\<close>; a leading plus sign is accepted.\<close>

definition from_str_radix :: "nat \<Rightarrow> nat \<Rightarrow> str \<Rightarrow> nat option" where
  "from_str_radix radix limit s =
     (case s of
        [] \<Rightarrow> None
      | c # cs \<Rightarrow> if c = 43 then (if cs = [] then None else digits_value radix limit 0 cs)
                  else digits_value radix limit 0 s)"

section \<open>Colours\<close>

definition scale8 :: "u8 \<Rightarrow> u16" where
  "scale8 v = ucast v * 0x101"

definition normalize :: "str \<Rightarrow> str" where
  "normalize name = map to_ascii_lowercase (filter (\<lambda>c. \<not> is_ascii_whitespace c) name)"

text \<open>\<open>k\<close> numbers of \<open>n\<close> hexadecimal digits each; a cut inside a character panics.\<close>

primrec hex_components :: "nat \<Rightarrow> nat \<Rightarrow> str \<Rightarrow> nat list option option" where
  "hex_components 0 n s = Some (Some [])"
| "hex_components (Suc k) n s =
     (case split_at n s of
        None \<Rightarrow> None
      | Some (a, rest) \<Rightarrow>
          (case from_str_radix 16 (if n = 2 then 255 else 65535) a of
             None \<Rightarrow> Some None
           | Some v \<Rightarrow> map_option (map_option ((#) v)) (hex_components k n rest)))"

definition hex_triple :: "nat \<Rightarrow> (nat \<Rightarrow> u16) \<Rightarrow> str \<Rightarrow> rgb option option" where
  "hex_triple n f s =
     (case hex_components 3 n s of
        None \<Rightarrow> None
      | Some None \<Rightarrow> Some None
      | Some (Some vs) \<Rightarrow> Some (Some (f (vs ! 0), f (vs ! 1), f (vs ! 2))))"

definition parse_hex :: "str \<Rightarrow> rgb option option" where
  "parse_hex hex =
     (if str_len hex = 3 then hex_triple 1 (\<lambda>v. of_nat v * 0x1111) hex
      else if str_len hex = 6 then hex_triple 2 (\<lambda>v. scale8 (of_nat v)) hex
      else if str_len hex = 12 then hex_triple 4 of_nat hex
      else Some None)"

definition parse_rgbi :: "(str \<Rightarrow> u16 option) \<Rightarrow> str \<Rightarrow> rgb option" where
  "parse_rgbi intensity spec =
     (case split_on (\<lambda>c. c = 47) spec of
        [r, g, b] \<Rightarrow>
          (case (intensity r, intensity g, intensity b) of
             (Some r, Some g, Some b) \<Rightarrow> Some (r, g, b) | _ \<Rightarrow> None)
      | _ \<Rightarrow> None)"

definition lines :: "str \<Rightarrow> str list" where
  "lines s = map (\<lambda>l. if l \<noteq> [] \<and> last l = 13 then butlast l else l) (split_on (\<lambda>c. c = 10) s)"

definition words_of :: "str \<Rightarrow> str list" where
  "words_of s = filter (\<lambda>w. w \<noteq> []) (split_on is_ascii_whitespace s)"

fun join_space :: "str list \<Rightarrow> str" where
  "join_space [] = []"
| "join_space [w] = w"
| "join_space (w # ws) = w @ 32 # join_space ws"

definition rgb_line :: "str \<Rightarrow> (str \<times> rgb) option" where
  "rgb_line raw =
     (let line = trim raw
      in if line = [] \<or> hd line = 33 then None
         else case words_of line of
           r # g # b # name \<Rightarrow>
             (case (from_str_radix 10 255 r, from_str_radix 10 255 g, from_str_radix 10 255 b) of
                (Some r, Some g, Some b) \<Rightarrow>
                  if join_space name = [] then None
                  else Some (normalize (join_space name), (scale8 (of_nat r), scale8 (of_nat g), scale8 (of_nat b)))
              | _ \<Rightarrow> None)
         | _ \<Rightarrow> None)"

definition add_color :: "str \<Rightarrow> (str \<times> rgb) list \<Rightarrow> (str \<times> rgb) list" where
  "add_color raw db =
     (case rgb_line raw of
        None \<Rightarrow> db
      | Some (key, v) \<Rightarrow> if map_of db key = None then AList.update key v db else db)"

definition parse_rgb_txt :: "str \<Rightarrow> (str \<times> rgb) list" where
  "parse_rgb_txt contents = fold add_color (lines contents) []"

definition build_db :: "str option \<Rightarrow> str \<Rightarrow> (str \<times> rgb) list" where
  "build_db system_file embedded =
     (case system_file of
        Some contents \<Rightarrow> if parse_rgb_txt contents \<noteq> [] then parse_rgb_txt contents else parse_rgb_txt embedded
      | None \<Rightarrow> parse_rgb_txt embedded)"

record color_names =
  color_db :: "(str \<times> rgb) list"
  intensity :: "str \<Rightarrow> u16 option"

definition lookup_color :: "color_names \<Rightarrow> str \<Rightarrow> rgb option option" where
  "lookup_color N spec =
     (let name = trim spec
      in case strip_prefix [35] name of
           Some hex \<Rightarrow> parse_hex hex
         | None \<Rightarrow>
             (case strip_prefix [114, 103, 98, 105, 58] name of
                Some rest \<Rightarrow> Some (parse_rgbi (intensity N) rest)
              | None \<Rightarrow> Some (map_of (color_db N) (normalize name))))"

section \<open>Properties\<close>

lemma ascii_len [simp]: "c < 128 \<Longrightarrow> utf8_len c = 1"
  by (simp add: utf8_len_def)

lemma str_len_simps [simp]: "str_len [] = 0" "str_len (c # s) = utf8_len c + str_len s" "str_len (s @ t) = str_len s + str_len t"
  by (simp_all add: str_len_def)

lemma str_len_ascii: "\<forall>c \<in> set s. c < 128 \<Longrightarrow> str_len s = length s"
  by (induction s) auto

lemma split_at_ascii:
  "\<forall>c \<in> set s. c < 128 \<Longrightarrow> n \<le> length s \<Longrightarrow> split_at n s = Some (take n s, drop n s)"
proof (induction s arbitrary: n)
  case (Cons c s)
  show ?case by (cases n) (use Cons in \<open>auto simp: split_at.simps [of _ "c # s"]\<close>)
qed (simp add: split_at.simps)

lemma hex_components_ascii:
  "\<forall>c \<in> set s. c < 128 \<Longrightarrow> k * n \<le> length s \<Longrightarrow> hex_components k n s \<noteq> None"
proof (induction k arbitrary: s)
  case (Suc k)
  have "\<forall>c \<in> set (drop n s). c < 128" using Suc.prems(1) by (meson in_set_dropD)
  with Suc show ?case by (auto simp: split_at_ascii split: option.split)
qed simp

lemma hex_components_length: "hex_components k n s = Some (Some vs) \<Longrightarrow> length vs = k"
  by (induction k arbitrary: s vs) (auto split: option.splits)

text \<open>A specification in ASCII never panics.\<close>

lemma lookup_color_ascii:
  assumes "\<forall>c \<in> set spec. c < 128"
  shows "lookup_color N spec \<noteq> None"
proof -
  have t: "\<forall>c \<in> set (trim spec). c < 128"
    using assms by (auto simp: trim_def dest!: set_dropWhileD)
  have "parse_hex hex \<noteq> None" if "strip_prefix [35] (trim spec) = Some hex" for hex
  proof -
    have a: "\<forall>c \<in> set hex. c < 128"
      using that t by (auto simp: strip_prefix_def split: if_splits dest: in_set_dropD)
    have "hex_triple n f hex \<noteq> None" if "3 * n = str_len hex" for n f
      using hex_components_ascii [OF a, of 3 n] that
      by (auto simp: hex_triple_def str_len_ascii [OF a] split: option.split)
    then show ?thesis by (simp add: parse_hex_def)
  qed
  then show ?thesis by (auto simp: lookup_color_def Let_def split: option.splits)
qed

text \<open>Printing a number with hexadecimal digits.\<close>

definition hex_char :: "nat \<Rightarrow> nat" where
  "hex_char d = (if d < 10 then 48 + d else 87 + d)"

primrec hex_digits :: "nat \<Rightarrow> nat \<Rightarrow> str" where
  "hex_digits 0 v = []"
| "hex_digits (Suc n) v = hex_char (v div 16 ^ n mod 16) # hex_digits n v"

lemma hex_char_props: "d < 16 \<Longrightarrow> digit 16 (hex_char d) = Some d" "d < 16 \<Longrightarrow> hex_char d < 128" "hex_char d \<noteq> 43"
  "d < 16 \<Longrightarrow> \<not> is_whitespace (hex_char d)"
  by (auto simp: hex_char_def digit_def is_whitespace_def)

lemma hex_digits_length [simp]: "length (hex_digits n v) = n"
  by (induction n) auto

lemma hex_digits_chars: "c \<in> set (hex_digits n v) \<Longrightarrow> c < 128 \<and> c \<noteq> 43 \<and> \<not> is_whitespace c"
  by (induction n) (auto simp: hex_char_props)

lemma digits_value_hex:
  "acc * 16 ^ n + v mod 16 ^ n \<le> limit \<Longrightarrow> digits_value 16 limit acc (hex_digits n v) = Some (acc * 16 ^ n + v mod 16 ^ n)"
proof (induction n arbitrary: acc)
  case (Suc n)
  let ?d = "v div 16 ^ n mod 16"
  have eq: "acc * 16 ^ Suc n + v mod 16 ^ Suc n = (acc * 16 + ?d) * 16 ^ n + v mod 16 ^ n"
    using mod_mult2_eq [of v "16 ^ n" 16] by (simp add: algebra_simps)
  have "acc * 16 + ?d \<le> (acc * 16 + ?d) * 16 ^ n" by simp
  then have "acc * 16 + ?d \<le> limit" using Suc.prems eq by linarith
  with Suc eq show ?case by (simp add: hex_char_props)
qed simp

lemma from_str_radix_hex:
  assumes "v < 16 ^ n" "0 < n" "16 ^ n \<le> limit + 1"
  shows "from_str_radix 16 limit (hex_digits n v) = Some v"
proof -
  obtain c cs where c: "hex_digits n v = c # cs" using assms(2) by (cases n) auto
  then have "c \<noteq> 43" using hex_digits_chars [of c n v] by simp
  with c digits_value_hex [of 0 n v limit] assms show ?thesis by (simp add: from_str_radix_def)
qed

lemma hex_components_print:
  assumes "0 < n" "16 ^ n \<le> (if n = 2 then 255 else 65535) + (1 :: nat)" "\<forall>v \<in> set vs. v < 16 ^ n"
  shows "hex_components (length vs) n (concat (map (hex_digits n) vs)) = Some (Some vs)"
  using assms(3)
proof (induction vs)
  case (Cons v vs)
  have "\<forall>c \<in> set (concat (map (hex_digits n) (v # vs))). c < 128" using hex_digits_chars by fastforce
  then have "split_at n (concat (map (hex_digits n) (v # vs))) = Some (hex_digits n v, concat (map (hex_digits n) vs))"
    by (subst split_at_ascii) simp_all
  with Cons from_str_radix_hex [OF _ assms(1,2), of v] show ?case by simp
qed simp

lemma trim_pad:
  assumes "\<forall>c \<in> set pre \<union> set post. is_whitespace c" "mid \<noteq> []" "\<forall>c \<in> set mid. \<not> is_whitespace c"
  shows "trim (pre @ mid @ post) = mid"
proof -
  have "dropWhile is_whitespace (pre @ mid @ post) = mid @ post"
    using assms by (cases mid) (simp_all add: dropWhile_append2)
  moreover have "dropWhile is_whitespace (rev (mid @ post)) = rev mid"
  proof -
    obtain a xs where "rev mid = a # xs" using assms(2) by (cases "rev mid") auto
    moreover from this have "\<not> is_whitespace a" using assms(3) by (metis list.set_intros(1) set_rev)
    moreover have "\<forall>c \<in> set (rev post). is_whitespace c" using assms(1) by simp
    ultimately show ?thesis by (simp only: rev_append) (subst dropWhile_append2; simp)
  qed
  ultimately show ?thesis by (simp add: trim_def)
qed

text \<open>The notations for colours mean what the X manual says: the components printed with one, two or
  four hexadecimal digits after a number sign, with blanks around them, are read back exactly,
  scaled to 16 bits by repeating their digits.\<close>

theorem hex_color_roundtrip:
  assumes "n \<in> {1, 2, 4}" "r < 16 ^ n" "g < 16 ^ n" "b < 16 ^ n" "\<forall>c \<in> set pre \<union> set post. is_whitespace c"
  shows "lookup_color N (pre @ 35 # hex_digits n r @ hex_digits n g @ hex_digits n b @ post) =
    Some (Some (of_nat (r * (65535 div (16 ^ n - 1))), of_nat (g * (65535 div (16 ^ n - 1))), of_nat (b * (65535 div (16 ^ n - 1)))))"
proof -
  define hex where hex_def: "hex = hex_digits n r @ hex_digits n g @ hex_digits n b"
  have chars: "\<forall>c \<in> set hex. c < 128 \<and> \<not> is_whitespace c" using hex_digits_chars by (fastforce simp: hex_def)
  then have len: "str_len hex = 3 * n" by (subst str_len_ascii) (auto simp: hex_def)
  have "trim (pre @ (35 # hex) @ post) = 35 # hex"
    using assms(5) chars by (intro trim_pad) (auto simp: is_whitespace_def)
  then have look: "lookup_color N (pre @ 35 # hex_digits n r @ hex_digits n g @ hex_digits n b @ post) = parse_hex hex"
    by (simp add: lookup_color_def strip_prefix_def hex_def)
  have "hex_components (length [r, g, b]) n (concat (map (hex_digits n) [r, g, b])) = Some (Some [r, g, b])"
    by (rule hex_components_print) (use assms(1-4) in auto)
  then have "hex_components 3 n hex = Some (Some [r, g, b])"
    by (simp del: hex_components.simps add: hex_def numeral_3_eq_3)
  then have triple: "hex_triple n f hex = Some (Some (f r, f g, f b))" for f by (simp add: hex_triple_def)
  have scale: "scale8 (of_nat v) = of_nat (v * 257)" if "v < 256" for v
  proof -
    have "take_bit 8 v = v" "take_bit 16 v = v" using that by (simp_all add: take_bit_nat_eq_self)
    then have "ucast (of_nat v :: u8) = (of_nat v :: u16)"
      by (simp add: word_unat_eq_iff unsigned_ucast_eq unsigned_of_nat)
    then show ?thesis by (simp add: scale8_def)
  qed
  from assms(1) consider "n = 1" | "n = 2" | "n = 4" by blast
  then obtain f where "parse_hex hex = hex_triple n f hex" "\<And>v. v < 16 ^ n \<Longrightarrow> f v = of_nat (v * (65535 div (16 ^ n - 1)))"
  proof cases
    case 1
    show ?thesis by (rule that [of "\<lambda>v. of_nat v * 0x1111"]) (use 1 in \<open>simp_all add: parse_hex_def len\<close>)
  next
    case 2
    show ?thesis
      by (rule that [of "\<lambda>v. scale8 (of_nat v)"]) (use 2 in \<open>simp_all add: parse_hex_def len scale\<close>)
  next
    case 3
    show ?thesis by (rule that [of of_nat]) (use 3 in \<open>simp_all add: parse_hex_def len\<close>)
  qed
  with look triple assms(2-4) show ?thesis by simp
qed

theorem hex_color_roundtrip_witness:
  "lookup_color \<lparr>color_db = [], intensity = (\<lambda>s. None)\<rparr> ([32] @ 35 # hex_digits 2 255 @ hex_digits 2 128 @ hex_digits 2 0 @ [32, 10]) =
    Some (Some (0xFFFF, 0x8080, 0))"
  using hex_color_roundtrip [of 2 255 128 0 "[32]" "[32, 10]"] by (simp add: is_whitespace_def)

text \<open>A number sign followed by a character outside ASCII panics: the text is cut at byte positions.\<close>

lemma color_name_panics:
  assumes "0x80 \<le> c" "c < 0x800" "d < 128" "\<not> is_whitespace d"
  shows "lookup_color N [35, c, d] = None"
proof -
  have "trim [35, c, d] = [35, c, d]" using assms(4) by (simp add: trim_def is_whitespace_def)
  moreover have "split_at 1 [c, d] = None" using assms(1,2) by (simp add: split_at.simps utf8_len_def)
  ultimately show ?thesis
    using assms(1-3) by (simp add: lookup_color_def strip_prefix_def parse_hex_def hex_triple_def utf8_len_def numeral_3_eq_3)
qed

end
