(* ===== verification/Windows.thy ===== *)
theory Windows
  imports Client Region "HOL-Library.AList"
begin

text \<open>
  Windows: the window record with its properties and EWMH type (\<open>types/window.rs\<close>), the walks
  over the window tree and the visibility computation (\<open>window_tree.rs\<close>,
  \<open>client/helpers.rs\<close>), the stacking layers (\<open>handlers/window/mod.rs\<close>), the event
  subscriptions of other connections (\<open>types/routing.rs\<close>) and the exchange of windows with the
  registry that all connections share (\<open>client/sync_flush.rs\<close>).

  A \<open>HashMap\<close> is an association list with distinct keys; its iteration order is the order of the
  list, which no lemma fixes. Pixel contents and the fields of \<open>WindowState\<close> that none of these
  operations touches are left out.
\<close>

unbundle bit_operations_syntax

text \<open>\<open>position\<close> of the first match.\<close>

fun position :: "('a \<Rightarrow> bool) \<Rightarrow> 'a list \<Rightarrow> nat option" where
  "position p [] = None"
| "position p (x # xs) = (if p x then Some 0 else map_option Suc (position p xs))"

section \<open>Window records\<close>

type_synonym 'v hashmap = "(u32 \<times> 'v) list"

definition wf_hashmap :: "'v hashmap \<Rightarrow> bool" where
  "wf_hashmap m \<longleftrightarrow> distinct (map fst m)"

datatype window_type = Desktop | Dock | Toolbar | Menu | Utility | Splash | Dialog
  | DropdownMenu | PopupMenu | Tooltip | Notification | Normal

fun stacking_layer :: "window_type \<Rightarrow> u8" where
  "stacking_layer Desktop = 0"
| "stacking_layer Normal = 2"
| "stacking_layer Dialog = 2"
| "stacking_layer Splash = 2"
| "stacking_layer Utility = 2"
| "stacking_layer Toolbar = 2"
| "stacking_layer Dock = 3"
| "stacking_layer Menu = 4"
| "stacking_layer DropdownMenu = 4"
| "stacking_layer PopupMenu = 4"
| "stacking_layer Tooltip = 4"
| "stacking_layer Notification = 4"

definition window_type_of_atom :: "u32 \<Rightarrow> window_type option" where
  "window_type_of_atom atom =
     (if atom = 87 then Some Desktop else if atom = 86 then Some Dock
      else if atom = 82 then Some Toolbar else if atom = 83 then Some Menu
      else if atom = 84 then Some Utility else if atom = 85 then Some Splash
      else if atom = 81 then Some Dialog else if atom = 88 then Some DropdownMenu
      else if atom = 89 then Some PopupMenu else if atom = 90 then Some Tooltip
      else if atom = 91 then Some Notification else if atom = 80 then Some Normal
      else None)"

fun from_atom_ids :: "u32 list \<Rightarrow> window_type" where
  "from_atom_ids [] = Normal"
| "from_atom_ids (atom # rest) =
     (case window_type_of_atom atom of Some t \<Rightarrow> t | None \<Rightarrow> from_atom_ids rest)"

record property_value =
  pv_type :: u32
  pv_format :: u8
  pv_data :: bytes

text \<open>The attributes CreateWindow sets and ChangeWindowAttributes changes.\<close>

record window_attributes =
  a_border_width :: u16
  a_visual :: u32
  a_depth :: u8
  a_class :: u16
  a_override_redirect :: bool
  a_background_pixel :: u32
  a_background_pixmap :: "u32 option"
  a_border_pixel :: u32
  a_border_pixmap :: "u32 option"
  a_cursor :: "u32 option"
  a_colormap :: u32
  a_backing_store :: u8
  a_backing_planes :: u32
  a_backing_pixel :: u32
  a_save_under :: bool

record window_state =
  w_id :: u32
  w_parent :: u32
  w_x :: i16
  w_y :: i16
  w_width :: u16
  w_height :: u16
  w_mapped :: bool
  w_event_mask :: u32
  w_do_not_propagate :: u32
  w_redirected :: bool
  w_properties :: "property_value hashmap"
  w_owner :: string
  w_children :: "u32 list"
  w_initial_state :: "u32 option"
  w_transient_for :: "u32 option"
  w_sync_counter :: "u32 option"
  w_type :: window_type
  w_strut :: "(u32 \<times> u32 \<times> u32 \<times> u32) option"
  w_hints_input :: "bool option"
  w_window_group :: "u32 option"
  w_input_shape :: "region_rect list option"
  w_bounding_shape :: "region_rect list option"
  w_clip_shape :: "region_rect list option"
  w_shape_clients :: "u32 list"
  w_modal :: bool
  w_fb :: "u32 \<times> u32"
  w_saved :: "nat option"
  w_saved_geometry :: "(i16 \<times> i16 \<times> u16 \<times> u16) option"
  w_visibility :: u8
  w_sync_value :: i64
  w_attrs :: window_attributes

type_synonym windows_t = "window_state hashmap"

section \<open>The window tree\<close>

definition MAX_TREE_DEPTH :: nat where "MAX_TREE_DEPTH = 128"

fun chain_from :: "nat \<Rightarrow> windows_t \<Rightarrow> u32 \<Rightarrow> u32 list" where
  "chain_from 0 ws cur = []"
| "chain_from (Suc n) ws cur =
     cur # (case map_of ws cur of
              Some w \<Rightarrow> if w_parent w \<noteq> 0 \<and> w_parent w \<noteq> cur then chain_from n ws (w_parent w) else []
            | None \<Rightarrow> [])"

definition ancestor_chain :: "windows_t \<Rightarrow> u32 \<Rightarrow> u32 list" where
  "ancestor_chain ws start = chain_from MAX_TREE_DEPTH ws start"

fun descendant_within :: "nat \<Rightarrow> windows_t \<Rightarrow> u32 \<Rightarrow> u32 \<Rightarrow> bool" where
  "descendant_within 0 ws cur ancestor = False"
| "descendant_within (Suc n) ws cur ancestor =
     (case map_of ws cur of
        None \<Rightarrow> False
      | Some w \<Rightarrow> if w_parent w = ancestor then True
                  else if w_parent w = 0 then False
                  else descendant_within n ws (w_parent w) ancestor)"

definition is_descendant_of :: "windows_t \<Rightarrow> u32 \<Rightarrow> u32 \<Rightarrow> bool" where
  "is_descendant_of ws child ancestor = descendant_within MAX_TREE_DEPTH ws child ancestor"

fun top_level_within :: "nat \<Rightarrow> u32 \<Rightarrow> windows_t \<Rightarrow> u32 \<Rightarrow> u32 option" where
  "top_level_within 0 root ws cur = None"
| "top_level_within (Suc n) root ws cur =
     (case map_of ws cur of
        None \<Rightarrow> None
      | Some w \<Rightarrow> if w_parent w = root \<or> w_parent w = 0 then Some cur
                  else top_level_within n root ws (w_parent w))"

definition top_level_for :: "u32 \<Rightarrow> windows_t \<Rightarrow> u32 \<Rightarrow> u32 option" where
  "top_level_for root ws wid =
     (if wid = 0 \<or> wid = root then None else top_level_within MAX_TREE_DEPTH root ws wid)"

section \<open>Visibility\<close>

text \<open>Coordinates are widened to \<open>i32\<close> and areas to \<open>i64\<close>: sums of an \<open>i16\<close> and a \<open>u16\<close> fit, so
  the model computes with unbounded integers. \<open>window_overlap\<close> is the rectangle a higher sibling
  shares with the window.\<close>

definition window_overlap :: "window_state \<Rightarrow> window_state \<Rightarrow> int \<times> int \<times> int \<times> int" where
  "window_overlap w s =
     (max (sint (w_x w)) (sint (w_x s)), max (sint (w_y w)) (sint (w_y s)),
      min (sint (w_x w) + uint (w_width w)) (sint (w_x s) + uint (w_width s)),
      min (sint (w_y w) + uint (w_height w)) (sint (w_y s) + uint (w_height s)))"

definition overlap_step :: "windows_t \<Rightarrow> window_state \<Rightarrow> u32 \<Rightarrow> int \<times> bool \<Rightarrow> int \<times> bool" where
  "overlap_step ws w sibling_id = (\<lambda>(obscured_area, partially).
     (case map_of ws sibling_id of
        None \<Rightarrow> (obscured_area, partially)
      | Some s \<Rightarrow>
          if \<not> w_mapped s then (obscured_area, partially)
          else
            (let (ix1, iy1, ix2, iy2) = window_overlap w s
             in if ix1 < ix2 \<and> iy1 < iy2
                then (obscured_area + (ix2 - ix1) * (iy2 - iy1), True)
                else (obscured_area, partially))))"

definition compute_visibility :: "windows_t \<Rightarrow> u32 \<Rightarrow> u8" where
  "compute_visibility ws wid =
     (case map_of ws wid of
        None \<Rightarrow> 2
      | Some w \<Rightarrow>
          if \<not> w_mapped w \<or> w_width w = 0 \<or> w_height w = 0 then 2
          else
            (case map_of ws (w_parent w) of
               None \<Rightarrow> 0
             | Some p \<Rightarrow>
                 if wid \<notin> set (w_children p) then 0
                 else
                   (let upper = tl (dropWhile (\<lambda>c. c \<noteq> wid) (w_children p));
                        (obscured_area, partially) = fold (overlap_step ws w) upper (0, False);
                        total_area = uint (w_width w) * uint (w_height w)
                    in if \<not> partially then 0
                       else if obscured_area \<ge> total_area then 2 else 1)))"

section \<open>Stacking layers\<close>

text \<open>The complete 32-bit words of a byte string, as \<open>chunks_exact(4)\<close> yields them.\<close>

fun words_exact :: "(bytes \<Rightarrow> u32) \<Rightarrow> bytes \<Rightarrow> u32 list" where
  "words_exact rd (a # b # c # d # rest) = rd [a, b, c, d] # words_exact rd rest"
| "words_exact rd rest = []"

fun state_layer :: "u8 \<Rightarrow> u32 list \<Rightarrow> u8" where
  "state_layer base [] = base"
| "state_layer base (atom # rest) =
     (if atom = 102 then max base 3 else if atom = 103 then 1 else state_layer base rest)"

definition effective_stacking_layer :: "window_state \<Rightarrow> u8" where
  "effective_stacking_layer w =
     (let base_layer = stacking_layer (w_type w)
      in case map_of (w_properties w) 92 of
           Some p \<Rightarrow> if pv_format p = 32
                     then state_layer base_layer (words_exact of_le_bytes (pv_data p))
                     else base_layer
         | None \<Rightarrow> base_layer)"

definition layer_of :: "windows_t \<Rightarrow> u32 \<Rightarrow> u8" where
  "layer_of ws c = (case map_of ws c of Some w \<Rightarrow> effective_stacking_layer w | None \<Rightarrow> 2)"

text \<open>\<open>rposition(p) + 1\<close>, or 0 when no element satisfies the predicate.\<close>

fun after_last :: "('a \<Rightarrow> bool) \<Rightarrow> 'a list \<Rightarrow> nat" where
  "after_last p [] = 0"
| "after_last p (x # xs) =
     (let n = after_last p xs in if n > 0 then Suc n else if p x then 1 else 0)"

definition vec_insert :: "nat \<Rightarrow> 'a \<Rightarrow> 'a list \<Rightarrow> 'a list" where
  "vec_insert i x xs = take i xs @ x # drop i xs"

definition restack_by_window_type :: "u32 \<Rightarrow> u32 \<Rightarrow> windows_t \<Rightarrow> windows_t" where
  "restack_by_window_type wid parent_id ws =
     (let target_layer = layer_of ws wid;
          ws = AList.map_entry parent_id
                 (\<lambda>p. p\<lparr>w_children := filter (\<lambda>c. c \<noteq> wid) (w_children p)\<rparr>) ws;
          children = (case map_of ws parent_id of
                        Some p \<Rightarrow> map (\<lambda>c. (c, layer_of ws c)) (w_children p) | None \<Rightarrow> []);
          insert_pos = after_last (\<lambda>(c, layer). layer \<le> target_layer) children
      in AList.map_entry parent_id
           (\<lambda>p. p\<lparr>w_children := vec_insert insert_pos wid (w_children p)\<rparr>) ws)"

section \<open>Event subscriptions of other connections\<close>

text \<open>An event channel is a number; sending is recorded as the pair of channel and event.\<close>

record event_subscription =
  sub_client :: string
  sub_mask :: u32
  sub_tx :: nat

record event_broadcaster =
  subscriptions :: "event_subscription list hashmap"
  all_clients :: "(string \<times> nat) list"

fun update_first :: "('a \<Rightarrow> bool) \<Rightarrow> ('a \<Rightarrow> 'a) \<Rightarrow> 'a list \<Rightarrow> 'a list" where
  "update_first p f [] = []"
| "update_first p f (x # xs) = (if p x then f x # xs else x # update_first p f xs)"

definition register_client :: "string \<Rightarrow> nat \<Rightarrow> event_broadcaster \<Rightarrow> event_broadcaster" where
  "register_client cid tx b =
     (if \<exists>c \<in> set (all_clients b). fst c = cid
      then b\<lparr>all_clients := update_first (\<lambda>c. fst c = cid) (\<lambda>c. (cid, tx)) (all_clients b)\<rparr>
      else b\<lparr>all_clients := all_clients b @ [(cid, tx)]\<rparr>)"

definition unregister_client :: "string \<Rightarrow> event_broadcaster \<Rightarrow> event_broadcaster" where
  "unregister_client cid b = b\<lparr>all_clients := filter (\<lambda>c. fst c \<noteq> cid) (all_clients b)\<rparr>"

definition broadcast_global :: "'e \<Rightarrow> string \<Rightarrow> event_broadcaster \<Rightarrow> (nat \<times> 'e) list" where
  "broadcast_global ev source b =
     map (\<lambda>c. (snd c, ev)) (filter (\<lambda>c. fst c \<noteq> source) (all_clients b))"

definition subs_of :: "u32 \<Rightarrow> event_broadcaster \<Rightarrow> event_subscription list" where
  "subs_of wid b = (case map_of (subscriptions b) wid of Some l \<Rightarrow> l | None \<Rightarrow> [])"

definition subscribe :: "u32 \<Rightarrow> string \<Rightarrow> u32 \<Rightarrow> nat \<Rightarrow> event_broadcaster \<Rightarrow> event_broadcaster" where
  "subscribe wid cid emask tx b =
     (let list = subs_of wid b;
          list = (if \<exists>s \<in> set list. sub_client s = cid
                  then update_first (\<lambda>s. sub_client s = cid)
                         (\<lambda>s. s\<lparr>sub_mask := emask, sub_tx := tx\<rparr>) list
                  else if emask \<noteq> 0
                  then list @ [\<lparr>sub_client = cid, sub_mask = emask, sub_tx = tx\<rparr>] else list)
      in b\<lparr>subscriptions := AList.update wid list (subscriptions b)\<rparr>)"

definition unsubscribe_client :: "string \<Rightarrow> event_broadcaster \<Rightarrow> event_broadcaster" where
  "unsubscribe_client cid b =
     unregister_client cid
       (b\<lparr>subscriptions :=
            filter (\<lambda>e. snd e \<noteq> [])
              (map (\<lambda>(wid, l). (wid, filter (\<lambda>s. sub_client s \<noteq> cid) l)) (subscriptions b))\<rparr>)"

definition broadcast :: "u32 \<Rightarrow> u32 \<Rightarrow> 'e \<Rightarrow> string \<Rightarrow> event_broadcaster \<Rightarrow> (nat \<times> 'e) list" where
  "broadcast wid mask_bit ev source b =
     map (\<lambda>s. (sub_tx s, ev))
       (filter (\<lambda>s. sub_client s \<noteq> source \<and> sub_mask s AND mask_bit \<noteq> 0) (subs_of wid b))"

definition REDIRECT_BITS :: u32 where "REDIRECT_BITS = 0x100000 OR 0x40000"

definition check_redirect_conflict :: "u32 \<Rightarrow> u32 \<Rightarrow> string \<Rightarrow> event_broadcaster \<Rightarrow> u32 option" where
  "check_redirect_conflict wid new_mask cid b =
     (let requested = new_mask AND REDIRECT_BITS
      in if requested = 0 then None
         else map_option (\<lambda>s. requested AND sub_mask s)
                (find (\<lambda>s. sub_client s \<noteq> cid \<and> sub_mask s AND requested \<noteq> 0) (subs_of wid b)))"

definition has_mask_subscriber :: "u32 \<Rightarrow> u32 \<Rightarrow> string \<Rightarrow> event_broadcaster \<Rightarrow> bool" where
  "has_mask_subscriber wid mask_bit exclude b =
     list_ex (\<lambda>s. sub_client s \<noteq> exclude \<and> sub_mask s AND mask_bit \<noteq> 0) (subs_of wid b)"

definition all_event_masks :: "u32 \<Rightarrow> event_broadcaster \<Rightarrow> u32" where
  "all_event_masks wid b = fold (\<lambda>s acc. acc OR sub_mask s) (subs_of wid b) 0"

section \<open>The registry shared by all connections\<close>

record ('e) win_client = "'e client_base" +
  client_id :: string
  root_window :: u32
  windows :: windows_t
  shared_windows :: windows_t
  shared_dirty_windows :: "u32 list"
  x11_to_uuid :: "u32 \<rightharpoonup> string"
  event_broadcaster :: event_broadcaster
  sent_events :: "(nat \<times> 'e) list"
  sequence :: u16
  timestamp :: u32
  screen_width :: u16
  screen_height :: u16

definition is_mine :: "string \<Rightarrow> window_state \<Rightarrow> bool" where
  "is_mine cid w \<longleftrightarrow> w_owner w = [] \<or> w_owner w = cid"

definition needs_step1 :: "windows_t \<Rightarrow> windows_t \<Rightarrow> bool" where
  "needs_step1 shared local \<longleftrightarrow>
     length shared \<noteq> length local
     \<or> (case shared of [] \<Rightarrow> False | (first_key, _) # _ \<Rightarrow> map_of local first_key = None)"

definition merge_missing :: "'v hashmap \<Rightarrow> 'v hashmap \<Rightarrow> 'v hashmap" where
  "merge_missing from to =
     fold (\<lambda>(k, v) m. if map_of m k = None then AList.update k v m else m) from to"

definition insert_all :: "'v hashmap \<Rightarrow> 'v hashmap \<Rightarrow> 'v hashmap" where
  "insert_all from to = fold (\<lambda>(k, v). AList.update k v) from to"

definition drop_vanished :: "string \<Rightarrow> windows_t \<Rightarrow> windows_t \<Rightarrow> windows_t" where
  "drop_vanished cid shared local =
     filter (\<lambda>(wid, w). \<not> (w_owner w \<noteq> [] \<and> w_owner w \<noteq> cid \<and> wid \<notin> fst ` set shared)) local"

definition pull_window :: "string \<Rightarrow> u32 \<times> window_state \<Rightarrow> windows_t \<Rightarrow> windows_t" where
  "pull_window cid = (\<lambda>(wid, sw) local.
     (case map_of local wid of
        Some lw \<Rightarrow>
          if is_mine cid lw then local
          else AList.map_entry wid
                 (\<lambda>lw. lw\<lparr>w_mapped := w_mapped sw \<or> w_mapped lw,
                          w_redirected := w_redirected sw \<or> w_redirected lw,
                          w_properties := merge_missing (w_properties sw) (w_properties lw)\<rparr>) local
      | None \<Rightarrow> AList.update wid sw local))"

definition push_window :: "string \<Rightarrow> windows_t \<Rightarrow> u32 \<Rightarrow> windows_t \<Rightarrow> windows_t" where
  "push_window cid local wid shared =
     (case map_of local wid of
        None \<Rightarrow> shared
      | Some lw \<Rightarrow>
          (case map_of shared wid of
             Some sw \<Rightarrow>
               AList.map_entry wid
                 (\<lambda>sw. sw\<lparr>w_mapped := (if is_mine cid lw then w_mapped lw
                                        else w_mapped lw \<or> w_mapped sw),
                          w_redirected := (if is_mine cid lw then w_redirected lw
                                           else w_redirected lw \<or> w_redirected sw),
                          w_properties := insert_all (w_properties lw) (w_properties sw),
                          w_x := w_x lw, w_y := w_y lw,
                          w_width := w_width lw, w_height := w_height lw\<rparr>) shared
           | None \<Rightarrow> if is_mine cid lw then AList.update wid lw shared else shared))"

definition sync_windows :: "('e, 'm) win_client_scheme \<Rightarrow> ('e, 'm) win_client_scheme" where
  "sync_windows st =
     (let shared = shared_windows st;
          local = (if needs_step1 shared (windows st)
                   then fold (pull_window (client_id st)) shared
                          (drop_vanished (client_id st) shared (windows st))
                   else windows st);
          shared = fold (push_window (client_id st) local) (shared_dirty_windows st) shared
      in st\<lparr>windows := local, shared_windows := shared, shared_dirty_windows := []\<rparr>)"

definition mark_window_shared_dirty ::
    "u32 \<Rightarrow> ('e, 'm) win_client_scheme \<Rightarrow> ('e, 'm) win_client_scheme" where
  "mark_window_shared_dirty wid st =
     st\<lparr>shared_dirty_windows := List.insert wid (shared_dirty_windows st)\<rparr>"

section \<open>Event delivery\<close>

definition window_selects :: "u32 \<Rightarrow> u32 \<Rightarrow> ('e, 'm) win_client_scheme \<Rightarrow> bool" where
  "window_selects wid emask st =
     (case map_of (windows st) wid of Some w \<Rightarrow> w_event_mask w AND emask \<noteq> 0 | None \<Rightarrow> False)"

definition broadcast_event ::
    "u32 \<Rightarrow> u32 \<Rightarrow> 'e \<Rightarrow> ('e, 'm) win_client_scheme \<Rightarrow> ('e, 'm) win_client_scheme" where
  "broadcast_event wid emask ev st =
     st\<lparr>sent_events := sent_events st @ broadcast wid emask ev (client_id st) (event_broadcaster st)\<rparr>"

definition deliver_event ::
    "u32 \<Rightarrow> u32 \<Rightarrow> 'e \<Rightarrow> ('e, 'm) win_client_scheme \<Rightarrow> ('e, 'm) win_client_scheme" where
  "deliver_event wid emask ev st =
     broadcast_event wid emask ev (if window_selects wid emask st then push_event ev st else st)"

definition subscribe_to_window_events ::
    "u32 \<Rightarrow> u32 \<Rightarrow> nat \<Rightarrow> ('e, 'm) win_client_scheme \<Rightarrow> ('e, 'm) win_client_scheme" where
  "subscribe_to_window_events wid emask tx st =
     st\<lparr>event_broadcaster := subscribe wid (client_id st) emask tx (event_broadcaster st)\<rparr>"

definition window_uuid :: "u32 \<Rightarrow> ('e, 'm) win_client_scheme \<Rightarrow> string option" where
  "window_uuid wid st = x11_to_uuid st wid"

section \<open>Facts about hash maps\<close>

lemma map_of_map_entry' [simp]:
  "map_of (AList.map_entry k f m) =
     (\<lambda>i. if i = k then map_option f (map_of m k) else map_of m i)"
  by (auto simp: AList.map_of_map_entry fun_eq_iff split: option.splits)

lemma map_of_update' [simp]: "map_of (AList.update k v m) = (map_of m)(k \<mapsto> v)"
  by (rule AList.update_conv')

lemma map_of_delete' [simp]: "map_of (AList.delete k m) = (map_of m)(k := None)"
  by (rule AList.delete_conv')

lemma merge_missing_lookup: "map_of (merge_missing from to) k =
    (case map_of to k of Some v \<Rightarrow> Some v | None \<Rightarrow> map_of (merge_missing from to) k)"
proof -
  have "map_of to k = Some v \<Longrightarrow> map_of (merge_missing from to) k = Some v" for v
    unfolding merge_missing_def
    by (induction "from" arbitrary: to) (auto split: prod.splits)
  then show ?thesis by (simp split: option.splits)
qed

lemma position_append:
  "(\<And>x. x \<in> set pre \<Longrightarrow> \<not> p x) \<Longrightarrow> p t \<Longrightarrow> position p (pre @ t # post) = Some (length pre)"
  by (induction pre) auto

section \<open>Walking up the tree\<close>

inductive parent_of :: "windows_t \<Rightarrow> u32 \<Rightarrow> u32 \<Rightarrow> bool" for ws where
  parent_ofI: "map_of ws c = Some w \<Longrightarrow> parent_of ws c (w_parent w)"

inductive_cases parent_ofE: "parent_of ws c p"

text \<open>A window tree: window 0 does not exist, and a depth of less than \<open>MAX_TREE_DEPTH\<close> is assigned
  to every window so that it decreases towards the root.\<close>

definition tree_ok :: "(u32 \<Rightarrow> nat) \<Rightarrow> windows_t \<Rightarrow> bool" where
  "tree_ok depth ws \<longleftrightarrow> map_of ws 0 = None \<and>
     (\<forall>(c, w) \<in> set ws. depth c < MAX_TREE_DEPTH \<and>
        (w_parent w \<in> fst ` set ws \<longrightarrow> depth (w_parent w) < depth c))"

lemma tree_okD:
  assumes "tree_ok depth ws" "map_of ws c = Some w"
  shows "depth c < MAX_TREE_DEPTH"
    and "map_of ws (w_parent w) = Some p \<Longrightarrow> depth (w_parent w) < depth c"
  using assms map_of_SomeD [OF assms(2)] map_of_SomeD [of ws "w_parent w" p]
  by (force simp: tree_ok_def)+

lemma ancestor_iff: "(parent_of ws)\<^sup>+\<^sup>+ c a \<longleftrightarrow>
    (\<exists>w. map_of ws c = Some w \<and> (w_parent w = a \<or> (parent_of ws)\<^sup>+\<^sup>+ (w_parent w) a))"
proof
  assume "(parent_of ws)\<^sup>+\<^sup>+ c a"
  then show "\<exists>w. map_of ws c = Some w \<and> (w_parent w = a \<or> (parent_of ws)\<^sup>+\<^sup>+ (w_parent w) a)"
  proof (rule converse_tranclpE)
    assume "parent_of ws c a"
    then show ?thesis by (rule parent_ofE) blast
  next
    fix p
    assume "parent_of ws c p" "(parent_of ws)\<^sup>+\<^sup>+ p a"
    then show ?thesis by (elim parent_ofE) blast
  qed
next
  assume "\<exists>w. map_of ws c = Some w \<and> (w_parent w = a \<or> (parent_of ws)\<^sup>+\<^sup>+ (w_parent w) a)"
  then show "(parent_of ws)\<^sup>+\<^sup>+ c a"
    by (auto intro: parent_ofI tranclp.r_into_trancl tranclp_into_tranclp2)
qed

lemma descendant_within_exact:
  assumes "tree_ok depth ws" "map_of ws c \<noteq> None \<longrightarrow> depth c < n"
  shows "descendant_within n ws c a \<longleftrightarrow> (parent_of ws)\<^sup>+\<^sup>+ c a"
  using assms(2)
proof (induction n arbitrary: c)
  case 0
  then show ?case by (simp add: ancestor_iff [of ws c])
next
  case (Suc n)
  show ?case
  proof (cases "map_of ws c")
    case None
    then show ?thesis by (simp add: ancestor_iff [of ws c])
  next
    case (Some w)
    have stop: "\<not> (parent_of ws)\<^sup>+\<^sup>+ 0 a"
      using assms(1) by (simp add: ancestor_iff [of ws 0] tree_ok_def)
    have "map_of ws (w_parent w) \<noteq> None \<longrightarrow> depth (w_parent w) < n"
      using tree_okD(2) [OF assms(1) Some] Suc.prems Some by fastforce
    from Suc.IH [OF this] show ?thesis using Some stop by (auto simp: ancestor_iff [of ws c])
  qed
qed

lemma top_level_within_exact:
  assumes "tree_ok depth ws" "map_of ws c = Some w" "depth c < n"
    and "\<forall>(c, w) \<in> set ws. w_parent w = 0 \<or> w_parent w = root \<or> w_parent w \<in> fst ` set ws"
  shows "\<exists>t wt. top_level_within n root ws c = Some t \<and> (parent_of ws)\<^sup>*\<^sup>* c t \<and>
    map_of ws t = Some wt \<and> w_parent wt \<in> {root, 0}"
  using assms(2,3)
proof (induction n arbitrary: c w)
  case (Suc n)
  show ?case
  proof (cases "w_parent w = root \<or> w_parent w = 0")
    case True
    then show ?thesis using Suc.prems(1) by auto
  next
    case False
    then have "w_parent w \<in> fst ` set ws" using assms(4) map_of_SomeD [OF Suc.prems(1)] by auto
    then obtain p where p: "map_of ws (w_parent w) = Some p"
      by (metis map_of_eq_None_iff not_None_eq)
    with tree_okD(2) [OF assms(1) Suc.prems(1)] Suc.prems(2) have "depth (w_parent w) < n" by fastforce
    from Suc.IH [OF p this] obtain t wt where t:
      "top_level_within n root ws (w_parent w) = Some t" "(parent_of ws)\<^sup>*\<^sup>* (w_parent w) t"
      "map_of ws t = Some wt" "w_parent wt \<in> {root, 0}" by blast
    from parent_ofI [OF Suc.prems(1)] t(2) have "(parent_of ws)\<^sup>*\<^sup>* c t" by simp
    with t False Suc.prems(1) show ?thesis by auto
  qed
qed simp

lemma chain_from_length: "length (chain_from n ws c) \<le> n"
  by (induction n arbitrary: c) (auto split: option.splits)

section \<open>Visibility\<close>

definition pixels :: "window_state \<Rightarrow> (int \<times> int) set" where
  "pixels w = {sint (w_x w)..<sint (w_x w) + uint (w_width w)} \<times>
              {sint (w_y w)..<sint (w_y w) + uint (w_height w)}"

text \<open>The pixels of a window that a mapped sibling covers.\<close>

definition shade :: "windows_t \<Rightarrow> window_state \<Rightarrow> u32 \<Rightarrow> (int \<times> int) set" where
  "shade ws w c = (case map_of ws c of
     Some s \<Rightarrow> if w_mapped s then pixels w \<inter> pixels s else {} | None \<Rightarrow> {})"

lemma pixels_card: "finite (pixels w)" "int (card (pixels w)) = uint (w_width w) * uint (w_height w)"
  by (simp_all add: pixels_def card_cartesian_product)

lemma shade_finite [simp]: "finite (shade ws w c)"
  by (auto simp: shade_def pixels_card split: option.splits)

lemma overlap_pixels:
  "pixels w \<inter> pixels s = (case window_overlap w s of (x1, y1, x2, y2) \<Rightarrow> {x1..<x2} \<times> {y1..<y2})"
  by (auto simp: pixels_def window_overlap_def)

lemma overlap_step_shade:
  "overlap_step ws w c (a, p) = (a + int (card (shade ws w c)), p \<or> shade ws w c \<noteq> {})"
proof (cases "map_of ws c")
  case (Some s)
  obtain x1 y1 x2 y2 where o: "window_overlap w s = (x1, y1, x2, y2)" by (metis prod_cases4)
  then have i: "pixels w \<inter> pixels s = {x1..<x2} \<times> {y1..<y2}" by (simp add: overlap_pixels)
  show ?thesis
    using Some o by (auto simp: overlap_step_def shade_def i card_cartesian_product Let_def)
qed (simp add: overlap_step_def shade_def)

lemma fold_overlap_step:
  "fold (overlap_step ws w) cs (a, p) =
     (a + (\<Sum>c\<leftarrow>cs. int (card (shade ws w c))), p \<or> (\<exists>c \<in> set cs. shade ws w c \<noteq> {}))"
  by (induction cs arbitrary: a p) (auto simp: overlap_step_shade)

lemma shade_union_card:
  "int (card (\<Union>c \<in> set cs. shade ws w c)) \<le> (\<Sum>c\<leftarrow>cs. int (card (shade ws w c)))"
proof (induction cs)
  case (Cons c cs)
  have "card (shade ws w c \<union> (\<Union>c \<in> set cs. shade ws w c))
      \<le> card (shade ws w c) + card (\<Union>c \<in> set cs. shade ws w c)" by (rule card_Un_le)
  with Cons show ?case by simp
qed simp

lemma shade_union_card_disjoint:
  assumes "distinct cs" "\<forall>c \<in> set cs. \<forall>d \<in> set cs. c \<noteq> d \<longrightarrow> shade ws w c \<inter> shade ws w d = {}"
  shows "int (card (\<Union>c \<in> set cs. shade ws w c)) = (\<Sum>c\<leftarrow>cs. int (card (shade ws w c)))"
proof -
  have "card (\<Union>c \<in> set cs. shade ws w c) = (\<Sum>c \<in> set cs. card (shade ws w c))"
    using assms(2) by (intro card_UN_disjoint) auto
  then show ?thesis using assms(1) by (simp add: sum_list_distinct_conv_sum_set)
qed

lemma shade_subset: "(\<Union>c \<in> set cs. shade ws w c) \<subseteq> pixels w"
  by (auto simp: shade_def split: option.splits if_splits)

section \<open>Stacking\<close>

lemma after_last_le: "after_last p xs \<le> length xs"
  by (induction xs) (auto simp: Let_def)

lemma after_last_split:
  "(after_last p xs > 0 \<longrightarrow> p (xs ! (after_last p xs - 1))) \<and>
   (\<forall>i < length xs. after_last p xs \<le> i \<longrightarrow> \<not> p (xs ! i))"
proof (induction xs)
  case (Cons x xs)
  then show ?case by (auto simp: Let_def nth_Cons' split: if_splits)
qed simp

lemma sorted_vec_insert:
  fixes ys :: "'a::linorder list"
  assumes "sorted ys" "n \<le> length ys" "n > 0 \<Longrightarrow> ys ! (n - 1) \<le> t"
    and "\<And>i. i < length ys \<Longrightarrow> n \<le> i \<Longrightarrow> t \<le> ys ! i"
  shows "sorted (vec_insert n t ys)"
proof -
  have lo: "y \<le> t" if "y \<in> set (take n ys)" for y
  proof -
    from that obtain i where i: "i < n" "y = ys ! i" using assms(2) by (auto simp: in_set_conv_nth)
    then have "ys ! i \<le> ys ! (n - 1)" using assms(1,2) by (intro sorted_nth_mono) auto
    with assms(3) i show ?thesis by (auto intro: order_trans)
  qed
  have hi: "t \<le> y" if "y \<in> set (drop n ys)" for y
    using that assms(2,4) by (auto simp: in_set_conv_nth)
  have "sorted (take n ys)" "sorted (drop n ys)"
    using assms(1) by (simp_all add: sorted_wrt_take sorted_wrt_drop)
  moreover have "\<forall>y \<in> set (take n ys). \<forall>z \<in> set (drop n ys). y \<le> z"
    using lo hi by (blast intro: order_trans)
  ultimately show ?thesis using lo hi by (simp add: vec_insert_def sorted_append)
qed

lemma sorted_insert_after_last:
  fixes ys :: "'a::linorder list"
  assumes "sorted ys"
  shows "sorted (vec_insert (after_last (\<lambda>y. y \<le> t) ys) t ys)"
proof (rule sorted_vec_insert [OF assms after_last_le])
  show "ys ! (after_last (\<lambda>y. y \<le> t) ys - 1) \<le> t" if "after_last (\<lambda>y. y \<le> t) ys > 0"
    using after_last_split [of "\<lambda>y. y \<le> t" ys] that by blast
  show "t \<le> ys ! i" if "i < length ys" "after_last (\<lambda>y. y \<le> t) ys \<le> i" for i
    using after_last_split [of "\<lambda>y. y \<le> t" ys] that by (meson linear)
qed

lemma filter_vec_insert:
  assumes "x \<notin> set xs"
  shows "filter (\<lambda>c. c \<noteq> x) (vec_insert n x xs) = xs" "count_list (vec_insert n x xs) x = 1"
proof -
  have "x \<notin> set (take n xs)" "x \<notin> set (drop n xs)"
    using assms by (auto dest: in_set_takeD in_set_dropD)
  moreover from this have "filter (\<lambda>c. c \<noteq> x) (take n xs) = take n xs"
    "filter (\<lambda>c. c \<noteq> x) (drop n xs) = drop n xs" by (auto simp: filter_id_conv)
  ultimately show "filter (\<lambda>c. c \<noteq> x) (vec_insert n x xs) = xs" "count_list (vec_insert n x xs) x = 1"
    by (simp_all add: vec_insert_def count_list_0_iff)
qed

lemma vec_insert_split:
  assumes "vec_insert n x xs = below @ x # upper" "x \<notin> set xs"
  shows "upper = drop n xs"
proof -
  have "x \<notin> set (take n xs)" "x \<notin> set (drop n xs)"
    using assms(2) by (auto dest: in_set_takeD in_set_dropD)
  with assms(1) show ?thesis by (auto simp: vec_insert_def append_eq_append_conv2 append_eq_Cons_conv Cons_eq_append_conv)
qed

lemma in_set_drop_nth: "x \<in> set (drop n xs) \<Longrightarrow> \<exists>i. n \<le> i \<and> i < length xs \<and> x = xs ! i"
proof -
  assume "x \<in> set (drop n xs)"
  then obtain j where "j < length xs - n" "x = xs ! (n + j)" by (auto simp: in_set_conv_nth)
  then show ?thesis by (intro exI [of _ "n + j"]) auto
qed

lemma after_last_map: "after_last p (map f xs) = after_last (\<lambda>x. p (f x)) xs"
  by (induction xs) (simp_all add: Let_def)

lemma map_vec_insert: "map f (vec_insert i x xs) = vec_insert i (f x) (map f xs)"
  by (simp add: vec_insert_def take_map drop_map)

lemma layer_of_children_update:
  "layer_of (AList.map_entry k (\<lambda>p. p\<lparr>w_children := g p\<rparr>) ws) c = layer_of ws c"
  by (auto simp: layer_of_def effective_stacking_layer_def Let_def split: option.splits)

lemma restack_parent:
  assumes "map_of ws parent_id = Some p" "rest = filter (\<lambda>c. c \<noteq> wid) (w_children p)"
  shows "map_of (restack_by_window_type wid parent_id ws) parent_id =
    Some (p\<lparr>w_children :=
       vec_insert (after_last (\<lambda>c. layer_of ws c \<le> layer_of ws wid) rest) wid rest\<rparr>)"
  using assms by (simp add: restack_by_window_type_def Let_def layer_of_children_update after_last_map)

lemma restack_layers: "layer_of (restack_by_window_type wid parent_id ws) = layer_of ws"
  by (rule ext) (simp add: restack_by_window_type_def Let_def layer_of_children_update)


section \<open>Exclusive selections\<close>

text \<open>How the handlers use the broadcaster: ChangeWindowAttributes subscribes after the conflict
  check on the same window, CreateWindow subscribes on a window nobody has selected events on, a
  connection registers when it opens and unsubscribes when it closes.\<close>

inductive broadcaster_step :: "event_broadcaster \<Rightarrow> event_broadcaster \<Rightarrow> bool" where
  change_attributes: "check_redirect_conflict wid emask cid b = None \<Longrightarrow>
    broadcaster_step b (subscribe wid cid emask tx b)"
| create_window: "subs_of wid b = [] \<Longrightarrow> broadcaster_step b (subscribe wid cid emask tx b)"
| connect: "broadcaster_step b (register_client cid tx b)"
| disconnect: "broadcaster_step b (unsubscribe_client cid b)"

definition broadcaster_new :: event_broadcaster where
  "broadcaster_new = \<lparr>subscriptions = [], all_clients = []\<rparr>"

text \<open>On every window each client has one entry, and no two entries share a redirect bit.\<close>

definition exclusive_list :: "event_subscription list \<Rightarrow> bool" where
  "exclusive_list l \<longleftrightarrow> distinct (map sub_client l) \<and>
     (\<forall>s \<in> set l. \<forall>t \<in> set l. sub_client s \<noteq> sub_client t \<longrightarrow>
        sub_mask s AND sub_mask t AND REDIRECT_BITS = 0)"

definition broadcaster_inv :: "event_broadcaster \<Rightarrow> bool" where
  "broadcaster_inv b \<longleftrightarrow> wf_hashmap (subscriptions b) \<and> (\<forall>wid. exclusive_list (subs_of wid b))"

lemma subs_of_subscribe:
  "subs_of w (subscribe wid cid emask tx b) =
     (if w = wid
      then if \<exists>s \<in> set (subs_of wid b). sub_client s = cid
           then update_first (\<lambda>s. sub_client s = cid)
                  (\<lambda>s. s\<lparr>sub_mask := emask, sub_tx := tx\<rparr>) (subs_of wid b)
           else if emask \<noteq> 0
           then subs_of wid b @ [\<lparr>sub_client = cid, sub_mask = emask, sub_tx = tx\<rparr>]
           else subs_of wid b
      else subs_of w b)"
proof -
  have "subs_of w (b\<lparr>subscriptions := AList.update wid l (subscriptions b)\<rparr>) =
      (if w = wid then l else subs_of w b)" for l
    by (simp add: subs_of_def)
  then show ?thesis unfolding subscribe_def Let_def by simp
qed

lemma map_sub_client_update_first:
  "map sub_client (update_first p (\<lambda>s. s\<lparr>sub_mask := m, sub_tx := tx\<rparr>) l) = map sub_client l"
  by (induction l) auto

lemma set_update_first: "x \<in> set (update_first p f l) \<Longrightarrow> x \<in> set l \<or> (\<exists>y \<in> set l. p y \<and> x = f y)"
  by (induction l) (auto split: if_splits)

lemma update_first_other:
  "x \<in> set (update_first (\<lambda>s. sub_client s = cid) (\<lambda>s. s\<lparr>sub_mask := m, sub_tx := tx\<rparr>) l) \<Longrightarrow>
   distinct (map sub_client l) \<Longrightarrow> (sub_client x = cid \<and> sub_mask x = m) \<or> (sub_client x \<noteq> cid \<and> x \<in> set l)"
proof (induction l)
  case (Cons a l)
  show ?case
  proof (cases "sub_client a = cid")
    case True
    then have "sub_client y \<noteq> cid" if "y \<in> set l" for y using Cons.prems(2) that by (auto simp: image_iff)
    with True Cons.prems(1) show ?thesis by auto
  next
    case False
    with Cons show ?thesis by auto
  qed
qed simp

text \<open>Subscribing keeps a list exclusive when no other client holds a requested redirect bit.\<close>

lemma exclusive_subscribe:
  assumes "exclusive_list l"
    and free: "\<forall>s \<in> set l. sub_client s \<noteq> cid \<longrightarrow> sub_mask s AND (emask AND REDIRECT_BITS) = 0"
  shows "exclusive_list (update_first (\<lambda>s. sub_client s = cid)
           (\<lambda>s. s\<lparr>sub_mask := emask, sub_tx := tx\<rparr>) l)"
    and "\<not> (\<exists>s \<in> set l. sub_client s = cid) \<Longrightarrow>
         exclusive_list (l @ [\<lparr>sub_client = cid, sub_mask = emask, sub_tx = tx\<rparr>])"
proof -
  have free': "emask AND sub_mask s AND REDIRECT_BITS = 0" "sub_mask s AND emask AND REDIRECT_BITS = 0"
    if "s \<in> set l" "sub_client s \<noteq> cid" for s
    using free that by (auto simp: ac_simps)
  show "exclusive_list (update_first (\<lambda>s. sub_client s = cid)
           (\<lambda>s. s\<lparr>sub_mask := emask, sub_tx := tx\<rparr>) l)"
    using assms(1) free' unfolding exclusive_list_def
    by (auto simp: map_sub_client_update_first dest!: update_first_other)
  show "exclusive_list (l @ [\<lparr>sub_client = cid, sub_mask = emask, sub_tx = tx\<rparr>])"
    if "\<not> (\<exists>s \<in> set l. sub_client s = cid)"
    using assms(1) free' that unfolding exclusive_list_def by auto
qed

lemma no_conflict_free:
  assumes "check_redirect_conflict wid emask cid b = None" "s \<in> set (subs_of wid b)" "sub_client s \<noteq> cid"
  shows "sub_mask s AND (emask AND REDIRECT_BITS) = 0"
  using assms by (auto simp: check_redirect_conflict_def Let_def find_None_iff split: if_splits)

lemma subscribe_inv:
  assumes "broadcaster_inv b"
    and "\<forall>s \<in> set (subs_of wid b). sub_client s \<noteq> cid \<longrightarrow> sub_mask s AND (emask AND REDIRECT_BITS) = 0"
  shows "broadcaster_inv (subscribe wid cid emask tx b)"
proof -
  have "wf_hashmap (subscriptions (subscribe wid cid emask tx b))"
    using assms(1)
    by (simp add: broadcaster_inv_def wf_hashmap_def subscribe_def Let_def AList.distinct_update)
  moreover have "exclusive_list (subs_of w (subscribe wid cid emask tx b))" for w
    using assms exclusive_subscribe [OF _ assms(2)] by (auto simp: broadcaster_inv_def subs_of_subscribe)
  ultimately show ?thesis by (simp add: broadcaster_inv_def)
qed

lemma exclusive_filter: "exclusive_list l \<Longrightarrow> exclusive_list (filter p l)"
  by (auto simp: exclusive_list_def distinct_map_filter)

lemma map_of_filter_map:
  assumes "distinct (map fst m)"
  shows "map_of (filter (\<lambda>e. snd e \<noteq> []) (map (\<lambda>(k, l). (k, f l)) m)) k =
    (case map_of m k of Some l \<Rightarrow> if f l = [] then None else Some (f l) | None \<Rightarrow> None)"
  using assms
proof (induction m)
  case (Cons e m)
  obtain k' l where e: "e = (k', l)" by (cases e)
  have "map_of m k' = None" using Cons.prems e by (simp add: map_of_eq_None_iff)
  with Cons e show ?case by (cases "k = k'") simp_all
qed simp

lemma subs_of_unsubscribe:
  assumes "wf_hashmap (subscriptions b)"
  shows "subs_of wid (unsubscribe_client cid b) = filter (\<lambda>s. sub_client s \<noteq> cid) (subs_of wid b)"
  using assms
  by (auto simp: subs_of_def unsubscribe_client_def unregister_client_def wf_hashmap_def
      map_of_filter_map split: option.splits)

lemma broadcaster_step_inv: "broadcaster_step b b' \<Longrightarrow> broadcaster_inv b \<Longrightarrow> broadcaster_inv b'"
proof (induction rule: broadcaster_step.induct)
  case (change_attributes wid emask cid b tx)
  then show ?case using no_conflict_free by (intro subscribe_inv) auto
next
  case (create_window wid b cid emask tx)
  then show ?case by (intro subscribe_inv) auto
next
  case (connect b cid tx)
  then show ?case by (simp add: broadcaster_inv_def register_client_def subs_of_def)
next
  case (disconnect b cid)
  then have "wf_hashmap (subscriptions (unsubscribe_client cid b))"
    by (auto simp: broadcaster_inv_def wf_hashmap_def unsubscribe_client_def unregister_client_def
        comp_def case_prod_beta intro!: distinct_map_filter)
  with disconnect show ?case
    by (auto simp: broadcaster_inv_def subs_of_unsubscribe intro: exclusive_filter)
qed

interpretation broadcaster: invariant_system broadcaster_step broadcaster_inv
  by unfold_locales (rule broadcaster_step_inv)

lemma broadcaster_reachable_inv: "broadcaster_step\<^sup>*\<^sup>* broadcaster_new b \<Longrightarrow> broadcaster_inv b"
  by (erule broadcaster.reachable_inv)
    (simp add: broadcaster_inv_def broadcaster_new_def wf_hashmap_def subs_of_def exclusive_list_def)

lemma distinct_length_le_1: "distinct xs \<Longrightarrow> (\<And>x y. x \<in> set xs \<Longrightarrow> y \<in> set xs \<Longrightarrow> x = y) \<Longrightarrow> length xs \<le> 1"
  by (metis One_nat_def card_le_Suc0_iff_eq distinct_card finite_set)

lemma exclusive_receivers:
  assumes "exclusive_list l" "rbit \<in> {0x100000, 0x40000}"
  shows "length (filter (\<lambda>s. sub_client s \<noteq> src \<and> sub_mask s AND rbit \<noteq> 0) l) \<le> 1"
proof (rule distinct_length_le_1)
  show "distinct (filter (\<lambda>s. sub_client s \<noteq> src \<and> sub_mask s AND rbit \<noteq> 0) l)"
    using assms(1) by (auto simp: exclusive_list_def distinct_map)
next
  fix s t
  assume s: "s \<in> set (filter (\<lambda>s. sub_client s \<noteq> src \<and> sub_mask s AND rbit \<noteq> 0) l)"
    and t: "t \<in> set (filter (\<lambda>s. sub_client s \<noteq> src \<and> sub_mask s AND rbit \<noteq> 0) l)"
  from assms(2) obtain n where n: "rbit = push_bit n 1" "n = 20 \<or> n = 18" by (auto intro: that [of 20] that [of 18])
  have nz: "m AND push_bit n 1 \<noteq> 0 \<longleftrightarrow> bit m n" for m :: u32
    using n(2) by (auto simp: and_exp_eq_0_iff_not_bit push_bit_of_1)
  have "bit (sub_mask s AND sub_mask t AND REDIRECT_BITS) n"
    using s t n nz by (auto simp: bit_simps REDIRECT_BITS_def)
  then have "sub_mask s AND sub_mask t AND REDIRECT_BITS \<noteq> 0" by (metis bit_0_eq bot_apply bot_bool_def)
  then have "sub_client s = sub_client t" using assms(1) s t by (auto simp: exclusive_list_def)
  then show "s = t" using assms(1) s t by (auto simp: exclusive_list_def distinct_map inj_on_def)
qed

section \<open>Properties\<close>

text \<open>The walks over the tree are exact on every tree no deeper than the loop bound: one window is
  reported as a descendant of another iff it lies below it, the top-level window of a window is
  found, is one of its ancestors and is a child of the root; and on any input at all, cycles
  included, the ancestor chain ends within the bound.\<close>

theorem window_tree_walks:
  assumes "tree_ok depth ws"
    and "\<forall>(c, w) \<in> set ws. w_parent w = 0 \<or> w_parent w = root \<or> w_parent w \<in> fst ` set ws"
    and "map_of ws wid = Some w" "wid \<noteq> root"
  shows "(is_descendant_of ws c a \<longleftrightarrow> (parent_of ws)\<^sup>+\<^sup>+ c a) \<and>
    (\<exists>t wt. top_level_for root ws wid = Some t \<and> (parent_of ws)\<^sup>*\<^sup>* wid t \<and>
       map_of ws t = Some wt \<and> w_parent wt \<in> {root, 0}) \<and>
    length (ancestor_chain any x) \<le> MAX_TREE_DEPTH"
proof (intro conjI)
  show "is_descendant_of ws c a \<longleftrightarrow> (parent_of ws)\<^sup>+\<^sup>+ c a"
    unfolding is_descendant_of_def
    using tree_okD(1) [OF assms(1)] by (intro descendant_within_exact [OF assms(1)]) auto
  have "wid \<noteq> 0" using assms(1,3) by (auto simp: tree_ok_def)
  then show "\<exists>t wt. top_level_for root ws wid = Some t \<and> (parent_of ws)\<^sup>*\<^sup>* wid t \<and>
       map_of ws t = Some wt \<and> w_parent wt \<in> {root, 0}"
    using top_level_within_exact [OF assms(1,3) tree_okD(1) [OF assms(1,3)] assms(2)] assms(4)
    by (simp add: top_level_for_def)
qed (simp add: ancestor_chain_def chain_from_length)

definition plain_attributes :: window_attributes where
  "plain_attributes =
     \<lparr>a_border_width = 0, a_visual = 0x21, a_depth = 24, a_class = 1, a_override_redirect = False,
      a_background_pixel = 0, a_background_pixmap = None, a_border_pixel = 0, a_border_pixmap = None,
      a_cursor = None, a_colormap = 0, a_backing_store = 0, a_backing_planes = 0xFFFFFFFF,
      a_backing_pixel = 0, a_save_under = False\<rparr>"

definition window_at :: "u32 \<Rightarrow> i16 \<Rightarrow> i16 \<Rightarrow> u16 \<Rightarrow> u16 \<Rightarrow> u32 list \<Rightarrow> window_state" where
  "window_at p x y wd ht cs =
     \<lparr>w_id = 0, w_parent = p, w_x = x, w_y = y, w_width = wd, w_height = ht, w_mapped = True,
      w_event_mask = 0, w_do_not_propagate = 0, w_redirected = False, w_properties = [], w_owner = [], w_children = cs,
      w_initial_state = None, w_transient_for = None, w_sync_counter = None, w_type = Normal,
      w_strut = None, w_hints_input = None, w_window_group = None,
      w_input_shape = None, w_bounding_shape = None, w_clip_shape = None, w_shape_clients = [], w_modal = False,
      w_fb = (ucast wd, ucast ht), w_saved = None, w_saved_geometry = None, w_visibility = 0, w_sync_value = 0, w_attrs = plain_attributes\<rparr>"

theorem window_tree_walks_witness:
  "let ws = [(1, window_at 0 0 0 800 600 [2]), (2, window_at 1 0 0 80 60 [3]),
             (3, window_at 2 0 0 8 6 [])]
   in (is_descendant_of ws 3 1 \<longleftrightarrow> (parent_of ws)\<^sup>+\<^sup>+ 3 1) \<and>
      top_level_for 1 ws 3 \<noteq> None"
  unfolding Let_def
  using window_tree_walks [of unat "[(1, window_at 0 0 0 800 600 [2]),
      (2, window_at 1 0 0 80 60 [3]), (3, window_at 2 0 0 8 6 [])]" 1 3 "window_at 2 0 0 8 6 []" 3 1 "[]" 0]
  by (auto simp: tree_ok_def window_at_def MAX_TREE_DEPTH_def)

text \<open>Visibility, for a mapped, non-empty window that its parent lists: the answer is Unobscured
  exactly when no mapped sibling above it covers any of its pixels; a completely covered window
  is always reported FullyObscured; and the converse holds when the siblings above do not overlap
  each other inside the window (their areas are added up).\<close>

theorem visibility_sound:
  assumes "map_of ws wid = Some w" "w_mapped w" "w_width w \<noteq> 0" "w_height w \<noteq> 0"
    and "map_of ws (w_parent w) = Some p" "w_children p = below @ wid # upper" "wid \<notin> set below"
  shows "(compute_visibility ws wid = 0 \<longleftrightarrow> (\<Union>c \<in> set upper. shade ws w c) = {}) \<and>
    ((\<Union>c \<in> set upper. shade ws w c) = pixels w \<longrightarrow> compute_visibility ws wid = 2) \<and>
    (distinct upper \<longrightarrow>
     (\<forall>c \<in> set upper. \<forall>d \<in> set upper. c \<noteq> d \<longrightarrow> shade ws w c \<inter> shade ws w d = {}) \<longrightarrow>
     compute_visibility ws wid = 2 \<longrightarrow> (\<Union>c \<in> set upper. shade ws w c) = pixels w)"
proof -
  let ?U = "\<Union>c \<in> set upper. shade ws w c" and ?S = "\<Sum>c\<leftarrow>upper. int (card (shade ws w c))"
  have drop: "tl (dropWhile (\<lambda>c. c \<noteq> wid) (w_children p)) = upper"
    unfolding assms(6) using assms(7) by (subst dropWhile_append2) auto
  have vis: "compute_visibility ws wid =
      (if ?U = {} then 0 else if int (card (pixels w)) \<le> ?S then 2 else 1)"
    using assms drop by (simp add: compute_visibility_def fold_overlap_step pixels_card)
  have ne: "pixels w \<noteq> {}"
    using assms(3,4) by (auto simp: pixels_def word_neq_0_conv word_less_def)
  have full: "?U = pixels w \<Longrightarrow> int (card (pixels w)) \<le> ?S"
    using shade_union_card [of ws w upper] by simp
  have part: "?U = pixels w"
    if "distinct upper" "\<forall>c \<in> set upper. \<forall>d \<in> set upper. c \<noteq> d \<longrightarrow> shade ws w c \<inter> shade ws w d = {}"
      "int (card (pixels w)) \<le> ?S"
    using shade_union_card_disjoint [OF that(1,2)] that(3) shade_subset
    by (intro card_subset_eq pixels_card(1)) (simp_all add: card_mono pixels_card(1) antisym)
  show ?thesis using vis ne full part by auto
qed

theorem visibility_sound_witness:
  "let ws = [(1, window_at 0 0 0 800 600 [2, 3]), (2, window_at 1 0 0 80 60 []),
             (3, window_at 1 40 0 80 60 [])]
   in compute_visibility ws 2 = 0 \<longleftrightarrow> shade ws (window_at 1 0 0 80 60 []) 3 = {}"
  unfolding Let_def
  using visibility_sound [of "[(1, window_at 0 0 0 800 600 [2, 3]), (2, window_at 1 0 0 80 60 []),
             (3, window_at 1 40 0 80 60 [])]" 2 "window_at 1 0 0 80 60 []"
             "window_at 0 0 0 800 600 [2, 3]" "[]" "[3]"]
  by (simp add: window_at_def)

text \<open>C27. Restacking keeps the siblings sorted by stacking layer: the window ends up once in the
  children of its parent, above every sibling of its own or a lower layer and below the others,
  and the other siblings keep their order; no layer changes.\<close>

theorem restack_keeps_layers:
  assumes "map_of ws parent_id = Some p" "sorted (map (layer_of ws) (w_children p))"
  shows "\<exists>cs. map_of (restack_by_window_type wid parent_id ws) parent_id = Some (p\<lparr>w_children := cs\<rparr>) \<and>
    sorted (map (layer_of (restack_by_window_type wid parent_id ws)) cs) \<and>
    filter (\<lambda>c. c \<noteq> wid) cs = filter (\<lambda>c. c \<noteq> wid) (w_children p) \<and> count_list cs wid = 1 \<and>
    (\<forall>below upper c. cs = below @ wid # upper \<longrightarrow> c \<in> set upper \<longrightarrow> layer_of ws wid < layer_of ws c)"
proof -
  define rest where "rest = filter (\<lambda>c. c \<noteq> wid) (w_children p)"
  define n where "n = after_last (\<lambda>c. layer_of ws c \<le> layer_of ws wid) rest"
  let ?cs = "vec_insert n wid rest"
  have srt: "sorted (map (layer_of ws) rest)"
    unfolding rest_def using assms(2) by (rule sorted_filter)
  have n_map: "n = after_last (\<lambda>y. y \<le> layer_of ws wid) (map (layer_of ws) rest)"
    by (simp add: n_def after_last_map)
  have "map_of (restack_by_window_type wid parent_id ws) parent_id = Some (p\<lparr>w_children := ?cs\<rparr>)"
    unfolding n_def by (rule restack_parent [OF assms(1) rest_def])
  moreover have "sorted (map (layer_of (restack_by_window_type wid parent_id ws)) ?cs)"
    using sorted_insert_after_last [OF srt, of "layer_of ws wid"]
    by (simp add: restack_layers map_vec_insert n_map)
  moreover have no: "wid \<notin> set rest" by (simp add: rest_def)
  then have fil: "filter (\<lambda>c. c \<noteq> wid) ?cs = rest" "count_list ?cs wid = 1"
    using filter_vec_insert [OF no] by simp_all
  moreover have "layer_of ws wid < layer_of ws c"
    if "?cs = below @ wid # upper" "c \<in> set upper" for below upper c
  proof -
    have "upper = drop n rest" by (rule vec_insert_split [OF that(1) no])
    with that(2) obtain i where "n \<le> i" "i < length rest" "c = rest ! i"
      by (metis in_set_conv_nth in_set_drop_nth)
    then show ?thesis
      using after_last_split [of "\<lambda>c. layer_of ws c \<le> layer_of ws wid" rest] by (auto simp: n_def)
  qed
  ultimately show ?thesis unfolding rest_def [symmetric] by blast
qed


theorem restack_keeps_layers_witness:
  "let ws = [(1, window_at 0 0 0 800 600 [2, 3, 4]), (2, window_at 1 0 0 80 60 []),
             (3, (window_at 1 0 0 80 60 [])\<lparr>w_type := Dock\<rparr>),
             (4, (window_at 1 0 0 8 6 [])\<lparr>w_type := Menu\<rparr>)]
   in map_option w_children (map_of (restack_by_window_type 2 1 ws) 1) = Some [2, 3, 4] \<and>
      (\<exists>cs. map_of (restack_by_window_type 2 1 ws) 1 =
         Some ((window_at 0 0 0 800 600 [2, 3, 4])\<lparr>w_children := cs\<rparr>) \<and> count_list cs 2 = 1)"
proof -
  let ?ws = "[(1, window_at 0 0 0 800 600 [2, 3, 4]), (2, window_at 1 0 0 80 60 []),
             (3, (window_at 1 0 0 80 60 [])\<lparr>w_type := Dock\<rparr>),
             (4, (window_at 1 0 0 8 6 [])\<lparr>w_type := Menu\<rparr>)]"
  have "sorted (map (layer_of ?ws) (w_children (window_at 0 0 0 800 600 [2, 3, 4])))"
    by (simp add: layer_of_def effective_stacking_layer_def window_at_def)
  from restack_keeps_layers [of ?ws 1, OF _ this, of 2]
  have "\<exists>cs. map_of (restack_by_window_type 2 1 ?ws) 1 =
         Some ((window_at 0 0 0 800 600 [2, 3, 4])\<lparr>w_children := cs\<rparr>) \<and> count_list cs 2 = 1" by auto
  moreover have "map_option w_children (map_of (restack_by_window_type 2 1 ?ws) 1) = Some [2, 3, 4]"
    by (simp add: restack_by_window_type_def layer_of_def effective_stacking_layer_def window_at_def
        vec_insert_def Let_def)
  ultimately show ?thesis by simp
qed



section \<open>What a connection sees of the shared registry\<close>

text \<open>A property that a connection has in its own copy of a window.\<close>

definition local_property :: "('e, 'm) win_client_scheme \<Rightarrow> u32 \<Rightarrow> u32 \<Rightarrow> property_value option" where
  "local_property st wid atom =
     (case map_of (windows st) wid of Some w \<Rightarrow> map_of (w_properties w) atom | None \<Rightarrow> None)"

lemma pull_window_keeps:
  assumes "map_of local wid = Some w" "map_of (w_properties w) atom = Some v"
  shows "\<exists>w'. map_of (pull_window cid e local) wid = Some w' \<and> map_of (w_properties w') atom = Some v \<and>
    w_owner w' = w_owner w"
  using assms merge_missing_lookup [of _ "w_properties w" atom]
  by (auto simp: pull_window_def split: prod.splits option.splits)

lemma pull_windows_keep:
  assumes "map_of local wid = Some w" "map_of (w_properties w) atom = Some v"
  shows "\<exists>w'. map_of (fold (pull_window cid) shared local) wid = Some w' \<and>
    map_of (w_properties w') atom = Some v \<and> w_owner w' = w_owner w"
  using assms
proof (induction shared arbitrary: local w)
  case (Cons e shared)
  from pull_window_keeps [OF Cons.prems, of cid e] obtain w1 where w1:
    "map_of (pull_window cid e local) wid = Some w1" "map_of (w_properties w1) atom = Some v"
    "w_owner w1 = w_owner w" by blast
  from Cons.IH [OF w1(1,2)] w1(3) show ?case by simp
qed auto

lemma drop_vanished_keeps:
  assumes "map_of local wid = Some w" "wf_hashmap local" "wid \<in> fst ` set shared \<or> is_mine cid w"
  shows "map_of (drop_vanished cid shared local) wid = Some w"
proof -
  have "(wid, w) \<in> set (drop_vanished cid shared local)"
    using map_of_SomeD [OF assms(1)] assms(3) by (auto simp: drop_vanished_def is_mine_def)
  moreover have "distinct (map fst (drop_vanished cid shared local))"
    using assms(2) by (simp add: drop_vanished_def wf_hashmap_def distinct_map_filter)
  ultimately show ?thesis by (rule map_of_is_SomeI [rotated])
qed

text \<open>Synchronising never replaces a property value a connection already has.\<close>

lemma sync_keeps_local_property:
  assumes "local_property st wid atom = Some v" "wf_hashmap (windows st)"
    and "\<And>w. map_of (windows st) wid = Some w \<Longrightarrow> wid \<in> fst ` set (shared_windows st) \<or> is_mine (client_id st) w"
  shows "local_property (sync_windows st) wid atom = Some v"
proof -
  from assms(1) obtain w where w: "map_of (windows st) wid = Some w" "map_of (w_properties w) atom = Some v"
    by (auto simp: local_property_def split: option.splits)
  from pull_windows_keep [OF drop_vanished_keeps [OF w(1) assms(2) assms(3) [OF w(1)]] w(2),
      of "client_id st" "shared_windows st"]
  obtain w' where "map_of (fold (pull_window (client_id st)) (shared_windows st)
      (drop_vanished (client_id st) (shared_windows st) (windows st))) wid = Some w'"
    "map_of (w_properties w') atom = Some v" by blast
  with w show ?thesis by (simp add: sync_windows_def local_property_def Let_def)
qed

text \<open>A window that a connection does not know yet arrives with all its properties.\<close>

lemma pull_window_other: "k \<noteq> wid \<Longrightarrow> map_of (pull_window cid (k, sw) local) wid = map_of local wid"
  by (auto simp: pull_window_def split: option.splits)

lemma pull_window_new:
  "map_of local wid = None \<Longrightarrow> map_of (pull_window cid (wid, sw) local) wid = Some sw"
  by (simp add: pull_window_def)

lemma pull_windows_other:
  "wid \<notin> fst ` set shared \<Longrightarrow> map_of (fold (pull_window cid) shared local) wid = map_of local wid"
  by (induction shared arbitrary: local) (auto simp: pull_window_other)

lemma sync_adopts_new_window:
  assumes "map_of (shared_windows st) wid = Some sw" "map_of (windows st) wid = None"
    and "wf_hashmap (shared_windows st)" "needs_step1 (shared_windows st) (windows st)"
  shows "map_of (windows (sync_windows st)) wid = Some sw"
proof -
  let ?l = "drop_vanished (client_id st) (shared_windows st) (windows st)"
  from split_list [OF map_of_SomeD [OF assms(1)]] obtain pre post where
    s: "shared_windows st = pre @ (wid, sw) # post" by blast
  then have n: "wid \<notin> fst ` set pre" "wid \<notin> fst ` set post"
    using assms(3) by (auto simp: wf_hashmap_def)
  have "map_of ?l wid = None"
    using assms(2) by (auto simp: drop_vanished_def map_of_eq_None_iff)
  with n have "map_of (fold (pull_window (client_id st)) pre ?l) wid = None"
    by (simp add: pull_windows_other)
  then have "map_of (fold (pull_window (client_id st)) (shared_windows st) ?l) wid = Some sw"
    using n by (simp add: s pull_windows_other pull_window_new)
  then show ?thesis using assms(4) by (simp add: sync_windows_def Let_def)
qed

end
