(* ===== verification/Color.thy ===== *)
theory Color
  imports Color_Names Windows
begin

text \<open>
  Colormap and cursor requests (\<open>handlers/color.rs\<close>) over the colormap table of Colormap and the colour
  names of Color\<open>_\<close>Names. The set of installed colormaps is a list without duplicates.

  A handler that looks up a colour name may panic, which is the value \<open>None\<close>. The names of a request are
  its bytes; text that is not UTF-8 is read as the empty name.
\<close>

unbundle bit_operations_syntax

section \<open>State\<close>

record colormap_notify_event =
  cn_window :: u32
  cn_colormap :: u32
  cn_installed :: bool

record cursor_info =
  css_name :: string
  source_pixmap :: u32
  mask_pixmap :: u32
  cur_fore :: rgb
  cur_back :: rgb
  hotspot_x :: u16
  hotspot_y :: u16
  argb_data :: bytes
  cur_width :: u16
  cur_height :: u16

record color_client = "colormap_notify_event win_client" +
  colormaps :: "colormap_state hashmap"
  installed_colormaps :: "u32 list"
  max_colormaps :: nat
  cursors :: "string hashmap"
  cursor_table :: "cursor_info hashmap"
  max_cursors :: nat
  cur_pixmaps :: "pixmap_state hashmap"

datatype color_reply =
    InstalledColormaps "u32 list"
  | ColorAllocated rgb u32
  | NamedColorAllocated u32 rgb
  | CellsAllocated "u32 list" "u32 list"
  | PlanesAllocated u32 u32 u32 "u32 list"
  | ColorsQueried "rgb list"
  | ColorFound rgb

type_synonym color_result = "color_client \<times> color_reply response"

definition VISUAL_TRUE_COLOR_24 :: u32 where "VISUAL_TRUE_COLOR_24 = 0x21"
definition VISUAL_DIRECT_COLOR_24 :: u32 where "VISUAL_DIRECT_COLOR_24 = 0x22"
definition VISUAL_PSEUDO_COLOR_8 :: u32 where "VISUAL_PSEUDO_COLOR_8 = 0x23"
definition VISUAL_TRUE_COLOR_16 :: u32 where "VISUAL_TRUE_COLOR_16 = 0x24"
definition VISUAL_STATIC_GRAY_4 :: u32 where "VISUAL_STATIC_GRAY_4 = 0x25"
definition VISUAL_GRAY_SCALE_8 :: u32 where "VISUAL_GRAY_SCALE_8 = 0x26"
definition VISUAL_STATIC_COLOR_8 :: u32 where "VISUAL_STATIC_COLOR_8 = 0x27"
definition VISUAL_TRUE_COLOR_ARGB_32 :: u32 where "VISUAL_TRUE_COLOR_ARGB_32 = 0x40"
definition COLOR_MAP_CHANGE :: u32 where "COLOR_MAP_CHANGE = 0x800000"

lemmas visual_defs = VISUAL_TRUE_COLOR_24_def VISUAL_DIRECT_COLOR_24_def VISUAL_PSEUDO_COLOR_8_def
  VISUAL_TRUE_COLOR_16_def VISUAL_STATIC_GRAY_4_def VISUAL_GRAY_SCALE_8_def VISUAL_STATIC_COLOR_8_def
  VISUAL_TRUE_COLOR_ARGB_32_def

definition color_error :: "u8 \<Rightarrow> u32 \<Rightarrow> u8 \<Rightarrow> color_client \<Rightarrow> color_result" where
  "color_error code v opcode st = (st, ErrorReply (build_error code (sequence st) v opcode 0))"

definition known_colormap :: "u32 \<Rightarrow> color_client \<Rightarrow> bool" where
  "known_colormap cmap st \<longleftrightarrow> cmap = ROOT_COLORMAP \<or> map_of (colormaps st) cmap \<noteq> None"

section \<open>Colormaps\<close>

definition can_create_colormap :: "color_client \<Rightarrow> bool" where
  "can_create_colormap st \<longleftrightarrow> length (colormaps st) < max_colormaps st"

definition colormap_for_visual :: "u32 \<Rightarrow> colormap_state option" where
  "colormap_for_visual v =
     (if v = VISUAL_TRUE_COLOR_24 \<or> v = VISUAL_TRUE_COLOR_16 \<or> v = VISUAL_TRUE_COLOR_ARGB_32
      then Some (new_truecolor v)
      else if v = VISUAL_DIRECT_COLOR_24 then Some (new_directcolor v 256)
      else if v = VISUAL_PSEUDO_COLOR_8 then Some (new_pseudocolor v 256)
      else if v = VISUAL_STATIC_GRAY_4 then Some (new_staticgray v 16)
      else if v = VISUAL_GRAY_SCALE_8 then Some (new_grayscale v 256)
      else if v = VISUAL_STATIC_COLOR_8 then Some (new_staticcolor v 256)
      else None)"

definition handle_create_colormap :: "bool \<Rightarrow> u32 \<Rightarrow> u32 \<Rightarrow> color_client \<Rightarrow> color_result" where
  "handle_create_colormap alloc_all mid v st =
     (if \<not> validate_resource_id st mid then color_error ID_CHOICE_ERROR mid 78 st
      else if \<not> can_create_colormap st then color_error ALLOC_ERROR mid 78 st
      else case colormap_for_visual v of
             None \<Rightarrow> color_error MATCH_ERROR v 78 st
           | Some cm \<Rightarrow>
               (let cm = (if alloc_all \<and> is_writable cm
                          then cm\<lparr>allocated := map (\<lambda>_. True) (allocated cm)\<rparr> else cm)
                in (st\<lparr>colormaps := AList.update mid cm (colormaps st)\<rparr>, NoReply)))"

definition handle_free_colormap :: "u32 \<Rightarrow> color_client \<Rightarrow> color_result" where
  "handle_free_colormap mid st =
     (if \<not> known_colormap mid st then color_error COLORMAP_ERROR mid 79 st
      else (recycle_xid mid (st\<lparr>colormaps := AList.delete mid (colormaps st),
                               installed_colormaps := removeAll mid (installed_colormaps st)\<rparr>), NoReply))"

definition handle_copy_colormap_and_free :: "u32 \<Rightarrow> u32 \<Rightarrow> color_client \<Rightarrow> color_result" where
  "handle_copy_colormap_and_free mid src st =
     (if \<not> known_colormap src st then color_error COLORMAP_ERROR src 80 st
      else
        (let new_cmap = (case map_of (colormaps st) src of
                           Some cm \<Rightarrow> cm | None \<Rightarrow> new_truecolor VISUAL_TRUE_COLOR_24);
             cms = AList.update mid new_cmap (colormaps st);
             cms = AList.map_entry src (\<lambda>cm. cm\<lparr>allocated := map (\<lambda>_. False) (allocated cm)\<rparr>) cms
         in (st\<lparr>colormaps := cms\<rparr>, NoReply)))"

definition colormap_watchers :: "color_client \<Rightarrow> u32 list" where
  "colormap_watchers st = map fst (filter (\<lambda>(_, w). w_event_mask w AND COLOR_MAP_CHANGE \<noteq> 0) (windows st))"

definition notify_colormap :: "u32 \<Rightarrow> bool \<Rightarrow> color_client \<Rightarrow> color_client" where
  "notify_colormap cmap inst st =
     fold (\<lambda>wid st. let ev = \<lparr>cn_window = wid, cn_colormap = cmap, cn_installed = inst\<rparr>
                    in broadcast_event wid COLOR_MAP_CHANGE ev (push_event ev st))
       (colormap_watchers st) st"

definition handle_install_colormap :: "u32 \<Rightarrow> color_client \<Rightarrow> color_result" where
  "handle_install_colormap mid st =
     (if \<not> known_colormap mid st then color_error COLORMAP_ERROR mid 81 st
      else (notify_colormap mid True
              (st\<lparr>installed_colormaps := List.insert mid (installed_colormaps st)\<rparr>), NoReply))"

definition handle_uninstall_colormap :: "u32 \<Rightarrow> color_client \<Rightarrow> color_result" where
  "handle_uninstall_colormap mid st =
     (if \<not> known_colormap mid st then color_error COLORMAP_ERROR mid 82 st
      else
        (let st = (if mid \<noteq> ROOT_COLORMAP
                   then st\<lparr>installed_colormaps := removeAll mid (installed_colormaps st)\<rparr> else st);
             st = notify_colormap mid False st
         in (if mid \<noteq> ROOT_COLORMAP then notify_colormap ROOT_COLORMAP True st else st, NoReply)))"

definition handle_list_installed_colormaps :: "color_client \<Rightarrow> color_result" where
  "handle_list_installed_colormaps st = (st, Reply (InstalledColormaps (installed_colormaps st)))"

section \<open>Colour cells\<close>

text \<open>A request that changes one colormap and returns a value; the default colormap is not in the table.\<close>

definition set_colormap :: "u32 \<Rightarrow> colormap_state \<Rightarrow> color_client \<Rightarrow> color_client" where
  "set_colormap cmap cm st = st\<lparr>colormaps := AList.update cmap cm (colormaps st)\<rparr>"

definition truecolor_pixel :: "rgb \<Rightarrow> u32" where
  "truecolor_pixel = (\<lambda>(r, g, b).
     push_bit 16 (ucast (drop_bit 8 r)) OR push_bit 8 (ucast (drop_bit 8 g)) OR ucast (drop_bit 8 b))"

definition handle_alloc_color :: "u32 \<Rightarrow> rgb \<Rightarrow> color_client \<Rightarrow> color_result" where
  "handle_alloc_color cmap c st =
     (if \<not> known_colormap cmap st then color_error COLORMAP_ERROR cmap 84 st
      else case map_of (colormaps st) cmap of
             None \<Rightarrow> (st, Reply (ColorAllocated c (truecolor_pixel c)))
           | Some cm \<Rightarrow>
               (case alloc_color c cm of
                  (cm', Some pixel) \<Rightarrow> (set_colormap cmap cm' st, Reply (ColorAllocated c pixel))
                | (cm', None) \<Rightarrow> color_error ALLOC_ERROR 0 84 (set_colormap cmap cm' st)))"

definition name_of :: "bytes \<Rightarrow> str" where
  "name_of bs = (case from_utf8 bs of Some s \<Rightarrow> s | None \<Rightarrow> [])"

definition handle_alloc_named_color :: "color_names \<Rightarrow> u32 \<Rightarrow> bytes \<Rightarrow> color_client \<Rightarrow> color_result option" where
  "handle_alloc_named_color N cmap name st =
     (if \<not> known_colormap cmap st then Some (color_error COLORMAP_ERROR cmap 85 st)
      else map_option (\<lambda>c. case c of
               None \<Rightarrow> color_error NAME_ERROR 0 85 st
             | Some c \<Rightarrow> (st, Reply (NamedColorAllocated (truecolor_pixel c) c)))
             (lookup_color N (name_of name)))"

text \<open>\<open>AllocColorCells\<close> and \<open>AllocColorPlanes\<close> take their cells the same way; the number of cells is cut to
  16 bits.\<close>

definition take_cells :: "bool \<Rightarrow> nat \<Rightarrow> u32 \<Rightarrow> color_client \<Rightarrow> color_client \<times> u32 list option" where
  "take_cells contiguous total_colors cmap st =
     (case map_of (colormaps st) cmap of
        None \<Rightarrow> (st, None)
      | Some cm \<Rightarrow>
          (let (cm', pixs) = (if contiguous then alloc_cells_contiguous (of_nat total_colors) cm
                                else alloc_cells (of_nat total_colors) cm)
           in (set_colormap cmap cm' st, pixs)))"

definition writable_colormap :: "u32 \<Rightarrow> color_client \<Rightarrow> bool" where
  "writable_colormap cmap st \<longleftrightarrow> (case map_of (colormaps st) cmap of Some cm \<Rightarrow> is_writable cm | None \<Rightarrow> False)"

definition handle_alloc_color_cells :: "bool \<Rightarrow> u32 \<Rightarrow> u16 \<Rightarrow> u16 \<Rightarrow> color_client \<Rightarrow> color_result" where
  "handle_alloc_color_cells contiguous cmap n_colors n_planes st =
     (if n_colors = 0 then color_error VALUE_ERROR 0 86 st
      else if \<not> known_colormap cmap st then color_error COLORMAP_ERROR cmap 86 st
      else if \<not> writable_colormap cmap st then color_error ALLOC_ERROR 0 86 st
      else if n_planes > 24 then color_error VALUE_ERROR (ucast n_planes) 86 st
      else
        (let total_colors = (if n_planes > 0 then unat n_colors * 2 ^ unat n_planes else unat n_colors)
         in case take_cells contiguous total_colors cmap st of
              (st', Some pix) \<Rightarrow>
                (st', Reply (CellsAllocated (take (unat n_colors) pix)
                               (map (\<lambda>i. push_bit i 1) [0..<unat n_planes])))
            | (st', None) \<Rightarrow> color_error ALLOC_ERROR 0 86 st'))"

definition plane_mask :: "nat \<Rightarrow> nat \<Rightarrow> u32" where
  "plane_mask start n = fold (\<lambda>i m. m OR push_bit i 1) [start..<start + n] 0"

definition handle_alloc_color_planes ::
    "bool \<Rightarrow> u32 \<Rightarrow> u16 \<Rightarrow> u16 \<Rightarrow> u16 \<Rightarrow> u16 \<Rightarrow> color_client \<Rightarrow> color_result" where
  "handle_alloc_color_planes contiguous cmap n_colors n_reds n_greens n_blues st =
     (if n_colors = 0 then color_error VALUE_ERROR 0 87 st
      else if \<not> known_colormap cmap st then color_error COLORMAP_ERROR cmap 87 st
      else if \<not> writable_colormap cmap st then color_error ALLOC_ERROR 0 87 st
      else
        (let reds = unat n_reds; greens = unat n_greens; blues = unat n_blues;
             total_planes = reds + greens + blues
         in if total_planes > 24 then color_error VALUE_ERROR (of_nat total_planes) 87 st
            else case take_cells contiguous (unat n_colors * 2 ^ total_planes) cmap st of
                   (st', Some pix) \<Rightarrow>
                     (st', Reply (PlanesAllocated (plane_mask 0 reds) (plane_mask reds greens)
                                    (plane_mask (reds + greens) blues) (take (unat n_colors) pix)))
                 | (st', None) \<Rightarrow> color_error ALLOC_ERROR 0 87 st'))"

definition handle_query_colors :: "u32 \<Rightarrow> u32 list \<Rightarrow> color_client \<Rightarrow> color_result" where
  "handle_query_colors cmap pixs st =
     (if \<not> known_colormap cmap st then color_error COLORMAP_ERROR cmap 91 st
      else (st, Reply (ColorsQueried (map (\<lambda>pixel.
              case map_of (colormaps st) cmap of
                Some cm \<Rightarrow> lookup cm pixel
              | None \<Rightarrow> (case unpack_rgb pixel of (r8, g8, b8) \<Rightarrow> (widen r8, widen g8, widen b8))) pixs))))"

definition handle_lookup_color :: "color_names \<Rightarrow> u32 \<Rightarrow> bytes \<Rightarrow> color_client \<Rightarrow> color_result option" where
  "handle_lookup_color N cmap name st =
     (if \<not> known_colormap cmap st then Some (color_error COLORMAP_ERROR cmap 92 st)
      else map_option (\<lambda>c. case c of
               None \<Rightarrow> color_error NAME_ERROR 0 92 st | Some c \<Rightarrow> (st, Reply (ColorFound c)))
             (lookup_color N (name_of name)))"

definition read_only_colormap :: "u32 \<Rightarrow> color_client \<Rightarrow> bool" where
  "read_only_colormap cmap st \<longleftrightarrow>
     (case map_of (colormaps st) cmap of Some cm \<Rightarrow> \<not> is_writable cm | None \<Rightarrow> False)"

definition change_colormap :: "u32 \<Rightarrow> (colormap_state \<Rightarrow> colormap_state) \<Rightarrow> color_client \<Rightarrow> color_client" where
  "change_colormap cmap f st = st\<lparr>colormaps := AList.map_entry cmap f (colormaps st)\<rparr>"

definition handle_free_colors :: "u32 \<Rightarrow> u32 list \<Rightarrow> color_client \<Rightarrow> color_result" where
  "handle_free_colors cmap pixs st =
     (if \<not> known_colormap cmap st then color_error COLORMAP_ERROR cmap 88 st
      else if read_only_colormap cmap st then color_error ACCESS_ERROR cmap 88 st
      else (change_colormap cmap (free_cells pixs) st, NoReply))"

definition handle_store_colors ::
    "u32 \<Rightarrow> (u32 \<times> u16 \<times> u16 \<times> u16 \<times> u8) list \<Rightarrow> color_client \<Rightarrow> color_result" where
  "handle_store_colors cmap items st =
     (if \<not> known_colormap cmap st then color_error COLORMAP_ERROR cmap 89 st
      else if read_only_colormap cmap st then color_error ACCESS_ERROR cmap 89 st
      else (change_colormap cmap (store_colors items) st, NoReply))"

definition handle_store_named_color ::
    "color_names \<Rightarrow> u32 \<Rightarrow> u32 \<Rightarrow> u8 \<Rightarrow> bytes \<Rightarrow> color_client \<Rightarrow> color_result option" where
  "handle_store_named_color N cmap pixel flags name st =
     (if \<not> known_colormap cmap st then Some (color_error COLORMAP_ERROR cmap 90 st)
      else if read_only_colormap cmap st then Some (color_error ACCESS_ERROR cmap 90 st)
      else map_option (\<lambda>c. case c of
               None \<Rightarrow> (st, NoReply)
             | Some (r, g, b) \<Rightarrow> (change_colormap cmap (store_colors [(pixel, r, g, b, flags)]) st, NoReply))
             (lookup_color N (name_of name)))"

section \<open>Cursors\<close>

definition can_create_cursor :: "color_client \<Rightarrow> bool" where
  "can_create_cursor st \<longleftrightarrow> length (cursors st) < max_cursors st"

definition hi8 :: "u16 \<Rightarrow> u8" where
  "hi8 c = ucast (drop_bit 8 c)"

text \<open>The four bytes of one pixel of a cursor: source and mask hold the colour value of a bitmap pixel in
  their first byte; positions outside the data of the source or of a mask are transparent.\<close>

definition cursor_pixel :: "bytes \<Rightarrow> bytes option \<Rightarrow> rgb \<Rightarrow> rgb \<Rightarrow> nat \<Rightarrow> bytes" where
  "cursor_pixel src mask_data fore back i =
     (let off = i * 4;
          opaque = (case mask_data of Some md \<Rightarrow> off + 2 < length md \<and> md ! off \<noteq> 0 | None \<Rightarrow> True)
      in if off + 2 < length src \<and> opaque
         then (case (if src ! off \<noteq> 0 then fore else back) of (r, g, b) \<Rightarrow> [hi8 r, hi8 g, hi8 b, 0xFF])
         else [0, 0, 0, 0])"

definition build_cursor_argb ::
    "u32 \<Rightarrow> u32 \<Rightarrow> rgb \<Rightarrow> rgb \<Rightarrow> color_client \<Rightarrow> u16 \<times> u16 \<times> bytes" where
  "build_cursor_argb source msk fore back st =
     (case map_of (cur_pixmaps st) source of
        None \<Rightarrow> (0, 0, [])
      | Some p \<Rightarrow>
          (let w = unat (px_width p); h = unat (px_height p)
           in if w = 0 \<or> h = 0 then (0, 0, [])
              else
                (let mask_data = (if msk \<noteq> 0 then map_option px_data (map_of (cur_pixmaps st) msk) else None)
                 in (px_width p, px_height p,
                     concat (map (\<lambda>y. concat (map (\<lambda>x. cursor_pixel (px_data p) mask_data fore back (y * w + x))
                                            [0..<w])) [0..<h])))))"

definition cursor_known :: "u32 \<Rightarrow> color_client \<Rightarrow> bool" where
  "cursor_known cid st \<longleftrightarrow> map_of (cursors st) cid \<noteq> None \<or> map_of (cursor_table st) cid \<noteq> None"

definition add_cursor :: "u32 \<Rightarrow> cursor_info \<Rightarrow> color_client \<Rightarrow> color_client" where
  "add_cursor cid info st =
     st\<lparr>cursor_table := AList.update cid info (cursor_table st),
        cursors := AList.update cid (css_name info) (cursors st)\<rparr>"

definition handle_create_cursor ::
    "u32 \<Rightarrow> u32 \<Rightarrow> u32 \<Rightarrow> rgb \<Rightarrow> rgb \<Rightarrow> u16 \<Rightarrow> u16 \<Rightarrow> color_client \<Rightarrow> color_result" where
  "handle_create_cursor cid source msk fore back x y st =
     (if \<not> validate_resource_id st cid then color_error ID_CHOICE_ERROR cid 93 st
      else if \<not> can_create_cursor st then color_error ALLOC_ERROR cid 93 st
      else if cursor_known cid st then color_error ID_CHOICE_ERROR cid 93 st
      else if map_of (cur_pixmaps st) source = None then color_error PIXMAP_ERROR source 93 st
      else if msk \<noteq> 0 \<and> map_of (cur_pixmaps st) msk = None then color_error PIXMAP_ERROR msk 93 st
      else
        (let (width, height, argb) = build_cursor_argb source msk fore back st
         in (add_cursor cid \<lparr>css_name = ''default'', source_pixmap = source, mask_pixmap = msk,
               cur_fore = fore, cur_back = back, hotspot_x = x, hotspot_y = y, argb_data = argb,
               cur_width = width, cur_height = height\<rparr> st, NoReply)))"

definition glyph_to_css_cursor :: "u16 \<Rightarrow> string" where
  "glyph_to_css_cursor g =
     (if g \<in> {2, 30, 68} then ''default'' else if g \<in> {24, 34} then ''crosshair''
      else if g = 52 then ''not-allowed'' else if g \<in> {58, 70} then ''pointer''
      else if g = 92 then ''wait'' else if g = 130 then ''text'' else if g = 132 then ''move''
      else if g = 138 then ''help'' else if g = 116 then ''col-resize'' else if g = 120 then ''row-resize''
      else if g = 12 then ''s-resize'' else if g = 14 then ''sw-resize'' else if g = 16 then ''se-resize''
      else if g = 134 then ''n-resize'' else if g = 136 then ''nw-resize'' else if g = 100 then ''ne-resize''
      else if g = 108 then ''w-resize'' else if g = 96 then ''e-resize'' else ''default'')"

definition handle_create_glyph_cursor :: "u32 \<Rightarrow> u16 \<Rightarrow> rgb \<Rightarrow> rgb \<Rightarrow> color_client \<Rightarrow> color_result" where
  "handle_create_glyph_cursor cid source_char fore back st =
     (if \<not> validate_resource_id st cid then color_error ID_CHOICE_ERROR cid 94 st
      else if \<not> can_create_cursor st then color_error ALLOC_ERROR cid 94 st
      else if cursor_known cid st then color_error ID_CHOICE_ERROR cid 94 st
      else (add_cursor cid \<lparr>css_name = glyph_to_css_cursor source_char, source_pixmap = 0, mask_pixmap = 0,
              cur_fore = fore, cur_back = back, hotspot_x = 0, hotspot_y = 0, argb_data = [],
              cur_width = 0, cur_height = 0\<rparr> st, NoReply))"

definition handle_free_cursor :: "u32 \<Rightarrow> color_client \<Rightarrow> color_result" where
  "handle_free_cursor cid st =
     (if map_of (cursors st) cid = None then color_error CURSOR_ERROR cid 95 st
      else (recycle_xid cid (st\<lparr>cursors := AList.delete cid (cursors st),
                               cursor_table := AList.delete cid (cursor_table st)\<rparr>), NoReply))"

definition handle_recolor_cursor :: "u32 \<Rightarrow> rgb \<Rightarrow> rgb \<Rightarrow> color_client \<Rightarrow> color_result" where
  "handle_recolor_cursor cid fore back st =
     (if map_of (cursors st) cid = None then color_error CURSOR_ERROR cid 96 st
      else
        (st\<lparr>cursor_table := AList.map_entry cid (\<lambda>info.
             (let info' = info\<lparr>cur_fore := fore, cur_back := back\<rparr>
              in if source_pixmap info \<noteq> 0
                 then (let (w, h, argb) = build_cursor_argb (source_pixmap info) (mask_pixmap info) fore back st
                       in info'\<lparr>cur_width := w, cur_height := h, argb_data := argb\<rparr>)
                 else info')) (cursor_table st)\<rparr>, NoReply))"

section \<open>The requests together\<close>

datatype color_request =
    CreateColormap bool u32 u32
  | FreeColormap u32
  | CopyColormapAndFree u32 u32
  | InstallColormap u32
  | UninstallColormap u32
  | ListInstalledColormaps
  | AllocColor u32 rgb
  | AllocNamedColor u32 bytes
  | AllocColorCells bool u32 u16 u16
  | AllocColorPlanes bool u32 u16 u16 u16 u16
  | FreeColors u32 "u32 list"
  | StoreColors u32 "(u32 \<times> u16 \<times> u16 \<times> u16 \<times> u8) list"
  | StoreNamedColor u32 u32 u8 bytes
  | QueryColors u32 "u32 list"
  | LookupColor u32 bytes
  | CreateCursor u32 u32 u32 rgb rgb u16 u16
  | CreateGlyphCursor u32 u16 rgb rgb
  | FreeCursor u32
  | RecolorCursor u32 rgb rgb

fun handle_color_request :: "color_names \<Rightarrow> color_request \<Rightarrow> color_client \<Rightarrow> color_result option" where
  "handle_color_request N (CreateColormap a mid v) st = Some (handle_create_colormap a mid v st)"
| "handle_color_request N (FreeColormap mid) st = Some (handle_free_colormap mid st)"
| "handle_color_request N (CopyColormapAndFree mid src) st = Some (handle_copy_colormap_and_free mid src st)"
| "handle_color_request N (InstallColormap mid) st = Some (handle_install_colormap mid st)"
| "handle_color_request N (UninstallColormap mid) st = Some (handle_uninstall_colormap mid st)"
| "handle_color_request N ListInstalledColormaps st = Some (handle_list_installed_colormaps st)"
| "handle_color_request N (AllocColor cmap c) st = Some (handle_alloc_color cmap c st)"
| "handle_color_request N (AllocNamedColor cmap name) st = handle_alloc_named_color N cmap name st"
| "handle_color_request N (AllocColorCells k cmap n p) st = Some (handle_alloc_color_cells k cmap n p st)"
| "handle_color_request N (AllocColorPlanes k cmap n r g b) st = Some (handle_alloc_color_planes k cmap n r g b st)"
| "handle_color_request N (FreeColors cmap ps) st = Some (handle_free_colors cmap ps st)"
| "handle_color_request N (StoreColors cmap items) st = Some (handle_store_colors cmap items st)"
| "handle_color_request N (StoreNamedColor cmap p f name) st = handle_store_named_color N cmap p f name st"
| "handle_color_request N (QueryColors cmap ps) st = Some (handle_query_colors cmap ps st)"
| "handle_color_request N (LookupColor cmap name) st = handle_lookup_color N cmap name st"
| "handle_color_request N (CreateCursor cid s m f b x y) st = Some (handle_create_cursor cid s m f b x y st)"
| "handle_color_request N (CreateGlyphCursor cid g f b) st = Some (handle_create_glyph_cursor cid g f b st)"
| "handle_color_request N (FreeCursor cid) st = Some (handle_free_cursor cid st)"
| "handle_color_request N (RecolorCursor cid f b) st = Some (handle_recolor_cursor cid f b st)"

section \<open>Invariant\<close>

text \<open>Every table of cells is well formed, every installed colormap exists and is listed once, the two
  tables of cursors have the same identifiers and every image has the size its record says.\<close>

definition cursor_ok :: "cursor_info \<Rightarrow> bool" where
  "cursor_ok i \<longleftrightarrow> length (argb_data i) = 4 * unat (cur_width i) * unat (cur_height i)"

definition color_ok :: "color_client \<Rightarrow> bool" where
  "color_ok st \<longleftrightarrow>
     (\<forall>cm \<in> ran (map_of (colormaps st)). cm_inv cm) \<and>
     set (installed_colormaps st) \<subseteq> insert ROOT_COLORMAP (dom (map_of (colormaps st))) \<and>
     distinct (installed_colormaps st) \<and>
     dom (map_of (cursors st)) = dom (map_of (cursor_table st)) \<and>
     (\<forall>i \<in> ran (map_of (cursor_table st)). cursor_ok i)"

lemma length_alloc_loop: "length (fst (alloc_loop n is al ps)) = length al"
  by (induction n "is" al ps rule: alloc_loop.induct) auto

lemma length_fold_upd:
  "(\<And>x al. length (f x al) = length al) \<Longrightarrow> length (fold f xs al) = length al"
  by (induction xs arbitrary: al) simp_all

lemma cm_inv_ops:
  assumes "cm_inv cm"
  shows "cm_inv (fst (alloc_color c cm))" "cm_inv (fst (alloc_cells n cm))" "cm_inv (fst (alloc_cells_contiguous n cm))"
    "cm_inv (free_cells ps cm)" "cm_inv (store_colors items cm)" "cm_inv (cm\<lparr>allocated := map f (allocated cm)\<rparr>)"
proof -
  show "cm_inv (fst (alloc_color c cm))"
    using assms by (auto simp: alloc_color_def cm_inv_def Let_def split: visual_class.split option.split)
  show "cm_inv (fst (alloc_cells n cm))"
    using assms length_alloc_loop [of "unat n" "[0..<length (entries cm)]" "allocated cm" "[]"]
    by (auto simp: alloc_cells_def cm_inv_def Let_def length_fold_upd split: prod.split)
  show "cm_inv (fst (alloc_cells_contiguous n cm))"
    using assms by (auto simp: alloc_cells_contiguous_def cm_inv_def Let_def split: option.split)
  show "cm_inv (free_cells ps cm)"
    using assms by (simp add: free_cells_def cm_inv_def length_fold_upd)
  show "cm_inv (store_colors items cm)"
    using assms by (simp add: store_colors_def cm_inv_def length_fold_upd store_entry_def Let_def split: prod.split)
qed (use assms in \<open>simp add: cm_inv_def\<close>)

lemma colormap_for_visual_inv: "colormap_for_visual v = Some cm \<Longrightarrow> cm_inv cm"
  by (auto simp: colormap_for_visual_def new_inv split: if_splits)

text \<open>Sufficient conditions for the invariant to survive a change.\<close>

lemma color_ok_cong:
  assumes "colormaps st' = colormaps st" "installed_colormaps st' = installed_colormaps st"
    "cursors st' = cursors st" "cursor_table st' = cursor_table st"
  shows "color_ok st' = color_ok st"
  using assms by (simp add: color_ok_def)

lemma notify_colormap_same [simp]:
  "colormaps (notify_colormap c i st) = colormaps st" "installed_colormaps (notify_colormap c i st) = installed_colormaps st"
  "cursors (notify_colormap c i st) = cursors st" "cursor_table (notify_colormap c i st) = cursor_table st"
proof -
  let ?f = "\<lambda>wid st. let ev = \<lparr>cn_window = wid, cn_colormap = c, cn_installed = i\<rparr>
                    in broadcast_event wid COLOR_MAP_CHANGE ev (push_event ev (st :: color_client))"
  have "colormaps (fold ?f ws st) = colormaps st \<and> installed_colormaps (fold ?f ws st) = installed_colormaps st \<and>
    cursors (fold ?f ws st) = cursors st \<and> cursor_table (fold ?f ws st) = cursor_table st" for ws
    by (induction ws arbitrary: st) (simp_all add: broadcast_event_def push_event_def Let_def)
  then show "colormaps (notify_colormap c i st) = colormaps st" "installed_colormaps (notify_colormap c i st) = installed_colormaps st"
    "cursors (notify_colormap c i st) = cursors st" "cursor_table (notify_colormap c i st) = cursor_table st"
    by (simp_all add: notify_colormap_def)
qed

lemma recycle_xid_color [simp]:
  "colormaps (recycle_xid i st) = colormaps st" "installed_colormaps (recycle_xid i st) = installed_colormaps st"
  "cursors (recycle_xid i st) = cursors st" "cursor_table (recycle_xid i st) = cursor_table st"
  by (simp_all add: recycle_xid_def)

lemma color_ok_set:
  assumes "color_ok st" "cm_inv cm"
  shows "color_ok (set_colormap cmap cm st)" "color_ok (st\<lparr>colormaps := AList.update cmap cm (colormaps st)\<rparr>)"
  using assms by (auto simp: color_ok_def set_colormap_def AList.update_conv' ran_def split: if_splits)

lemma color_ok_change:
  assumes "color_ok st" "\<And>cm. cm_inv cm \<Longrightarrow> cm_inv (f cm)"
  shows "color_ok (change_colormap cmap f st)"
  using assms by (auto simp: color_ok_def change_colormap_def ran_def dom_def split: if_splits)

lemma color_ok_cells:
  assumes "color_ok st"
  shows "color_ok (fst (take_cells k n cmap st))"
proof (cases "map_of (colormaps st) cmap")
  case (Some cm)
  with assms have "cm_inv cm" by (auto simp: color_ok_def ran_def)
  then show ?thesis
    using assms Some cm_inv_ops [of cm] color_ok_set [OF assms]
    by (auto simp: take_cells_def Let_def split: prod.split) (metis fst_conv)+
qed (use assms in \<open>simp add: take_cells_def\<close>)

lemma length_concat_const: "(\<And>x. x \<in> set xs \<Longrightarrow> length (f x) = n) \<Longrightarrow> length (concat (map f xs)) = length xs * n"
  by (induction xs) auto

lemma cursor_pixel_length [simp]: "length (cursor_pixel s m f b i) = 4"
  by (simp add: cursor_pixel_def Let_def split: prod.split)

lemma build_cursor_size:
  "build_cursor_argb s m f b st = (w, h, d) \<Longrightarrow> length d = 4 * unat w * unat h"
  by (auto simp: build_cursor_argb_def Let_def length_concat_const [where n = 4]
      length_concat_const [where n = "unat w * 4"] split: option.splits if_splits)

lemma color_ok_cursor:
  assumes "color_ok st" "cursor_ok i"
  shows "color_ok (add_cursor cid i st)"
  using assms by (auto simp: color_ok_def add_cursor_def AList.update_conv' ran_def split: if_splits)

lemma color_ok_entry:
  assumes "color_ok st" "\<And>i. cursor_ok i \<Longrightarrow> cursor_ok (f i)"
  shows "color_ok (st\<lparr>cursor_table := AList.map_entry cid f (cursor_table st)\<rparr>)"
  using assms by (auto simp: color_ok_def ran_def dom_def split: if_splits)

lemma color_error_state [simp]: "fst (color_error c v o' st) = st"
  by (simp add: color_error_def)

lemma colormap_requests_ok:
  assumes "color_ok st"
  shows "color_ok (fst (handle_create_colormap a mid v st))" "color_ok (fst (handle_free_colormap mid st))"
    "color_ok (fst (handle_copy_colormap_and_free mid src st))" "color_ok (fst (handle_install_colormap mid st))"
    "color_ok (fst (handle_uninstall_colormap mid st))"
proof -
  show "color_ok (fst (handle_create_colormap a mid v st))"
    using assms colormap_for_visual_inv [of v] cm_inv_ops(6)
    by (auto simp: handle_create_colormap_def Let_def intro!: color_ok_set split: option.split)
  show "color_ok (fst (handle_free_colormap mid st))"
    using assms by (auto simp: handle_free_colormap_def color_ok_def AList.delete_conv' ran_def distinct_removeAll split: if_splits)
  show "color_ok (fst (handle_copy_colormap_and_free mid src st))"
  proof -
    have "cm_inv (case map_of (colormaps st) src of Some cm \<Rightarrow> cm | None \<Rightarrow> new_truecolor VISUAL_TRUE_COLOR_24)"
      using assms new_inv(6) by (auto simp: color_ok_def ran_def split: option.split)
    from color_ok_change [OF color_ok_set(2) [OF assms this] cm_inv_ops(6)] assms show ?thesis
      by (simp add: handle_copy_colormap_and_free_def change_colormap_def Let_def)
  qed
  show "color_ok (fst (handle_install_colormap mid st))"
    using assms by (auto simp: handle_install_colormap_def color_ok_def known_colormap_def)
  show "color_ok (fst (handle_uninstall_colormap mid st))"
    using assms by (auto simp: handle_uninstall_colormap_def color_ok_def Let_def distinct_removeAll)
qed

lemma cell_requests_ok:
  assumes "color_ok st"
  shows "color_ok (fst (handle_alloc_color cmap c st))" "color_ok (fst (handle_alloc_color_cells k cmap n p st))"
    "color_ok (fst (handle_alloc_color_planes k cmap n rd gr bl st))" "color_ok (fst (handle_free_colors cmap ps st))"
    "color_ok (fst (handle_store_colors cmap items st))"
    "handle_store_named_color N cmap pix fl name st = Some (st', r) \<Longrightarrow> color_ok st'"
proof -
  show "color_ok (fst (handle_alloc_color cmap c st))"
  proof (cases "map_of (colormaps st) cmap")
    case (Some cm)
    with assms have "cm_inv cm" by (auto simp: color_ok_def ran_def)
    then have "cm_inv (fst (alloc_color c cm))" by (rule cm_inv_ops)
    then show ?thesis
      using assms Some color_ok_set [OF assms]
      by (auto simp: handle_alloc_color_def split: prod.split option.split)
  qed (use assms in \<open>simp add: handle_alloc_color_def\<close>)
  show "color_ok (fst (handle_alloc_color_cells k cmap n p st))"
    using assms color_ok_cells [OF assms]
    by (auto simp: handle_alloc_color_cells_def Let_def split: prod.split option.split) (metis fst_conv)+
  show "color_ok (fst (handle_alloc_color_planes k cmap n rd gr bl st))"
    using assms color_ok_cells [OF assms]
    by (auto simp: handle_alloc_color_planes_def Let_def split: prod.split option.split) (metis fst_conv)+
  show "color_ok (fst (handle_free_colors cmap ps st))" "color_ok (fst (handle_store_colors cmap items st))"
    using assms by (simp_all add: handle_free_colors_def handle_store_colors_def color_ok_change cm_inv_ops)
  show "color_ok st'" if "handle_store_named_color N cmap pix fl name st = Some (st', r)"
    using that assms
    by (auto simp: handle_store_named_color_def color_error_def color_ok_change cm_inv_ops split: if_splits option.splits)
qed

lemma cursor_requests_ok:
  assumes "color_ok st"
  shows "color_ok (fst (handle_create_cursor cid s m f b x y st))" "color_ok (fst (handle_create_glyph_cursor cid g f b st))"
    "color_ok (fst (handle_free_cursor cid st))" "color_ok (fst (handle_recolor_cursor cid f b st))"
proof -
  show "color_ok (fst (handle_create_cursor cid s m f b x y st))"
    using assms
    by (auto simp: handle_create_cursor_def cursor_ok_def intro!: color_ok_cursor dest: build_cursor_size split: prod.split)
  show "color_ok (fst (handle_create_glyph_cursor cid g f b st))"
    using assms by (auto simp: handle_create_glyph_cursor_def cursor_ok_def intro!: color_ok_cursor)
  show "color_ok (fst (handle_free_cursor cid st))"
    using assms by (auto simp: handle_free_cursor_def color_ok_def AList.delete_conv' ran_def split: if_splits)
  show "color_ok (fst (handle_recolor_cursor cid f b st))"
    using assms
    by (auto simp: handle_recolor_cursor_def Let_def cursor_ok_def intro!: color_ok_entry dest: build_cursor_size split: prod.split)
qed

lemma color_request_ok:
  assumes "handle_color_request N req st = Some (st', r)" "color_ok st"
  shows "color_ok st'"
proof -
  note ok = colormap_requests_ok [OF assms(2)] cell_requests_ok [OF assms(2)] cursor_requests_ok [OF assms(2)]
  show ?thesis
  proof (cases req)
    case (AllocNamedColor cmap name)
    then show ?thesis
      using assms by (auto simp: handle_alloc_named_color_def color_error_def split: if_splits option.splits)
  next
    case (LookupColor cmap name)
    then show ?thesis
      using assms by (auto simp: handle_lookup_color_def color_error_def split: if_splits option.splits)
  next
    case (QueryColors cmap ps)
    then show ?thesis using assms by (auto simp: handle_query_colors_def color_error_def split: if_splits)
  next
    case ListInstalledColormaps
    then show ?thesis using assms by (simp add: handle_list_installed_colormaps_def)
  next
    case (StoreNamedColor cmap pix fl name)
    then show ?thesis using assms(1) ok(11) by simp
  qed (use assms(1) in simp, metis ok fst_conv)+
qed
definition color_step :: "color_names \<Rightarrow> color_client \<Rightarrow> color_client \<Rightarrow> bool" where
  "color_step N st st' \<longleftrightarrow> (\<exists>req r. handle_color_request N req st = Some (st', r))"

interpretation palette: invariant_system "color_step N" color_ok for N
  by unfold_locales (auto simp: color_step_def dest: color_request_ok)

section \<open>Properties\<close>

definition fresh_colors :: "color_client \<Rightarrow> bool" where
  "fresh_colors st \<longleftrightarrow> colormaps st = [] \<and> installed_colormaps st = [ROOT_COLORMAP] \<and> cursors st = [] \<and> cursor_table st = []"

definition demo_colors :: color_client where
  "demo_colors =
     \<lparr>resource_id_base = 0x400000, next_xid = 0, freed_xids = [], msb_first = False, pending_events = [],
      client_id = ''a'', root_window = 1, windows = [], shared_windows = [], shared_dirty_windows = [],
      x11_to_uuid = Map.empty, event_broadcaster = \<lparr>subscriptions = [], all_clients = []\<rparr>,
      sent_events = [], sequence = 0, timestamp = 0, screen_width = 800, screen_height = 600,
      colormaps = [], installed_colormaps = [ROOT_COLORMAP], max_colormaps = 256, cursors = [], cursor_table = [],
      max_cursors = 1024, cur_pixmaps = [(9, \<lparr>px_width = 2, px_height = 1, px_data = [255, 255, 255, 0, 0, 0, 0, 0]\<rparr>)]\<rparr>"

definition no_names :: color_names where
  "no_names = \<lparr>color_db = [], intensity = (\<lambda>s. None)\<rparr>"



lemma low_flags:
  fixes flags :: u8
  assumes "flags AND 7 = 7"
  shows "flags AND 1 \<noteq> 0 \<and> flags AND 2 \<noteq> 0 \<and> flags AND 4 \<noteq> 0"
proof -
  have "flags AND k = (flags AND 7) AND k" if "7 AND k = k" for k
    using that by (simp add: and.assoc)
  then show ?thesis using assms by simp
qed

text \<open>In a writable indexed colormap a colour stored in a cell is the colour the cell is queried as, and
  the other cells keep theirs.\<close>

theorem store_query_roundtrip:
  assumes "map_of (colormaps st) cmap = Some cm" "cm_class cm \<in> {PSEUDO_COLOR, GRAY_SCALE}"
    and "unat p < length (entries cm)" "flags AND 7 = 7 \<or> flags = 0"
  shows "\<exists>st'. handle_store_colors cmap [(p, r, g, b, flags)] st = (st', NoReply) \<and>
    handle_query_colors cmap ps st' = (st', Reply (ColorsQueried (map (\<lambda>q. if q = p then (r, g, b) else lookup cm q) ps)))"
proof -
  let ?cm = "store_colors [(p, r, g, b, flags)] cm"
  let ?st' = "change_colormap cmap (store_colors [(p, r, g, b, flags)]) st"
  have st': "map_of (colormaps ?st') cmap = Some ?cm" using assms(1) by (simp add: change_colormap_def)
  have known: "known_colormap cmap st" "known_colormap cmap ?st'" "\<not> read_only_colormap cmap st"
    using assms(1,2) st' by (auto simp: known_colormap_def read_only_colormap_def is_writable_def)
  have flags: "flags AND 1 \<noteq> 0 \<and> flags AND 2 \<noteq> 0 \<and> flags AND 4 \<noteq> 0" if "flags \<noteq> 0"
    using assms(4) that low_flags by blast
  have entry: "entries ?cm = (entries cm)[unat p := (r, g, b)]"
    using assms(3) flags by (auto simp: store_colors_def store_entry_def Let_def split: prod.split)
  have "lookup ?cm q = (if q = p then (r, g, b) else lookup cm q)" for q
    using assms(2,3) entry by (auto simp: lookup_def store_colors_def word_unat_eq_iff)
  then have "handle_query_colors cmap ps ?st' =
      (?st', Reply (ColorsQueried (map (\<lambda>q. if q = p then (r, g, b) else lookup cm q) ps)))"
    using known st' by (simp add: handle_query_colors_def)
  moreover have "handle_store_colors cmap [(p, r, g, b, flags)] st = (?st', NoReply)"
    using known by (simp add: handle_store_colors_def)
  ultimately show ?thesis by blast
qed

theorem store_query_roundtrip_witness:
  "\<exists>st'. handle_store_colors 5 [(7, 1, 2, 3, 7)] (demo_colors\<lparr>colormaps := [(5, new_pseudocolor 0x23 256)]\<rparr>) = (st', NoReply) \<and>
    handle_query_colors 5 [7] st' = (st', Reply (ColorsQueried [(1, 2, 3)]))"
  using store_query_roundtrip [of "demo_colors\<lparr>colormaps := [(5, new_pseudocolor 0x23 256)]\<rparr>" 5 "new_pseudocolor 0x23 256"
      7 7 1 2 3 "[7]"]
  by (simp add: new_pseudocolor_def ramp_def)

lemma alloc_loop_none: "alloc_loop 0 is al ps = (al, ps)"
  by (cases "is") auto

text \<open>AllocColorCells and AllocColorPlanes cut the number of cells to 16 bits: with sixteen planes or
  more the product is a multiple of 65536, the request succeeds, returns no pixel at all although
  at least one was asked for, and allocates nothing.\<close>

theorem alloc_color_cells_truncated:
  assumes "map_of (colormaps st) cmap = Some cm" "is_writable cm" "n_colors \<noteq> 0" "16 \<le> n_planes" "n_planes \<le> 24"
  shows "\<exists>st' ms. handle_alloc_color_cells contiguous cmap n_colors n_planes st = (st', Reply (CellsAllocated [] ms)) \<and>
    map_of (colormaps st') = map_of (colormaps st)"
proof -
  have p: "16 \<le> unat n_planes" "0 < n_planes" "\<not> 24 < n_planes"
    using assms(4,5) by (simp_all add: word_le_nat_alt word_less_nat_alt not_less)
  have pow: "(2 :: nat) ^ unat n_planes = 65536 * 2 ^ (unat n_planes - 16)"
    using p(1) power_add [of "2 :: nat" 16 "unat n_planes - 16"] by simp
  have zero: "(65536 :: u16) = 0" by simp
  have total: "of_nat (unat n_colors * 2 ^ unat n_planes) = (0 :: u16)"
    unfolding pow of_nat_mult of_nat_numeral zero by simp
  have "take_cells contiguous (unat n_colors * 2 ^ unat n_planes) cmap st = (set_colormap cmap cm st, Some [])"
    using assms(1,2) unfolding take_cells_def total
    by (auto simp: alloc_cells_def alloc_cells_contiguous_def alloc_loop_none)
  moreover have "map_of (colormaps (set_colormap cmap cm st)) = map_of (colormaps st)"
    using assms(1) by (auto simp: set_colormap_def AList.update_conv')
  ultimately show ?thesis
    using assms(1-3) p by (simp add: handle_alloc_color_cells_def writable_colormap_def known_colormap_def Let_def)
qed

theorem alloc_color_cells_truncated_witness:
  "\<exists>st' ms. handle_alloc_color_cells True 5 1 16 (demo_colors\<lparr>colormaps := [(5, new_pseudocolor 0x23 256)]\<rparr>) =
     (st', Reply (CellsAllocated [] ms)) \<and>
   map_of (colormaps st') = map_of [(5, new_pseudocolor 0x23 256)]"
  using alloc_color_cells_truncated [of "demo_colors\<lparr>colormaps := [(5, new_pseudocolor 0x23 256)]\<rparr>" 5
      "new_pseudocolor 0x23 256" 1 16 True]
  by (simp add: is_writable_def new_pseudocolor_def)

text \<open>The masks of AllocColorCells are always the lowest bits, so with more than one colour the pixels
  of one colour and a plane are the pixel of another colour: in a new colormap the two pixels
  returned for two colours and one plane differ by exactly that plane, and the other two cells
  that were allocated cannot be named by the client.\<close>

theorem alloc_color_cells_overlap:
  assumes "map_of (colormaps st) cmap = Some (new_pseudocolor v 256)"
  shows "\<exists>st' p q m. handle_alloc_color_cells False cmap 2 1 st = (st', Reply (CellsAllocated [p, q] [m])) \<and> p OR m = q"
proof -
  have "snd (alloc_loop 4 [0..<256] (replicate 256 False) []) = [0, 1, 2, 3]" by code_simp
  then obtain al where "alloc_loop 4 [0..<256] (replicate 256 False) [] = (al, [0, 1, 2, 3])" by (metis prod.collapse)
  then obtain cm' where "alloc_cells 4 (new_pseudocolor v 256) = (cm', Some [0, 1, 2, 3])"
    by (simp add: alloc_cells_def new_pseudocolor_def is_writable_def ramp_def Let_def)
  then have "take_cells False 4 cmap st = (set_colormap cmap cm' st, Some [0, 1, 2, 3])"
    using assms by (simp add: take_cells_def)
  moreover have "writable_colormap cmap st" "known_colormap cmap st"
    using assms by (simp_all add: writable_colormap_def known_colormap_def is_writable_def new_pseudocolor_def)
  ultimately show ?thesis by (simp add: handle_alloc_color_cells_def)
qed

theorem alloc_color_cells_overlap_witness:
  "\<exists>st' p q m. handle_alloc_color_cells False 5 2 1 (demo_colors\<lparr>colormaps := [(5, new_pseudocolor 0x23 256)]\<rparr>) =
     (st', Reply (CellsAllocated [p, q] [m])) \<and> p OR m = q"
  by (rule alloc_color_cells_overlap) simp

lemma decode_ascii: "\<forall>c \<in> set bs. c < 128 \<Longrightarrow> decode_utf8 bs = Some bs"
  by (induction bs) (simp_all add: decode_utf8.simps)

text \<open>Colour requests with a name in ASCII always return. A name made of a number sign, one two-byte
  character and one ASCII character makes each of the three requests panic.\<close>

theorem color_name_requests:
  assumes "known_colormap cmap st" "\<not> read_only_colormap cmap st" "list_all (\<lambda>c. unat c < 128) name"
  shows "handle_lookup_color N cmap name st \<noteq> None \<and> handle_alloc_named_color N cmap name st \<noteq> None \<and>
    handle_store_named_color N cmap p fl name st \<noteq> None \<and>
    handle_lookup_color N cmap [0x23, 0xC3, 0xA9, 0x31] st = None \<and>
    handle_alloc_named_color N cmap [0x23, 0xC3, 0xA9, 0x31] st = None \<and>
    handle_store_named_color N cmap p fl [0x23, 0xC3, 0xA9, 0x31] st = None"
proof -
  have bad: "lookup_color N (name_of [0x23, 0xC3, 0xA9, 0x31]) = None"
  proof -
    have "name_of [0x23, 0xC3, 0xA9, 0x31] = [35, 0xE9, 49]"
      by (simp add: name_of_def from_utf8_def decode_utf8.simps continuation_def)
    then show ?thesis using color_name_panics [of "0xE9" 49 N] by (simp add: is_whitespace_def)
  qed
  have "name_of name = map unat name"
    using assms(3) by (simp add: name_of_def from_utf8_def decode_ascii list_all_iff)
  then have "lookup_color N (name_of name) \<noteq> None"
    using lookup_color_ascii [of "map unat name"] assms(3) by (simp add: list_all_iff)
  with bad assms(1,2) show ?thesis
    by (simp add: handle_lookup_color_def handle_alloc_named_color_def handle_store_named_color_def)
qed

theorem color_name_requests_witness:
  "handle_lookup_color no_names ROOT_COLORMAP [0x72, 0x65, 0x64] demo_colors \<noteq> None \<and>
   handle_lookup_color no_names ROOT_COLORMAP [0x23, 0xC3, 0xA9, 0x31] demo_colors = None"
  using color_name_requests [of ROOT_COLORMAP demo_colors "[0x72, 0x65, 0x64]" no_names]
  by (simp add: known_colormap_def read_only_colormap_def demo_colors_def)

text \<open>RecolorCursor gives a cursor the image CreateCursor would have made with the new colours as long
  as its pixmaps are unchanged. When the client has freed the source pixmap in between, which the
  protocol allows, the image is lost: the cursor becomes empty.\<close>

theorem recolor_cursor_image:
  assumes "handle_create_cursor cid s m f b x y st = (st1, NoReply)" "s \<noteq> 0"
    and "handle_create_cursor cid s m f' b' x y st = (st1', NoReply)"
  shows "map_of (cursor_table (fst (handle_recolor_cursor cid f' b' st1))) cid = map_of (cursor_table st1') cid \<and>
    map_option argb_data (map_of (cursor_table (fst (handle_recolor_cursor cid f' b'
       (st1\<lparr>cur_pixmaps := AList.delete s (cur_pixmaps st1)\<rparr>)))) cid) = Some []"
proof -
  let ?info = "\<lambda>(w, h, d) f b. \<lparr>css_name = ''default'', source_pixmap = s, mask_pixmap = m, cur_fore = f, cur_back = b,
      hotspot_x = x, hotspot_y = y, argb_data = d, cur_width = w, cur_height = h\<rparr>"
  have created: "st2 = add_cursor cid (?info (build_cursor_argb s m f b st) f b) st"
    if "handle_create_cursor cid s m f b x y st = (st2, NoReply)" for st2 f b
    using that by (auto simp: handle_create_cursor_def color_error_def split: if_splits prod.splits)
  have st1: "map_of (cursor_table st1) cid = Some (?info (build_cursor_argb s m f b st) f b)"
    "map_of (cursors st1) cid \<noteq> None" "cur_pixmaps st1 = cur_pixmaps st"
    using created [OF assms(1)] by (simp_all add: add_cursor_def AList.update_conv')
  have st1': "map_of (cursor_table st1') cid = Some (?info (build_cursor_argb s m f' b' st) f' b')"
    using created [OF assms(3)] by (simp add: add_cursor_def AList.update_conv')
  have "build_cursor_argb s m f' b' st1 = build_cursor_argb s m f' b' st" unfolding build_cursor_argb_def st1(3) ..
  moreover have "build_cursor_argb s m f' b' (st1\<lparr>cur_pixmaps := AList.delete s (cur_pixmaps st1)\<rparr>) = (0, 0, [])"
    by (simp add: build_cursor_argb_def AList.delete_conv')
  ultimately show ?thesis
    using st1 st1' assms(2) by (auto simp: handle_recolor_cursor_def Let_def split: prod.split)
qed

theorem recolor_cursor_image_witness:
  "let mk = (\<lambda>f b. handle_create_cursor 0x400001 9 0 f b 0 0 demo_colors)
   in snd (mk (0, 0, 0) (0, 0, 0)) = NoReply \<and>
      map_of (cursor_table (fst (handle_recolor_cursor 0x400001 (0xFFFF, 0, 0) (0, 0, 0) (fst (mk (0, 0, 0) (0, 0, 0)))))) 0x400001 =
      map_of (cursor_table (fst (mk (0xFFFF, 0, 0) (0, 0, 0)))) 0x400001"
proof -
  have mk: "\<exists>st1. handle_create_cursor 0x400001 9 0 f b 0 0 demo_colors = (st1, NoReply)" for f b
    by (simp add: handle_create_cursor_def demo_colors_def validate_resource_id_def RESOURCE_ID_MASK_def
        RESOURCE_ID_BASE_SHIFT_def can_create_cursor_def cursor_known_def split: prod.split)
  obtain a c where a: "handle_create_cursor 0x400001 9 0 (0, 0, 0) (0, 0, 0) 0 0 demo_colors = (a, NoReply)"
    and c: "handle_create_cursor 0x400001 9 0 (0xFFFF, 0, 0) (0, 0, 0) 0 0 demo_colors = (c, NoReply)"
    using mk by blast
  from recolor_cursor_image [OF a _ c] show ?thesis by (simp add: a c)
qed

end
