(* ===== verification/Framing.thy ===== *)
theory Framing
  imports Xid
begin

text \<open>
  Request framing of a connection (\<open>connection/mod.rs\<close>): the loop that cuts the received bytes
  into requests, including the BIG-REQUESTS form, the second copy of that loop which runs when a
  blocked connection is released, and the dispatch on the major opcode (\<open>dispatch.rs\<close>).

  The request handlers are a parameter: a record of the handler and of the three parts of the
  client state the loop reads. RECORD interception, publication of windows and file-descriptor
  passing happen beside the byte stream and are left out.
\<close>

section \<open>Dispatch\<close>

type_synonym 's handler = "u16 \<Rightarrow> 's \<Rightarrow> bytes \<Rightarrow> 's \<times> bytes"

text \<open>The registry maps an opcode to whether the extension is enabled and to its handler.\<close>

definition handle_request ::
    "'s handler \<Rightarrow> (u8 \<Rightarrow> (bool \<times> 's handler) option) \<Rightarrow> 's handler" where
  "handle_request core registry seq st data =
     (if length data < 4 then (st, [])
      else
        (let major = data ! 0; minor = data ! 1;
             bad_request = build_error REQUEST_ERROR seq (ucast major) major (ucast minor)
         in if major \<le> 127 then core seq st data
            else (case registry major of
                    Some (enabled, h) \<Rightarrow> if \<not> enabled then (st, bad_request) else h seq st data
                  | None \<Rightarrow> (st, bad_request))))"

section \<open>Cutting the byte stream\<close>

definition BIG_REQUEST_MIN_BYTES :: nat where "BIG_REQUEST_MIN_BYTES = 8"
definition BIG_REQUEST_MAX_BYTES :: nat where "BIG_REQUEST_MAX_BYTES = 16 * 1024 * 1024"

text \<open>What the loop finds at the front of the buffer: too few bytes, a zero length although
  BIG-REQUESTS is off, an impossible extended length, or a request of so many bytes with the
  data handed to the handler.\<close>

datatype frame = Incomplete | Refused | Invalid | Request nat bytes

definition len16 :: "bool \<Rightarrow> bytes \<Rightarrow> u16" where
  "len16 msb p = (if msb then of_be_bytes [p ! 2, p ! 3] else of_le_bytes [p ! 2, p ! 3])"

definition len32 :: "bool \<Rightarrow> bytes \<Rightarrow> u32" where
  "len32 msb p = (if msb then of_be_bytes [p ! 4, p ! 5, p ! 6, p ! 7]
                  else of_le_bytes [p ! 4, p ! 5, p ! 6, p ! 7])"

definition strip_big_length :: "bytes \<Rightarrow> bytes" where
  "strip_big_length raw =
     (let len_words = (length raw - 4) div 4;
          len_field = (if len_words \<le> 65535 then of_nat len_words else 0) :: u16
      in take 2 raw @ le_bytes 2 len_field @ drop 8 raw)"

definition next_frame :: "bool \<Rightarrow> bool \<Rightarrow> bytes \<Rightarrow> frame" where
  "next_frame msb big_enabled p =
     (if length p < 4 then Incomplete
      else
        (let req_len_bytes = unat (len16 msb p) * 4
         in if req_len_bytes = 0
            then if \<not> big_enabled then Refused
                 else if length p < 8 then Incomplete
                 else
                   (let big_bytes = unat (len32 msb p) * 4
                    in if \<not> (BIG_REQUEST_MIN_BYTES \<le> big_bytes \<and> big_bytes \<le> BIG_REQUEST_MAX_BYTES)
                       then Invalid
                       else if length p < big_bytes then Incomplete
                       else Request big_bytes (strip_big_length (take big_bytes p)))
            else if length p < req_len_bytes then Incomplete
            else Request req_len_bytes (take req_len_bytes p)))"

text \<open>The copy of the loop body in the frame tick.\<close>

definition deferred_frame :: "bool \<Rightarrow> bytes \<Rightarrow> frame" where
  "deferred_frame msb p =
     (if length p < 4 then Incomplete
      else
        (let req_len_bytes = unat (len16 msb p) * 4
         in if req_len_bytes = 0
            then if length p < 8 then Incomplete
                 else
                   (let big_bytes = unat (len32 msb p) * 4
                    in if \<not> (BIG_REQUEST_MIN_BYTES \<le> big_bytes \<and> big_bytes \<le> BIG_REQUEST_MAX_BYTES)
                       then Invalid
                       else if length p < big_bytes then Incomplete
                       else Request big_bytes (take big_bytes p))
            else if length p < req_len_bytes then Incomplete
            else Request req_len_bytes (take req_len_bytes p)))"

lemma next_frame_Request:
  "next_frame msb big p = Request n d \<Longrightarrow> 4 \<le> n \<and> n \<le> length p \<and> 4 \<le> length d"
  by (auto simp: next_frame_def Let_def strip_big_length_def BIG_REQUEST_MIN_BYTES_def
      split: if_splits)

lemma deferred_frame_Request:
  "deferred_frame msb p = Request n d \<Longrightarrow> 4 \<le> n \<and> n \<le> length p \<and> d = take n p"
  by (auto simp: deferred_frame_def Let_def BIG_REQUEST_MIN_BYTES_def split: if_splits)

section \<open>The request loops\<close>

record 's server =
  srv_handle :: "'s handler"
  srv_blocked :: "'s \<Rightarrow> bool"
  srv_big_enabled :: "'s \<Rightarrow> bool"
  srv_msb_first :: "'s \<Rightarrow> bool"

text \<open>State, remaining bytes, sequence number and the responses written so far.\<close>

function request_loop ::
    "'s server \<Rightarrow> 's \<Rightarrow> bytes \<Rightarrow> u16 \<Rightarrow> bytes list \<Rightarrow> 's \<times> bytes \<times> u16 \<times> bytes list" where
  "request_loop srv st p seq out =
     (if length p < 4 \<or> srv_blocked srv st then (st, p, seq, out)
      else
        (case next_frame (srv_msb_first srv st) (srv_big_enabled srv st) p of
           Incomplete \<Rightarrow> (st, p, seq, out)
         | Invalid \<Rightarrow> (st, [], seq, out)
         | Refused \<Rightarrow>
             (let err = build_error LENGTH_ERROR (seq + 1) 0 (p ! 0) 0;
                  err = (if srv_msb_first srv st then byteswap_error_in_place err else err)
              in request_loop srv st (drop 4 p) (seq + 1) (out @ [err]))
         | Request n data \<Rightarrow>
             (let (st', response) = srv_handle srv (seq + 1) st data
              in request_loop srv st' (drop n p) (seq + 1)
                   (if response = [] then out
                    else out @ [error_on_wire (srv_msb_first srv st') response]))))"
  by pat_completeness auto
termination
  by (relation "measure (\<lambda>(srv, st, p, seq, out). length p)") (auto dest!: next_frame_Request)

declare request_loop.simps [simp del]

function deferred_loop ::
    "'s server \<Rightarrow> 's \<Rightarrow> bytes \<Rightarrow> u16 \<Rightarrow> bytes list \<Rightarrow> 's \<times> bytes \<times> u16 \<times> bytes list" where
  "deferred_loop srv st p seq out =
     (if length p < 4 \<or> srv_blocked srv st then (st, p, seq, out)
      else
        (case deferred_frame (srv_msb_first srv st) p of
           Incomplete \<Rightarrow> (st, p, seq, out)
         | Invalid \<Rightarrow> (st, [], seq, out)
         | Refused \<Rightarrow> (st, p, seq, out)
         | Request n data \<Rightarrow>
             (let (st', response) = srv_handle srv (seq + 1) st data
              in deferred_loop srv st' (drop n p) (seq + 1)
                   (if response = [] then out else out @ [response]))))"
  by pat_completeness auto
termination
  by (relation "measure (\<lambda>(srv, st, p, seq, out). length p)") (auto dest!: deferred_frame_Request)

declare deferred_loop.simps [simp del]

text \<open>The connection appends each chunk it reads to the buffer and runs the loop.\<close>

definition read_chunk ::
    "'s server \<Rightarrow> bytes \<Rightarrow> 's \<times> bytes \<times> u16 \<times> bytes list \<Rightarrow> 's \<times> bytes \<times> u16 \<times> bytes list" where
  "read_chunk srv chunk = (\<lambda>(st, p, seq, out). request_loop srv st (p @ chunk) seq out)"

text \<open>Event queues are stamped with the current sequence number just before they are written.\<close>

definition patch_event_sequences :: "bytes list \<Rightarrow> u16 \<Rightarrow> bool \<Rightarrow> bytes list" where
  "patch_event_sequences events seq msb =
     map (\<lambda>ev. if length ev \<ge> 4
               then store ev 2 (if msb then be_bytes 2 seq else le_bytes 2 seq) else ev) events"

section \<open>Well-formed requests\<close>

definition wf_request :: "bool \<Rightarrow> bytes \<Rightarrow> bool" where
  "wf_request msb r \<longleftrightarrow> 4 \<le> length r \<and> unat (len16 msb r) * 4 = length r"

lemma len16_append: "4 \<le> length p \<Longrightarrow> len16 msb (p @ q) = len16 msb p"
  by (simp add: len16_def nth_append)

lemma next_frame_whole:
  "wf_request msb r \<Longrightarrow> next_frame msb big (r @ q) = Request (length r) r"
  by (auto simp: next_frame_def Let_def wf_request_def len16_append)

lemma next_frame_part:
  assumes "wf_request msb (l @ q)" "q \<noteq> []"
  shows "next_frame msb big l = Incomplete"
proof (cases "length l < 4")
  case False
  then have "unat (len16 msb l) * 4 = length l + length q"
    using assms(1) by (simp add: wf_request_def len16_append)
  moreover have "0 < length q" using assms(2) by simp
  ultimately show ?thesis using False by (simp add: next_frame_def Let_def)
qed (simp add: next_frame_def)

text \<open>What the stream means: each request is handled once, in order, with the next sequence number.\<close>

definition serve :: "'s server \<Rightarrow> bytes \<Rightarrow> 's \<times> u16 \<times> bytes list \<Rightarrow> 's \<times> u16 \<times> bytes list" where
  "serve srv r = (\<lambda>(st, seq, out).
     (let (st', response) = srv_handle srv (seq + 1) st r
      in (st', seq + 1,
          if response = [] then out
          else out @ [error_on_wire (srv_msb_first srv st') response])))"

section \<open>Servers that do not block\<close>

locale stream_server =
  fixes srv :: "'s server"
  assumes never_blocked: "\<not> srv_blocked srv st"
    and byte_order_fixed: "srv_msb_first srv (fst (srv_handle srv seq st data)) = srv_msb_first srv st"
begin

lemma loop_step:
  assumes "wf_request (srv_msb_first srv st) r" "srv_handle srv (seq + 1) st r = (st1, resp)"
  shows "request_loop srv st (r @ l) seq out = request_loop srv st1 l (seq + 1)
    (if resp = [] then out else out @ [error_on_wire (srv_msb_first srv st1) resp])"
proof -
  have "\<not> length (r @ l) < 4" using assms(1) by (simp add: wf_request_def)
  then show ?thesis
    by (subst request_loop.simps)
       (simp only: never_blocked next_frame_whole [OF assms(1)] assms(2) if_False simp_thms
         frame.case Let_def prod.case append_eq_conv_conj drop_append diff_self_eq_0 drop_0 drop_all
         le_refl append_Nil)
qed

lemma loop_progress:
  assumes "list_all (wf_request (srv_msb_first srv st)) rs" "l @ rest = concat rs"
  shows "\<exists>k l' st' seq' out'. l' @ rest = concat (drop k rs) \<and> (rest = [] \<longrightarrow> l' = [] \<and> k = length rs) \<and>
    fold (serve srv) (take k rs) (st, seq, out) = (st', seq', out') \<and>
    request_loop srv st l seq out = (st', l', seq', out') \<and>
    srv_msb_first srv st' = srv_msb_first srv st"
  using assms
proof (induction rs arbitrary: l st seq out)
  case Nil
  then show ?case by (subst request_loop.simps) simp
next
  case (Cons r rs)
  let ?msb = "srv_msb_first srv st"
  have wf: "wf_request ?msb r" using Cons.prems(1) by simp
  show ?case
  proof (cases "length r \<le> length l")
    case True
    define l2 where "l2 = drop (length r) l"
    have "take (length r) l = r" and l2: "l2 @ rest = concat rs"
      using Cons.prems(2) True unfolding l2_def
      by (auto simp: append_eq_append_conv_if split: if_splits)
    then have l: "l = r @ l2" unfolding l2_def by (metis append_take_drop_id)
    obtain st1 resp where h: "srv_handle srv (seq + 1) st r = (st1, resp)" by fastforce
    let ?out = "if resp = [] then out else out @ [error_on_wire (srv_msb_first srv st1) resp]"
    have msb: "srv_msb_first srv st1 = ?msb" using byte_order_fixed [of "seq + 1" st r] h by simp
    have "list_all (wf_request (srv_msb_first srv st1)) rs" using Cons.prems(1) msb by simp
    from Cons.IH [OF this l2, of "seq + 1" ?out] obtain k l' st' seq' out' where
      k: "l' @ rest = concat (drop k rs)" "rest = [] \<longrightarrow> l' = [] \<and> k = length rs"
      "fold (serve srv) (take k rs) (st1, seq + 1, ?out) = (st', seq', out')"
      "request_loop srv st1 l2 (seq + 1) ?out = (st', l', seq', out')"
      "srv_msb_first srv st' = srv_msb_first srv st1" by blast
    have "serve srv r (st, seq, out) = (st1, seq + 1, ?out)" by (simp add: serve_def h)
    then have "fold (serve srv) (take (Suc k) (r # rs)) (st, seq, out) = (st', seq', out')"
      using k(3) by simp
    moreover have "request_loop srv st l seq out = (st', l', seq', out')"
      unfolding l loop_step [OF wf h] by (rule k(4))
    ultimately show ?thesis
      using k(1,2,5) msb by (intro exI [of _ "Suc k"] exI [of _ l'] exI [of _ st'] exI [of _ seq']
          exI [of _ out']) simp
  next
    case False
    then have "take (length l) r = l" using Cons.prems(2)
      by (auto simp: append_eq_append_conv_if split: if_splits)
    then have q: "r = l @ drop (length l) r" by (metis append_take_drop_id)
    have "next_frame ?msb (srv_big_enabled srv st) l = Incomplete"
      using next_frame_part [of ?msb l "drop (length l) r"] wf q False by simp
    then have "request_loop srv st l seq out = (st, l, seq, out)"
      by (subst request_loop.simps) simp
    moreover have "rest \<noteq> []"
      using False Cons.prems(2) by (metis append_Nil2 concat.simps(2) length_append le_add1)
    ultimately show ?thesis
      using Cons.prems(2) by (intro exI [of _ 0] exI [of _ l] exI [of _ st] exI [of _ seq]
          exI [of _ out]) simp
  qed
qed

lemma segmentation:
  assumes "list_all (wf_request (srv_msb_first srv st)) rs" "l @ concat chunks = concat rs" "chunks \<noteq> []"
  shows "fold (read_chunk srv) chunks (st, l, seq, out) =
    (case fold (serve srv) rs (st, seq, out) of (st', seq', out') \<Rightarrow> (st', [], seq', out'))"
  using assms
proof (induction chunks arbitrary: l st seq out rs)
  case (Cons c cs)
  have "(l @ c) @ concat cs = concat rs" using Cons.prems(2) by simp
  from loop_progress [OF Cons.prems(1) this, of seq out] obtain k l' st' seq' out' where
    k: "l' @ concat cs = concat (drop k rs)" "concat cs = [] \<longrightarrow> l' = [] \<and> k = length rs"
      "fold (serve srv) (take k rs) (st, seq, out) = (st', seq', out')"
      "request_loop srv st (l @ c) seq out = (st', l', seq', out')"
      "srv_msb_first srv st' = srv_msb_first srv st"
    by blast
  have rest: "fold (serve srv) rs (st, seq, out) = fold (serve srv) (drop k rs) (st', seq', out')"
    using fold_append [of "serve srv" "take k rs" "drop k rs"] k(3) by simp
  have first: "fold (read_chunk srv) (c # cs) (st, l, seq, out) = fold (read_chunk srv) cs (st', l', seq', out')"
    using k(4) by (simp add: read_chunk_def)
  show ?case
  proof (cases "cs = []")
    case True
    then show ?thesis unfolding first rest using k(2) by simp
  next
    case False
    have "list_all (wf_request (srv_msb_first srv st')) (drop k rs)"
      using Cons.prems(1) k(5) by (auto simp: list_all_iff dest: in_set_dropD)
    from Cons.IH [OF this k(1) False] show ?thesis unfolding first rest .
  qed
qed simp

end

text \<open>The connection of a client whose requests all go to XC-MISC; replies are serialised by the
  parameter \<open>ser\<close>.\<close>

definition xc_misc_server ::
    "(xc_misc_reply \<Rightarrow> bytes) \<Rightarrow> (bytes \<Rightarrow> u32 option) \<Rightarrow> 'e client_base server" where
  "xc_misc_server ser parse_list =
     \<lparr>srv_handle = handle_request (\<lambda>seq st data. (st, []))
        (\<lambda>major. if major = 141
           then Some (True, \<lambda>seq st data.
             (case handle_xc_misc_request parse_list data seq st of
                (st', Reply r) \<Rightarrow> (st', ser r)
              | (st', ErrorReply e) \<Rightarrow> (st', e)
              | (st', NoReply) \<Rightarrow> (st', [])))
           else None),
      srv_blocked = \<lambda>_. False, srv_big_enabled = \<lambda>_. False, srv_msb_first = msb_first\<rparr>"

lemma xc_misc_msb: "msb_first (fst (handle_xc_misc_request parse_list data seq st)) = msb_first st"
  by (auto simp: handle_xc_misc_request_def get_xid_range_def get_xid_list_def Let_def
      split: prod.splits)

interpretation xc: stream_server "xc_misc_server ser parse_list"
proof
  fix st :: "'a client_base" and seq data
  show "\<not> srv_blocked (xc_misc_server ser parse_list) st" by (simp add: xc_misc_server_def)
  show "srv_msb_first (xc_misc_server ser parse_list)
      (fst (srv_handle (xc_misc_server ser parse_list) seq st data)) =
    srv_msb_first (xc_misc_server ser parse_list) st"
    using xc_misc_msb [of parse_list data seq st]
    by (auto simp: xc_misc_server_def handle_request_def Let_def
        split: prod.splits response.splits)
qed

section \<open>Properties\<close>



text \<open>Every request a handler sees has at least the four bytes of the request header.\<close>

lemma requests_have_header:
  "(next_frame msb big p = Request n d \<longrightarrow> 4 \<le> n \<and> n \<le> length p \<and> 4 \<le> length d) \<and>
   (deferred_frame msb p = Request n d \<longrightarrow> 4 \<le> n \<and> n \<le> length p \<and> 4 \<le> length d)"
  using next_frame_Request [of msb big p n d] deferred_frame_Request [of msb p n d] by auto

text \<open>The two loops agree on ordinary requests but not on BIG-REQUESTS: for a well-formed extended
  request the main loop removes the four bytes of the extended length, so that the body follows
  the header, while the loop that runs after a release hands over the bytes as they came; and it
  accepts the extended form although the client has not enabled it, where the main loop refuses.\<close>

theorem deferred_loop_diverges:
  assumes "unat (len16 msb raw) = 0" "8 \<le> length raw" "unat (len32 msb raw) * 4 = length raw"
    and "length raw \<le> BIG_REQUEST_MAX_BYTES" "unat (len16 msb p) \<noteq> 0"
  shows "next_frame msb big p = deferred_frame msb p \<and>
    next_frame msb True (raw @ q) = Request (length raw) (strip_big_length raw) \<and>
    drop 4 (strip_big_length raw) = drop 8 raw \<and>
    deferred_frame msb (raw @ q) = Request (length raw) raw \<and>
    next_frame msb False (raw @ q) = Refused"
proof -
  have "len16 msb (raw @ q) = len16 msb raw" "len32 msb (raw @ q) = len32 msb raw"
    using assms(2) by (simp_all add: len16_def len32_def nth_append)
  moreover have "drop 4 (strip_big_length raw) = drop 8 raw"
    using assms(2) by (simp add: strip_big_length_def Let_def)
  ultimately show ?thesis
    using assms by (auto simp: next_frame_def deferred_frame_def Let_def BIG_REQUEST_MIN_BYTES_def)
qed

theorem deferred_loop_diverges_witness:
  "let raw = [98, 0, 0, 0, 3, 0, 0, 0, 7, 7, 7, 7]
   in next_frame False True raw = Request 12 (strip_big_length raw) \<and>
      deferred_frame False raw = Request 12 raw \<and> length (strip_big_length raw) = 8"
  using deferred_loop_diverges [of False "[98, 0, 0, 0, 3, 0, 0, 0, 7, 7, 7, 7]" "[98, 0, 1, 0]" True "[]"]
  by (simp add: len16_def len32_def BIG_REQUEST_MAX_BYTES_def strip_big_length_def Let_def)

end
