(* ===== verification/Shape.thy ===== *)
theory Shape
  imports Windows Clip
begin

text \<open>
  The requests of the SHAPE extension (\<open>handlers/shape.rs\<close>) over the rectangle algebra of Region: setting
  and combining the bounding, clip and input shape of a window, shapes from bitmaps, queries and the
  selection of ShapeNotify.

  A window without a shape (\<open>None\<close>) has the shape of its rectangle. Kinds and operations are the
  numbers of the protocol. The pixels of a pixmap are its framebuffer's bytes, four for each pixel.
\<close>

section \<open>State\<close>

record shape_notify_event =
  sn_kind :: u8
  sn_seq :: u16
  sn_window :: u32
  sn_extents :: region_rect
  sn_server_time :: u32
  sn_shaped :: bool

record shape_client = "shape_notify_event win_client" +
  pixmaps :: "pixmap_state hashmap"

record shape_extents =
  se_bounding_shaped :: bool
  se_clip_shaped :: bool
  se_bounding :: region_rect
  se_clip :: region_rect

datatype shape_reply =
    ShapeVersion u16 u16
  | ShapeExtents shape_extents
  | ShapeInputSelected bool
  | ShapeRectangles "region_rect list"

type_synonym shape_result = "shape_client \<times> shape_reply response"

definition SK_BOUNDING :: u8 where "SK_BOUNDING = 0"
definition SK_CLIP :: u8 where "SK_CLIP = 1"
definition SK_INPUT :: u8 where "SK_INPUT = 2"
definition SO_SET :: u8 where "SO_SET = 0"
definition SO_UNION :: u8 where "SO_UNION = 1"
definition SO_INTERSECT :: u8 where "SO_INTERSECT = 2"
definition SO_SUBTRACT :: u8 where "SO_SUBTRACT = 3"
definition SO_INVERT :: u8 where "SO_INVERT = 4"

lemmas shape_codes = SK_BOUNDING_def SK_CLIP_def SK_INPUT_def SO_SET_def SO_UNION_def SO_INTERSECT_def
  SO_SUBTRACT_def SO_INVERT_def

section \<open>Shapes of a window\<close>

definition full_rect :: "window_state \<Rightarrow> region_rect" where
  "full_rect w = \<lparr>rect_x = 0, rect_y = 0, rect_width = w_width w, rect_height = w_height w\<rparr>"

definition known_kind :: "u8 \<Rightarrow> bool" where
  "known_kind kind \<longleftrightarrow> kind = SK_BOUNDING \<or> kind = SK_CLIP \<or> kind = SK_INPUT"

definition shape_of :: "u8 \<Rightarrow> window_state \<Rightarrow> region_rect list option" where
  "shape_of kind w =
     (if kind = SK_BOUNDING then w_bounding_shape w
      else if kind = SK_CLIP then w_clip_shape w
      else if kind = SK_INPUT then w_input_shape w else None)"

definition set_shape :: "u8 \<Rightarrow> region_rect list option \<Rightarrow> window_state \<Rightarrow> window_state" where
  "set_shape kind v w =
     (if kind = SK_BOUNDING then w\<lparr>w_bounding_shape := v\<rparr>
      else if kind = SK_CLIP then w\<lparr>w_clip_shape := v\<rparr>
      else if kind = SK_INPUT then w\<lparr>w_input_shape := v\<rparr> else w)"

definition get_window_shape :: "shape_client \<Rightarrow> u32 \<Rightarrow> u8 \<Rightarrow> region_rect list option" where
  "get_window_shape st wid kind =
     (case map_of (windows st) wid of
        None \<Rightarrow> None
      | Some w \<Rightarrow>
          (let or_full = (\<lambda>s. case s of Some rs \<Rightarrow> Some rs | None \<Rightarrow> Some [full_rect w]);
               or_bounding = (\<lambda>s. case s of Some rs \<Rightarrow> Some rs | None \<Rightarrow> or_full (w_bounding_shape w))
           in if kind = SK_BOUNDING then or_full (w_bounding_shape w)
              else if kind = SK_CLIP then or_bounding (w_clip_shape w)
              else if kind = SK_INPUT then or_bounding (w_input_shape w) else None))"

definition unless_empty :: "region_rect list \<Rightarrow> region_rect list option" where
  "unless_empty rs = (if rs = [] then None else Some rs)"

definition combine_shape ::
    "u8 \<Rightarrow> region_rect \<Rightarrow> region_rect list option \<Rightarrow> region_rect list option \<Rightarrow> region_rect list option" where
  "combine_shape operation full target new =
     (if operation = SO_SET then new
      else if operation = SO_UNION
      then unless_empty ((case target of Some e \<Rightarrow> e | None \<Rightarrow> []) @ (case new of Some n \<Rightarrow> n | None \<Rightarrow> []))
      else if operation = SO_INTERSECT
      then (case target of
              Some e \<Rightarrow> (case new of Some n \<Rightarrow> unless_empty (intersect_rects e n) | None \<Rightarrow> target)
            | None \<Rightarrow> new)
      else if operation = SO_SUBTRACT
      then (case target of
              Some e \<Rightarrow> (case new of Some n \<Rightarrow> unless_empty (subtract_rects e n) | None \<Rightarrow> target)
            | None \<Rightarrow> (case new of Some n \<Rightarrow> unless_empty (subtract_rects [full] n) | None \<Rightarrow> None))
      else if operation = SO_INVERT
      then (case target of
              Some e \<Rightarrow> (case new of Some n \<Rightarrow> unless_empty (subtract_rects n e) | None \<Rightarrow> target)
            | None \<Rightarrow> Some [])
      else target)"

definition change_window :: "u32 \<Rightarrow> (window_state \<Rightarrow> window_state) \<Rightarrow> shape_client \<Rightarrow> shape_client" where
  "change_window wid f st = st\<lparr>windows := AList.map_entry wid f (windows st)\<rparr>"

definition apply_shape :: "u32 \<Rightarrow> u8 \<Rightarrow> u8 \<Rightarrow> region_rect list option \<Rightarrow> shape_client \<Rightarrow> shape_client" where
  "apply_shape wid kind operation new =
     change_window wid (\<lambda>w. set_shape kind (combine_shape operation (full_rect w) (shape_of kind w) new) w)"

definition send_shape_notify :: "u32 \<Rightarrow> u8 \<Rightarrow> u16 \<Rightarrow> shape_client \<Rightarrow> shape_client" where
  "send_shape_notify wid kind seq st =
     (case map_of (windows st) wid of
        None \<Rightarrow> st
      | Some w \<Rightarrow>
          if known_kind kind \<and> w_shape_clients w \<noteq> []
          then push_event
                 \<lparr>sn_kind = kind, sn_seq = seq, sn_window = wid,
                  sn_extents = (case shape_of kind w of Some rs \<Rightarrow> compute_extents rs | None \<Rightarrow> full_rect w),
                  sn_server_time = timestamp st, sn_shaped = (shape_of kind w \<noteq> None)\<rparr> st
          else st)"

section \<open>Shapes from bitmaps\<close>

text \<open>Whether the pixel at a position is inside the framebuffer and not zero.\<close>

definition pixel_set :: "pixmap_state \<Rightarrow> nat \<Rightarrow> nat \<Rightarrow> bool" where
  "pixel_set p y x \<longleftrightarrow>
     (let off = (y * unat (px_width p) + x) * 4
      in off + 4 \<le> length (px_data p) \<and> \<not> list_all (\<lambda>b. b = 0) (take 4 (drop off (px_data p))))"

definition pixmap_rows :: "pixmap_state \<Rightarrow> i16 \<Rightarrow> i16 \<Rightarrow> region_rect list" where
  "pixmap_rows p x_offset y_offset =
     concat (map (\<lambda>y. map (\<lambda>(s, e). \<lparr>rect_x = of_nat s + x_offset, rect_y = of_nat y + y_offset,
                                   rect_width = of_nat (e - s), rect_height = 1\<rparr>)
                        (spans (pixel_set p y) (unat (px_width p)) 0))
       [0..<unat (px_height p)])"

definition extract_shape_from_pixmap :: "shape_client \<Rightarrow> u32 \<Rightarrow> i16 \<Rightarrow> i16 \<Rightarrow> region_rect list" where
  "extract_shape_from_pixmap st pixmap_id x_offset y_offset =
     (case map_of (pixmaps st) pixmap_id of
        None \<Rightarrow> []
      | Some p \<Rightarrow> coalesce_rects (pixmap_rows p x_offset y_offset))"

section \<open>Requests\<close>

definition move_rect :: "i16 \<Rightarrow> i16 \<Rightarrow> region_rect \<Rightarrow> region_rect" where
  "move_rect dx dy r = r\<lparr>rect_x := rect_x r + dx, rect_y := rect_y r + dy\<rparr>"

definition shape_rectangles ::
    "u8 \<Rightarrow> u8 \<Rightarrow> u8 \<Rightarrow> u32 \<Rightarrow> i16 \<Rightarrow> i16 \<Rightarrow> region_rect list \<Rightarrow> u16 \<Rightarrow> shape_client \<Rightarrow> shape_result" where
  "shape_rectangles operation kind order_hint wid dx dy rectangles seq st =
     (if order_hint > 3
      then (st, ErrorReply (build_error VALUE_ERROR seq (ucast order_hint) 128 1))
      else
        (let rects = map (move_rect dx dy) rectangles;
             new_shape = (if rects = [] \<and> operation = SO_SET then None else Some rects)
         in (send_shape_notify wid kind seq (apply_shape wid kind operation new_shape st), NoReply)))"

definition shape_mask ::
    "u8 \<Rightarrow> u8 \<Rightarrow> u32 \<Rightarrow> i16 \<Rightarrow> i16 \<Rightarrow> u32 \<Rightarrow> u16 \<Rightarrow> shape_client \<Rightarrow> shape_result" where
  "shape_mask operation kind wid dx dy pixmap_id seq st =
     (if pixmap_id \<noteq> 0 \<and> map_of (pixmaps st) pixmap_id = None
      then (st, ErrorReply (build_error PIXMAP_ERROR seq pixmap_id 128 2))
      else
        (let new_shape = (if pixmap_id = 0 then None
                          else Some (extract_shape_from_pixmap st pixmap_id dx dy))
         in (send_shape_notify wid kind seq (apply_shape wid kind operation new_shape st), NoReply)))"

definition shape_combine ::
    "u8 \<Rightarrow> u8 \<Rightarrow> u8 \<Rightarrow> u32 \<Rightarrow> i16 \<Rightarrow> i16 \<Rightarrow> u32 \<Rightarrow> u16 \<Rightarrow> shape_client \<Rightarrow> shape_result" where
  "shape_combine operation dest_kind src_kind dest dx dy src seq st =
     (let src_rects = map_option (map (move_rect dx dy)) (get_window_shape st src src_kind)
      in (send_shape_notify dest dest_kind seq (apply_shape dest dest_kind operation src_rects st), NoReply))"

definition saturating_move :: "i16 \<Rightarrow> i16 \<Rightarrow> region_rect \<Rightarrow> region_rect" where
  "saturating_move dx dy r =
     r\<lparr>rect_x := saturating_add_i16 (rect_x r) dx, rect_y := saturating_add_i16 (rect_y r) dy\<rparr>"

definition shape_offset :: "u8 \<Rightarrow> u32 \<Rightarrow> i16 \<Rightarrow> i16 \<Rightarrow> u16 \<Rightarrow> shape_client \<Rightarrow> shape_result" where
  "shape_offset kind wid dx dy seq st =
     (if map_of (windows st) wid \<noteq> None \<and> \<not> known_kind kind
      then (st, ErrorReply (build_error VALUE_ERROR seq (ucast kind) 128 4))
      else
        (send_shape_notify wid kind seq
           (change_window wid (\<lambda>w. set_shape kind (map_option (map (saturating_move dx dy)) (shape_of kind w)) w) st),
         NoReply))"

definition shape_query_extents :: "u32 \<Rightarrow> shape_client \<Rightarrow> shape_result" where
  "shape_query_extents wid st =
     (let screen = \<lparr>rect_x = 0, rect_y = 0, rect_width = screen_width st, rect_height = screen_height st\<rparr>
      in (st, Reply (ShapeExtents
           (case map_of (windows st) wid of
              None \<Rightarrow> \<lparr>se_bounding_shaped = False, se_clip_shaped = False, se_bounding = screen, se_clip = screen\<rparr>
            | Some w \<Rightarrow>
                (let bounding = (case w_bounding_shape w of Some rs \<Rightarrow> compute_extents rs | None \<Rightarrow> full_rect w)
                 in \<lparr>se_bounding_shaped = (w_bounding_shape w \<noteq> None), se_clip_shaped = (w_clip_shape w \<noteq> None),
                     se_bounding = bounding,
                     se_clip = (case w_clip_shape w of Some rs \<Rightarrow> compute_extents rs | None \<Rightarrow> bounding)\<rparr>)))))"

text \<open>The marker of a subscription is the sequence number of the request.\<close>

definition shape_select_input :: "u32 \<Rightarrow> bool \<Rightarrow> u16 \<Rightarrow> shape_client \<Rightarrow> shape_result" where
  "shape_select_input wid enable seq st =
     (let client_marker = ucast seq
      in (change_window wid (\<lambda>w. w\<lparr>w_shape_clients :=
             (if enable
              then if client_marker \<in> set (w_shape_clients w) then w_shape_clients w
                   else w_shape_clients w @ [client_marker]
              else filter (\<lambda>c. c \<noteq> client_marker) (w_shape_clients w))\<rparr>) st, NoReply))"

definition shape_input_selected :: "u32 \<Rightarrow> shape_client \<Rightarrow> shape_result" where
  "shape_input_selected wid st =
     (st, Reply (ShapeInputSelected
        (case map_of (windows st) wid of Some w \<Rightarrow> w_shape_clients w \<noteq> [] | None \<Rightarrow> False)))"

definition shape_get_rectangles :: "u32 \<Rightarrow> u8 \<Rightarrow> shape_client \<Rightarrow> shape_result" where
  "shape_get_rectangles wid kind st =
     (st, Reply (ShapeRectangles
        (case map_of (windows st) wid of
           Some w \<Rightarrow> (case shape_of kind w of Some rs \<Rightarrow> rs | None \<Rightarrow> [full_rect w])
         | None \<Rightarrow> [\<lparr>rect_x = 0, rect_y = 0, rect_width = screen_width st, rect_height = screen_height st\<rparr>])))"

text \<open>The requests as parsed by \<open>x11rb-protocol\<close>; \<open>ShapeMalformed\<close> stands for a request its parser rejects
  and \<open>ShapeUnknown\<close> for an unknown minor opcode.\<close>

datatype shape_request =
    ShapeQueryVersion
  | ShapeRectanglesReq u8 u8 u8 u32 i16 i16 "region_rect list"
  | ShapeMask u8 u8 u32 i16 i16 u32
  | ShapeCombine u8 u8 u8 u32 i16 i16 u32
  | ShapeOffset u8 u32 i16 i16
  | ShapeQueryExtents u32
  | ShapeSelectInput u32 bool
  | ShapeInputSelectedReq u32
  | ShapeGetRectangles u32 u8
  | ShapeMalformed u16
  | ShapeUnknown u8

fun handle_shape_request :: "shape_request \<Rightarrow> u16 \<Rightarrow> shape_client \<Rightarrow> shape_result" where
  "handle_shape_request ShapeQueryVersion seq st = (st, Reply (ShapeVersion 1 1))"
| "handle_shape_request (ShapeRectanglesReq op kind ord wid dx dy rs) seq st =
     shape_rectangles op kind ord wid dx dy rs seq st"
| "handle_shape_request (ShapeMask op kind wid dx dy pid) seq st = shape_mask op kind wid dx dy pid seq st"
| "handle_shape_request (ShapeCombine op dk sk dest dx dy src) seq st =
     shape_combine op dk sk dest dx dy src seq st"
| "handle_shape_request (ShapeOffset kind wid dx dy) seq st = shape_offset kind wid dx dy seq st"
| "handle_shape_request (ShapeQueryExtents wid) seq st = shape_query_extents wid st"
| "handle_shape_request (ShapeSelectInput wid enable) seq st = shape_select_input wid enable seq st"
| "handle_shape_request (ShapeInputSelectedReq wid) seq st = shape_input_selected wid st"
| "handle_shape_request (ShapeGetRectangles wid kind) seq st = shape_get_rectangles wid kind st"
| "handle_shape_request (ShapeMalformed minor) seq st =
     (st, ErrorReply (build_error LENGTH_ERROR seq 0 128 minor))"
| "handle_shape_request (ShapeUnknown minor) seq st =
     (st, ErrorReply (build_error REQUEST_ERROR seq (ucast minor) 128 (ucast minor)))"

section \<open>Shapes as sets of points\<close>

lemma ucast_inj_32: "(ucast (a :: u16) :: u32) = ucast b \<longleftrightarrow> a = b"
proof
  assume "(ucast a :: u32) = ucast b"
  then have "unat (ucast a :: u32) = unat (ucast b :: u32)" by simp
  then have "take_bit 32 (unat a) = take_bit 32 (unat b)" by (simp add: unsigned_ucast_eq)
  then show "a = b"
    using unat_range16 [of a] unat_range16 [of b] by (simp add: take_bit_nat_eq_self word_unat_eq_iff)
qed simp

text \<open>The bitmap that sits at the offset of the request fits into the coordinates of the screen.\<close>

definition bitmap_fits :: "pixmap_state \<Rightarrow> i16 \<Rightarrow> i16 \<Rightarrow> bool" where
  "bitmap_fits p dx dy \<longleftrightarrow> uint (px_width p) + sint dx \<le> 32767 \<and> uint (px_height p) + sint dy \<le> 32767"

definition set_pixels :: "pixmap_state \<Rightarrow> i16 \<Rightarrow> i16 \<Rightarrow> (int \<times> int) set" where
  "set_pixels p dx dy =
     {(sint dx + int x, sint dy + int y) |x y. x < unat (px_width p) \<and> y < unat (px_height p) \<and> pixel_set p y x}"

definition span_rect :: "i16 \<Rightarrow> i16 \<Rightarrow> nat \<Rightarrow> nat \<times> nat \<Rightarrow> region_rect" where
  "span_rect dx dy y =
     (\<lambda>(s, e). \<lparr>rect_x = of_nat s + dx, rect_y = of_nat y + dy, rect_width = of_nat (e - s), rect_height = 1\<rparr>)"

lemma span_rect_points:
  assumes "bitmap_fits p dx dy" "y < unat (px_height p)" "(s, e) \<in> set (spans (pixel_set p y) (unat (px_width p)) 0)"
  shows "rect_points (span_rect dx dy y (s, e)) = {(sint dx + int x, sint dy + int y) |x. s \<le> x \<and> x < e}"
    and "rect_ok (span_rect dx dy y (s, e))"
proof -
  have b: "s < e" "e \<le> unat (px_width p)" using spans_bounds [OF assms(3)] by simp_all
  have w: "int (unat (px_width p)) + sint dx \<le> 32767" "int (unat (px_height p)) + sint dy \<le> 32767"
    using assms(1) [unfolded bitmap_fits_def uint_eq_int_unat] by blast+
  have x: "sint (of_nat s + dx) = int s + sint dx" by (rule sint_of_nat_plus16) (use b w in linarith)
  have y: "sint (of_nat y + dy) = int y + sint dy" by (rule sint_of_nat_plus16) (use assms(2) w in linarith)
  have wd: "uint (of_nat (e - s) :: u16) = int e - int s"
  proof -
    have "0 \<le> int e - int s" "int e - int s < 65536" using b unat_range16 [of "px_width p"] by linarith+
    from uint_word_of_int16 [OF this] b(1) show ?thesis by (simp add: of_nat_diff)
  qed
  show "rect_points (span_rect dx dy y (s, e)) = {(sint dx + int x, sint dy + int y) |x. s \<le> x \<and> x < e}"
    using x y wd b
    by (auto simp: span_rect_def rect_points_def intro!: exI [of _ "nat (_ - sint dx)"])
  show "rect_ok (span_rect dx dy y (s, e))"
  proof -
    have "int s + sint dx + (int e - int s) \<le> 32767" "int y + sint dy + 1 \<le> 32767" using b w assms(2) by linarith+
    then show ?thesis by (simp add: span_rect_def rect_ok_def x y wd del: of_nat_diff)
  qed
qed

lemma pixmap_rows_points:
  assumes "bitmap_fits p dx dy"
  shows "region_points (pixmap_rows p dx dy) = set_pixels p dx dy" "region_ok (pixmap_rows p dx dy)"
proof -
  have eq: "pixmap_rows p dx dy =
      concat (map (\<lambda>y. map (span_rect dx dy y) (spans (pixel_set p y) (unat (px_width p)) 0)) [0..<unat (px_height p)])"
    by (simp add: pixmap_rows_def span_rect_def)
  have "region_points (pixmap_rows p dx dy) =
      (\<Union>y < unat (px_height p). \<Union>(s, e) \<in> set (spans (pixel_set p y) (unat (px_width p)) 0).
         {(sint dx + int x, sint dy + int y) |x. s \<le> x \<and> x < e})"
    using span_rect_points(1) [OF assms] by (fastforce simp: eq region_points_def)
  also have "\<dots> = {(sint dx + int x, sint dy + int y) |x y. y < unat (px_height p) \<and>
      (\<exists>(s, e) \<in> set (spans (pixel_set p y) (unat (px_width p)) 0). s \<le> x \<and> x < e)}" by blast
  finally show "region_points (pixmap_rows p dx dy) = set_pixels p dx dy"
    unfolding spans_cover by (auto simp: set_pixels_def)
  show "region_ok (pixmap_rows p dx dy)"
    using span_rect_points(2) [OF assms] by (auto simp: eq region_ok_def list_all_iff)
qed

definition shape_points :: "region_rect \<Rightarrow> region_rect list option \<Rightarrow> (int \<times> int) set" where
  "shape_points full s = (case s of Some rs \<Rightarrow> region_points rs | None \<Rightarrow> rect_points full)"

text \<open>What the protocol says of the five operations.\<close>

definition set_op :: "u8 \<Rightarrow> 'a set \<Rightarrow> 'a set \<Rightarrow> 'a set" where
  "set_op operation old new =
     (if operation = SO_SET then new
      else if operation = SO_UNION then old \<union> new
      else if operation = SO_INTERSECT then old \<inter> new
      else if operation = SO_SUBTRACT then old - new else new - old)"

definition shape_ok :: "region_rect \<Rightarrow> region_rect list option \<Rightarrow> bool" where
  "shape_ok full s \<longleftrightarrow> rect_ok full \<and> (case s of Some rs \<Rightarrow> region_ok rs | None \<Rightarrow> True)"

lemma shape_points_unless_empty: "region_points rs \<noteq> {} \<Longrightarrow> shape_points full (unless_empty rs) = region_points rs"
  by (auto simp: unless_empty_def shape_points_def)

text \<open>The cases in which the code follows the protocol: the window has a shape already when another is
  added to it, and the result is not empty.\<close>

definition faithful_case :: "u8 \<Rightarrow> region_rect \<Rightarrow> region_rect list option \<Rightarrow> region_rect list \<Rightarrow> bool" where
  "faithful_case operation full target n \<longleftrightarrow>
     operation \<in> {SO_SET, SO_UNION, SO_INTERSECT, SO_SUBTRACT, SO_INVERT} \<and>
     (operation = SO_UNION \<longrightarrow> target \<noteq> None) \<and>
     (operation = SO_SET \<or> set_op operation (shape_points full target) (region_points n) \<noteq> {})"

lemma combine_ops:
  "combine_shape SO_SET full t new = new"
  "combine_shape SO_UNION full (Some e) (Some n) = unless_empty (e @ n)"
  "combine_shape SO_UNION full None (Some n) = unless_empty n"
  "combine_shape SO_INTERSECT full (Some e) (Some n) = unless_empty (intersect_rects e n)"
  "combine_shape SO_INTERSECT full None (Some n) = Some n"
  "combine_shape SO_SUBTRACT full (Some e) (Some n) = unless_empty (subtract_rects e n)"
  "combine_shape SO_SUBTRACT full None (Some n) = unless_empty (subtract_rects [full] n)"
  "combine_shape SO_INVERT full (Some e) (Some n) = unless_empty (subtract_rects n e)"
  "combine_shape SO_INVERT full None new = Some []"
  by (simp_all add: combine_shape_def shape_codes)

lemma set_ops:
  "set_op SO_SET a b = b" "set_op SO_UNION a b = a \<union> b" "set_op SO_INTERSECT a b = a \<inter> b"
  "set_op SO_SUBTRACT a b = a - b" "set_op SO_INVERT a b = b - a"
  by (simp_all add: set_op_def shape_codes)

lemma shape_points_simps [simp]:
  "shape_points full (Some rs) = region_points rs" "shape_points full None = rect_points full"
  by (simp_all add: shape_points_def)

lemma combine_some:
  assumes "region_ok e" "region_ok n" "operation \<in> {SO_UNION, SO_INTERSECT, SO_SUBTRACT, SO_INVERT}"
    and "set_op operation (region_points e) (region_points n) \<noteq> {}"
  shows "shape_points full (combine_shape operation full (Some e) (Some n)) =
    set_op operation (region_points e) (region_points n)"
proof -
  note pts = sh.pts_inter [OF assms(1,2)] sh.pts_sub [OF assms(1,2)] sh.pts_sub [OF assms(2,1)]
  have *: "shape_points full (unless_empty rs) = s" if "region_points rs = s" "s \<noteq> {}" for rs s
    using that shape_points_unless_empty by simp
  consider "operation = SO_UNION" | "operation = SO_INTERSECT" | "operation = SO_SUBTRACT" | "operation = SO_INVERT"
    using assms(3) by blast
  then show ?thesis
    using assms(4) by cases (simp_all only: combine_ops set_ops, (rule *; simp add: pts)+)
qed

lemma combine_shape_points:
  assumes "shape_ok full target" "region_ok n" "region_points n \<subseteq> rect_points full" "faithful_case operation full target n"
  shows "shape_points full (combine_shape operation full target (Some n)) =
    set_op operation (shape_points full target) (region_points n)"
proof (cases "operation = SO_SET")
  case True
  then show ?thesis by (simp add: combine_ops set_ops)
next
  case False
  with assms(4) have op: "operation \<in> {SO_UNION, SO_INTERSECT, SO_SUBTRACT, SO_INVERT}"
    "set_op operation (shape_points full target) (region_points n) \<noteq> {}" "operation = SO_UNION \<Longrightarrow> target \<noteq> None"
    by (auto simp: faithful_case_def)
  show ?thesis
  proof (cases target)
    case (Some e)
    with assms(1) have "region_ok e" by (simp add: shape_ok_def)
    with combine_some assms(2) op Some show ?thesis by simp
  next
    case None
    have f: "region_ok [full]" using assms(1) by (simp add: shape_ok_def)
    have sub: "region_points (subtract_rects [full] n) = rect_points full - region_points n"
      using sh.pts_sub [OF f assms(2)] by simp
    consider "operation = SO_INTERSECT" | "operation = SO_SUBTRACT" | "operation = SO_INVERT"
      using op None by blast
    then show ?thesis
    proof cases
      case 1
      with None assms(3) show ?thesis by (simp add: combine_ops set_ops Int_absorb1)
    next
      case 2
      with None op(2) sub show ?thesis by (simp add: combine_ops set_ops shape_points_unless_empty)
    next
      case 3
      with None op(2) assms(3) show ?thesis by (auto simp: set_ops)
    qed
  qed
qed

lemma shape_of_set_shape [simp]:
  "known_kind k \<Longrightarrow> shape_of k (set_shape k v w) = v" "k \<noteq> k' \<Longrightarrow> shape_of k' (set_shape k v w) = shape_of k' w"
  "full_rect (set_shape k v w) = full_rect w" "w_shape_clients (set_shape k v w) = w_shape_clients w"
  by (auto simp: shape_of_def set_shape_def known_kind_def full_rect_def shape_codes)

lemma send_shape_notify_windows [simp]: "windows (send_shape_notify wid kind seq st) = windows st"
  by (simp add: send_shape_notify_def push_event_def split: option.split)

lemma windows_change_window [simp]:
  "map_of (windows (change_window wid f st)) = (\<lambda>k. if k = wid then map_option f (map_of (windows st) wid) else map_of (windows st) k)"
  by (simp add: change_window_def)

section \<open>Properties\<close>

text \<open>A client with one window of 100 by 100 pixels, its input shape, and a bitmap of 2 by 1 pixels, for examples.\<close>

definition shape_demo :: "region_rect list option \<Rightarrow> shape_client" where
  "shape_demo s =
     \<lparr>resource_id_base = 0, next_xid = 0, freed_xids = [], msb_first = False, pending_events = [],
      client_id = ''a'', root_window = 1, windows = [(5, (window_at 1 0 0 100 100 [])\<lparr>w_input_shape := s\<rparr>)],
      shared_windows = [], shared_dirty_windows = [], x11_to_uuid = Map.empty,
      event_broadcaster = \<lparr>subscriptions = [], all_clients = []\<rparr>,
      sent_events = [], sequence = 0, timestamp = 0, screen_width = 800, screen_height = 600,
      pixmaps = [(9, \<lparr>px_width = 2, px_height = 1, px_data = [0, 0, 0, 0, 0, 0, 0, 255]\<rparr>)]\<rparr>"



text \<open>Where the code does not follow the protocol: an intersection or difference that leaves nothing,
  and the empty list of rectangles, give the window its whole rectangle back, and a union with the
  shape of a window that has none leaves only the rectangles that were added.\<close>

theorem shape_empty_means_full:
  assumes "map_of (windows st) wid = Some w" "known_kind kind" "shape_of kind w = Some e" "region_ok e" "region_ok n"
    and "shape_of kind w0 = None" "n \<noteq> []"
  shows "\<exists>st' w'. handle_shape_request (ShapeRectanglesReq SO_SET kind 0 wid dx dy []) seq st = (st', NoReply) \<and>
      map_of (windows st') wid = Some w' \<and> shape_points (full_rect w) (shape_of kind w') = rect_points (full_rect w) \<and>
    (intersect_rects e n = [] \<longrightarrow>
      set_op SO_INTERSECT (region_points e) (region_points n) = {} \<and>
      shape_points (full_rect w) (combine_shape SO_INTERSECT (full_rect w) (shape_of kind w) (Some n)) = rect_points (full_rect w)) \<and>
    (subtract_rects e n = [] \<longrightarrow>
      set_op SO_SUBTRACT (region_points e) (region_points n) = {} \<and>
      shape_points (full_rect w) (combine_shape SO_SUBTRACT (full_rect w) (shape_of kind w) (Some n)) = rect_points (full_rect w)) \<and>
    shape_points (full_rect w0) (combine_shape SO_UNION (full_rect w0) (shape_of kind w0) (Some n)) = region_points n"
proof -
  have "\<exists>st' w'. handle_shape_request (ShapeRectanglesReq SO_SET kind 0 wid dx dy []) seq st = (st', NoReply) \<and>
      map_of (windows st') wid = Some w' \<and> shape_points (full_rect w) (shape_of kind w') = rect_points (full_rect w)"
    using assms(1,2) by (simp add: shape_rectangles_def apply_shape_def combine_shape_def shape_codes shape_points_def)
  moreover have "set_op SO_INTERSECT (region_points e) (region_points n) = {} \<and>
      shape_points (full_rect w) (combine_shape SO_INTERSECT (full_rect w) (shape_of kind w) (Some n)) = rect_points (full_rect w)"
    if "intersect_rects e n = []"
    using that assms sh.pts_inter [of e n]
    by (simp add: set_op_def combine_shape_def unless_empty_def shape_codes shape_points_def)
  moreover have "set_op SO_SUBTRACT (region_points e) (region_points n) = {} \<and>
      shape_points (full_rect w) (combine_shape SO_SUBTRACT (full_rect w) (shape_of kind w) (Some n)) = rect_points (full_rect w)"
    if "subtract_rects e n = []"
    using that assms sh.pts_sub [of e n]
    by (simp add: set_op_def combine_shape_def unless_empty_def shape_codes shape_points_def)
  moreover have "shape_points (full_rect w0) (combine_shape SO_UNION (full_rect w0) (shape_of kind w0) (Some n)) = region_points n"
    using assms by (simp add: combine_shape_def unless_empty_def shape_codes shape_points_def)
  ultimately show ?thesis by blast
qed

theorem shape_empty_means_full_witness:
  "\<exists>st' w'. handle_shape_request (ShapeRectanglesReq SO_SET SK_INPUT 0 5 0 0 []) 7 (shape_demo (Some [mk_rect 0 0 50 50]))
      = (st', NoReply) \<and>
      map_of (windows st') 5 = Some w' \<and>
      shape_points (mk_rect 0 0 100 100) (shape_of SK_INPUT w') = rect_points (mk_rect 0 0 100 100) \<and>
      shape_points (mk_rect 0 0 100 100) (combine_shape SO_INTERSECT (mk_rect 0 0 100 100)
        (Some [mk_rect 0 0 50 50]) (Some [mk_rect 60 60 9 9])) = rect_points (mk_rect 0 0 100 100)"
proof -
  let ?w = "(window_at 1 0 0 100 100 [])\<lparr>w_input_shape := Some [mk_rect 0 0 50 50]\<rparr>"
  have full: "full_rect ?w = mk_rect 0 0 100 100" by (simp add: full_rect_def window_at_def)
  have shape: "shape_of SK_INPUT ?w = Some [mk_rect 0 0 50 50]" "shape_of SK_INPUT (window_at 1 0 0 100 100 []) = None"
    by (simp_all add: shape_of_def window_at_def shape_codes)
  have none: "intersect_rects [mk_rect 0 0 50 50] [mk_rect 60 60 9 9] = []" by code_simp
  show ?thesis
    using shape_empty_means_full [of "shape_demo (Some [mk_rect 0 0 50 50])" 5 ?w SK_INPUT "[mk_rect 0 0 50 50]"
      "[mk_rect 60 60 9 9]" "window_at 1 0 0 100 100 []" 0 0 7]
    by (auto simp: full shape none shape_demo_def known_kind_def rect_ok_def)
qed

text \<open>A shape set from a bitmap is exact: its rectangles cover the pixels of the bitmap that are not
  zero, moved by the offset of the request, and no others; a bitmap without such pixels gives a
  window no points at all.\<close>

theorem shape_mask_exact:
  assumes "map_of (windows st) wid = Some w" "known_kind kind" "pid \<noteq> 0" "map_of (pixmaps st) pid = Some p"
    and "bitmap_fits p dx dy"
  shows "\<exists>st' w' rs. handle_shape_request (ShapeMask SO_SET kind wid dx dy pid) seq st = (st', NoReply) \<and>
    map_of (windows st') = (map_of (windows st))(wid \<mapsto> w') \<and> shape_of kind w' = Some rs \<and>
    region_points rs = set_pixels p dx dy \<and> region_ok rs"
proof -
  let ?rs = "coalesce_rects (pixmap_rows p dx dy)"
  have ex: "extract_shape_from_pixmap st pid dx dy = ?rs"
    using assms(4) by (simp add: extract_shape_from_pixmap_def)
  have "region_points ?rs = set_pixels p dx dy" "region_ok ?rs"
    using pixmap_rows_points [OF assms(5)] coalesce_rects_points by auto
  then show ?thesis
    using assms(1-4) ex by (simp add: shape_mask_def apply_shape_def combine_ops fun_eq_iff)
qed

theorem shape_mask_exact_witness:
  "\<exists>st' w' rs. handle_shape_request (ShapeMask SO_SET SK_INPUT 5 10 20 9) 7 (shape_demo None) = (st', NoReply) \<and>
    map_of (windows st') = (map_of (windows (shape_demo None)))(5 \<mapsto> w') \<and> shape_of SK_INPUT w' = Some rs \<and>
    region_points rs = {(11, 20)} \<and> region_ok rs"
proof -
  let ?p = "\<lparr>px_width = 2, px_height = 1, px_data = [0, 0, 0, 0, 0, 0, 0, 255]\<rparr>"
  have "set_pixels ?p 10 20 = {(11, 20)}"
    by (auto simp: set_pixels_def pixel_set_def less_2_cases_iff)
  with shape_mask_exact [of "shape_demo None" 5 "window_at 1 0 0 100 100 []" SK_INPUT 9 ?p 10 20 7]
  show ?thesis by (simp add: shape_demo_def known_kind_def bitmap_fits_def window_at_def)
qed

text \<open>The subscription to ShapeNotify is keyed by the sequence number of the request, so a request
  that selects events cannot be undone by a later one: the window keeps the marker and the client
  still receives an event for every change of the shape.\<close>

theorem shape_selection_sticks:
  assumes "map_of (windows st) wid = Some w" "seq' \<noteq> seq" "known_kind kind" "hint \<le> 3"
    and "handle_shape_request (ShapeSelectInput wid True) seq st = (st1, r1)"
    and "handle_shape_request (ShapeSelectInput wid False) seq' st1 = (st2, r2)"
    and "handle_shape_request (ShapeRectanglesReq operation kind hint wid dx dy rs) s st2 = (st3, r3)"
  shows "handle_shape_request (ShapeInputSelectedReq wid) s st2 = (st2, Reply (ShapeInputSelected True)) \<and>
    (\<exists>ev. pending_events st3 = pending_events st2 @ [ev] \<and> sn_window ev = wid)"
proof -
  let ?on = "\<lambda>st. \<exists>v. map_of (windows st) wid = Some v \<and> ucast seq \<in> set (w_shape_clients v)"
  have ne: "ucast seq' \<noteq> (ucast seq :: u32)" using assms(2) ucast_inj_32 by blast
  have "?on st1" using assms(1,5) by (auto simp: shape_select_input_def Let_def)
  then have on: "?on st2" using assms(6) ne by (auto simp: shape_select_input_def Let_def)
  then obtain v where v: "map_of (windows st2) wid = Some v" "w_shape_clients v \<noteq> []" by fastforce
  obtain x where st3: "st3 = send_shape_notify wid kind s (apply_shape wid kind operation x st2)"
    using assms(7) assms(4) [folded not_less]
    by (simp only: handle_shape_request.simps shape_rectangles_def Let_def if_False) blast
  have "\<exists>v'. map_of (windows (apply_shape wid kind operation x st2)) wid = Some v' \<and> w_shape_clients v' \<noteq> []"
    using v by (simp add: apply_shape_def)
  then have "\<exists>ev. pending_events st3 = pending_events (apply_shape wid kind operation x st2) @ [ev] \<and> sn_window ev = wid"
    using assms(3) by (auto simp: st3 send_shape_notify_def push_event_def)
  then show ?thesis using v by (simp add: shape_input_selected_def apply_shape_def change_window_def)
qed

theorem shape_selection_sticks_witness:
  "case handle_shape_request (ShapeSelectInput 5 True) 7 (shape_demo None) of (st1, r1) \<Rightarrow>
     case handle_shape_request (ShapeSelectInput 5 False) 8 st1 of (st2, r2) \<Rightarrow>
       handle_shape_request (ShapeInputSelectedReq 5) 9 st2 = (st2, Reply (ShapeInputSelected True))"
proof -
  obtain st1 r1 where 1: "handle_shape_request (ShapeSelectInput 5 True) 7 (shape_demo None) = (st1, r1)"
    by (metis surj_pair)
  obtain st2 r2 where 2: "handle_shape_request (ShapeSelectInput 5 False) 8 st1 = (st2, r2)" by (metis surj_pair)
  obtain st3 r3 where 3: "handle_shape_request (ShapeRectanglesReq SO_SET SK_INPUT 0 5 0 0 []) 9 st2 = (st3, r3)"
    by (metis surj_pair)
  have "map_of (windows (shape_demo None)) 5 = Some (window_at 1 0 0 100 100 [])"
    by (simp add: shape_demo_def window_at_def)
  from shape_selection_sticks [OF this _ _ _ 1 2 3] 1 2 show ?thesis by (simp add: known_kind_def)
qed

end
