(* ===== verification/Ewmh.thy ===== *)
theory Ewmh
  imports Windows Atoms
begin

text \<open>
  The part of a connection that several components use to keep the window manager's properties up
  to date: the atom table, the menu paths of GTK clients (\<open>menus.rs\<close>), the messages to the
  frontend, changes of window records in the local and the shared table, and the properties of the
  root window (\<open>client/focus.rs\<close>): work area and client list.
\<close>

unbundle bit_operations_syntax

section \<open>State\<close>

record gtk_menu_paths =
  bus_name :: bytes
  menubar_path :: "bytes option"
  app_menu_path :: "bytes option"
  app_actions_path :: "bytes option"
  win_actions_path :: "bytes option"

definition has_menu :: "gtk_menu_paths \<Rightarrow> bool" where
  "has_menu p \<longleftrightarrow> bus_name p \<noteq> [] \<and> (menubar_path p \<noteq> None \<or> app_menu_path p \<noteq> None)"

text \<open>What is sent to the frontend and to the menu tracker, in order.\<close>

record window_created =
  wc_window_id :: string
  wc_x :: i16
  wc_y :: i16
  wc_width :: u16
  wc_height :: u16
  wc_is_top_level :: bool
  wc_override_redirect :: bool
  wc_border_width :: u16
  wc_border_pixel :: u32

datatype window_wm_state = WmNormal | WmMinimized | WmMaximized | WmFullscreen | WmClose

datatype frontend_message =
    TitleChanged string string bytes
  | AttachGtk string string gtk_menu_paths
  | WindowCreated string window_created
  | WindowDestroyed string string
  | WindowFocused string "string option"
  | WindowConfigured string string i16 i16 u16 u16 u16 u32
  | WindowMapped string string bool bool
  | WindowUnmapped string string
  | WindowStateChanged string string window_wm_state
  | WindowRaised string string
  | MenuRegister u32 string string
  | MenuUnregister u32
  | MenuDetach string

record 'e ewmh_client = "'e win_client" +
  atom_table :: atom_manager
  gtk_paths :: "gtk_menu_paths hashmap"
  messages :: "frontend_message list"

definition CARDINAL :: u32 where "CARDINAL = 6"

definition get_atom_name :: "u32 \<Rightarrow> ('e, 'm) ewmh_client_scheme \<Rightarrow> bytes option" where
  "get_atom_name atom st = get_name atom (atom_table st)"

definition is_named :: "u32 \<Rightarrow> string \<Rightarrow> ('e, 'm) ewmh_client_scheme \<Rightarrow> bool" where
  "is_named atom name st \<longleftrightarrow> get_atom_name atom st = Some (name_bytes name)"

definition modify_window ::
    "u32 \<Rightarrow> (window_state \<Rightarrow> window_state) \<Rightarrow> ('e, 'm) ewmh_client_scheme \<Rightarrow> ('e, 'm) ewmh_client_scheme" where
  "modify_window wid f st = st\<lparr>windows := AList.map_entry wid f (windows st)\<rparr>"

definition modify_shared ::
    "u32 \<Rightarrow> (window_state \<Rightarrow> window_state) \<Rightarrow> ('e, 'm) ewmh_client_scheme \<Rightarrow> ('e, 'm) ewmh_client_scheme" where
  "modify_shared wid f st = st\<lparr>shared_windows := AList.map_entry wid f (shared_windows st)\<rparr>"

definition set_prop :: "u32 \<Rightarrow> property_value \<Rightarrow> window_state \<Rightarrow> window_state" where
  "set_prop atom v w = w\<lparr>w_properties := AList.update atom v (w_properties w)\<rparr>"

definition remove_prop :: "u32 \<Rightarrow> window_state \<Rightarrow> window_state" where
  "remove_prop atom w = w\<lparr>w_properties := AList.delete atom (w_properties w)\<rparr>"

section \<open>Properties of the root window\<close>

text \<open>The sums of two struts are computed in \<open>u32\<close> and wrap around.\<close>

definition max_struts :: "windows_t \<Rightarrow> u32 \<times> u32 \<times> u32 \<times> u32" where
  "max_struts ws =
     fold (\<lambda>(wid, w) (left, right, upper, bottom).
             (case w_strut w of
                Some (l, r, t, b) \<Rightarrow> (max left l, max right r, max upper t, max bottom b)
              | None \<Rightarrow> (left, right, upper, bottom))) ws (0, 0, 0, 0)"

definition recalculate_workarea :: "('e, 'm) ewmh_client_scheme \<Rightarrow> ('e, 'm) ewmh_client_scheme" where
  "recalculate_workarea st =
     (let (left, right, upper, bottom) = max_struts (windows st);
          w = saturating_sub_u32 (ucast (screen_width st)) (left + right);
          h = saturating_sub_u32 (ucast (screen_height st)) (upper + bottom);
          (mgr, net_workarea_atom) = intern (name_bytes ''_NET_WORKAREA'') False (atom_table st);
          data = le_bytes 4 left @ le_bytes 4 upper @ le_bytes 4 w @ le_bytes 4 h
      in modify_window (root_window st)
           (set_prop net_workarea_atom \<lparr>pv_type = CARDINAL, pv_format = 32, pv_data = data\<rparr>)
           (st\<lparr>atom_table := mgr\<rparr>))"

definition intern_atom ::
    "string \<Rightarrow> bool \<Rightarrow> ('e, 'm) ewmh_client_scheme \<Rightarrow> ('e, 'm) ewmh_client_scheme \<times> u32" where
  "intern_atom name only_if_exists st =
     (let (mgr, atom) = intern (name_bytes name) only_if_exists (atom_table st)
      in (st\<lparr>atom_table := mgr\<rparr>, atom))"

definition INPUT_OUTPUT :: u16 where "INPUT_OUTPUT = 1"
definition INPUT_ONLY :: u16 where "INPUT_ONLY = 2"
definition WINDOW_ATOM :: u32 where "WINDOW_ATOM = 33"

definition window_list_value :: "u32 list \<Rightarrow> property_value" where
  "window_list_value ids =
     \<lparr>pv_type = WINDOW_ATOM, pv_format = 32, pv_data = concat (map (le_bytes 4) ids)\<rparr>"

text \<open>The mapped top-level windows, in ascending order and in stacking order.\<close>

definition client_windows :: "u32 \<Rightarrow> windows_t \<Rightarrow> u32 list" where
  "client_windows root ws =
     sort (map w_id (filter (\<lambda>w. w_parent w = root \<and> a_class (w_attrs w) = INPUT_OUTPUT \<and> w_mapped w)
       (map snd ws)))"

definition stacking_windows :: "u32 \<Rightarrow> windows_t \<Rightarrow> u32 list" where
  "stacking_windows root ws =
     (case map_of ws root of
        Some r \<Rightarrow> filter (\<lambda>c. case map_of ws c of
                               Some w \<Rightarrow> a_class (w_attrs w) = INPUT_OUTPUT \<and> w_mapped w
                             | None \<Rightarrow> False) (w_children r)
      | None \<Rightarrow> [])"

definition update_net_client_list :: "('e, 'm) ewmh_client_scheme \<Rightarrow> ('e, 'm) ewmh_client_scheme" where
  "update_net_client_list st =
     (let (st, net_client_list_atom) = intern_atom ''_NET_CLIENT_LIST'' False st;
          (st, net_client_list_stacking_atom) = intern_atom ''_NET_CLIENT_LIST_STACKING'' False st;
          root = root_window st;
          st = modify_window root (\<lambda>w.
                 set_prop net_client_list_stacking_atom
                   (window_list_value (stacking_windows root (windows st)))
                   (set_prop net_client_list_atom
                     (window_list_value (client_windows root (windows st))) w)) st
      in mark_window_shared_dirty root st)"

end
