(* ===== verification/Property.thy ===== *)
theory Property
  imports Ewmh Xid
begin

text \<open>
  Window properties: ChangeProperty, DeleteProperty, GetProperty and ListProperties
  (\<open>handlers/property/crud.rs\<close>) with everything ChangeProperty does for the properties the server
  interprets itself (those on the root window are in Ewmh), and the incremental
  selection transfers (\<open>handlers/property.rs\<close>, \<open>client/helpers.rs\<close>).

  A handler returns \<open>None\<close> when the code panics. The frontend channel and the menu tracker are
  recorded as the list of messages sent to them; \<open>clock\<close> is the monotonic clock in nanoseconds.
\<close>

unbundle bit_operations_syntax

section \<open>State\<close>

record property_notify_event =
  pn_sequence :: u16
  pn_window :: u32
  pn_atom :: u32
  pn_time :: u32
  pn_state :: u8

text \<open>The events of selections (\<open>handlers/property/selection.rs\<close>) go through the same queue.\<close>

record selection_clear_event =
  sc_sequence :: u16
  sc_time :: u32
  sc_owner :: u32
  sc_selection :: u32

record selection_notify_event =
  sn_sequence :: u16
  sn_time :: u32
  sn_requestor :: u32
  sn_selection :: u32
  sn_target :: u32
  sn_property :: u32

record selection_request_event =
  sr_sequence :: u16
  sr_time :: u32
  sr_owner :: u32
  sr_requestor :: u32
  sr_selection :: u32
  sr_target :: u32
  sr_property :: u32

record xfixes_selection_notify_event =
  xsn_sequence :: u16
  xsn_window :: u32
  xsn_owner :: u32
  xsn_selection :: u32
  xsn_timestamp :: u32

datatype client_event =
    PropertyNotify property_notify_event
  | SelectionClear selection_clear_event
  | SelectionRequest selection_request_event
  | SelectionNotify selection_notify_event
  | XFixesSelectionNotify xfixes_selection_notify_event

record incr_transfer =
  it_requestor :: u32
  it_property :: u32
  it_target :: u32
  it_data :: bytes
  it_offset :: nat
  it_chunk_size :: nat
  it_last_activity :: nat

record selection_entry =
  se_owner :: u32
  se_tx :: nat
  se_timestamp :: u32

record clipboard_entry =
  ce_targets :: "bytes hashmap"
  ce_timestamp :: u32

text \<open>\<open>SelectionState\<close>: the owners this connection knows by itself, and the two tables shared by all
  connections. \<open>clipboard_pulses\<close> counts the messages to the clipboard channel.\<close>

record selection_state =
  owners :: "u32 hashmap"
  timestamps :: "u32 hashmap"
  shared_selections :: "selection_entry hashmap"
  persistent_clipboard :: "clipboard_entry hashmap"
  clipboard_pulses :: nat

record prop_client = "client_event ewmh_client" +
  clock :: nat
  incr_transfers :: "incr_transfer list"
  selection :: selection_state
  event_router :: "nat hashmap"
  own_tx :: nat
  selection_subscribers :: "u32 hashmap"

record change_property_request =
  cp_mode :: u8
  cp_window :: u32
  cp_property :: u32
  cp_type :: u32
  cp_format :: u8
  cp_data_len :: u32
  cp_data :: bytes

record get_property_request =
  gp_delete :: bool
  gp_window :: u32
  gp_property :: u32
  gp_type :: u32
  gp_long_offset :: u32
  gp_long_length :: u32

record get_property_reply =
  gr_format :: u8
  gr_type :: u32
  gr_bytes_after :: u32
  gr_value_len :: u32
  gr_value :: bytes

datatype property_reply = GetPropertyReply get_property_reply | ListPropertiesReply "u32 list"

type_synonym prop_result = "prop_client \<times> property_reply response"

definition PROPERTY_CHANGE :: u32 where "PROPERTY_CHANGE = 0x400000"
definition INCR :: u32 where "INCR = 138"

definition read_u32_from :: "prop_client \<Rightarrow> bytes \<Rightarrow> nat \<Rightarrow> u32" where
  "read_u32_from st data offset =
     (if msb_first st then of_be_bytes (take 4 (drop offset data))
      else of_le_bytes (take 4 (drop offset data)))"

definition property_notify :: "u32 \<Rightarrow> u32 \<Rightarrow> u8 \<Rightarrow> prop_client \<Rightarrow> client_event" where
  "property_notify wid atom state st =
     PropertyNotify \<lparr>pn_sequence = sequence st, pn_window = wid, pn_atom = atom, pn_time = timestamp st,
      pn_state = state\<rparr>"

section \<open>Incremental transfers\<close>

definition INCR_THRESHOLD :: nat where "INCR_THRESHOLD = 65536"
definition MAX_INCR_TRANSFERS :: nat where "MAX_INCR_TRANSFERS = 100"
definition INCR_TIMEOUT :: nat where "INCR_TIMEOUT = 5 * 1000000000"

definition cleanup_stale_incr_transfers :: "nat \<Rightarrow> prop_client \<Rightarrow> prop_client" where
  "cleanup_stale_incr_transfers timeout st =
     st\<lparr>incr_transfers :=
         filter (\<lambda>t. clock st - it_last_activity t < timeout) (incr_transfers st)\<rparr>"

definition push_incr_transfer :: "incr_transfer \<Rightarrow> prop_client \<Rightarrow> prop_client \<times> bool" where
  "push_incr_transfer t st =
     (let st = (if length (incr_transfers st) \<ge> MAX_INCR_TRANSFERS
                then cleanup_stale_incr_transfers INCR_TIMEOUT st else st)
      in if length (incr_transfers st) \<ge> MAX_INCR_TRANSFERS then (st, False)
         else (st\<lparr>incr_transfers := incr_transfers st @ [t]\<rparr>, True))"

definition start_incr_transfer ::
    "u32 \<Rightarrow> u32 \<Rightarrow> u32 \<Rightarrow> bytes \<Rightarrow> prop_client \<Rightarrow> prop_client \<times> bool" where
  "start_incr_transfer requestor property target data st =
     (let total_size = of_nat (length data) :: u32;
          st = modify_window requestor
                 (set_prop property
                    \<lparr>pv_type = INCR, pv_format = 32, pv_data = le_bytes 4 total_size\<rparr>) st;
          st = deliver_event requestor PROPERTY_CHANGE (property_notify requestor property 0 st) st
      in push_incr_transfer
           \<lparr>it_requestor = requestor, it_property = property, it_target = target, it_data = data,
            it_offset = 0, it_chunk_size = INCR_THRESHOLD, it_last_activity = clock st\<rparr> st)"

definition remove_nth :: "nat \<Rightarrow> 'a list \<Rightarrow> 'a list" where
  "remove_nth i xs = take i xs @ drop (Suc i) xs"

definition advance_incr_transfer :: "u32 \<Rightarrow> u32 \<Rightarrow> prop_client \<Rightarrow> prop_client" where
  "advance_incr_transfer wid property st =
     (case position (\<lambda>t. it_requestor t = wid \<and> it_property t = property) (incr_transfers st) of
        None \<Rightarrow> st
      | Some idx \<Rightarrow>
          (let t = (incr_transfers st ! idx)\<lparr>it_last_activity := clock st\<rparr>;
               st = st\<lparr>incr_transfers := (incr_transfers st)[idx := t]\<rparr>;
               remaining = length (it_data t) - it_offset t;
               st = (if remaining = 0
                     then
                       (let st = modify_window wid
                                   (set_prop property
                                      \<lparr>pv_type = it_target t, pv_format = 8, pv_data = []\<rparr>) st
                        in st\<lparr>incr_transfers := remove_nth idx (incr_transfers st)\<rparr>)
                     else
                       (let chunk_size = min remaining (it_chunk_size t);
                            chunk = take chunk_size (drop (it_offset t) (it_data t));
                            st = st\<lparr>incr_transfers := (incr_transfers st)[idx :=
                                      t\<lparr>it_offset := it_offset t + chunk_size\<rparr>]\<rparr>
                        in modify_window wid
                             (set_prop property
                                \<lparr>pv_type = it_target t, pv_format = 8, pv_data = chunk\<rparr>) st))
           in deliver_event wid PROPERTY_CHANGE (property_notify wid property 0 st) st))"

section \<open>ChangeProperty\<close>

definition byte_len_of :: "u8 \<Rightarrow> u32 \<Rightarrow> nat" where
  "byte_len_of format data_len =
     (if format = 16 then unat data_len * 2 else if format = 32 then unat data_len * 4
      else unat data_len)"

text \<open>The value a mode stores, given the value the window has now.\<close>

definition new_value ::
    "u8 \<Rightarrow> u32 \<Rightarrow> u8 \<Rightarrow> bytes \<Rightarrow> property_value option \<Rightarrow> property_value" where
  "new_value mode prop_type format new_data existing =
     (let replacement = \<lparr>pv_type = prop_type, pv_format = format, pv_data = new_data\<rparr>
      in if mode = 1
         then (case existing of
                 Some v \<Rightarrow> if pv_type v = prop_type \<and> pv_format v = format
                           then v\<lparr>pv_data := new_data @ pv_data v\<rparr> else replacement
               | None \<Rightarrow> replacement)
         else if mode = 2
         then (case existing of
                 Some v \<Rightarrow> if pv_type v = prop_type \<and> pv_format v = format
                           then v\<lparr>pv_data := pv_data v @ new_data\<rparr> else replacement
               | None \<Rightarrow> replacement)
         else replacement)"

definition store_property :: "change_property_request \<Rightarrow> bytes \<Rightarrow> prop_client \<Rightarrow> prop_client" where
  "store_property r new_data st =
     modify_window (cp_window r)
       (\<lambda>w. set_prop (cp_property r)
              (new_value (cp_mode r) (cp_type r) (cp_format r) new_data
                 (map_of (w_properties w) (cp_property r))) w) st"

definition publish_property :: "u32 \<Rightarrow> u32 \<Rightarrow> prop_client \<Rightarrow> prop_client" where
  "publish_property wid atom st =
     (case map_of (windows st) wid of
        None \<Rightarrow> st
      | Some w \<Rightarrow>
          (case map_of (w_properties w) atom of
             None \<Rightarrow> st
           | Some pv \<Rightarrow> modify_shared wid (set_prop atom pv) st))"

definition nonzero :: "u32 \<Rightarrow> u32 option" where
  "nonzero i = (if i \<noteq> 0 then Some i else None)"

definition note_transient_for :: "u32 \<Rightarrow> u32 \<Rightarrow> u8 \<Rightarrow> bytes \<Rightarrow> prop_client \<Rightarrow> prop_client" where
  "note_transient_for wid atom format value st =
     (if (atom = 68 \<or> is_named atom ''WM_TRANSIENT_FOR'' st) \<and> format = 32 \<and> length value \<ge> 4
      then modify_window wid (\<lambda>w. w\<lparr>w_transient_for := nonzero (read_u32_from st value 0)\<rparr>) st
      else st)"

definition note_sync_counter :: "u32 \<Rightarrow> u32 \<Rightarrow> u8 \<Rightarrow> bytes \<Rightarrow> prop_client \<Rightarrow> prop_client" where
  "note_sync_counter wid atom format value st =
     (if is_named atom ''_NET_WM_SYNC_REQUEST_COUNTER'' st \<and> format = 32 \<and> length value \<ge> 4
      then modify_window wid (\<lambda>w. w\<lparr>w_sync_counter := nonzero (read_u32_from st value 0)\<rparr>) st
      else st)"

definition note_window_type :: "u32 \<Rightarrow> u32 \<Rightarrow> u8 \<Rightarrow> bytes \<Rightarrow> prop_client \<Rightarrow> prop_client" where
  "note_window_type wid atom format value st =
     (if (atom = 79 \<or> is_named atom ''_NET_WM_WINDOW_TYPE'' st) \<and> format = 32 \<and> length value \<ge> 4
      then
        (let wtype = from_atom_ids (words_exact (\<lambda>c. read_u32_from st c 0) value);
             st = modify_window wid (\<lambda>w. w\<lparr>w_type := wtype\<rparr>) st
         in case map_of (windows st) wid of
              Some w \<Rightarrow> st\<lparr>windows := restack_by_window_type wid (w_parent w) (windows st)\<rparr>
            | None \<Rightarrow> st)
      else st)"

definition note_strut :: "u32 \<Rightarrow> u32 \<Rightarrow> u8 \<Rightarrow> bytes \<Rightarrow> prop_client \<Rightarrow> prop_client" where
  "note_strut wid atom format value st =
     (if (atom = 129 \<or> atom = 130 \<or> is_named atom ''_NET_WM_STRUT'' st
          \<or> is_named atom ''_NET_WM_STRUT_PARTIAL'' st) \<and> format = 32 \<and> length value \<ge> 16
      then
        (let rd = read_u32_from st value
         in recalculate_workarea
              (modify_window wid (\<lambda>w. w\<lparr>w_strut := Some (rd 0, rd 4, rd 8, rd 12)\<rparr>) st))
      else st)"

definition note_title :: "u32 \<Rightarrow> u32 \<Rightarrow> u8 \<Rightarrow> bytes \<Rightarrow> prop_client \<Rightarrow> prop_client" where
  "note_title wid atom format value st =
     (if (atom = 39 \<or> is_named atom ''_NET_WM_NAME'' st \<or> is_named atom ''WM_NAME'' st) \<and> format = 8
      then
        (let title = from_utf8_lossy value
         in if title \<noteq> []
            then (case window_uuid wid st of
                    Some uuid \<Rightarrow>
                      st\<lparr>messages := messages st @ [TitleChanged (client_id st) uuid title]\<rparr>
                  | None \<Rightarrow> st)
            else st)
      else st)"

definition trim_end_nul :: "bytes \<Rightarrow> bytes" where
  "trim_end_nul bs = rev (dropWhile (\<lambda>b. b = 0) (rev bs))"

definition gtk_set :: "string \<Rightarrow> bytes \<Rightarrow> gtk_menu_paths \<Rightarrow> gtk_menu_paths" where
  "gtk_set name value p =
     (if name = ''_GTK_UNIQUE_BUS_NAME'' then p\<lparr>bus_name := value\<rparr>
      else if name = ''_GTK_MENUBAR_OBJECT_PATH'' then p\<lparr>menubar_path := Some value\<rparr>
      else if name = ''_GTK_APP_MENU_OBJECT_PATH'' then p\<lparr>app_menu_path := Some value\<rparr>
      else if name = ''_GTK_APPLICATION_OBJECT_PATH'' then p\<lparr>app_actions_path := Some value\<rparr>
      else if name = ''_GTK_WINDOW_OBJECT_PATH'' then p\<lparr>win_actions_path := Some value\<rparr>
      else p)"

definition GTK_MENU_ATOMS :: "string list" where
  "GTK_MENU_ATOMS =
     [''_GTK_UNIQUE_BUS_NAME'', ''_GTK_MENUBAR_OBJECT_PATH'', ''_GTK_APP_MENU_OBJECT_PATH'',
      ''_GTK_APPLICATION_OBJECT_PATH'', ''_GTK_WINDOW_OBJECT_PATH'']"

definition note_gtk_menu :: "u32 \<Rightarrow> u32 \<Rightarrow> u8 \<Rightarrow> bytes \<Rightarrow> prop_client \<Rightarrow> prop_client" where
  "note_gtk_menu wid atom format value st =
     (if format \<noteq> 8 then st
      else
        (case find (\<lambda>n. is_named atom n st) GTK_MENU_ATOMS of
           None \<Rightarrow> st
         | Some name \<Rightarrow>
             (let val = trim_end_nul (from_utf8_lossy value);
                  entry = (case map_of (gtk_paths st) wid of
                             Some p \<Rightarrow> p
                           | None \<Rightarrow> \<lparr>bus_name = [], menubar_path = None, app_menu_path = None,
                                      app_actions_path = None, win_actions_path = None\<rparr>);
                  paths = gtk_set name val entry;
                  st = st\<lparr>gtk_paths := AList.update wid paths (gtk_paths st)\<rparr>
              in if has_menu paths
                 then (case window_uuid wid st of
                         Some uuid \<Rightarrow>
                           st\<lparr>messages := messages st @ [AttachGtk uuid (client_id st) paths]\<rparr>
                       | None \<Rightarrow> st)
                 else st)))"

definition note_wm_hints :: "u32 \<Rightarrow> u32 \<Rightarrow> u8 \<Rightarrow> bytes \<Rightarrow> prop_client \<Rightarrow> prop_client" where
  "note_wm_hints wid atom format value st =
     (if (atom = 35 \<or> is_named atom ''WM_HINTS'' st) \<and> format = 32 \<and> length value \<ge> 4
      then
        (let rd = read_u32_from st value;
             flags = rd 0;
             st = (if flags AND 1 \<noteq> 0 \<and> length value \<ge> 8
                   then modify_window wid (\<lambda>w. w\<lparr>w_hints_input := Some (rd 4 \<noteq> 0)\<rparr>) st else st);
             st = (if flags AND 2 \<noteq> 0 \<and> length value \<ge> 12
                   then modify_window wid (\<lambda>w. w\<lparr>w_initial_state := Some (rd 8)\<rparr>) st else st)
         in if flags AND 64 \<noteq> 0 \<and> length value \<ge> 36
            then modify_window wid (\<lambda>w. w\<lparr>w_window_group := nonzero (rd 32)\<rparr>) st else st)
      else st)"

text \<open>Everything after the store: publication, the notification and the interpreted properties.\<close>

definition interpret_property :: "u32 \<Rightarrow> u32 \<Rightarrow> u8 \<Rightarrow> bytes \<Rightarrow> prop_client \<Rightarrow> prop_client" where
  "interpret_property wid atom format value st =
     note_wm_hints wid atom format value
       (note_gtk_menu wid atom format value
         (note_title wid atom format value
           (note_strut wid atom format value
             (note_window_type wid atom format value
               (note_sync_counter wid atom format value
                 (note_transient_for wid atom format value st))))))"

definition handle_change_property ::
    "change_property_request \<Rightarrow> prop_client \<Rightarrow> prop_result option" where
  "handle_change_property r st =
     (let wid = cp_window r; atom = cp_property r; seq = sequence st;
          byte_len = byte_len_of (cp_format r) (cp_data_len r)
      in if atom \<noteq> 0 \<and> get_atom_name atom st = None
         then Some (st, ErrorReply (build_error ATOM_ERROR seq atom 18 0))
         else if cp_type r \<noteq> 0 \<and> get_atom_name (cp_type r) st = None
         then Some (st, ErrorReply (build_error ATOM_ERROR seq (cp_type r) 18 0))
         else if cp_format r \<notin> {8, 16, 32}
         then Some (st, ErrorReply (build_error VALUE_ERROR seq (ucast (cp_format r)) 18 0))
         else if map_of (windows st) wid = None
         then Some (st, ErrorReply (build_error WINDOW_ERROR seq wid 18 0))
         else if length (cp_data r) < byte_len then None
         else
           (let new_data = take byte_len (cp_data r);
                st = store_property r new_data st;
                st = publish_property wid atom st;
                st = deliver_event wid PROPERTY_CHANGE (property_notify wid atom 0 st) st
            in Some (interpret_property wid atom (cp_format r) new_data st, NoReply)))"

section \<open>DeleteProperty, GetProperty and ListProperties\<close>

definition window_exists :: "u32 \<Rightarrow> prop_client \<Rightarrow> bool" where
  "window_exists wid st \<longleftrightarrow>
     map_of (windows st) wid \<noteq> None \<or> map_of (shared_windows st) wid \<noteq> None"

definition remove_property :: "u32 \<Rightarrow> u32 \<Rightarrow> prop_client \<Rightarrow> prop_client" where
  "remove_property wid atom st =
     modify_shared wid (remove_prop atom) (modify_window wid (remove_prop atom) st)"

definition handle_delete_property :: "u32 \<times> u32 \<Rightarrow> prop_client \<Rightarrow> prop_result" where
  "handle_delete_property = (\<lambda>(wid, property) st.
     (if \<not> window_exists wid st
      then (st, ErrorReply (build_error WINDOW_ERROR (sequence st) wid 19 0))
      else if property \<noteq> 0 \<and> get_atom_name property st = None
      then (st, ErrorReply (build_error ATOM_ERROR (sequence st) property 19 0))
      else
        (let st = remove_property wid property st;
             event = property_notify wid property 1 st;
             st = (case map_of (windows st) wid of
                     Some w \<Rightarrow> if w_event_mask w AND PROPERTY_CHANGE \<noteq> 0 then push_event event st else st
                   | None \<Rightarrow> st);
             st = broadcast_event wid PROPERTY_CHANGE event st
         in (advance_incr_transfer wid property st, NoReply))))"

text \<open>The connection's own copy is asked first, the shared registry second.\<close>

definition visible_property :: "u32 \<Rightarrow> u32 \<Rightarrow> prop_client \<Rightarrow> property_value option" where
  "visible_property wid atom st =
     (case Option.bind (map_of (windows st) wid) (\<lambda>w. map_of (w_properties w) atom) of
        Some v \<Rightarrow> Some v
      | None \<Rightarrow> Option.bind (map_of (shared_windows st) wid) (\<lambda>w. map_of (w_properties w) atom))"

definition property_slice :: "property_value \<Rightarrow> u32 \<Rightarrow> u32 \<Rightarrow> bytes \<times> nat" where
  "property_slice v long_offset long_length =
     (let byte_offset = unat long_offset * 4;
          max_bytes = unat long_length * 4;
          total_bytes = length (pv_data v);
          available = total_bytes - byte_offset;
          return_bytes = min available max_bytes
      in (if byte_offset < total_bytes then take return_bytes (drop byte_offset (pv_data v)) else [],
          available - return_bytes))"

definition value_units :: "u8 \<Rightarrow> nat \<Rightarrow> u32" where
  "value_units format n =
     (if format = 16 then of_nat (n div 2) else if format = 32 then of_nat (n div 4) else of_nat n)"

definition handle_get_property :: "get_property_request \<Rightarrow> prop_client \<Rightarrow> prop_result" where
  "handle_get_property r st =
     (let wid = gp_window r; atom = gp_property r; seq = sequence st
      in if atom \<noteq> 0 \<and> get_atom_name atom st = None
         then (st, ErrorReply (build_error ATOM_ERROR seq atom 20 0))
         else if \<not> window_exists wid st
         then (st, ErrorReply (build_error WINDOW_ERROR seq wid 20 0))
         else
           (case visible_property wid atom st of
              None \<Rightarrow>
                (st, Reply (GetPropertyReply
                   \<lparr>gr_format = 0, gr_type = 0, gr_bytes_after = 0, gr_value_len = 0, gr_value = []\<rparr>))
            | Some v \<Rightarrow>
                (let (return_data, bytes_after) = property_slice v (gp_long_offset r) (gp_long_length r);
                     reply = GetPropertyReply
                       \<lparr>gr_format = pv_format v, gr_type = pv_type v,
                        gr_bytes_after = of_nat bytes_after,
                        gr_value_len = value_units (pv_format v) (length return_data),
                        gr_value = return_data\<rparr>;
                     st = (if gp_delete r \<and> bytes_after = 0
                           then
                             (let st = remove_property wid atom st;
                                  st = (if window_selects wid PROPERTY_CHANGE st
                                        then push_event (property_notify wid atom 1 st) st else st)
                              in advance_incr_transfer wid atom st)
                           else st)
                 in (st, Reply reply))))"

definition handle_list_properties :: "u32 \<Rightarrow> prop_client \<Rightarrow> prop_result" where
  "handle_list_properties wid st =
     (if \<not> window_exists wid st
      then (st, ErrorReply (build_error WINDOW_ERROR (sequence st) wid 21 0))
      else
        (let keys = (\<lambda>ws. case map_of ws wid of Some w \<Rightarrow> map fst (w_properties w) | None \<Rightarrow> []);
             atoms = fold (\<lambda>atom atoms. if atom \<in> set atoms then atoms else atoms @ [atom])
                       (keys (shared_windows st)) (keys (windows st))
         in (st, Reply (ListPropertiesReply atoms))))"

section \<open>Frame conditions\<close>

text \<open>What the steps leave alone: identity of the connection, and the properties of a window other
  than the one being set.\<close>

lemma modify_window_simps [simp]:
  "windows (modify_window wid f st) = AList.map_entry wid f (windows st)"
  "shared_windows (modify_window wid f st) = shared_windows st"
  "incr_transfers (modify_window wid f st) = incr_transfers st"
  "atom_table (modify_window wid f st) = atom_table st"
  "root_window (modify_window wid f st) = root_window st"
  "pending_events (modify_window wid f st) = pending_events st"
  "clock (modify_window wid f st) = clock st"
  "sequence (modify_window wid f st) = sequence st"
  "timestamp (modify_window wid f st) = timestamp st"
  by (simp_all add: modify_window_def)

lemma modify_shared_simps [simp]:
  "windows (modify_shared wid f st) = windows st"
  "shared_windows (modify_shared wid f st) = AList.map_entry wid f (shared_windows st)"
  "incr_transfers (modify_shared wid f st) = incr_transfers st"
  "atom_table (modify_shared wid f st) = atom_table st"
  "root_window (modify_shared wid f st) = root_window st"
  "clock (modify_shared wid f st) = clock st"
  by (simp_all add: modify_shared_def)

lemma deliver_event_simps [simp]:
  fixes st :: prop_client
  shows "windows (deliver_event wid m ev st) = windows st"
    "shared_windows (deliver_event wid m ev st) = shared_windows st"
    "incr_transfers (deliver_event wid m ev st) = incr_transfers st"
    "atom_table (deliver_event wid m ev st) = atom_table st"
    "root_window (deliver_event wid m ev st) = root_window st"
    "clock (deliver_event wid m ev st) = clock st"
  by (simp_all add: deliver_event_def broadcast_event_def push_event_def)

lemma broadcast_event_simps [simp]:
  fixes st :: prop_client
  shows "windows (broadcast_event wid m ev st) = windows st"
    "shared_windows (broadcast_event wid m ev st) = shared_windows st"
    "incr_transfers (broadcast_event wid m ev st) = incr_transfers st"
    "atom_table (broadcast_event wid m ev st) = atom_table st"
  by (simp_all add: broadcast_event_def)

lemma push_event_simps [simp]:
  fixes st :: prop_client
  shows "windows (push_event ev st) = windows st"
    "shared_windows (push_event ev st) = shared_windows st"
    "incr_transfers (push_event ev st) = incr_transfers st"
    "atom_table (push_event ev st) = atom_table st"
  by (simp_all add: push_event_def)

lemma set_prop_lookup [simp]:
  "map_of (w_properties (set_prop atom v w)) = (map_of (w_properties w))(atom \<mapsto> v)"
  by (simp add: set_prop_def)

lemma remove_prop_lookup [simp]:
  "map_of (w_properties (remove_prop atom w)) = (map_of (w_properties w))(atom := None)"
  by (simp add: remove_prop_def)

text \<open>The properties of the local copy of a window.\<close>

definition props_of :: "u32 \<Rightarrow> prop_client \<Rightarrow> (u32 \<rightharpoonup> property_value) option" where
  "props_of wid st = map_option (\<lambda>w. map_of (w_properties w)) (map_of (windows st) wid)"

lemma props_of_modify:
  "(\<And>w. map_of (w_properties (f w)) = g (map_of (w_properties w))) \<Longrightarrow>
   props_of w (modify_window wid f st) = (if w = wid then map_option g (props_of w st) else props_of w st)"
  by (auto simp: props_of_def option.map_comp comp_def)

lemma props_of_modify_same:
  "(\<And>w. w_properties (f w) = w_properties w) \<Longrightarrow> props_of w (modify_window wid f st) = props_of w st"
  by (auto simp: props_of_def option.map_comp comp_def)

lemma props_of_cong: "windows st' = windows st \<Longrightarrow> props_of wid st' = props_of wid st"
  by (simp add: props_of_def)

lemma props_of_restack:
  "props_of w (st\<lparr>windows := restack_by_window_type wid pid (windows st)\<rparr>) = props_of w st"
  by (simp add: props_of_def restack_by_window_type_def Let_def option.map_comp comp_def)

definition workarea_atom :: "prop_client \<Rightarrow> u32" where
  "workarea_atom st = snd (intern (name_bytes ''_NET_WORKAREA'') False (atom_table st))"

lemma windows_note_title [simp]: "windows (note_title wid atom fmt v st) = windows st"
  by (simp add: note_title_def Let_def split: option.split)

lemma windows_note_gtk_menu [simp]: "windows (note_gtk_menu wid atom fmt v st) = windows st"
proof -
  have "windows (if has_menu p then (case window_uuid wid s of
      Some uuid \<Rightarrow> s\<lparr>messages := messages s @ [AttachGtk uuid (client_id s) p]\<rparr> | None \<Rightarrow> s) else s) =
    windows s" for p and s :: prop_client
    by (simp split: option.split)
  then show ?thesis unfolding note_gtk_menu_def Let_def by (simp only: split: option.split if_split) simp
qed

lemma props_of_note_simple:
  "props_of w (note_transient_for wid atom fmt v st) = props_of w st"
  "props_of w (note_sync_counter wid atom fmt v st) = props_of w st"
  "props_of w (note_title wid atom fmt v st) = props_of w st"
  "props_of w (note_gtk_menu wid atom fmt v st) = props_of w st"
  "props_of w (note_wm_hints wid atom fmt v st) = props_of w st"
proof -
  show "props_of w (note_title wid atom fmt v st) = props_of w st"
    "props_of w (note_gtk_menu wid atom fmt v st) = props_of w st"
    by (rule props_of_cong, simp)+
qed (simp_all add: note_transient_for_def note_sync_counter_def note_wm_hints_def Let_def
      props_of_modify_same)

lemma props_of_note_window_type: "props_of w (note_window_type wid atom fmt v st) = props_of w st"
proof -
  have "props_of w (case map_of (windows st) wid of
      Some v \<Rightarrow> st\<lparr>windows := restack_by_window_type wid (w_parent v) (windows st)\<rparr> | None \<Rightarrow> st)
    = props_of w st" for st
    by (simp add: props_of_restack split: option.split)
  moreover have "props_of w (modify_window wid (w_type_update f) st) = props_of w st" for f
    by (rule props_of_modify_same) simp
  ultimately show ?thesis unfolding note_window_type_def Let_def by (simp only: split: if_split) simp
qed

lemma props_of_note_strut:
  "props_of w (note_strut wid atom fmt v st) = props_of w st \<or>
   w = root_window st \<and> (\<exists>pv. props_of w (note_strut wid atom fmt v st) =
     map_option (\<lambda>ps. ps(workarea_atom st \<mapsto> pv)) (props_of w st))"
proof -
  have root: "props_of w (recalculate_workarea st) = props_of w st \<or>
    w = root_window st \<and> (\<exists>pv. props_of w (recalculate_workarea st) =
     map_option (\<lambda>ps. ps(workarea_atom st \<mapsto> pv)) (props_of w st))" for st
    by (auto simp: recalculate_workarea_def workarea_atom_def Let_def props_of_def option.map_comp
        comp_def split: prod.splits)
  have "props_of w (recalculate_workarea (modify_window wid (w_strut_update f) st)) = props_of w st \<or>
    w = root_window st \<and> (\<exists>pv. props_of w (recalculate_workarea (modify_window wid (w_strut_update f) st)) =
     map_option (\<lambda>ps. ps(workarea_atom st \<mapsto> pv)) (props_of w st))" for f
    using root [of "modify_window wid (w_strut_update f) st"]
    by (simp add: props_of_modify_same workarea_atom_def)
  then show ?thesis unfolding note_strut_def Let_def by simp
qed

lemma atom_table_notes [simp]:
  "atom_table (note_transient_for wid atom fmt v st) = atom_table st"
  "atom_table (note_sync_counter wid atom fmt v st) = atom_table st"
  "atom_table (note_window_type wid atom fmt v st) = atom_table st"
  "root_window (note_transient_for wid atom fmt v st) = root_window st"
  "root_window (note_sync_counter wid atom fmt v st) = root_window st"
  "root_window (note_window_type wid atom fmt v st) = root_window st"
  by (auto simp: note_transient_for_def note_sync_counter_def note_window_type_def Let_def
      split: option.splits)

text \<open>Interpreting a property changes no property but the work area of the root window.\<close>

lemma interpret_property_keeps:
  assumes "props_of w st = Some ps" "w \<noteq> root_window st \<or> a \<noteq> workarea_atom st"
  shows "\<exists>ps'. props_of w (interpret_property wid atom fmt v st) = Some ps' \<and> ps' a = ps a"
proof -
  let ?s = "note_window_type wid atom fmt v (note_sync_counter wid atom fmt v (note_transient_for wid atom fmt v st))"
  have "props_of w ?s = Some ps" "workarea_atom ?s = workarea_atom st" "root_window ?s = root_window st"
    using assms(1) by (simp_all add: props_of_note_simple props_of_note_window_type workarea_atom_def)
  with props_of_note_strut [of w wid atom fmt v ?s] assms(2) show ?thesis
    by (auto simp: interpret_property_def props_of_note_simple)
qed

lemma store_property_props:
  "props_of (cp_window r) (store_property r d st) =
     map_option (\<lambda>ps. ps(cp_property r \<mapsto> new_value (cp_mode r) (cp_type r) (cp_format r) d (ps (cp_property r))))
       (props_of (cp_window r) st)"
  by (simp add: store_property_def props_of_def option.map_comp comp_def)

lemma store_property_root [simp]:
  "root_window (store_property r d st) = root_window st" "atom_table (store_property r d st) = atom_table st"
  by (simp_all add: store_property_def)

lemma publish_property_simps [simp]:
  "windows (publish_property wid atom st) = windows st"
  "root_window (publish_property wid atom st) = root_window st"
  "atom_table (publish_property wid atom st) = atom_table st"
  by (auto simp: publish_property_def split: option.splits)

text \<open>A request that passes all checks.\<close>

definition change_ok :: "change_property_request \<Rightarrow> prop_client \<Rightarrow> bool" where
  "change_ok r st \<longleftrightarrow>
     (cp_property r = 0 \<or> get_atom_name (cp_property r) st \<noteq> None) \<and>
     (cp_type r = 0 \<or> get_atom_name (cp_type r) st \<noteq> None) \<and> cp_format r \<in> {8, 16, 32} \<and>
     map_of (windows st) (cp_window r) \<noteq> None \<and>
     byte_len_of (cp_format r) (cp_data_len r) \<le> length (cp_data r)"

lemma visible_property_local: "props_of wid st = Some ps \<Longrightarrow> ps a = Some v \<Longrightarrow> visible_property wid a st = Some v"
  by (auto simp: props_of_def visible_property_def)

lemma visible_property_of_local:
  "props_of wid st = Some ps \<Longrightarrow> visible_property wid a st = (case ps a of Some v \<Rightarrow> Some v
     | None \<Rightarrow> Option.bind (map_of (shared_windows st) wid) (\<lambda>w. map_of (w_properties w) a))"
  by (auto simp: props_of_def visible_property_def split: option.splits)

text \<open>A connection with one window of its own, which has one property.\<close>

definition demo_client :: prop_client where
  "demo_client =
     \<lparr>resource_id_base = 0, next_xid = 0, freed_xids = [], msb_first = False, pending_events = [],
      client_id = ''a'', root_window = 1,
      windows = [(5, (window_at 1 0 0 8 6 [])\<lparr>w_properties :=
         [(200, \<lparr>pv_type = 200, pv_format = 8, pv_data = [1, 2]\<rparr>)]\<rparr>)],
      shared_windows = [], shared_dirty_windows = [], x11_to_uuid = (\<lambda>_. None),
      event_broadcaster = broadcaster_new, sent_events = [], sequence = 1, timestamp = 0,
      screen_width = 800, screen_height = 600,
      atom_table = \<lparr>atoms = [name_bytes ''P'' \<mapsto> 200], reverse = [200 \<mapsto> name_bytes ''P''],
                    next_atom = 201\<rparr>,
      gtk_paths = [], messages = [], clock = 0, incr_transfers = [],
      selection = \<lparr>owners = [], timestamps = [], shared_selections = [], persistent_clipboard = [],
                   clipboard_pulses = 0\<rparr>,
      event_router = [], own_tx = 0, selection_subscribers = []\<rparr>"

section \<open>Properties\<close>

text \<open>C13. What ChangeProperty stores is what is read back: a request that passes the checks is answered
  with nothing, and afterwards the property of the window holds the new data, or the new data
  before (Prepend) or after (Append) the old data when type and format agree. (Setting the server's
  own work area property on the root window is the one exception.)\<close>

theorem change_property_effect:
  assumes "change_ok r st" "props_of (cp_window r) st = Some ps"
    and "cp_window r \<noteq> root_window st \<or> cp_property r \<noteq> workarea_atom st"
  shows "\<exists>st'. handle_change_property r st = Some (st', NoReply) \<and>
    visible_property (cp_window r) (cp_property r) st' =
      Some \<lparr>pv_type = cp_type r, pv_format = cp_format r, pv_data =
        (let d = take (byte_len_of (cp_format r) (cp_data_len r)) (cp_data r)
         in case ps (cp_property r) of
              Some v \<Rightarrow> if pv_type v = cp_type r \<and> pv_format v = cp_format r
                        then (if cp_mode r = 1 then d @ pv_data v
                              else if cp_mode r = 2 then pv_data v @ d else d)
                        else d
            | None \<Rightarrow> d)\<rparr>"
proof -
  let ?d = "take (byte_len_of (cp_format r) (cp_data_len r)) (cp_data r)"
  let ?v = "new_value (cp_mode r) (cp_type r) (cp_format r) ?d (ps (cp_property r))"
  define s where "s = publish_property (cp_window r) (cp_property r) (store_property r ?d st)"
  define s' where "s' = deliver_event (cp_window r) PROPERTY_CHANGE (property_notify (cp_window r) (cp_property r) 0 s) s"
  have "props_of (cp_window r) s' = props_of (cp_window r) (store_property r ?d st)"
    by (rule props_of_cong) (simp add: s'_def s_def)
  then have "props_of (cp_window r) s' = Some (ps(cp_property r \<mapsto> ?v))"
    by (simp add: store_property_props assms(2))
  moreover have "root_window s' = root_window st" "workarea_atom s' = workarea_atom st"
    by (simp_all add: s'_def s_def workarea_atom_def)
  ultimately obtain ps' where "props_of (cp_window r)
      (interpret_property (cp_window r) (cp_property r) (cp_format r) ?d s') = Some ps'"
    "ps' (cp_property r) = Some ?v"
    using interpret_property_keeps [of "cp_window r" s' _ "cp_property r"] assms(3) by fastforce
  then have "visible_property (cp_window r) (cp_property r)
      (interpret_property (cp_window r) (cp_property r) (cp_format r) ?d s') = Some ?v"
    by (rule visible_property_local)
  moreover have "handle_change_property r st =
      Some (interpret_property (cp_window r) (cp_property r) (cp_format r) ?d s', NoReply)"
    using assms(1) by (auto simp: handle_change_property_def change_ok_def Let_def s'_def s_def)
  ultimately show ?thesis
    by (auto simp: new_value_def Let_def split: option.splits)
qed

lemma change_property_rejects:
  assumes "\<not> change_ok r st"
  shows "handle_change_property r st = None \<or> (\<exists>e. handle_change_property r st = Some (st, ErrorReply e))"
  using assms by (auto simp: handle_change_property_def change_ok_def Let_def)

theorem change_property_effect_witness:
  "\<exists>st'. handle_change_property
     \<lparr>cp_mode = 2, cp_window = 5, cp_property = 200, cp_type = 200, cp_format = 8, cp_data_len = 2,
      cp_data = [3, 4]\<rparr> demo_client = Some (st', NoReply) \<and>
    visible_property 5 200 st' = Some \<lparr>pv_type = 200, pv_format = 8, pv_data = [1, 2, 3, 4]\<rparr>"
  using change_property_effect [of "\<lparr>cp_mode = 2, cp_window = 5, cp_property = 200, cp_type = 200,
      cp_format = 8, cp_data_len = 2, cp_data = [3, 4]\<rparr>" demo_client
      "[200 \<mapsto> \<lparr>pv_type = 200, pv_format = 8, pv_data = [1, 2]\<rparr>]"]
  by (simp add: demo_client_def change_ok_def get_atom_name_def get_name_def byte_len_of_def
      props_of_def window_at_def fun_upd_def fun_eq_iff)

section \<open>Reading in pieces\<close>

text \<open>The value bytes of the reply to a read-only GetProperty.\<close>

definition read_value :: "u32 \<Rightarrow> u32 \<Rightarrow> u32 \<Rightarrow> u32 \<Rightarrow> prop_client \<Rightarrow> bytes" where
  "read_value wid atom long_offset long_length st =
     (case handle_get_property
             \<lparr>gp_delete = False, gp_window = wid, gp_property = atom, gp_type = 0,
              gp_long_offset = long_offset, gp_long_length = long_length\<rparr> st of
        (_, Reply (GetPropertyReply g)) \<Rightarrow> gr_value g
      | _ \<Rightarrow> [])"

lemma property_slice_simp:
  "property_slice v off len =
     (take (4 * unat len) (drop (4 * unat off) (pv_data v)),
      length (pv_data v) - 4 * unat off - 4 * unat len)"
  by (auto simp: property_slice_def Let_def min_def mult.commute)

lemma get_property_reply:
  assumes "visible_property (gp_window r) (gp_property r) st = Some v"
    and "gp_property r = 0 \<or> get_atom_name (gp_property r) st \<noteq> None"
  shows "snd (handle_get_property r st) = Reply (GetPropertyReply
      \<lparr>gr_format = pv_format v, gr_type = pv_type v,
       gr_bytes_after = of_nat (length (pv_data v) - 4 * unat (gp_long_offset r) - 4 * unat (gp_long_length r)),
       gr_value_len = value_units (pv_format v)
         (length (take (4 * unat (gp_long_length r)) (drop (4 * unat (gp_long_offset r)) (pv_data v)))),
       gr_value = take (4 * unat (gp_long_length r)) (drop (4 * unat (gp_long_offset r)) (pv_data v))\<rparr>)"
proof -
  have "window_exists (gp_window r) st"
    using assms(1) by (auto simp: visible_property_def window_exists_def split: option.splits bind_splits)
  with assms show ?thesis by (auto simp: handle_get_property_def Let_def property_slice_simp)
qed

lemma get_property_readonly:
  "\<not> gp_delete r \<Longrightarrow> fst (handle_get_property r st) = st"
  by (auto simp: handle_get_property_def Let_def split: option.splits prod.splits)

lemma read_value_slice:
  assumes "visible_property wid atom st = Some v" "atom = 0 \<or> get_atom_name atom st \<noteq> None"
  shows "read_value wid atom off len st = take (4 * unat len) (drop (4 * unat off) (pv_data v))"
  using get_property_reply [of "\<lparr>gp_delete = False, gp_window = wid, gp_property = atom, gp_type = 0,
      gp_long_offset = off, gp_long_length = len\<rparr>" st v] assms
  by (auto simp: read_value_def split: prod.split)

lemma concat_chunks: "concat (map (\<lambda>k. take m (drop (k * m) xs)) [0..<n]) = take (n * m) xs"
proof (induction n)
  case (Suc n)
  have "take (n * m) xs @ take m (drop (n * m) xs) = take (n * m + m) xs" by (simp add: take_add)
  with Suc show ?case by (simp add: add.commute)
qed simp

text \<open>Reading in pieces: a client that reads a property with offsets 0, L, 2L, ... and length L
  gets the stored bytes without gaps or repetition, each reply says how many bytes are left, and
  reading changes nothing.\<close>

theorem get_property_chunks:
  assumes "visible_property wid atom st = Some v" "atom = 0 \<or> get_atom_name atom st \<noteq> None"
    and "length (pv_data v) \<le> n * (4 * L)" "n * L < 4294967296" "L < 4294967296"
    and "length (pv_data v) < 4294967296"
  shows "concat (map (\<lambda>k. read_value wid atom (of_nat (k * L)) (of_nat L) st) [0..<n]) = pv_data v \<and>
    (k < n \<longrightarrow> (\<exists>g. handle_get_property
         \<lparr>gp_delete = False, gp_window = wid, gp_property = atom, gp_type = ty,
          gp_long_offset = of_nat (k * L), gp_long_length = of_nat L\<rparr> st = (st, Reply (GetPropertyReply g)) \<and>
       unat (gr_bytes_after g) = length (pv_data v) - 4 * (k * L) - 4 * L \<and>
       gr_format g = pv_format v \<and> gr_type g = pv_type v))"
proof -
  have off: "unat (of_nat (k * L) :: u32) = k * L" if "k < n" for k
  proof -
    have "k * L \<le> n * L" using that by simp
    then show ?thesis using assms(4) by (intro unat_of_nat32) linarith
  qed
  have len: "unat (of_nat L :: u32) = L" using assms(5) by (rule unat_of_nat32)
  have "map (\<lambda>k. read_value wid atom (of_nat (k * L)) (of_nat L) st) [0..<n] =
      map (\<lambda>k. take (4 * L) (drop (k * (4 * L)) (pv_data v))) [0..<n]"
    using off len by (auto simp: read_value_slice [OF assms(1,2)] mult.left_commute
        simp del: of_nat_mult)
  then have "concat (map (\<lambda>k. read_value wid atom (of_nat (k * L)) (of_nat L) st) [0..<n]) = pv_data v"
    using assms(3) by (simp only: concat_chunks take_all)
  moreover have "\<exists>g. handle_get_property r st = (st, Reply (GetPropertyReply g)) \<and>
       unat (gr_bytes_after g) = length (pv_data v) - 4 * (k * L) - 4 * L \<and>
       gr_format g = pv_format v \<and> gr_type g = pv_type v"
    if "k < n" "r = \<lparr>gp_delete = False, gp_window = wid, gp_property = atom, gp_type = ty,
          gp_long_offset = of_nat (k * L), gp_long_length = of_nat L\<rparr>" for r
    using get_property_reply [of r st v] get_property_readonly [of r st] assms(1,2) that
      unat_of_nat32 [of "length (pv_data v) - 4 * (k * L) - 4 * L"] off [OF that(1)] len assms(6)
    by (cases "handle_get_property r st") (simp del: of_nat_mult)
  ultimately show ?thesis by blast
qed

theorem get_property_chunks_witness:
  "concat (map (\<lambda>k. read_value 5 200 (of_nat (k * 1)) (of_nat 1) demo_client) [0..<1]) = [1, 2]"
  using get_property_chunks [of 5 200 demo_client
      "\<lparr>pv_type = 200, pv_format = 8, pv_data = [1, 2]\<rparr>" 1 1]
  by (simp add: demo_client_def visible_property_def get_atom_name_def get_name_def window_at_def)

section \<open>Incremental transfers\<close>

definition incr_ready ::
    "incr_transfer list \<Rightarrow> incr_transfer \<Rightarrow> u32 \<Rightarrow> u32 \<Rightarrow> prop_client \<Rightarrow> bool" where
  "incr_ready pre t wid atom st \<longleftrightarrow>
     map_of (windows st) wid \<noteq> None \<and> (atom = 0 \<or> get_atom_name atom st \<noteq> None) \<and>
     incr_transfers st = pre @ [t] \<and> it_requestor t = wid \<and> it_property t = atom \<and>
     (\<forall>x \<in> set pre. \<not> (it_requestor x = wid \<and> it_property x = atom))"

lemma delete_before_advance:
  assumes "incr_ready pre t wid atom st"
  shows "\<exists>st1. fst (handle_delete_property (wid, atom) st) = advance_incr_transfer wid atom st1 \<and>
    incr_ready pre t wid atom st1"
proof -
  from assms have "window_exists wid st" by (simp add: incr_ready_def window_exists_def)
  with assms show ?thesis
    by (auto simp: handle_delete_property_def Let_def incr_ready_def remove_property_def
        get_atom_name_def split: option.splits if_splits)
qed

lemma visible_after_set:
  assumes "windows st' = AList.map_entry wid (set_prop atom v) ws" "map_of ws wid \<noteq> None"
  shows "visible_property wid atom st' = Some v"
  using assms by (auto simp: visible_property_def)

lemma advance_chunk:
  assumes "incr_ready pre t wid atom st" "it_offset t < length (it_data t)"
  defines "n \<equiv> min (length (it_data t) - it_offset t) (it_chunk_size t)"
  shows "\<exists>t'. incr_ready pre t' wid atom (advance_incr_transfer wid atom st) \<and>
    it_data t' = it_data t \<and> it_offset t' = it_offset t + n \<and> it_chunk_size t' = it_chunk_size t \<and>
    it_target t' = it_target t \<and>
    visible_property wid atom (advance_incr_transfer wid atom st) =
      Some \<lparr>pv_type = it_target t, pv_format = 8, pv_data = take n (drop (it_offset t) (it_data t))\<rparr>"
proof -
  let ?t' = "t\<lparr>it_last_activity := clock st, it_offset := it_offset t + n\<rparr>"
  let ?v = "\<lparr>pv_type = it_target t, pv_format = 8, pv_data = take n (drop (it_offset t) (it_data t))\<rparr>"
  have pos: "position (\<lambda>t. it_requestor t = wid \<and> it_property t = atom) (incr_transfers st) = Some (length pre)"
    using assms(1) by (auto simp: incr_ready_def intro!: position_append)
  have st': "windows (advance_incr_transfer wid atom st) = AList.map_entry wid (set_prop atom ?v) (windows st)"
    "incr_transfers (advance_incr_transfer wid atom st) = pre @ [?t']"
    "atom_table (advance_incr_transfer wid atom st) = atom_table st"
    using assms pos by (simp_all add: advance_incr_transfer_def Let_def incr_ready_def list_update_append)
  have "visible_property wid atom (advance_incr_transfer wid atom st) = Some ?v"
    using st'(1) assms(1) by (intro visible_after_set [of _ _ _ _ "windows st"]) (auto simp: incr_ready_def)
  moreover have "incr_ready pre ?t' wid atom (advance_incr_transfer wid atom st)"
    using assms(1) st' by (simp add: incr_ready_def get_atom_name_def)
  ultimately show ?thesis by (intro exI [of _ ?t']) simp
qed

lemma advance_last:
  assumes "incr_ready pre t wid atom st" "it_offset t = length (it_data t)"
  shows "incr_transfers (advance_incr_transfer wid atom st) = pre"
    and "visible_property wid atom (advance_incr_transfer wid atom st) =
      Some \<lparr>pv_type = it_target t, pv_format = 8, pv_data = []\<rparr>"
proof -
  let ?v = "\<lparr>pv_type = it_target t, pv_format = 8, pv_data = []\<rparr>"
  have pos: "position (\<lambda>t. it_requestor t = wid \<and> it_property t = atom) (incr_transfers st) = Some (length pre)"
    using assms(1) by (auto simp: incr_ready_def intro!: position_append)
  have st': "windows (advance_incr_transfer wid atom st) = AList.map_entry wid (set_prop atom ?v) (windows st)"
    using assms pos by (simp add: advance_incr_transfer_def Let_def incr_ready_def)
  show "incr_transfers (advance_incr_transfer wid atom st) = pre"
    using assms pos by (simp add: advance_incr_transfer_def Let_def incr_ready_def remove_nth_def)
  show "visible_property wid atom (advance_incr_transfer wid atom st) = Some ?v"
    using st' assms(1) by (intro visible_after_set [of _ _ _ _ "windows st"]) (auto simp: incr_ready_def)
qed

text \<open>The values a requestor finds after each of \<open>n\<close> DeleteProperty requests.\<close>

fun consume :: "nat \<Rightarrow> u32 \<Rightarrow> u32 \<Rightarrow> prop_client \<Rightarrow> property_value option list \<times> prop_client" where
  "consume 0 wid atom st = ([], st)"
| "consume (Suc n) wid atom st =
     (let st' = fst (handle_delete_property (wid, atom) st);
          (vs, st'') = consume n wid atom st'
      in (visible_property wid atom st' # vs, st''))"

definition chunk_value :: "u32 \<Rightarrow> bytes \<Rightarrow> property_value option" where
  "chunk_value target chunk = Some \<lparr>pv_type = target, pv_format = 8, pv_data = chunk\<rparr>"

lemma consume_transfer:
  assumes "incr_ready pre t wid atom st" "it_offset t \<le> length (it_data t)" "0 < it_chunk_size t"
    and "length (it_data t) - it_offset t \<le> n * it_chunk_size t"
    and "n * it_chunk_size t < length (it_data t) - it_offset t + it_chunk_size t"
  shows "\<exists>chunks. fst (consume (Suc n) wid atom st) = map (chunk_value (it_target t)) (chunks @ [[]]) \<and>
    concat chunks = drop (it_offset t) (it_data t) \<and> [] \<notin> set chunks \<and>
    (\<forall>c \<in> set chunks. length c \<le> it_chunk_size t) \<and>
    incr_transfers (snd (consume (Suc n) wid atom st)) = pre"
  using assms
proof (induction n arbitrary: t st)
  case 0
  then have off: "it_offset t = length (it_data t)" by simp
  from delete_before_advance [OF 0(1)] obtain st1 where st1:
    "fst (handle_delete_property (wid, atom) st) = advance_incr_transfer wid atom st1"
    "incr_ready pre t wid atom st1" by blast
  from advance_last [OF st1(2) off] off show ?case
    by (intro exI [of _ "[]"]) (simp add: st1(1) chunk_value_def)
next
  case (Suc n)
  let ?n = "min (length (it_data t) - it_offset t) (it_chunk_size t)"
  let ?st' = "fst (handle_delete_property (wid, atom) st)"
  have lt: "it_offset t < length (it_data t)" using Suc.prems(5) by simp
  from delete_before_advance [OF Suc.prems(1)] obtain st1 where st1:
    "?st' = advance_incr_transfer wid atom st1" "incr_ready pre t wid atom st1" by blast
  from advance_chunk [OF st1(2) lt] obtain t' where t': "incr_ready pre t' wid atom ?st'"
    "it_data t' = it_data t" "it_offset t' = it_offset t + ?n" "it_chunk_size t' = it_chunk_size t"
    "it_target t' = it_target t"
    "visible_property wid atom ?st' = chunk_value (it_target t) (take ?n (drop (it_offset t) (it_data t)))"
    unfolding st1(1) chunk_value_def by blast
  have "it_offset t' \<le> length (it_data t')" "0 < it_chunk_size t'"
    "length (it_data t') - it_offset t' \<le> n * it_chunk_size t'"
    using Suc.prems lt by (auto simp: t' min_def)
  moreover have "n * it_chunk_size t' < length (it_data t') - it_offset t' + it_chunk_size t'"
    using Suc.prems(5) by (cases "it_chunk_size t \<le> length (it_data t) - it_offset t"; cases n)
      (auto simp: t' min_def)
  ultimately obtain chunks where c:
    "fst (consume (Suc n) wid atom ?st') = map (chunk_value (it_target t)) (chunks @ [[]])"
    "concat chunks = drop (it_offset t + ?n) (it_data t)" "[] \<notin> set chunks"
    "\<forall>c \<in> set chunks. length c \<le> it_chunk_size t"
    "incr_transfers (snd (consume (Suc n) wid atom ?st')) = pre"
    using Suc.IH [OF t'(1)] t'(2-5) by metis
  let ?c = "take ?n (drop (it_offset t) (it_data t))"
  have "?c @ drop (it_offset t + ?n) (it_data t) = drop (it_offset t) (it_data t)"
    by (metis append_take_drop_id drop_drop add.commute)
  moreover have "?c \<noteq> []" "length ?c \<le> it_chunk_size t" using lt Suc.prems(3) by auto
  ultimately show ?case
    using c t'(6) by (intro exI [of _ "?c # chunks"]) (simp add: Let_def split: prod.splits)
qed

text \<open>C4. Incremental transfers are complete: once a transfer has been accepted for a window and property
  that have none, a requestor that deletes the property once per chunk and once more sees all the
  data in order, in non-empty pieces of at most 64 KiB and of the target type, then an empty value,
  and the transfer is gone; before that, the property announces the size.\<close>

theorem incr_transfer_delivers:
  assumes "start_incr_transfer wid atom target data st = (st', True)"
    and "map_of (windows st) wid \<noteq> None" "atom = 0 \<or> get_atom_name atom st \<noteq> None"
    and "\<forall>x \<in> set (incr_transfers st). \<not> (it_requestor x = wid \<and> it_property x = atom)"
    and "n = (length data + 65535) div 65536"
  shows "visible_property wid atom st' =
      Some \<lparr>pv_type = INCR, pv_format = 32, pv_data = le_bytes 4 (of_nat (length data) :: u32)\<rparr> \<and>
    (\<exists>chunks. fst (consume (Suc n) wid atom st') = map (chunk_value target) (chunks @ [[]]) \<and>
       concat chunks = data \<and> [] \<notin> set chunks \<and> (\<forall>c \<in> set chunks. length c \<le> 65536) \<and>
       (\<forall>x \<in> set (incr_transfers (snd (consume (Suc n) wid atom st'))).
          \<not> (it_requestor x = wid \<and> it_property x = atom)))"
proof -
  let ?v = "\<lparr>pv_type = INCR, pv_format = 32, pv_data = le_bytes 4 (of_nat (length data) :: u32)\<rparr>"
  let ?t = "\<lparr>it_requestor = wid, it_property = atom, it_target = target, it_data = data,
            it_offset = 0, it_chunk_size = INCR_THRESHOLD, it_last_activity = clock st\<rparr>"
  from assms(1) obtain pre where st':
    "windows st' = AList.map_entry wid (set_prop atom ?v) (windows st)" "atom_table st' = atom_table st"
    "incr_transfers st' = pre @ [?t]" "set pre \<subseteq> set (incr_transfers st)"
    by (auto simp: start_incr_transfer_def push_incr_transfer_def cleanup_stale_incr_transfers_def
        Let_def split: if_splits)
  have ready: "incr_ready pre ?t wid atom st'"
    using assms(2,3,4) st' by (auto simp: incr_ready_def get_atom_name_def)
  have "visible_property wid atom st' = Some ?v"
    using visible_after_set [OF st'(1) assms(2)] .
  moreover have "length data \<le> n * 65536" "n * 65536 < length data + 65536"
    using assms(5) by simp_all
  ultimately show ?thesis
    using consume_transfer [OF ready, of n] st'(4) assms(4) by (auto simp: INCR_THRESHOLD_def)
qed

theorem incr_transfer_delivers_witness:
  "\<exists>chunks. fst (consume 2 5 200 (fst (start_incr_transfer 5 200 31 [7, 8, 9] demo_client))) =
     map (chunk_value 31) (chunks @ [[]]) \<and> concat chunks = [7, 8, 9]"
proof -
  have "start_incr_transfer 5 200 31 [7, 8, 9] demo_client =
      (fst (start_incr_transfer 5 200 31 [7, 8, 9] demo_client), True)"
    by (simp add: start_incr_transfer_def push_incr_transfer_def demo_client_def Let_def
        MAX_INCR_TRANSFERS_def modify_window_def deliver_event_def broadcast_event_def push_event_def)
  from incr_transfer_delivers [OF this, of 1] show ?thesis
    by (auto simp: demo_client_def get_atom_name_def get_name_def numeral_2_eq_2)
qed

section \<open>Properties of windows of other connections\<close>

text \<open>A property value that a connection holds in its own copy of a window is not replaced: whatever
  other connections have written to the shared registry since, after synchronising with it
  GetProperty still answers with the old value. This holds for windows of other connections and for the
  connection's own windows alike.\<close>

theorem cached_property_stale:
  assumes "local_property st (gp_window r) (gp_property r) = Some v" "wf_hashmap (windows st)"
    and "gp_window r \<in> fst ` set shared'"
    and "gp_property r = 0 \<or> get_atom_name (gp_property r) st \<noteq> None"
  shows "\<exists>g. snd (handle_get_property r (sync_windows (st\<lparr>shared_windows := shared'\<rparr>))) =
      Reply (GetPropertyReply g) \<and> gr_type g = pv_type v \<and> gr_format g = pv_format v \<and>
    gr_value g = take (4 * unat (gp_long_length r)) (drop (4 * unat (gp_long_offset r)) (pv_data v))"
proof -
  let ?st = "sync_windows (st\<lparr>shared_windows := shared'\<rparr>)"
  have "local_property ?st (gp_window r) (gp_property r) = Some v"
    using assms(1-3) by (intro sync_keeps_local_property) (simp_all add: local_property_def)
  then have "visible_property (gp_window r) (gp_property r) ?st = Some v"
    by (auto simp: local_property_def visible_property_def split: option.splits)
  moreover have "get_atom_name a ?st = get_atom_name a st" for a
    by (simp add: sync_windows_def get_atom_name_def Let_def)
  ultimately show ?thesis using get_property_reply [of r ?st v] assms(4) by simp
qed

text \<open>Here another connection has replaced the bytes 1, 2 by 9 in the shared registry.\<close>

theorem cached_property_stale_witness:
  "\<exists>g. snd (handle_get_property
     \<lparr>gp_delete = False, gp_window = 5, gp_property = 200, gp_type = 0, gp_long_offset = 0, gp_long_length = 1\<rparr>
     (sync_windows (demo_client\<lparr>shared_windows := [(5, (window_at 1 0 0 8 6 [])\<lparr>w_properties :=
         [(200, \<lparr>pv_type = 200, pv_format = 8, pv_data = [9]\<rparr>)]\<rparr>)]\<rparr>))) =
     Reply (GetPropertyReply g) \<and> gr_value g = [1, 2]"
proof -
  let ?r = "\<lparr>gp_delete = False, gp_window = 5, gp_property = 200, gp_type = 0, gp_long_offset = 0,
      gp_long_length = 1\<rparr>"
  have "local_property demo_client (gp_window ?r) (gp_property ?r) =
      Some \<lparr>pv_type = 200, pv_format = 8, pv_data = [1, 2]\<rparr>" "wf_hashmap (windows demo_client)"
    by (simp_all add: local_property_def demo_client_def window_at_def wf_hashmap_def)
  from cached_property_stale [OF this, of "[(5, (window_at 1 0 0 8 6 [])\<lparr>w_properties :=
         [(200, \<lparr>pv_type = 200, pv_format = 8, pv_data = [9]\<rparr>)]\<rparr>)]"] show ?thesis
    by (auto simp: get_atom_name_def get_name_def demo_client_def)
qed

end
