(* ===== verification/Selection.thy ===== *)
theory Selection
  imports Property
begin

text \<open>
  Selections (\<open>handlers/property/selection.rs\<close>): SetSelectionOwner, GetSelectionOwner and
  ConvertSelection with the targets DELETE, TIMESTAMP and MULTIPLE, the clipboard the server keeps
  after its owner has gone (\<open>handlers/property.rs\<close>, the end of \<open>handlers/property/event.rs\<close>) and the
  part of the clean-up of a connection that concerns selections (\<open>connection/mod.rs\<close>).

  Several connections are a family of states that agree on what is shared; one of them acts and the
  others adopt the shared part of its new state.
\<close>

unbundle bit_operations_syntax

section \<open>Routing\<close>

text \<open>\<open>EventRouter::send_event\<close>, and the queue of the own connection as the fallback.\<close>

definition route_event :: "u32 \<Rightarrow> client_event \<Rightarrow> prop_client \<Rightarrow> prop_client \<times> bool" where
  "route_event wid ev st =
     (case map_of (event_router st) wid of
        Some tx \<Rightarrow> (st\<lparr>sent_events := sent_events st @ [(tx, ev)]\<rparr>, True)
      | None \<Rightarrow> (st, False))"

definition send_or_queue :: "u32 \<Rightarrow> client_event \<Rightarrow> prop_client \<Rightarrow> prop_client" where
  "send_or_queue wid ev st =
     (let (st', sent) = route_event wid ev st in if sent then st' else push_event ev st')"

definition upd_selection :: "(selection_state \<Rightarrow> selection_state) \<Rightarrow> prop_client \<Rightarrow> prop_client" where
  "upd_selection f st = st\<lparr>selection := f (selection st)\<rparr>"

definition CLIPBOARD_MANAGER_WINDOW :: u32 where "CLIPBOARD_MANAGER_WINDOW = 0x14"
definition ATOM :: u32 where "ATOM = 4"
definition CLIPBOARD :: u32 where "CLIPBOARD = 134"
definition TARGETS :: u32 where "TARGETS = 135"
definition MULTIPLE :: u32 where "MULTIPLE = 136"
definition TIMESTAMP :: u32 where "TIMESTAMP = 137"
definition DELETE :: u32 where "DELETE = 190"

definition text_targets :: "u32 list" where "text_targets = [31, 133, 181, 182]"

definition selection_notify :: "u32 \<Rightarrow> u32 \<Rightarrow> u32 \<Rightarrow> u32 \<Rightarrow> prop_client \<Rightarrow> client_event" where
  "selection_notify requestor sel target property st =
     SelectionNotify \<lparr>sn_sequence = sequence st, sn_time = timestamp st, sn_requestor = requestor,
       sn_selection = sel, sn_target = target, sn_property = property\<rparr>"

definition selection_request :: "u32 \<Rightarrow> u32 \<Rightarrow> u32 \<Rightarrow> u32 \<Rightarrow> u32 \<Rightarrow> prop_client \<Rightarrow> client_event" where
  "selection_request owner requestor sel target property st =
     SelectionRequest \<lparr>sr_sequence = sequence st, sr_time = timestamp st, sr_owner = owner,
       sr_requestor = requestor, sr_selection = sel, sr_target = target, sr_property = property\<rparr>"

text \<open>\<open>write_u32\<close> into a fresh buffer of four bytes.\<close>

definition client_word :: "prop_client \<Rightarrow> u32 \<Rightarrow> bytes" where
  "client_word st v = (if msb_first st then be_bytes 4 v else le_bytes 4 v)"

definition store_value :: "u32 \<Rightarrow> u32 \<Rightarrow> u32 \<Rightarrow> u8 \<Rightarrow> bytes \<Rightarrow> prop_client \<Rightarrow> prop_client" where
  "store_value wid property ptype format data =
     modify_window wid (set_prop property \<lparr>pv_type = ptype, pv_format = format, pv_data = data\<rparr>)"

section \<open>SetSelectionOwner and GetSelectionOwner\<close>

definition shared_owner :: "u32 \<Rightarrow> selection_state \<Rightarrow> u32" where
  "shared_owner sel s = (case map_of (shared_selections s) sel of Some e \<Rightarrow> se_owner e | None \<Rightarrow> 0)"

definition known_owner :: "u32 \<Rightarrow> prop_client \<Rightarrow> u32" where
  "known_owner sel st =
     (case map_of (owners (selection st)) sel of
        Some w \<Rightarrow> w | None \<Rightarrow> shared_owner sel (selection st))"

definition clear_previous_owner :: "u32 \<Rightarrow> u32 \<Rightarrow> prop_client \<Rightarrow> prop_client" where
  "clear_previous_owner owner sel st =
     (let prev = known_owner sel st
      in if prev \<noteq> 0 \<and> prev \<noteq> owner \<and> prev \<noteq> CLIPBOARD_MANAGER_WINDOW
         then (let ev = SelectionClear \<lparr>sc_sequence = sequence st, sc_time = timestamp st, sc_owner = prev,
                                        sc_selection = sel\<rparr>
               in if x11_to_uuid st prev \<noteq> None then push_event ev st else fst (route_event prev ev st))
         else st)"

definition disown :: "u32 \<Rightarrow> selection_state \<Rightarrow> selection_state" where
  "disown sel s =
     s\<lparr>owners := AList.delete sel (owners s), timestamps := AList.delete sel (timestamps s),
       shared_selections := AList.delete sel (shared_selections s)\<rparr>"

definition own :: "u32 \<Rightarrow> u32 \<Rightarrow> nat \<Rightarrow> u32 \<Rightarrow> selection_state \<Rightarrow> selection_state" where
  "own sel owner tx ts s =
     s\<lparr>owners := AList.update sel owner (owners s), timestamps := AList.update sel ts (timestamps s),
       shared_selections := AList.update sel \<lparr>se_owner = owner, se_tx = tx, se_timestamp = ts\<rparr>
         (shared_selections s)\<rparr>"

definition xfixes_notify :: "u32 \<Rightarrow> u32 \<Rightarrow> prop_client \<Rightarrow> client_event" where
  "xfixes_notify owner sel st =
     XFixesSelectionNotify \<lparr>xsn_sequence = sequence st, xsn_window = root_window st, xsn_owner = owner,
       xsn_selection = sel, xsn_timestamp = timestamp st\<rparr>"

definition notify_subscribers :: "u32 \<Rightarrow> u32 \<Rightarrow> prop_client \<Rightarrow> prop_client" where
  "notify_subscribers owner sel st =
     (case map_of (selection_subscribers st) sel of
        Some event_mask \<Rightarrow> if event_mask AND 1 \<noteq> 0 then push_event (xfixes_notify owner sel st) st else st
      | None \<Rightarrow> st)"

definition handle_set_selection_owner ::
    "u32 \<Rightarrow> u32 \<Rightarrow> prop_client \<Rightarrow> prop_client \<times> unit response" where
  "handle_set_selection_owner owner sel st =
     (if sel \<noteq> 0 \<and> get_atom_name sel st = None
      then (st, ErrorReply (build_error ATOM_ERROR (sequence st) sel 22 0))
      else
        (let st = clear_previous_owner owner sel st;
             st = (if owner \<noteq> 0
                   then upd_selection (persistent_clipboard_update (AList.delete sel)) st else st);
             st = upd_selection (if owner = 0 then disown sel else own sel owner (own_tx st) (timestamp st)) st;
             st = notify_subscribers owner sel st
         in (upd_selection (clipboard_pulses_update Suc) st, NoReply)))"

definition handle_get_selection_owner :: "u32 \<Rightarrow> prop_client \<Rightarrow> prop_client \<times> u32 response" where
  "handle_get_selection_owner sel st = (st, Reply (known_owner sel st))"

section \<open>The clipboard kept by the server\<close>

definition offered_targets :: "clipboard_entry \<Rightarrow> u32 list" where
  "offered_targets e =
     (let ids = map fst (ce_targets e);
          add = (\<lambda>a l. if a \<in> set l then l else l @ [a]);
          ids = (if list_ex (\<lambda>a. a \<in> set text_targets) ids then fold add text_targets ids else ids)
      in add TIMESTAMP (add TARGETS ids))"

definition serve_persistent_clipboard ::
    "u32 \<Rightarrow> u32 \<Rightarrow> u32 \<Rightarrow> u32 \<Rightarrow> prop_client \<Rightarrow> prop_client \<times> bool" where
  "serve_persistent_clipboard sel target property requestor st =
     (let finish = (\<lambda>st. (send_or_queue requestor (selection_notify requestor sel target property st) st, True))
      in case map_of (persistent_clipboard (selection st)) sel of
           None \<Rightarrow> (st, False)
         | Some e \<Rightarrow>
             if target = TARGETS
             then finish (store_value requestor property ATOM 32
                            (concat (map (le_bytes 4) (offered_targets e))) st)
             else if target = TIMESTAMP
             then finish (store_value requestor property CARDINAL 32 (client_word st (ce_timestamp e)) st)
             else
               (case map_of (ce_targets e) target of
                  Some data \<Rightarrow>
                    if length data > INCR_THRESHOLD
                    then finish (fst (start_incr_transfer requestor property target data st))
                    else finish (store_value requestor property target 8 data st)
                | None \<Rightarrow>
                    if target \<in> set text_targets
                    then (case find (\<lambda>alt. map_of (ce_targets e) alt \<noteq> None) text_targets of
                            Some alt \<Rightarrow>
                              finish (store_value requestor property target 8
                                        (the (map_of (ce_targets e) alt)) st)
                          | None \<Rightarrow> (st, False))
                    else (st, False)))"

text \<open>What SendEvent saves when an owner answers a request for the clipboard.\<close>

definition cache_clipboard :: "u32 \<Rightarrow> u32 \<Rightarrow> u32 \<Rightarrow> u32 \<Rightarrow> prop_client \<Rightarrow> prop_client" where
  "cache_clipboard requestor sel target property st =
     (if sel = CLIPBOARD \<and> property \<noteq> 0
      then
        (let lookup = (\<lambda>ws. case map_of ws requestor of
                             Some w \<Rightarrow> map_option pv_data (map_of (w_properties w) property)
                           | None \<Rightarrow> None)
         in case (case lookup (windows st) of Some d \<Rightarrow> Some d | None \<Rightarrow> lookup (shared_windows st)) of
              None \<Rightarrow> st
            | Some data \<Rightarrow>
                upd_selection (\<lambda>s.
                  (let e = (case map_of (persistent_clipboard s) CLIPBOARD of
                              Some e \<Rightarrow> e | None \<Rightarrow> \<lparr>ce_targets = [], ce_timestamp = timestamp st\<rparr>)
                   in s\<lparr>persistent_clipboard := AList.update CLIPBOARD
                         \<lparr>ce_targets = AList.update target data (ce_targets e),
                          ce_timestamp = timestamp st\<rparr> (persistent_clipboard s)\<rparr>)) st)
      else st)"

section \<open>ConvertSelection\<close>

record convert_request =
  cv_requestor :: u32
  cv_selection :: u32
  cv_target :: u32
  cv_property :: u32

text \<open>The entry of another connection, unless the server owns the selection itself.\<close>

definition remote_entry :: "u32 \<Rightarrow> prop_client \<Rightarrow> selection_entry option" where
  "remote_entry sel st =
     (case map_of (shared_selections (selection st)) sel of
        Some e \<Rightarrow> if se_owner e \<noteq> CLIPBOARD_MANAGER_WINDOW then Some e else None
      | None \<Rightarrow> None)"

definition server_owned :: "u32 \<Rightarrow> prop_client \<Rightarrow> bool" where
  "server_owned sel st \<longleftrightarrow>
     (case map_of (shared_selections (selection st)) sel of
        Some e \<Rightarrow> se_owner e = CLIPBOARD_MANAGER_WINDOW | None \<Rightarrow> False)"

definition convert_delete :: "convert_request \<Rightarrow> u32 \<Rightarrow> prop_client \<Rightarrow> prop_client" where
  "convert_delete r effective_property st =
     (let sel = cv_selection r;
          st = upd_selection (\<lambda>s. persistent_clipboard_update (AList.delete sel) (disown sel s)) st
      in send_or_queue (cv_requestor r)
           (selection_notify (cv_requestor r) sel (cv_target r) effective_property st) st)"

definition convert_timestamp :: "convert_request \<Rightarrow> u32 \<Rightarrow> prop_client \<Rightarrow> prop_client" where
  "convert_timestamp r effective_property st =
     (let sel = cv_selection r; requestor = cv_requestor r;
          sel_ts = (case map_of (timestamps (selection st)) sel of
                      Some ts \<Rightarrow> Some ts
                    | None \<Rightarrow> map_option se_timestamp (map_of (shared_selections (selection st)) sel));
          st = (case sel_ts of
                  Some ts \<Rightarrow> store_value requestor effective_property CARDINAL 32 (client_word st ts) st
                | None \<Rightarrow> st);
          reply_property = (if sel_ts = None then 0 else effective_property)
      in send_or_queue requestor (selection_notify requestor sel (cv_target r) reply_property st) st)"

fun atom_pairs :: "bytes \<Rightarrow> (u32 \<times> u32) list" where
  "atom_pairs (a # b # c # d # e # f # g # h # rest) =
     (of_le_bytes [a, b, c, d], of_le_bytes [e, f, g, h]) # atom_pairs rest"
| "atom_pairs rest = []"

definition multiple_pairs :: "u32 \<Rightarrow> u32 \<Rightarrow> prop_client \<Rightarrow> (u32 \<times> u32) list" where
  "multiple_pairs requestor property st =
     (case map_of (windows st) requestor of
        Some w \<Rightarrow>
          (case map_of (w_properties w) property of
             Some pv \<Rightarrow> if pv_format pv = 32 then atom_pairs (pv_data pv) else []
           | None \<Rightarrow> [])
      | None \<Rightarrow> [])"

definition multiple_timestamp :: "u32 \<Rightarrow> selection_entry option \<Rightarrow> bool \<Rightarrow> prop_client \<Rightarrow> u32 option" where
  "multiple_timestamp sel remote served st =
     (case map_of (timestamps (selection st)) sel of
        Some ts \<Rightarrow> Some ts
      | None \<Rightarrow>
          (case remote of
             Some e \<Rightarrow> Some (se_timestamp e)
           | None \<Rightarrow>
               if served
               then map_option ce_timestamp (map_of (persistent_clipboard (selection st)) sel) else None))"

text \<open>One pair of a MULTIPLE conversion; the owner is looked up once, before the loop.\<close>

definition convert_pair ::
    "u32 \<Rightarrow> u32 \<Rightarrow> u32 option \<Rightarrow> selection_entry option \<Rightarrow> bool \<Rightarrow>
     u32 \<times> u32 \<Rightarrow> prop_client \<Rightarrow> prop_client \<times> u32 \<times> u32" where
  "convert_pair requestor sel owner_local remote served = (\<lambda>(pt, pp) st.
     if pt = TIMESTAMP
     then (case multiple_timestamp sel remote served st of
             Some ts \<Rightarrow> (store_value requestor pp CARDINAL 32 (client_word st ts) st, pt, pp)
           | None \<Rightarrow> (st, pt, 0))
     else if served
     then (let (st', ok) = serve_persistent_clipboard sel pt pp requestor st
           in (st', pt, if ok then pp else 0))
     else
       (case owner_local of
          Some owner \<Rightarrow> (push_event (selection_request owner requestor sel pt pp st) st, pt, pp)
        | None \<Rightarrow>
            (case remote of
               Some e \<Rightarrow>
                 (st\<lparr>sent_events := sent_events st @
                       [(se_tx e, selection_request (se_owner e) requestor sel pt pp st)]\<rparr>, pt, pp)
             | None \<Rightarrow> (st, pt, 0))))"

fun convert_pairs ::
    "(u32 \<times> u32 \<Rightarrow> prop_client \<Rightarrow> prop_client \<times> u32 \<times> u32) \<Rightarrow> (u32 \<times> u32) list \<Rightarrow> prop_client \<Rightarrow>
     prop_client \<times> (u32 \<times> u32) list" where
  "convert_pairs conv [] st = (st, [])"
| "convert_pairs conv (p # ps) st =
     (let (st, q) = conv p st; (st, qs) = convert_pairs conv ps st in (st, q # qs))"

definition pair_bytes :: "(u32 \<times> u32) list \<Rightarrow> bytes" where
  "pair_bytes ps = concat (map (\<lambda>(t, p). le_bytes 4 t @ le_bytes 4 p) ps)"

definition convert_multiple :: "convert_request \<Rightarrow> u32 \<Rightarrow> prop_client \<Rightarrow> prop_client" where
  "convert_multiple r effective_property st =
     (let sel = cv_selection r; requestor = cv_requestor r;
          pairs = multiple_pairs requestor effective_property st
      in if pairs = []
         then send_or_queue requestor (selection_notify requestor sel (cv_target r) 0 st) st
         else
           (let owner_local = map_of (owners (selection st)) sel;
                remote = (if owner_local = None then remote_entry sel st else None);
                served = (owner_local = None \<and> remote = None \<and> server_owned sel st);
                (st, result_pairs) =
                  convert_pairs (convert_pair requestor sel owner_local remote served) pairs st;
                st = store_value requestor effective_property ATOM 32 (pair_bytes result_pairs) st
            in send_or_queue requestor
                 (selection_notify requestor sel MULTIPLE effective_property st) st))"

definition convert_single :: "convert_request \<Rightarrow> prop_client \<Rightarrow> prop_client" where
  "convert_single r st =
     (let sel = cv_selection r; requestor = cv_requestor r; target = cv_target r; property = cv_property r
      in case map_of (owners (selection st)) sel of
           Some owner \<Rightarrow> push_event (selection_request owner requestor sel target property st) st
         | None \<Rightarrow>
             (case remote_entry sel st of
                Some e \<Rightarrow>
                  st\<lparr>sent_events := sent_events st @
                       [(se_tx e, selection_request (se_owner e) requestor sel target property st)]\<rparr>
              | None \<Rightarrow> send_or_queue requestor (selection_notify requestor sel target 0 st) st))"

definition handle_convert_selection ::
    "convert_request \<Rightarrow> prop_client \<Rightarrow> prop_client \<times> unit response" where
  "handle_convert_selection r st =
     (let sel = cv_selection r; target = cv_target r;
          effective_property = (if cv_property r = 0 then target else cv_property r)
      in if sel \<noteq> 0 \<and> get_atom_name sel st = None
         then (st, ErrorReply (build_error ATOM_ERROR (sequence st) sel 24 0))
         else if target \<noteq> 0 \<and> get_atom_name target st = None
         then (st, ErrorReply (build_error ATOM_ERROR (sequence st) target 24 0))
         else if target = DELETE then (convert_delete r effective_property st, NoReply)
         else if target = TIMESTAMP then (convert_timestamp r effective_property st, NoReply)
         else if target = MULTIPLE \<and> effective_property \<noteq> 0
         then (convert_multiple r effective_property st, NoReply)
         else
           (let (st', served) =
                  (if server_owned sel st
                   then serve_persistent_clipboard sel target effective_property (cv_requestor r) st
                   else (st, False))
            in if served then (st', NoReply) else (convert_single r st', NoReply)))"

section \<open>The end of a connection\<close>

text \<open>\<open>mgr_tx\<close> is the fresh channel made for the server's own entry.\<close>

definition announce_lost :: "bool \<Rightarrow> u32 \<Rightarrow> prop_client \<Rightarrow> prop_client" where
  "announce_lost persisted sel st =
     (let new_owner = (if sel = CLIPBOARD \<and> persisted then CLIPBOARD_MANAGER_WINDOW else 0);
          st = notify_subscribers new_owner sel st
      in st\<lparr>sent_events := sent_events st @
             broadcast_global (xfixes_notify new_owner sel st) (client_id st) (event_broadcaster st)\<rparr>)"

definition release_selections :: "nat \<Rightarrow> prop_client \<Rightarrow> prop_client" where
  "release_selections mgr_tx st =
     (let mine = (\<lambda>e. x11_to_uuid st (se_owner e) \<noteq> None);
          sels = shared_selections (selection st);
          owns_clipboard = (case map_of sels CLIPBOARD of Some e \<Rightarrow> mine e | None \<Rightarrow> False);
          persisted = (owns_clipboard \<and> map_of (persistent_clipboard (selection st)) CLIPBOARD \<noteq> None);
          lost = map fst (filter (\<lambda>(s, e). mine e) sels);
          sels = (if persisted
                  then filter (\<lambda>(s, e). s = CLIPBOARD \<or> \<not> mine e)
                         (AList.update CLIPBOARD
                            \<lparr>se_owner = CLIPBOARD_MANAGER_WINDOW, se_tx = mgr_tx,
                             se_timestamp = timestamp st\<rparr> sels)
                  else filter (\<lambda>(s, e). \<not> mine e) sels);
          st = upd_selection (shared_selections_update (\<lambda>_. sels)) st;
          st = fold (announce_lost persisted) lost st
      in upd_selection (\<lambda>s. s\<lparr>owners := [], timestamps := []\<rparr>) st)"

section \<open>Several connections\<close>

definition adopt :: "prop_client \<Rightarrow> prop_client \<Rightarrow> prop_client" where
  "adopt from to =
     to\<lparr>shared_windows := shared_windows from, event_broadcaster := event_broadcaster from,
        atom_table := atom_table from, event_router := event_router from,
        selection := (selection to)\<lparr>shared_selections := shared_selections (selection from),
                                    persistent_clipboard := persistent_clipboard (selection from)\<rparr>\<rparr>"

definition act :: "nat \<Rightarrow> (prop_client \<Rightarrow> prop_client) \<Rightarrow> (nat \<Rightarrow> prop_client) \<Rightarrow> nat \<Rightarrow> prop_client" where
  "act i f conns j = (if j = i then f (conns i) else adopt (f (conns i)) (conns j))"

definition claim :: "nat \<times> u32 \<times> u32 \<Rightarrow> (nat \<Rightarrow> prop_client) \<Rightarrow> nat \<Rightarrow> prop_client" where
  "claim = (\<lambda>(i, sel, owner). act i (\<lambda>st. fst (handle_set_selection_owner owner sel st)))"

text \<open>The last owner a connection named for a selection itself, and the last owner anybody named.\<close>

definition own_claim :: "nat \<Rightarrow> u32 \<Rightarrow> (nat \<times> u32 \<times> u32) list \<Rightarrow> u32 option" where
  "own_claim j sel rs =
     fold (\<lambda>(i, s, w) acc. if i = j \<and> s = sel then (if w = 0 then None else Some w) else acc) rs None"

definition last_claim :: "u32 \<Rightarrow> (nat \<times> u32 \<times> u32) list \<Rightarrow> u32" where
  "last_claim sel rs = fold (\<lambda>(i, s, w) acc. if s = sel then w else acc) rs 0"


section \<open>What the operations leave alone\<close>

lemma selection_frames [simp]:
  "selection (push_event ev st) = selection st" "selection (fst (route_event w ev st)) = selection st"
  "selection (send_or_queue w ev st) = selection st" "selection (modify_window w f st) = selection st"
  "selection (store_value w p t fmt d st) = selection st" "selection (notify_subscribers w sel st) = selection st"
  "selection (clear_previous_owner w sel st) = selection st"
  "selection (upd_selection g st) = g (selection st)"
  by (auto simp: push_event_def route_event_def send_or_queue_def modify_window_def store_value_def
      notify_subscribers_def clear_previous_owner_def upd_selection_def Let_def split: option.splits prod.splits)

lemma atom_table_frames [simp]:
  "atom_table (push_event ev st) = atom_table st" "atom_table (fst (route_event w ev st)) = atom_table st"
  "atom_table (send_or_queue w ev st) = atom_table st" "atom_table (modify_window w f st) = atom_table st"
  "atom_table (store_value w p t fmt d st) = atom_table st" "atom_table (notify_subscribers w sel st) = atom_table st"
  "atom_table (clear_previous_owner w sel st) = atom_table st"
  "atom_table (upd_selection g st) = atom_table st"
  by (auto simp: push_event_def route_event_def send_or_queue_def modify_window_def store_value_def
      notify_subscribers_def clear_previous_owner_def upd_selection_def Let_def split: option.splits prod.splits)

lemma get_atom_name_cong: "atom_table st = atom_table st' \<Longrightarrow> get_atom_name a st = get_atom_name a st'"
  by (simp add: get_atom_name_def)

section \<open>Who owns a selection\<close>

lemma set_selection_owner_effect:
  assumes "sel = 0 \<or> get_atom_name sel st \<noteq> None"
  shows "\<exists>st' tx ts. handle_set_selection_owner w sel st = (st', NoReply) \<and> atom_table st' = atom_table st \<and>
    map_of (owners (selection st')) = (map_of (owners (selection st)))(sel := (if w = 0 then None else Some w)) \<and>
    map_of (shared_selections (selection st')) = (map_of (shared_selections (selection st)))
      (sel := (if w = 0 then None else Some \<lparr>se_owner = w, se_tx = tx, se_timestamp = ts\<rparr>))"
  using assms
  by (auto simp: handle_set_selection_owner_def Let_def disown_def own_def AList.delete_conv' AList.update_conv')

lemma set_selection_owner_error:
  "sel \<noteq> 0 \<Longrightarrow> get_atom_name sel st = None \<Longrightarrow> fst (handle_set_selection_owner w sel st) = st"
  by (simp add: handle_set_selection_owner_def)

text \<open>The view of every connection after a history of requests.\<close>

definition views :: "u32 \<Rightarrow> (nat \<times> u32 \<times> u32) list \<Rightarrow> (nat \<Rightarrow> prop_client) \<Rightarrow> bool" where
  "views sel rs conns \<longleftrightarrow>
     (\<forall>j. map_of (owners (selection (conns j))) sel = own_claim j sel rs \<and>
          shared_owner sel (selection (conns j)) = last_claim sel rs)"

definition same_atoms :: "(nat \<Rightarrow> prop_client) \<Rightarrow> u32 \<Rightarrow> bool" where
  "same_atoms conns sel \<longleftrightarrow> (\<forall>j. get_atom_name sel (conns j) \<noteq> None)"

lemma claim_views:
  assumes "views sel rs conns" "same_atoms conns sel"
  shows "views sel (rs @ [r]) (claim r conns) \<and> same_atoms (claim r conns) sel"
proof -
  obtain i s w where r: "r = (i, s, w)" by (cases r)
  show ?thesis
  proof (cases "s \<noteq> 0 \<and> get_atom_name s (conns i) = None")
    case True
    moreover have "get_atom_name sel (conns i) \<noteq> None" using assms(2) by (simp add: same_atoms_def)
    ultimately have "s \<noteq> sel" by blast
    with True assms show ?thesis
      by (simp add: r views_def claim_def act_def adopt_def same_atoms_def get_atom_name_def own_claim_def
          last_claim_def set_selection_owner_error shared_owner_def)
  next
    case False
    then have "s = 0 \<or> get_atom_name s (conns i) \<noteq> None" by auto
    from set_selection_owner_effect [OF this, of w] obtain st' tx ts where
      e: "handle_set_selection_owner w s (conns i) = (st', NoReply)" "atom_table st' = atom_table (conns i)"
      "map_of (owners (selection st')) = (map_of (owners (selection (conns i))))(s := (if w = 0 then None else Some w))"
      "map_of (shared_selections (selection st')) = (map_of (shared_selections (selection (conns i))))
         (s := (if w = 0 then None else Some \<lparr>se_owner = w, se_tx = tx, se_timestamp = ts\<rparr>))" by blast
    have c: "claim r conns = (\<lambda>j. if j = i then st' else adopt st' (conns j))"
      by (simp add: r claim_def act_def e(1) fun_eq_iff)
    show ?thesis
      using assms unfolding c
      by (simp add: r views_def adopt_def same_atoms_def get_atom_name_def own_claim_def last_claim_def
          shared_owner_def e(2-4))
  qed
qed

lemma claims_views:
  assumes "views sel [] conns" "same_atoms conns sel"
  shows "views sel rs (fold claim rs conns) \<and> same_atoms (fold claim rs conns) sel"
  using assms by (induction rs rule: rev_induct) (auto dest: claim_views)

lemma claim_atoms: "same_atoms conns a \<Longrightarrow> same_atoms (claim r conns) a"
proof -
  assume a: "same_atoms conns a"
  obtain i s w where r: "r = (i, s, w)" by (cases r)
  have "atom_table (fst (handle_set_selection_owner w s (conns i))) = atom_table (conns i)"
    by (simp add: handle_set_selection_owner_def Let_def)
  with a show ?thesis by (simp add: same_atoms_def get_atom_name_def claim_def r act_def adopt_def)
qed

lemma claims_atoms: "same_atoms conns a \<Longrightarrow> same_atoms (fold claim rs conns) a"
  by (induction rs arbitrary: conns) (simp_all add: claim_atoms)

section \<open>Properties\<close>

text \<open>C17. After any sequence of SetSelectionOwner requests of any connections, GetSelectionOwner answers a
  connection with the owner it named last itself, and only a connection without a claim of its own
  sees the owner that was named last by anybody.\<close>

theorem selection_owner_view:
  assumes "\<forall>j. map_of (owners (selection (conns j))) sel = None \<and>
      map_of (shared_selections (selection (conns j))) sel = None \<and> get_atom_name sel (conns j) \<noteq> None"
  shows "snd (handle_get_selection_owner sel (fold claim rs conns j)) =
    Reply (case own_claim j sel rs of Some w \<Rightarrow> w | None \<Rightarrow> last_claim sel rs)"
proof -
  have "views sel [] conns" "same_atoms conns sel"
    using assms by (simp_all add: views_def same_atoms_def own_claim_def last_claim_def shared_owner_def)
  then have "views sel rs (fold claim rs conns)" using claims_views by blast
  then have "map_of (owners (selection (fold claim rs conns j))) sel = own_claim j sel rs"
    "shared_owner sel (selection (fold claim rs conns j)) = last_claim sel rs"
    by (simp_all add: views_def)
  then show ?thesis
    by (simp add: handle_get_selection_owner_def known_owner_def split: option.splits)
qed

text \<open>A connection that does not own anything, with the atoms of the demonstration.\<close>

definition demo_conns :: "nat \<Rightarrow> prop_client" where
  "demo_conns j = demo_client\<lparr>own_tx := j\<rparr>"

theorem selection_owner_view_witness:
  "snd (handle_get_selection_owner 200 (fold claim [(1, 200, 5), (2, 200, 7)] demo_conns 1)) = Reply 5 \<and>
   snd (handle_get_selection_owner 200 (fold claim [(1, 200, 5), (2, 200, 7)] demo_conns 2)) = Reply 7 \<and>
   snd (handle_get_selection_owner 200 (fold claim [(1, 200, 5), (2, 200, 7)] demo_conns 3)) = Reply 7"
proof -
  have init: "\<forall>j. map_of (owners (selection (demo_conns j))) 200 = None \<and>
      map_of (shared_selections (selection (demo_conns j))) 200 = None \<and> get_atom_name 200 (demo_conns j) \<noteq> None"
    by (simp add: demo_conns_def demo_client_def get_atom_name_def get_name_def)
  show ?thesis
    by (intro conjI; subst selection_owner_view [OF init]) (simp_all add: own_claim_def last_claim_def)
qed

section \<open>The clipboard after its owner has gone\<close>

lemma map_of_filter_key: "(\<And>v. P (k, v)) \<Longrightarrow> map_of (filter P xs) k = map_of xs k"
  by (induction xs) auto

lemma announce_lost_frames [simp]:
  "selection (fold (announce_lost b) ss st) = selection st" "atom_table (fold (announce_lost b) ss st) = atom_table st"
  by (induction ss arbitrary: st) (simp_all add: announce_lost_def Let_def)

text \<open>The data on a property of the requestor, in the own copy or in the shared one.\<close>

definition delivered_data :: "u32 \<Rightarrow> u32 \<Rightarrow> prop_client \<Rightarrow> bytes option" where
  "delivered_data requestor property st = map_option pv_data (visible_property requestor property st)"

lemma cache_clipboard_effect:
  assumes "delivered_data q p st = Some data" "p \<noteq> 0"
  shows "\<exists>e. map_of (persistent_clipboard (selection (cache_clipboard q CLIPBOARD target p st))) CLIPBOARD = Some e \<and>
    map_of (ce_targets e) target = Some data"
    "shared_selections (selection (cache_clipboard q CLIPBOARD target p st)) = shared_selections (selection st)"
    "atom_table (cache_clipboard q CLIPBOARD target p st) = atom_table st"
    "x11_to_uuid (cache_clipboard q CLIPBOARD target p st) = x11_to_uuid st"
proof -
  have "(case (case map_of (windows st) q of Some w \<Rightarrow> map_option pv_data (map_of (w_properties w) p) | None \<Rightarrow> None) of
      Some d \<Rightarrow> Some d
    | None \<Rightarrow> (case map_of (shared_windows st) q of Some w \<Rightarrow> map_option pv_data (map_of (w_properties w) p) | None \<Rightarrow> None))
    = Some data"
    using assms(1) by (auto simp: delivered_data_def visible_property_def split: option.splits bind_splits)
  then show "\<exists>e. map_of (persistent_clipboard (selection (cache_clipboard q CLIPBOARD target p st))) CLIPBOARD = Some e \<and>
    map_of (ce_targets e) target = Some data"
    "shared_selections (selection (cache_clipboard q CLIPBOARD target p st)) = shared_selections (selection st)"
    "atom_table (cache_clipboard q CLIPBOARD target p st) = atom_table st"
    "x11_to_uuid (cache_clipboard q CLIPBOARD target p st) = x11_to_uuid st"
    using assms(2) by (simp_all add: cache_clipboard_def Let_def AList.update_conv' upd_selection_def)
qed

lemma release_clipboard:
  assumes "map_of (shared_selections (selection st)) CLIPBOARD = Some e" "x11_to_uuid st (se_owner e) \<noteq> None"
    and "map_of (persistent_clipboard (selection st)) CLIPBOARD \<noteq> None"
  shows "shared_owner CLIPBOARD (selection (release_selections tx st)) = CLIPBOARD_MANAGER_WINDOW"
    "persistent_clipboard (selection (release_selections tx st)) = persistent_clipboard (selection st)"
    "atom_table (release_selections tx st) = atom_table st"
proof -
  have "map_of (filter (\<lambda>(s, e). s = CLIPBOARD \<or> x11_to_uuid st (se_owner e) = None)
      (AList.update CLIPBOARD v (shared_selections (selection st)))) CLIPBOARD = Some v" for v
    by (subst map_of_filter_key) (simp_all add: AList.update_conv')
  then show "shared_owner CLIPBOARD (selection (release_selections tx st)) = CLIPBOARD_MANAGER_WINDOW"
    using assms by (simp add: release_selections_def Let_def shared_owner_def)
qed (use assms in \<open>simp_all add: release_selections_def Let_def\<close>)

lemma server_owned_iff: "server_owned sel st \<longleftrightarrow> shared_owner sel (selection st) = CLIPBOARD_MANAGER_WINDOW"
  by (simp add: server_owned_def shared_owner_def CLIPBOARD_MANAGER_WINDOW_def split: option.split)

lemma send_or_queue_frames [simp]:
  "windows (send_or_queue w ev st) = windows st" "shared_windows (send_or_queue w ev st) = shared_windows st"
  "incr_transfers (send_or_queue w ev st) = incr_transfers st" "sequence (send_or_queue w ev st) = sequence st"
  by (auto simp: send_or_queue_def route_event_def push_event_def split: option.splits)

text \<open>What a conversion of a stored target does.\<close>

lemma serve_stored:
  assumes "map_of (persistent_clipboard (selection st)) sel = Some e" "map_of (ce_targets e) target = Some data"
    and "target \<noteq> TARGETS" "target \<noteq> TIMESTAMP"
  shows "\<exists>s ev. serve_persistent_clipboard sel target p q st = (send_or_queue q ev s, True) \<and>
    s = (if length data > INCR_THRESHOLD then fst (start_incr_transfer q p target data st)
         else store_value q p target 8 data st)"
  using assms by (auto simp: serve_persistent_clipboard_def Let_def)

lemma start_incr_ready:
  assumes "length (incr_transfers st) < MAX_INCR_TRANSFERS"
    and "map_of (windows st) q \<noteq> None" "p = 0 \<or> get_atom_name p st \<noteq> None"
    and "\<forall>x \<in> set (incr_transfers st). \<not> (it_requestor x = q \<and> it_property x = p)"
  shows "\<exists>pre t. incr_ready pre t q p (send_or_queue q ev (fst (start_incr_transfer q p target data st))) \<and>
    it_data t = data \<and> it_offset t = 0 \<and> it_chunk_size t = INCR_THRESHOLD \<and> it_target t = target"
  using assms
  by (auto simp: start_incr_transfer_def push_incr_transfer_def Let_def incr_ready_def get_atom_name_def)

text \<open>C16. The clipboard outlives its owner: when the owner of CLIPBOARD has answered a request for a
  target and then disconnects, any connection that asks for this target afterwards gets the same
  bytes, at once or, above 64 KiB, by an incremental transfer that delivers all of them in order; the
  owner is then the server itself.\<close>

theorem clipboard_survives_owner:
  assumes "map_of (shared_selections (selection st)) CLIPBOARD = Some e" "x11_to_uuid st (se_owner e) \<noteq> None"
    and "delivered_data q0 p0 st = Some data" "p0 \<noteq> 0"
    and "target \<notin> {DELETE, TIMESTAMP, MULTIPLE, TARGETS}"
    and "get_atom_name CLIPBOARD st \<noteq> None" "get_atom_name target st \<noteq> None" "get_atom_name p st \<noteq> None"
    and "map_of (windows other) q \<noteq> None" "p \<noteq> 0"
    and st1_def: "st1 = adopt (release_selections tx (cache_clipboard q0 CLIPBOARD target p0 st)) other"
    and st2_def: "st2 = fst (handle_convert_selection
      \<lparr>cv_requestor = q, cv_selection = CLIPBOARD, cv_target = target, cv_property = p\<rparr> st1)"
  shows "shared_owner CLIPBOARD (selection st1) = CLIPBOARD_MANAGER_WINDOW \<and>
    (length data \<le> 65536 \<longrightarrow>
       visible_property q p st2 = Some \<lparr>pv_type = target, pv_format = 8, pv_data = data\<rparr>) \<and>
    (length data > 65536 \<and> length (incr_transfers other) < 100 \<and>
       (\<forall>x \<in> set (incr_transfers other). \<not> (it_requestor x = q \<and> it_property x = p)) \<longrightarrow>
       (\<exists>chunks. fst (consume (Suc ((length data + 65535) div 65536)) q p st2) =
          map (chunk_value target) (chunks @ [[]]) \<and> concat chunks = data))"
proof -
  let ?c = "cache_clipboard q0 CLIPBOARD target p0 st"
  note c = cache_clipboard_effect [OF assms(3,4), where target = target]
  from c(1) obtain ce where ce: "map_of (persistent_clipboard (selection ?c)) CLIPBOARD = Some ce"
    "map_of (ce_targets ce) target = Some data" by blast
  have rel: "shared_owner CLIPBOARD (selection (release_selections tx ?c)) = CLIPBOARD_MANAGER_WINDOW"
    "persistent_clipboard (selection (release_selections tx ?c)) = persistent_clipboard (selection ?c)"
    "atom_table (release_selections tx ?c) = atom_table st"
    using release_clipboard [of ?c e tx] assms(1,2) c(2-4) ce(1) by simp_all
  have st1: "shared_owner CLIPBOARD (selection st1) = CLIPBOARD_MANAGER_WINDOW"
    "map_of (persistent_clipboard (selection st1)) CLIPBOARD = Some ce" "atom_table st1 = atom_table st"
    "windows st1 = windows other" "incr_transfers st1 = incr_transfers other"
    using rel ce(1) by (simp_all add: st1_def adopt_def shared_owner_def)
  from serve_stored [OF st1(2) ce(2), of p q] assms(5) obtain s ev where
    s: "serve_persistent_clipboard CLIPBOARD target p q st1 = (send_or_queue q ev s, True)"
    "s = (if length data > INCR_THRESHOLD then fst (start_incr_transfer q p target data st1)
          else store_value q p target 8 data st1)" by auto
  have names: "get_atom_name a st1 = get_atom_name a st" for a using st1(3) by (rule get_atom_name_cong)
  have st2: "st2 = send_or_queue q ev s"
    unfolding st2_def
    using assms(5,6,7,10) st1(1) s(1) by (auto simp: handle_convert_selection_def Let_def names server_owned_iff)
  have "visible_property q p st2 = Some \<lparr>pv_type = target, pv_format = 8, pv_data = data\<rparr>" if "length data \<le> 65536"
    by (rule visible_after_set [of _ _ _ _ "windows st1"])
      (use that s(2) assms(9) st1(4) in \<open>simp_all add: st2 INCR_THRESHOLD_def store_value_def modify_window_def\<close>)
  moreover have "\<exists>chunks. fst (consume (Suc ((length data + 65535) div 65536)) q p st2) =
      map (chunk_value target) (chunks @ [[]]) \<and> concat chunks = data"
    if long: "length data > 65536" "length (incr_transfers other) < 100"
      "\<forall>x \<in> set (incr_transfers other). \<not> (it_requestor x = q \<and> it_property x = p)"
  proof -
    from start_incr_ready [of st1 q p ev target data] obtain pre t where t:
      "incr_ready pre t q p st2" "it_data t = data" "it_offset t = 0" "it_chunk_size t = INCR_THRESHOLD" "it_target t = target"
      using long st1(4,5) assms(8,9) s(2) by (auto simp: st2 INCR_THRESHOLD_def MAX_INCR_TRANSFERS_def names)
    have "length data \<le> (length data + 65535) div 65536 * 65536"
      "(length data + 65535) div 65536 * 65536 < length data + 65536" by simp_all
    then show ?thesis
      using consume_transfer [OF t(1), of "(length data + 65535) div 65536"] t(2-5)
      by (auto simp: INCR_THRESHOLD_def simp del: consume.simps)
  qed
  ultimately show ?thesis using st1(1) by blast
qed

text \<open>An owner with window 5 that has put the answer on property 200 of that window.\<close>

definition demo_owner :: prop_client where
  "demo_owner = demo_client\<lparr>x11_to_uuid := [5 \<mapsto> ''u''],
     atom_table := \<lparr>atoms = [name_bytes ''P'' \<mapsto> 200, name_bytes ''C'' \<mapsto> 134],
                    reverse = [200 \<mapsto> name_bytes ''P'', 134 \<mapsto> name_bytes ''C''], next_atom = 201\<rparr>,
     selection := (selection demo_client)\<lparr>shared_selections := [(134, \<lparr>se_owner = 5, se_tx = 3, se_timestamp = 0\<rparr>)]\<rparr>\<rparr>"

theorem clipboard_survives_owner_witness:
  "visible_property 5 200 (fst (handle_convert_selection
      \<lparr>cv_requestor = 5, cv_selection = CLIPBOARD, cv_target = 200, cv_property = 200\<rparr>
      (adopt (release_selections 9 (cache_clipboard 5 CLIPBOARD 200 200 demo_owner)) demo_client))) =
     Some \<lparr>pv_type = 200, pv_format = 8, pv_data = [1, 2]\<rparr>"
proof -
  have "map_of (shared_selections (selection demo_owner)) CLIPBOARD = Some \<lparr>se_owner = 5, se_tx = 3, se_timestamp = 0\<rparr>"
    "x11_to_uuid demo_owner 5 \<noteq> None" "delivered_data 5 200 demo_owner = Some [1, 2]"
    "get_atom_name CLIPBOARD demo_owner \<noteq> None" "get_atom_name 200 demo_owner \<noteq> None"
    "map_of (windows demo_client) 5 \<noteq> None"
    by (simp_all add: demo_owner_def demo_client_def CLIPBOARD_def delivered_data_def visible_property_def
        get_atom_name_def get_name_def window_at_def)
  then show ?thesis
    using clipboard_survives_owner [where st = demo_owner and other = demo_client and data = "[1, 2]" and q0 = 5
        and p0 = 200 and target = 200 and q = 5 and p = 200 and tx = 9, OF _ _ _ _ _ _ _ _ _ _ refl refl]
    by (simp add: DELETE_def TIMESTAMP_def MULTIPLE_def TARGETS_def)
qed

section \<open>MULTIPLE\<close>

lemma atom_pairs_Cons: "length a = 4 \<Longrightarrow> length b = 4 \<Longrightarrow> atom_pairs (a @ b @ rest) = (of_le_bytes a, of_le_bytes b) # atom_pairs rest"
  by (auto simp: length_Suc_conv numeral_eq_Suc)

lemma atom_pairs_pair_bytes [simp]: "atom_pairs (pair_bytes ps) = ps"
  by (induction ps) (auto simp: pair_bytes_def atom_pairs_Cons)

text \<open>Whether the server's clipboard has an answer, and whether a pair of a MULTIPLE request has one.\<close>

definition clipboard_offers :: "u32 \<Rightarrow> u32 \<Rightarrow> selection_state \<Rightarrow> bool" where
  "clipboard_offers sel target s \<longleftrightarrow>
     (case map_of (persistent_clipboard s) sel of
        Some e \<Rightarrow> target = TARGETS \<or> target = TIMESTAMP \<or> map_of (ce_targets e) target \<noteq> None \<or>
                  (target \<in> set text_targets \<and> (\<exists>alt \<in> set text_targets. map_of (ce_targets e) alt \<noteq> None))
      | None \<Rightarrow> False)"

definition convertible :: "u32 \<Rightarrow> u32 \<Rightarrow> prop_client \<Rightarrow> bool" where
  "convertible sel target st \<longleftrightarrow>
     (let served = (map_of (owners (selection st)) sel = None \<and> server_owned sel st);
          owned = (map_of (owners (selection st)) sel \<noteq> None \<or> remote_entry sel st \<noteq> None)
      in if target = TIMESTAMP
         then map_of (timestamps (selection st)) sel \<noteq> None \<or>
              (map_of (owners (selection st)) sel = None \<and> remote_entry sel st \<noteq> None) \<or>
              (served \<and> map_of (persistent_clipboard (selection st)) sel \<noteq> None)
         else if served then clipboard_offers sel target (selection st) else owned)"

lemma start_incr_frames [simp]:
  "selection (fst (start_incr_transfer q p t d st)) = selection st"
  "dom (map_of (windows (fst (start_incr_transfer q p t d st)))) = dom (map_of (windows st))"
  by (auto simp: start_incr_transfer_def push_incr_transfer_def cleanup_stale_incr_transfers_def Let_def
      deliver_event_def broadcast_event_def modify_window_def split: if_splits option.splits)

lemma dom_store_value [simp]: "dom (map_of (windows (store_value w p t fmt d st))) = dom (map_of (windows st))"
  by (auto simp: store_value_def modify_window_def split: if_splits)

lemma find_None_Bex: "find P xs = None \<longleftrightarrow> \<not> (\<exists>x \<in> set xs. P x)"
  by (induction xs) auto

lemma find_Some_Bex: "find P xs = Some x \<Longrightarrow> \<exists>x \<in> set xs. P x"
  by (metis find_None_Bex option.distinct(1))

lemma serve_result:
  "selection (fst (serve_persistent_clipboard sel t p q st)) = selection st"
  "dom (map_of (windows (fst (serve_persistent_clipboard sel t p q st)))) = dom (map_of (windows st))"
  "snd (serve_persistent_clipboard sel t p q st) \<longleftrightarrow> clipboard_offers sel t (selection st)"
proof -
  show "selection (fst (serve_persistent_clipboard sel t p q st)) = selection st"
    by (simp add: serve_persistent_clipboard_def Let_def split: option.split)
  show "dom (map_of (windows (fst (serve_persistent_clipboard sel t p q st)))) = dom (map_of (windows st))"
    by (simp add: serve_persistent_clipboard_def Let_def split: option.split)
  show "snd (serve_persistent_clipboard sel t p q st) \<longleftrightarrow> clipboard_offers sel t (selection st)"
  proof (cases "map_of (persistent_clipboard (selection st)) sel")
    case (Some e)
    then show ?thesis
      by (cases "map_of (ce_targets e) t")
        (auto simp: serve_persistent_clipboard_def Let_def clipboard_offers_def find_None_Bex
          split: option.split dest!: find_Some_Bex)
  qed (simp add: serve_persistent_clipboard_def clipboard_offers_def)
qed

definition pair_converts :: "u32 \<Rightarrow> u32 option \<Rightarrow> selection_entry option \<Rightarrow> bool \<Rightarrow> u32 \<Rightarrow> prop_client \<Rightarrow> bool" where
  "pair_converts sel ol rm sv pt st \<longleftrightarrow>
     (if pt = TIMESTAMP then multiple_timestamp sel rm sv st \<noteq> None
      else if sv then clipboard_offers sel pt (selection st) else ol \<noteq> None \<or> rm \<noteq> None)"

lemma pair_converts_cong:
  assumes "selection st' = selection st"
  shows "pair_converts sel ol rm sv pt st' = pair_converts sel ol rm sv pt st"
proof -
  have "multiple_timestamp sel rm sv st' = multiple_timestamp sel rm sv st"
    unfolding multiple_timestamp_def assms ..
  then show ?thesis unfolding pair_converts_def assms by (simp only:)
qed

lemma convert_pair_result:
  assumes "convert_pair q sel ol rm sv (pt, pp) st = (st', pr)"
  shows "selection st' = selection st" "dom (map_of (windows st')) = dom (map_of (windows st))"
    "pr = (pt, if pair_converts sel ol rm sv pt st then pp else 0)"
proof -
  have "selection st' = selection st \<and> dom (map_of (windows st')) = dom (map_of (windows st)) \<and>
    pr = (pt, if pair_converts sel ol rm sv pt st then pp else 0)"
  proof (cases "pt = TIMESTAMP")
    case True
    with assms show ?thesis
      by (cases "multiple_timestamp sel rm sv st")
        (simp_all add: convert_pair_def pair_converts_def, metis dom_store_value selection_frames(5))
  next
    case False
    with assms show ?thesis
      using serve_result [of sel pt pp q st]
      by (cases ol; cases rm)
        (auto simp: convert_pair_def pair_converts_def push_event_def split: prod.splits if_splits)
  qed
  then show "selection st' = selection st" "dom (map_of (windows st')) = dom (map_of (windows st))"
    "pr = (pt, if pair_converts sel ol rm sv pt st then pp else 0)" by blast+
qed

lemma convert_pairs_result:
  assumes "convert_pairs (convert_pair q sel ol rm sv) ps st = (st', rs)"
  shows "dom (map_of (windows st')) = dom (map_of (windows st)) \<and>
    rs = map (\<lambda>(pt, pp). (pt, if pair_converts sel ol rm sv pt st then pp else 0)) ps"
  using assms
proof (induction ps arbitrary: st rs st')
  case (Cons p ps)
  obtain pt pp where p: "p = (pt, pp)" by (cases p)
  obtain s1 q1 where 1: "convert_pair q sel ol rm sv (pt, pp) st = (s1, q1)" by (metis surj_pair)
  obtain s2 qs where 2: "convert_pairs (convert_pair q sel ol rm sv) ps s1 = (s2, qs)" by (metis surj_pair)
  note c = convert_pair_result [OF 1]
  have "st' = s2" "rs = q1 # qs" using Cons.prems 1 2 p by simp_all
  moreover have "pair_converts sel ol rm sv t s1 = pair_converts sel ol rm sv t st" for t
    using c(1) by (rule pair_converts_cong)
  ultimately show ?case using c(2,3) Cons.IH [OF 2] p by (simp only: list.map prod.case)
qed simp

text \<open>MULTIPLE: the property with the list of (target, property) pairs is replaced by the same list in
  which exactly the pairs that nobody can convert have the property None.\<close>

theorem multiple_marks_failures:
  assumes "multiple_pairs q p st = pairs" "pairs \<noteq> []"
    and "sel = 0 \<or> get_atom_name sel st \<noteq> None" "get_atom_name MULTIPLE st \<noteq> None" "p \<noteq> 0"
  shows "\<exists>st'. handle_convert_selection
      \<lparr>cv_requestor = q, cv_selection = sel, cv_target = MULTIPLE, cv_property = p\<rparr> st = (st', NoReply) \<and>
    multiple_pairs q p st' = map (\<lambda>(pt, pp). (pt, if convertible sel pt st then pp else 0)) pairs"
proof -
  define ol where "ol = map_of (owners (selection st)) sel"
  define rm where "rm = (if ol = None then remote_entry sel st else None)"
  define sv where "sv = (ol = None \<and> rm = None \<and> server_owned sel st)"
  obtain s rs where s: "convert_pairs (convert_pair q sel ol rm sv) pairs st = (s, rs)" by (metis surj_pair)
  note res = convert_pairs_result [OF s]
  have never: "server_owned sel st \<Longrightarrow> remote_entry sel st = None"
    by (auto simp: server_owned_def remote_entry_def split: option.splits)
  have conv: "pair_converts sel ol rm sv pt st \<longleftrightarrow> convertible sel pt st" for pt
    using never
    by (auto simp: pair_converts_def convertible_def Let_def ol_def rm_def sv_def multiple_timestamp_def split: option.splits)
  have rs: "rs = map (\<lambda>(pt, pp). (pt, if convertible sel pt st then pp else 0)) pairs"
    using res unfolding conv by simp
  have "map_of (windows st) q \<noteq> None" using assms(1,2) by (auto simp: multiple_pairs_def split: option.splits)
  then have "q \<in> dom (map_of (windows s))" using res by (simp add: domIff)
  then have "multiple_pairs q p (send_or_queue q ev (store_value q p ATOM 32 (pair_bytes rs) s)) = rs" for ev
    by (auto simp: multiple_pairs_def store_value_def modify_window_def set_prop_def AList.update_conv')
  moreover have "handle_convert_selection
      \<lparr>cv_requestor = q, cv_selection = sel, cv_target = MULTIPLE, cv_property = p\<rparr> st = (convert_multiple
        \<lparr>cv_requestor = q, cv_selection = sel, cv_target = MULTIPLE, cv_property = p\<rparr> p st, NoReply)"
    using assms(3-5) by (auto simp: handle_convert_selection_def Let_def MULTIPLE_def DELETE_def TIMESTAMP_def)
  ultimately show ?thesis
    using assms(1,2) s rs
    by (auto simp: convert_multiple_def Let_def ol_def [symmetric] rm_def [symmetric] sv_def [symmetric])
qed

theorem multiple_marks_failures_witness:
  "\<exists>st'. handle_convert_selection
      \<lparr>cv_requestor = 5, cv_selection = 0, cv_target = MULTIPLE, cv_property = 200\<rparr>
      (demo_client\<lparr>windows := [(5, (window_at 1 0 0 8 6 [])\<lparr>w_properties :=
         [(200, \<lparr>pv_type = 4, pv_format = 32, pv_data = pair_bytes [(31, 7), (137, 8)]\<rparr>)]\<rparr>)],
         atom_table := \<lparr>atoms = Map.empty, reverse = [136 \<mapsto> []], next_atom = 201\<rparr>,
         selection := (selection demo_client)\<lparr>shared_selections := [(0, \<lparr>se_owner = 9, se_tx = 3, se_timestamp = 0\<rparr>)]\<rparr>\<rparr>) =
      (st', NoReply) \<and> multiple_pairs 5 200 st' = [(31, 7), (137, 8)]"
  (is "\<exists>st'. handle_convert_selection ?r ?st = (st', NoReply) \<and> _")
proof -
  have pairs: "multiple_pairs 5 200 ?st = [(31, 7), (137, 8)]" by (simp add: multiple_pairs_def window_at_def)
  have conv: "convertible 0 31 ?st" "convertible 0 137 ?st"
    by (simp_all add: convertible_def Let_def demo_client_def server_owned_def remote_entry_def
        CLIPBOARD_MANAGER_WINDOW_def TIMESTAMP_def)
  have name: "get_atom_name MULTIPLE ?st \<noteq> None"
    by (simp add: get_atom_name_def get_name_def MULTIPLE_def)
  show ?thesis
    using multiple_marks_failures [OF pairs, of 0] conv name by simp
qed

section \<open>Owners that have lost a selection\<close>

text \<open>C36. A connection that has lost a selection does not notice: when one connection takes over the
  selection of another, requests of the first for this selection still go to its own window, while
  the requests of every other connection without a claim reach the new owner.\<close>

theorem lost_selection_still_used:
  assumes "\<forall>j. map_of (owners (selection (conns j))) sel = None \<and>
      map_of (shared_selections (selection (conns j))) sel = None \<and>
      get_atom_name sel (conns j) \<noteq> None \<and> get_atom_name target (conns j) \<noteq> None"
    and "i \<noteq> j" "k \<notin> {i, j}" "a \<noteq> 0" "b \<noteq> 0" "b \<noteq> CLIPBOARD_MANAGER_WINDOW"
    and "target \<notin> {DELETE, TIMESTAMP, MULTIPLE}"
    and c_def: "c = fold claim [(i, sel, a), (j, sel, b)] conns"
  shows "let r = \<lparr>cv_requestor = q, cv_selection = sel, cv_target = target, cv_property = p\<rparr>
     in pending_events (fst (handle_convert_selection r (c i))) =
          pending_events (c i) @ [selection_request a q sel target p (c i)] \<and>
        sent_events (fst (handle_convert_selection r (c i))) = sent_events (c i) \<and>
        (\<exists>tx. sent_events (fst (handle_convert_selection r (c k))) =
          sent_events (c k) @ [(tx, selection_request b q sel target p (c k))])"
proof -
  have "views sel [] conns" "same_atoms conns sel" "same_atoms conns target"
    using assms(1) by (simp_all add: views_def same_atoms_def own_claim_def last_claim_def shared_owner_def)
  then have c: "views sel [(i, sel, a), (j, sel, b)] c" "same_atoms c sel" "same_atoms c target"
    unfolding c_def
    using claims_views [of sel conns "[(i, sel, a), (j, sel, b)]"] claims_atoms [of conns target "[(i, sel, a), (j, sel, b)]"]
    by blast+
  have own: "map_of (owners (selection (c i))) sel = Some a" "map_of (owners (selection (c k))) sel = None"
    "shared_owner sel (selection (c l)) = b" for l
    using c(1) assms(2-5) by (simp_all add: views_def own_claim_def last_claim_def)
  have notmine: "\<not> server_owned sel (c l)" for l using own(3) [of l] assms(6) by (simp add: server_owned_iff)
  obtain e where e: "remote_entry sel (c k) = Some e" "se_owner e = b"
    using own(3) [of k] assms(5,6) by (auto simp: shared_owner_def remote_entry_def split: option.splits)
  have names: "get_atom_name sel (c l) \<noteq> None" "get_atom_name target (c l) \<noteq> None" for l
    using c(2,3) by (simp_all add: same_atoms_def)
  have h: "handle_convert_selection \<lparr>cv_requestor = q, cv_selection = sel, cv_target = target, cv_property = p\<rparr> (c l)
    = (convert_single \<lparr>cv_requestor = q, cv_selection = sel, cv_target = target, cv_property = p\<rparr> (c l), NoReply)" for l
    using assms(7) names [of l] notmine [of l] by (auto simp: handle_convert_selection_def Let_def)
  show ?thesis
    unfolding Let_def h by (simp add: convert_single_def Let_def own e push_event_def)
qed

theorem lost_selection_still_used_witness:
  "pending_events (fst (handle_convert_selection
      \<lparr>cv_requestor = 5, cv_selection = 200, cv_target = 200, cv_property = 200\<rparr>
      (fold claim [(1, 200, 5), (2, 200, 7)] demo_conns 1))) =
   pending_events (fold claim [(1, 200, 5), (2, 200, 7)] demo_conns 1) @
     [selection_request 5 5 200 200 200 (fold claim [(1, 200, 5), (2, 200, 7)] demo_conns 1)]"
proof -
  have init: "\<forall>j. map_of (owners (selection (demo_conns j))) 200 = None \<and>
      map_of (shared_selections (selection (demo_conns j))) 200 = None \<and>
      get_atom_name 200 (demo_conns j) \<noteq> None \<and> get_atom_name 200 (demo_conns j) \<noteq> None"
    by (simp add: demo_conns_def demo_client_def get_atom_name_def get_name_def)
  show ?thesis
    using lost_selection_still_used [OF init, of 1 2 3 5 7, OF _ _ _ _ _ _ refl, where q = 5 and p = 200]
    by (simp add: CLIPBOARD_MANAGER_WINDOW_def DELETE_def TIMESTAMP_def MULTIPLE_def Let_def del: fold_simps)
qed

text \<open>Anybody can take a selection away by asking for the target DELETE: the owner is not asked and not
  told, and afterwards no connection without a claim of its own knows an owner.\<close>

theorem convert_delete_disowns:
  assumes "get_atom_name sel (conns i) \<noteq> None" "get_atom_name DELETE (conns i) \<noteq> None"
    and "map_of (owners (selection (conns k))) sel = None" "k \<noteq> i"
    and c: "c = act i (\<lambda>st. fst (handle_convert_selection
      \<lparr>cv_requestor = q, cv_selection = sel, cv_target = DELETE, cv_property = p\<rparr> st)) conns"
  shows "snd (handle_get_selection_owner sel (c k)) = Reply 0 \<and>
    (\<forall>ev. (ev \<in> snd ` set (sent_events (c i)) - snd ` set (sent_events (conns i)) \<or>
           ev \<in> set (pending_events (c i)) - set (pending_events (conns i))) \<longrightarrow> (\<exists>n. ev = SelectionNotify n))"
proof -
  let ?r = "\<lparr>cv_requestor = q, cv_selection = sel, cv_target = DELETE, cv_property = p\<rparr>"
  obtain ep where h: "handle_convert_selection ?r (conns i) = (convert_delete ?r ep (conns i), NoReply)"
    using assms(1,2) by (auto simp: handle_convert_selection_def Let_def)
  have k: "selection (c k) = (selection (conns k))\<lparr>shared_selections := AList.delete sel (shared_selections (selection (conns i))),
      persistent_clipboard := AList.delete sel (persistent_clipboard (selection (conns i)))\<rparr>"
    using assms(4) by (simp add: c act_def h convert_delete_def Let_def adopt_def disown_def)
  have "snd (handle_get_selection_owner sel (c k)) = Reply 0"
    using assms(3) by (simp add: handle_get_selection_owner_def known_owner_def k shared_owner_def AList.delete_conv')
  moreover have "c i = convert_delete ?r ep (conns i)" by (simp add: c act_def h)
  ultimately show ?thesis
    by (auto simp: convert_delete_def Let_def send_or_queue_def route_event_def push_event_def upd_selection_def
        selection_notify_def split: option.splits)
qed

theorem convert_delete_disowns_witness:
  "snd (handle_get_selection_owner 134 (act 0 (\<lambda>st. fst (handle_convert_selection
      \<lparr>cv_requestor = 5, cv_selection = 134, cv_target = DELETE, cv_property = 200\<rparr> st))
      (\<lambda>j. demo_owner\<lparr>atom_table := \<lparr>atoms = Map.empty, reverse = [190 \<mapsto> [], 134 \<mapsto> []], next_atom = 201\<rparr>\<rparr>) 1)) =
    Reply 0"
proof -
  let ?st = "demo_owner\<lparr>atom_table := \<lparr>atoms = Map.empty, reverse = [190 \<mapsto> [], 134 \<mapsto> []], next_atom = 201\<rparr>\<rparr>"
  have "get_atom_name 134 ?st \<noteq> None" "get_atom_name DELETE ?st \<noteq> None" "map_of (owners (selection ?st)) 134 = None"
    by (simp_all add: get_atom_name_def get_name_def DELETE_def demo_owner_def demo_client_def)
  then show ?thesis
    using convert_delete_disowns [where i = 0 and k = 1 and conns = "\<lambda>j. ?st" and q = 5 and p = 200, OF _ _ _ _ refl] by simp
qed

end
