(* ===== verification/Input.thy ===== *)
theory Input
  imports Ewmh
begin

text \<open>
  Input delivery (\<open>xserver/input.rs\<close>): pointer barriers, hit testing in the window tree, the walk
  from the window under the pointer to a window that selects the event, Enter/Leave events, the
  effect of active grabs on the choice of the event window, and the device-event part of
  \<open>build_x11_input_event\<close>; with the XInput2 Enter/Leave events that accompany them
  (\<open>xinput2/events.rs\<close>) and the data of \<open>grab.rs\<close>.

  Coordinates are \<open>i16\<close> words whose sums wrap. The byte layout of the event structures is generated
  by \<open>x11rb-protocol\<close>; the encoders are a parameter, and what the code relies on is that core events
  take 32 bytes.
\<close>

unbundle bit_operations_syntax

section \<open>Pointer barriers\<close>

record barrier =
  b_x1 :: i16
  b_y1 :: i16
  b_x2 :: i16
  b_y2 :: i16
  b_directions :: u32

definition axis_blocked :: "u32 \<Rightarrow> u32 \<Rightarrow> u32 \<Rightarrow> int \<Rightarrow> int \<Rightarrow> int \<Rightarrow> bool" where
  "axis_blocked directions positive negative line old new \<longleftrightarrow>
     (let forward = (old \<le> line \<and> new > line);
          backward = (old \<ge> line \<and> new < line)
      in if directions = 0 then forward \<or> backward
         else (forward \<and> directions AND positive \<noteq> 0) \<or> (backward \<and> directions AND negative \<noteq> 0))"

definition barrier_step :: "i16 \<Rightarrow> i16 \<Rightarrow> barrier \<Rightarrow> i16 \<times> i16 \<Rightarrow> i16 \<times> i16" where
  "barrier_step old_x old_y b = (\<lambda>(final_x, final_y).
     (if b_x1 b = b_x2 b
      then if sint (smin (b_y1 b) (b_y2 b)) \<le> sint final_y \<and> sint final_y \<le> sint (smax (b_y1 b) (b_y2 b))
              \<and> axis_blocked (b_directions b) 1 4 (sint (b_x1 b)) (sint old_x) (sint final_x)
           then (b_x1 b, final_y) else (final_x, final_y)
      else if b_y1 b = b_y2 b
      then if sint (smin (b_x1 b) (b_x2 b)) \<le> sint final_x \<and> sint final_x \<le> sint (smax (b_x1 b) (b_x2 b))
              \<and> axis_blocked (b_directions b) 2 8 (sint (b_y1 b)) (sint old_y) (sint final_y)
           then (final_x, b_y1 b) else (final_x, final_y)
      else (final_x, final_y)))"

text \<open>The barriers in the iteration order of the table.\<close>

definition enforce_barriers :: "barrier list \<Rightarrow> i16 \<Rightarrow> i16 \<Rightarrow> i16 \<Rightarrow> i16 \<Rightarrow> i16 \<times> i16" where
  "enforce_barriers bs old_x old_y new_x new_y = fold (barrier_step old_x old_y) bs (new_x, new_y)"

section \<open>Hit testing\<close>

definition in_bounds :: "i16 \<Rightarrow> i16 \<Rightarrow> window_state \<Rightarrow> bool" where
  "in_bounds x y c \<longleftrightarrow>
     sint x \<ge> sint (w_x c) \<and> sint x < sint (w_x c + w_width c) \<and>
     sint y \<ge> sint (w_y c) \<and> sint y < sint (w_y c + w_height c)"

definition child_hit :: "i16 \<Rightarrow> i16 \<Rightarrow> window_state \<Rightarrow> bool" where
  "child_hit x y c \<longleftrightarrow> w_mapped c \<and> in_bounds x y c \<and>
     (case w_input_shape c of
        Some shape \<Rightarrow> point_in_shape shape (x - w_x c) (y - w_y c) | None \<Rightarrow> True)"

fun first_hit :: "windows_t \<Rightarrow> i16 \<Rightarrow> i16 \<Rightarrow> u32 list \<Rightarrow> (u32 \<times> window_state) option" where
  "first_hit ws x y [] = None"
| "first_hit ws x y (c # cs) =
     (case map_of ws c of
        Some w \<Rightarrow> if child_hit x y w then Some (c, w) else first_hit ws x y cs
      | None \<Rightarrow> first_hit ws x y cs)"

text \<open>The recursion of \<open>descend\<close> has no bound of its own: fuel stands for the stack, and \<open>None\<close> for
  running out of it.\<close>

fun descend :: "nat \<Rightarrow> windows_t \<Rightarrow> u32 \<Rightarrow> i16 \<Rightarrow> i16 \<Rightarrow> (u32 \<times> i16 \<times> i16) option" where
  "descend 0 ws p x y = None"
| "descend (Suc n) ws p x y =
     (case map_of ws p of
        Some pw \<Rightarrow>
          (case first_hit ws x y (rev (w_children pw)) of
             Some (c, w) \<Rightarrow> descend n ws c (x - w_x w) (y - w_y w)
           | None \<Rightarrow> Some (p, x, y))
      | None \<Rightarrow>
          (case find (\<lambda>(k, w). w_parent w = p \<and> w_mapped w \<and> in_bounds x y w) ws of
             Some (k, w) \<Rightarrow> descend n ws (w_id w) (x - w_x w) (y - w_y w)
           | None \<Rightarrow> Some (p, x, y)))"

definition find_deepest_window ::
    "nat \<Rightarrow> windows_t \<Rightarrow> u32 \<Rightarrow> i16 \<Rightarrow> i16 \<Rightarrow> (u32 \<times> i16 \<times> i16) option" where
  "find_deepest_window stack ws p x y = descend stack ws p x y"

section \<open>Propagation\<close>

text \<open>The walk up from the window under the pointer; \<open>src\<close> is the answer when nobody selects the
  event or propagation is stopped.\<close>

fun walk_up ::
    "nat \<Rightarrow> windows_t \<Rightarrow> u32 \<Rightarrow> u32 \<times> i16 \<times> i16 \<Rightarrow> u32 \<Rightarrow> i16 \<Rightarrow> i16 \<Rightarrow> u32 \<times> i16 \<times> i16" where
  "walk_up 0 ws m src cur x y = src"
| "walk_up (Suc n) ws m src cur x y =
     (case map_of ws cur of
        None \<Rightarrow> src
      | Some w \<Rightarrow>
          if w_event_mask w AND m \<noteq> 0 then (cur, x, y)
          else if w_do_not_propagate w AND m \<noteq> 0 then src
          else if w_parent w = 0 \<or> w_parent w = cur then src
          else walk_up n ws m src (w_parent w) (x + w_x w) (y + w_y w))"

definition find_event_subwindow ::
    "nat \<Rightarrow> windows_t \<Rightarrow> u32 \<Rightarrow> i16 \<Rightarrow> i16 \<Rightarrow> u32 \<Rightarrow> (u32 \<times> i16 \<times> i16) option" where
  "find_event_subwindow stack ws p x y m =
     (case find_deepest_window stack ws p x y of
        None \<Rightarrow> None
      | Some (src, sx, sy) \<Rightarrow> Some (walk_up MAX_TREE_DEPTH ws m (src, sx, sy) src sx sy))"

fun propagate_from :: "nat \<Rightarrow> windows_t \<Rightarrow> u32 \<Rightarrow> u32 \<Rightarrow> u32 \<Rightarrow> u32" where
  "propagate_from 0 ws m focus cur = focus"
| "propagate_from (Suc n) ws m focus cur =
     (case map_of ws cur of
        None \<Rightarrow> focus
      | Some w \<Rightarrow>
          if w_event_mask w AND m \<noteq> 0 then cur
          else if w_do_not_propagate w AND m \<noteq> 0 then 0
          else if w_parent w = 0 \<or> w_parent w = cur then focus
          else propagate_from n ws m focus (w_parent w))"

definition propagate_keyboard_event :: "windows_t \<Rightarrow> u32 \<Rightarrow> u32 \<Rightarrow> u32" where
  "propagate_keyboard_event ws focus m = propagate_from MAX_TREE_DEPTH ws m focus focus"

definition is_blocked_by_modal :: "windows_t \<Rightarrow> u32 \<Rightarrow> bool" where
  "is_blocked_by_modal ws target =
     (let blocked_set = ancestor_chain ws target
      in list_ex (\<lambda>(k, w). w_modal w \<and> w_mapped w \<and>
            (case w_transient_for w of
               Some tf \<Rightarrow> tf \<in> set blocked_set \<and> w_id w \<noteq> target | None \<Rightarrow> False)) ws)"

section \<open>Paths and coordinates\<close>

fun path_from :: "nat \<Rightarrow> windows_t \<Rightarrow> u32 \<Rightarrow> u32 \<Rightarrow> u32 list" where
  "path_from 0 ws root cur = []"
| "path_from (Suc n) ws root cur =
     (if cur = root \<or> cur = 0 then []
      else
        (case map_of ws cur of
           None \<Rightarrow> []
         | Some w \<Rightarrow> if w_parent w = 0 \<or> w_parent w = cur then []
                     else w_parent w # path_from n ws root (w_parent w)))"

definition ancestor_path :: "windows_t \<Rightarrow> u32 \<Rightarrow> u32 \<Rightarrow> u32 list" where
  "ancestor_path ws w root = w # path_from MAX_TREE_DEPTH ws root w"

text \<open>Offsets are summed in \<open>i32\<close>: at most 128 values of 16 bits, which cannot overflow.\<close>

fun origin_from :: "nat \<Rightarrow> windows_t \<Rightarrow> u32 \<Rightarrow> u32 \<Rightarrow> int \<times> int \<Rightarrow> int \<times> int" where
  "origin_from 0 ws root cur org = org"
| "origin_from (Suc n) ws root cur org =
     (if cur = root \<or> cur = 0 then org
      else
        (case map_of ws cur of
           None \<Rightarrow> org
         | Some w \<Rightarrow>
             origin_from n ws root (w_parent w) (fst org + sint (w_x w), snd org + sint (w_y w))))"

definition window_local_coords :: "windows_t \<Rightarrow> u32 \<Rightarrow> u32 \<Rightarrow> i16 \<Rightarrow> i16 \<Rightarrow> i16 \<times> i16" where
  "window_local_coords ws w root abs_x abs_y =
     (let org = origin_from MAX_TREE_DEPTH ws root w (0, 0)
      in (word_of_int (sint abs_x - fst org), word_of_int (sint abs_y - snd org)))"

definition pointer_event_child :: "windows_t \<Rightarrow> u32 \<Rightarrow> i16 \<Rightarrow> i16 \<Rightarrow> u32" where
  "pointer_event_child ws event_window x y =
     (case map_of ws event_window of
        None \<Rightarrow> 0
      | Some w \<Rightarrow>
          (case find (\<lambda>c. case map_of ws c of
                            Some cw \<Rightarrow> w_mapped cw \<and> in_bounds x y cw | None \<Rightarrow> False)
                  (rev (w_children w)) of
             Some c \<Rightarrow> c | None \<Rightarrow> 0))"

fun keyboard_child_from :: "nat \<Rightarrow> windows_t \<Rightarrow> u32 \<Rightarrow> u32 \<Rightarrow> u32 \<Rightarrow> u32" where
  "keyboard_child_from 0 ws event_window cur prev = 0"
| "keyboard_child_from (Suc n) ws event_window cur prev =
     (if cur = event_window then prev
      else if cur = 0 then 0
      else case map_of ws cur of
             Some w \<Rightarrow> keyboard_child_from n ws event_window (w_parent w) cur
           | None \<Rightarrow> 0)"

definition keyboard_event_child :: "windows_t \<Rightarrow> u32 \<Rightarrow> u32 \<Rightarrow> u32" where
  "keyboard_event_child ws event_window focus_window =
     (if event_window = focus_window then 0
      else keyboard_child_from MAX_TREE_DEPTH ws event_window focus_window focus_window)"

section \<open>Events\<close>

record crossing_event =
  ce_code :: u8
  ce_detail :: u8
  ce_sequence :: u16
  ce_time :: u32
  ce_root :: u32
  ce_event :: u32
  ce_child :: u32
  ce_root_x :: i16
  ce_root_y :: i16
  ce_event_x :: i16
  ce_event_y :: i16
  ce_mode :: u8
  ce_flags :: u8

record xi_crossing_event =
  xe_type :: u16
  xe_sequence :: u16
  xe_time :: u32
  xe_root :: u32
  xe_event :: u32
  xe_root_x :: i32
  xe_root_y :: i32
  xe_event_x :: i32
  xe_event_y :: i32

record device_event =
  de_code :: u8
  de_detail :: u8
  de_sequence :: u16
  de_time :: u32
  de_root :: u32
  de_event :: u32
  de_child :: u32
  de_root_x :: i16
  de_root_y :: i16
  de_event_x :: i16
  de_event_y :: i16
  de_state :: u16

record focus_event =
  fe_code :: u8
  fe_detail :: u8
  fe_sequence :: u16
  fe_event :: u32

record xi_focus_event =
  xf_type :: u16
  xf_detail :: u8
  xf_mode :: u8
  xf_sequence :: u16
  xf_root :: u32
  xf_event :: u32

record create_notify_event =
  cn_sequence :: u16
  cn_parent :: u32
  cn_window :: u32
  cn_x :: i16
  cn_y :: i16
  cn_width :: u16
  cn_height :: u16
  cn_border_width :: u16
  cn_override_redirect :: bool

record destroy_notify_event =
  dn_sequence :: u16
  dn_event :: u32
  dn_window :: u32

text \<open>The events about the structure of the window tree and the messages to clients.\<close>

record configure_notify_event =
  cf_sequence :: u16
  cf_event :: u32
  cf_window :: u32
  cf_above_sibling :: u32
  cf_x :: i16
  cf_y :: i16
  cf_width :: u16
  cf_height :: u16
  cf_border_width :: u16
  cf_override_redirect :: bool

record configure_request_event =
  cr_stack_mode :: u8
  cr_parent :: u32
  cr_window :: u32
  cr_sibling :: u32
  cr_x :: i16
  cr_y :: i16
  cr_width :: u16
  cr_height :: u16
  cr_border_width :: u16
  cr_value_mask :: u16

datatype structure_event =
    MapRequestEv u32 u32
  | MapNotifyEv u16 u32 u32 bool
  | UnmapNotifyEv u16 u32 u32
  | ExposeEv u16 u32 u16 u16 u16
  | VisibilityEv u16 u32 u8
  | ConfigureRequestEv configure_request_event
  | ConfigureNotifyEv configure_notify_event
  | ResizeRequestEv u16 u32 u16 u16
  | GravityNotifyEv u16 u32 u32 i16 i16
  | ReparentNotifyEv u16 u32 u32 u32 i16 i16 bool
  | CirculateNotifyEv u16 u32 u32 u8
  | CirculateRequestEv u16 u32 u32 u8
  | ClientMessageEv u16 u32 u32 "u32 list"
  | ColormapNotifyEv u32 u32
  | CursorNotifyEv u16 u32 u32 u32
  | PresentConfigureEv u16 u32 u32 i16 i16 u16 u16

record encoders =
  enc_crossing :: "crossing_event \<Rightarrow> bytes"
  enc_xi :: "xi_crossing_event \<Rightarrow> bytes"
  enc_device :: "device_event \<Rightarrow> bytes"
  enc_focus :: "focus_event \<Rightarrow> bytes"
  enc_xi_focus :: "xi_focus_event \<Rightarrow> bytes"
  enc_create :: "create_notify_event \<Rightarrow> bytes"
  enc_destroy :: "destroy_notify_event \<Rightarrow> bytes"
  enc_structure :: "structure_event \<Rightarrow> bytes"

record xi_selection =
  xs_window :: u32
  xs_deviceid :: u16
  xs_mask :: "u32 list"

definition wants :: "u16 \<Rightarrow> xi_selection \<Rightarrow> bool" where
  "wants evtype s =
     (let w = unat evtype div 32; in_word = unat evtype mod 32
      in w < length (xs_mask s) \<and> drop_bit in_word (xs_mask s ! w) AND 1 \<noteq> 0)"

definition fp1616 :: "i16 \<Rightarrow> i32" where
  "fp1616 v = push_bit 16 (scast v)"

definition serialize_xi_reply :: "bytes \<Rightarrow> bool \<Rightarrow> bytes" where
  "serialize_xi_reply raw msb =
     (let buf = raw @ replicate ((4 - length raw mod 4) mod 4) 0;
          length_units = of_nat ((length buf - 32) div 4) :: u32
      in store buf 4 (if msb then be_bytes 4 length_units else le_bytes 4 length_units))"

definition xi_wanted :: "xi_selection list \<Rightarrow> u16 \<Rightarrow> u32 \<Rightarrow> bool" where
  "xi_wanted sels evtype w =
     list_ex (\<lambda>s. xs_window s = w \<and> xs_deviceid s \<in> {0, 1, 2} \<and> wants evtype s) sels"

definition build_xi_crossing_events_for ::
    "encoders \<Rightarrow> xi_selection list \<Rightarrow> u32 list \<Rightarrow> u32 list \<Rightarrow> i16 \<times> i16 \<Rightarrow> i16 \<times> i16 \<Rightarrow> u16 \<Rightarrow> u32 \<Rightarrow> u32 \<Rightarrow>
     bool \<Rightarrow> bytes list" where
  "build_xi_crossing_events_for E sels leave_chain enter_chain root_pos event_pos seq root time msb =
     (let build = (\<lambda>evtype w. serialize_xi_reply (enc_xi E
            \<lparr>xe_type = evtype, xe_sequence = seq, xe_time = time, xe_root = root, xe_event = w,
             xe_root_x = fp1616 (fst root_pos), xe_root_y = fp1616 (snd root_pos),
             xe_event_x = fp1616 (fst event_pos), xe_event_y = fp1616 (snd event_pos)\<rparr>) msb)
      in map (build 8) (filter (\<lambda>w. w \<notin> set enter_chain \<and> xi_wanted sels 8 w) leave_chain) @
         map (build 7) (filter (\<lambda>w. w \<notin> set leave_chain \<and> xi_wanted sels 7 w) enter_chain))"

section \<open>Grab data and connection state\<close>

record active_pointer_grab =
  pg_window :: u32
  pg_event_mask :: u32
  pg_pointer_mode :: u8
  pg_keyboard_mode :: u8
  pg_confine_to :: u32
  pg_cursor :: u32
  pg_owner_events :: bool
  pg_confine_bounds :: "(i16 \<times> i16 \<times> i16 \<times> i16) option"

record active_keyboard_grab =
  kg_window :: u32
  kg_pointer_mode :: u8
  kg_keyboard_mode :: u8
  kg_owner_events :: bool

record passive_button_grab =
  bg_window :: u32
  bg_button :: u8
  bg_modifiers :: u16
  bg_event_mask :: u32
  bg_pointer_mode :: u8
  bg_keyboard_mode :: u8
  bg_confine_to :: u32
  bg_cursor :: u32
  bg_owner_events :: bool

record passive_key_grab =
  yg_window :: u32
  yg_key :: u8
  yg_modifiers :: u16
  yg_pointer_mode :: u8
  yg_keyboard_mode :: u8
  yg_owner_events :: bool

record grab_state =
  pointer_grab :: "active_pointer_grab option"
  keyboard_grab :: "active_keyboard_grab option"
  button_grabs :: "passive_button_grab list"
  key_grabs :: "passive_key_grab list"
  server_grab_count :: u32
  pointer_frozen :: bool
  keyboard_frozen :: bool
  pointer_sync_pending :: bool
  keyboard_sync_pending :: bool
  frozen_pointer_events :: "bytes list"
  frozen_keyboard_events :: "bytes list"

record input_client = "bytes ewmh_client" +
  focus_window :: u32
  pointer_x :: i16
  pointer_y :: i16
  shared_pointer :: "i16 \<times> i16"
  last_entered_window :: u32
  pressed_keys :: bytes
  xi_selections :: "xi_selection list"
  motion_hint_suppressed :: bool
  motion_history :: "(u32 \<times> i16 \<times> i16) list"
  max_motion_history :: nat
  cursors :: "u32 list"
  grabs :: grab_state
  server_grab :: "string option"
  focus_revert_to :: u8
  shared_focus :: u32
  max_windows :: nat
  peer_pid :: u32
  bit_gravity :: "u8 hashmap"
  win_gravity :: "u8 hashmap"
  window_routes :: "(string \<times> u32) list"
  event_routes :: "nat hashmap"
  wm_events_tx :: nat
  wm_client :: "string option"
  wm_tx :: "nat option"
  save_set :: "u32 list"
  current_cursor :: u32
  cursor_watchers :: "bool hashmap"
  counter_values :: "(i32 \<times> u32) hashmap"
  present_subscriptions :: "(u32 \<times> u32) hashmap"
  pixmap_sizes :: "(u16 \<times> u16 \<times> u8) hashmap"

section \<open>Crossing events\<close>

definition ENTER_NOTIFY_EVENT :: u8 where "ENTER_NOTIFY_EVENT = 7"
definition LEAVE_NOTIFY_EVENT :: u8 where "LEAVE_NOTIFY_EVENT = 8"
definition KEYMAP_NOTIFY_EVENT :: u8 where "KEYMAP_NOTIFY_EVENT = 11"
definition DETAIL_ANCESTOR :: u8 where "DETAIL_ANCESTOR = 0"
definition DETAIL_VIRTUAL :: u8 where "DETAIL_VIRTUAL = 1"
definition DETAIL_INFERIOR :: u8 where "DETAIL_INFERIOR = 2"
definition DETAIL_NONLINEAR :: u8 where "DETAIL_NONLINEAR = 3"
definition DETAIL_NONLINEAR_VIRTUAL :: u8 where "DETAIL_NONLINEAR_VIRTUAL = 4"

fun below_focus :: "nat \<Rightarrow> windows_t \<Rightarrow> u32 \<Rightarrow> u32 \<Rightarrow> u32 \<Rightarrow> bool" where
  "below_focus 0 ws root focus cur = False"
| "below_focus (Suc n) ws root focus cur =
     (if cur = focus then True
      else if cur = 0 \<or> cur = root then False
      else case map_of ws cur of
             Some w \<Rightarrow> if w_parent w \<noteq> cur then below_focus n ws root focus (w_parent w) else False
           | None \<Rightarrow> False)"

definition has_focus :: "windows_t \<Rightarrow> u32 \<Rightarrow> u32 \<Rightarrow> u32 \<Rightarrow> bool" where
  "has_focus ws root focus event_window =
     (if focus = 1 \<or> focus = root then True else if focus = 0 then False
      else below_focus MAX_TREE_DEPTH ws root focus event_window)"

definition make_crossing_event ::
    "windows_t \<Rightarrow> u8 \<Rightarrow> u8 \<Rightarrow> u8 \<Rightarrow> input_client \<Rightarrow> u32 \<Rightarrow> i16 \<Rightarrow> i16 \<Rightarrow> crossing_event" where
  "make_crossing_event ws code detail mode st event_window abs_x abs_y =
     (let (ev_x, ev_y) = window_local_coords ws event_window (root_window st) abs_x abs_y
      in \<lparr>ce_code = code, ce_detail = detail, ce_sequence = sequence st, ce_time = timestamp st,
          ce_root = root_window st, ce_event = event_window,
          ce_child = pointer_event_child ws event_window ev_x ev_y,
          ce_root_x = abs_x, ce_root_y = abs_y, ce_event_x = ev_x, ce_event_y = ev_y, ce_mode = mode,
          ce_flags = 2 OR (if has_focus ws (root_window st) (focus_window st) event_window
                           then 1 else 0)\<rparr>)"

text \<open>\<open>emit_crossing\<close> appends the event when the window selects it.\<close>

definition crossing_mask :: "u8 \<Rightarrow> u32" where
  "crossing_mask code = (if code = ENTER_NOTIFY_EVENT then 0x10 else 0x20)"

definition emit_crossing ::
    "input_client \<Rightarrow> u8 \<Rightarrow> i16 \<Rightarrow> i16 \<Rightarrow> u8 \<times> u8 \<times> u32 \<Rightarrow> crossing_event list" where
  "emit_crossing st mode x y = (\<lambda>(code, detail, w).
     (case map_of (windows st) w of
        Some win \<Rightarrow> if w_event_mask win AND crossing_mask code \<noteq> 0
                    then [make_crossing_event (windows st) code detail mode st w x y] else []
      | None \<Rightarrow> []))"

text \<open>\<open>path[1..pos]\<close> for the position of \<open>w\<close>, if it has one; slicing \<open>[1..0]\<close> panics.\<close>

definition between :: "u32 \<Rightarrow> u32 list \<Rightarrow> u32 list option" where
  "between w path =
     (case position (\<lambda>v. v = w) path of
        None \<Rightarrow> Some [] | Some 0 \<Rightarrow> None | Some (Suc n) \<Rightarrow> Some (take n (drop 1 path)))"

text \<open>The kind, detail and window of every event of a move, in order, before selection.\<close>

definition crossing_plan ::
    "u32 \<Rightarrow> u32 \<Rightarrow> u32 \<Rightarrow> u32 list \<Rightarrow> u32 list \<Rightarrow> (u8 \<times> u8 \<times> u32) list option" where
  "crossing_plan root old new old_path new_path =
     (if old \<in> set new_path
      then map_option (\<lambda>mid.
           (LEAVE_NOTIFY_EVENT, DETAIL_INFERIOR, old) #
           map (\<lambda>w. (ENTER_NOTIFY_EVENT, DETAIL_VIRTUAL, w)) (rev mid) @
           [(ENTER_NOTIFY_EVENT, DETAIL_ANCESTOR, new)]) (between old new_path)
      else if new \<in> set old_path
      then map_option (\<lambda>mid.
           (LEAVE_NOTIFY_EVENT, DETAIL_ANCESTOR, old) #
           map (\<lambda>w. (LEAVE_NOTIFY_EVENT, DETAIL_VIRTUAL, w)) mid @
           [(ENTER_NOTIFY_EVENT, DETAIL_INFERIOR, new)]) (between new old_path)
      else
        (let lca = (case find (\<lambda>w. w \<in> set old_path) new_path of Some w \<Rightarrow> w | None \<Rightarrow> root)
         in case (between lca old_path, between lca new_path) of
              (Some up, Some down) \<Rightarrow>
                Some ((LEAVE_NOTIFY_EVENT, DETAIL_NONLINEAR, old) #
                  map (\<lambda>w. (LEAVE_NOTIFY_EVENT, DETAIL_NONLINEAR_VIRTUAL, w)) up @
                  map (\<lambda>w. (ENTER_NOTIFY_EVENT, DETAIL_NONLINEAR_VIRTUAL, w)) (rev down) @
                  [(ENTER_NOTIFY_EVENT, DETAIL_NONLINEAR, new)])
            | _ \<Rightarrow> None))"

definition keymap_notify :: "input_client \<Rightarrow> u32 \<Rightarrow> bytes" where
  "keymap_notify st new =
     (case map_of (windows st) new of
        Some w \<Rightarrow> if w_event_mask w AND 0x4000 \<noteq> 0
                  then KEYMAP_NOTIFY_EVENT # take 31 (drop 1 (pressed_keys st)) else []
      | None \<Rightarrow> [])"

text \<open>One flat byte string, as the code returns it; \<open>None\<close> is a panic.\<close>

definition build_crossing_events_with_mode ::
    "encoders \<Rightarrow> u32 \<Rightarrow> i16 \<Rightarrow> i16 \<Rightarrow> u8 \<Rightarrow> input_client \<Rightarrow> (input_client \<times> bytes) option" where
  "build_crossing_events_with_mode E new x y mode st =
     (let old = last_entered_window st
      in if old = new then Some (st, [])
         else
           (let root = root_window st; ws = windows st; msb = msb_first st;
                old_path = ancestor_path ws old root;
                new_path = ancestor_path ws new root;
                xi = build_xi_crossing_events_for E (xi_selections st) old_path new_path (x, y)
                       (window_local_coords ws new root x y) (sequence st) root (timestamp st) msb
            in map_option (\<lambda>plan.
                 (st\<lparr>last_entered_window := new\<rparr>,
                  concat (map (\<lambda>e. serialize_event (enc_crossing E e) msb)
                           (concat (map (emit_crossing st mode x y) plan))) @
                  keymap_notify st new @ concat xi))
                 (crossing_plan root old new old_path new_path)))"

definition build_crossing_events ::
    "encoders \<Rightarrow> u32 \<Rightarrow> i16 \<Rightarrow> i16 \<Rightarrow> input_client \<Rightarrow> (input_client \<times> bytes) option" where
  "build_crossing_events E new x y st = build_crossing_events_with_mode E new x y 0 st"

definition build_shared_crossing_events ::
    "encoders \<Rightarrow> u32 \<Rightarrow> u32 \<Rightarrow> i16 \<Rightarrow> i16 \<Rightarrow> input_client \<Rightarrow> (u32 \<times> u32 \<times> bytes) list" where
  "build_shared_crossing_events E old new abs_x abs_y st =
     (if old = new then []
      else concat (map (\<lambda>(w, code).
             if w = 0 \<or> map_of (shared_windows st) w = None then []
             else [(w, crossing_mask code,
                    serialize_event (enc_crossing E
                      (make_crossing_event (shared_windows st) code DETAIL_NONLINEAR 0 st w abs_x abs_y))
                      (msb_first st))])
             [(old, LEAVE_NOTIFY_EVENT), (new, ENTER_NOTIFY_EVENT)]))"

section \<open>Event targets under grabs\<close>

definition selects :: "input_client \<Rightarrow> u32 \<Rightarrow> u32 \<Rightarrow> bool" where
  "selects st w m =
     (case map_of (windows st) w of Some win \<Rightarrow> w_event_mask win AND m \<noteq> 0 | None \<Rightarrow> False)"

definition resolve_pointer_event_target ::
    "nat \<Rightarrow> u32 \<Rightarrow> i16 \<Rightarrow> i16 \<Rightarrow> u32 \<Rightarrow> input_client \<Rightarrow> (u32 \<times> i16 \<times> i16) option" where
  "resolve_pointer_event_target stack top_level x y m st =
     (case pointer_grab (grabs st) of
        Some g \<Rightarrow>
          (let redirected = (pg_window g, window_local_coords (windows st) (pg_window g) (root_window st) x y)
           in if pg_owner_events g
              then
                (case find_event_subwindow stack (windows st) top_level x y m of
                   None \<Rightarrow> None
                 | Some (win, ex, ey) \<Rightarrow>
                     if selects st win m \<or> win = root_window st then Some (win, ex, ey)
                     else if pg_event_mask g AND m \<noteq> 0 then Some redirected
                     else Some (win, ex, ey))
              else if pg_event_mask g AND m \<noteq> 0 then Some redirected
              else Some (root_window st, x, y))
      | None \<Rightarrow> find_event_subwindow stack (windows st) top_level x y m)"

definition resolve_keyboard_event_target :: "u32 \<Rightarrow> u32 \<Rightarrow> input_client \<Rightarrow> u32 \<times> i16 \<times> i16" where
  "resolve_keyboard_event_target top_level m st =
     (let focus = focus_window st; ws = windows st;
          pointer_root = (focus = 1 \<or> focus = root_window st)
      in case keyboard_grab (grabs st) of
           Some g \<Rightarrow>
             if kg_owner_events g
             then if focus = 0 then (kg_window g, 0, 0)
                  else
                    (let target = propagate_keyboard_event ws (if pointer_root then top_level else focus) m
                     in if selects st target m then (target, 0, 0) else (kg_window g, 0, 0))
             else (kg_window g, 0, 0)
         | None \<Rightarrow>
             if focus = 0 then (0, 0, 0)
             else if pointer_root then (top_level, 0, 0)
             else (propagate_keyboard_event ws focus m, 0, 0))"

section \<open>Device events\<close>

datatype input_event =
    KeyPress u32 u16
  | KeyRelease u32 u16
  | ButtonPress u8 i16 i16 u16
  | ButtonRelease u8 i16 i16 u16
  | MotionNotify i16 i16 u16

definition set_pointer :: "i16 \<Rightarrow> i16 \<Rightarrow> input_client \<Rightarrow> input_client" where
  "set_pointer x y st = st\<lparr>pointer_x := x, pointer_y := y, shared_pointer := (x, y)\<rparr>"

definition record_motion_history :: "u32 \<Rightarrow> i16 \<Rightarrow> i16 \<Rightarrow> input_client \<Rightarrow> input_client" where
  "record_motion_history ts x y st =
     (let h = (if length (motion_history st) \<ge> max_motion_history st
               then drop 1 (motion_history st) else motion_history st)
      in st\<lparr>motion_history := h @ [(ts, x, y)]\<rparr>)"

definition local_to_root :: "u32 \<Rightarrow> i16 \<Rightarrow> i16 \<Rightarrow> input_client \<Rightarrow> i16 \<times> i16" where
  "local_to_root top_level lx ly st =
     (let (ox, oy) = (case map_of (windows st) top_level of
                        Some w \<Rightarrow> (sint (w_x w), sint (w_y w)) | None \<Rightarrow> (0, 0));
          clamp = (\<lambda>v. max (- 32768) (min 32767 v))
      in (word_of_int (clamp (ox + sint lx)), word_of_int (clamp (oy + sint ly))))"

definition track_pointer :: "input_event \<Rightarrow> u32 \<Rightarrow> input_client \<Rightarrow> input_client" where
  "track_pointer input top_level st =
     (case input of
        MotionNotify x y _ \<Rightarrow>
          (let (rx, ry) = local_to_root top_level x y st
           in record_motion_history (timestamp st) rx ry (set_pointer rx ry st))
      | ButtonPress _ x y _ \<Rightarrow>
          (let (rx, ry) = local_to_root top_level x y st in set_pointer rx ry st)
      | ButtonRelease _ x y _ \<Rightarrow>
          (let (rx, ry) = local_to_root top_level x y st in set_pointer rx ry st)
      | _ \<Rightarrow> st)"

definition event_target :: "nat \<Rightarrow> input_event \<Rightarrow> u32 \<Rightarrow> input_client \<Rightarrow> (u32 \<times> i16 \<times> i16) option" where
  "event_target stack input top_level st =
     (case input of
        MotionNotify x y _ \<Rightarrow> resolve_pointer_event_target stack top_level x y 0x40 st
      | ButtonPress _ x y _ \<Rightarrow> resolve_pointer_event_target stack top_level x y 4 st
      | ButtonRelease _ x y _ \<Rightarrow> resolve_pointer_event_target stack top_level x y 8 st
      | KeyPress _ _ \<Rightarrow> Some (resolve_keyboard_event_target top_level 1 st)
      | KeyRelease _ _ \<Rightarrow> Some (resolve_keyboard_event_target top_level 2 st))"

definition is_motion :: "input_event \<Rightarrow> bool" where
  "is_motion input = (case input of MotionNotify _ _ _ \<Rightarrow> True | _ \<Rightarrow> False)"

definition is_key :: "input_event \<Rightarrow> bool" where
  "is_key input = (case input of KeyPress _ _ \<Rightarrow> True | KeyRelease _ _ \<Rightarrow> True | _ \<Rightarrow> False)"

definition device_event_of ::
    "input_event \<Rightarrow> u32 \<Rightarrow> u32 \<times> i16 \<times> i16 \<Rightarrow> input_client \<Rightarrow> device_event" where
  "device_event_of input top_level = (\<lambda>(win, ex, ey) st.
     (let pointer_event = (\<lambda>code detail x y state.
            (let (rx, ry) = local_to_root top_level x y st
             in \<lparr>de_code = code, de_detail = detail, de_sequence = sequence st, de_time = timestamp st,
                 de_root = root_window st, de_event = win,
                 de_child = pointer_event_child (windows st) win ex ey,
                 de_root_x = rx, de_root_y = ry, de_event_x = ex, de_event_y = ey, de_state = state\<rparr>));
          key_event = (\<lambda>code keycode state.
            (let (kx, ky) = window_local_coords (windows st) win (root_window st) (pointer_x st) (pointer_y st)
             in \<lparr>de_code = code, de_detail = ucast keycode, de_sequence = sequence st,
                 de_time = timestamp st, de_root = root_window st, de_event = win,
                 de_child = keyboard_event_child (windows st) win (focus_window st),
                 de_root_x = pointer_x st, de_root_y = pointer_y st, de_event_x = kx, de_event_y = ky,
                 de_state = state\<rparr>))
      in case input of
           MotionNotify x y s \<Rightarrow> pointer_event 6 0 x y s
         | ButtonPress b x y s \<Rightarrow> pointer_event 4 b x y s
         | ButtonRelease b x y s \<Rightarrow> pointer_event 5 b x y s
         | KeyPress k s \<Rightarrow> key_event 2 k s
         | KeyRelease k s \<Rightarrow> key_event 3 k s))"

text \<open>The last part: motion hints and the event itself.\<close>

definition finish_input_event ::
    "encoders \<Rightarrow> input_event \<Rightarrow> u32 \<Rightarrow> u32 \<times> i16 \<times> i16 \<Rightarrow> input_client \<times> bytes \<Rightarrow> input_client \<times> bytes" where
  "finish_input_event E input top_level target = (\<lambda>(st, crossing).
     (let win = fst target;
          st = (if is_motion input \<and> crossing \<noteq> [] then st\<lparr>motion_hint_suppressed := False\<rparr> else st);
          has_hint = (is_motion input \<and> selects st win 0x80)
      in if has_hint \<and> motion_hint_suppressed st then (st, crossing)
         else
           (let st = (if has_hint then st\<lparr>motion_hint_suppressed := True\<rparr> else st);
                st = (if \<not> is_motion input \<and> \<not> is_key input
                      then st\<lparr>motion_hint_suppressed := False\<rparr> else st)
            in (st, crossing @ serialize_event (enc_device E
                      (device_event_of input top_level target st)) (msb_first st)))))"

text \<open>The keyboard, button and motion branches of \<open>build_x11_input_event\<close>; \<open>None\<close> when the hit
  test runs out of stack or the crossing events panic.\<close>

definition build_x11_input_event ::
    "encoders \<Rightarrow> nat \<Rightarrow> input_event \<Rightarrow> u32 \<Rightarrow> input_client \<Rightarrow> (input_client \<times> bytes) option" where
  "build_x11_input_event E stack input top_level st =
     (let st = track_pointer input top_level st
      in case event_target stack input top_level st of
           None \<Rightarrow> None
         | Some (win, ex, ey) \<Rightarrow>
             if win = 0 then Some (st, [])
             else if \<not> is_motion input \<and> is_blocked_by_modal (windows st) win then Some (st, [])
             else map_option (finish_input_event E input top_level (win, ex, ey))
                    (case input of
                       MotionNotify x y _ \<Rightarrow> build_crossing_events E win x y st
                     | _ \<Rightarrow> Some (st, [])))"

section \<open>Hit testing\<close>

text \<open>The way from a window to the one that is hit: at each level the topmost mapped child that
  contains the point (and whose input shape does), with coordinates relative to it.\<close>

inductive hit_path :: "windows_t \<Rightarrow> u32 \<Rightarrow> i16 \<Rightarrow> i16 \<Rightarrow> u32 \<Rightarrow> i16 \<Rightarrow> i16 \<Rightarrow> bool" for ws where
  hit_here: "hit_path ws p x y p x y"
| hit_child: "\<lbrakk>map_of ws p = Some pw; w_children pw = below @ c # upper; map_of ws c = Some w;
     child_hit x y w; \<forall>d \<in> set upper. \<forall>v. map_of ws d = Some v \<longrightarrow> \<not> child_hit x y v;
     hit_path ws c (x - w_x w) (y - w_y w) r rx ry\<rbrakk> \<Longrightarrow> hit_path ws p x y r rx ry"

text \<open>No child of the window contains the point.\<close>

definition no_child_hit :: "windows_t \<Rightarrow> u32 \<Rightarrow> i16 \<Rightarrow> i16 \<Rightarrow> bool" where
  "no_child_hit ws p x y \<longleftrightarrow>
     (\<forall>pw c w. map_of ws p = Some pw \<longrightarrow> c \<in> set (w_children pw) \<longrightarrow> map_of ws c = Some w \<longrightarrow>
        \<not> child_hit x y w)"

text \<open>Children are nested at most as deep as the rank says.\<close>

definition children_ranked :: "(u32 \<Rightarrow> nat) \<Rightarrow> windows_t \<Rightarrow> bool" where
  "children_ranked rank ws \<longleftrightarrow>
     (\<forall>(p, pw) \<in> set ws. \<forall>c \<in> set (w_children pw). rank c < rank p)"

lemma first_hit_Some:
  "first_hit ws x y cs = Some (c, w) \<Longrightarrow>
   \<exists>pre post. cs = pre @ c # post \<and> map_of ws c = Some w \<and> child_hit x y w \<and>
     (\<forall>d \<in> set pre. \<forall>v. map_of ws d = Some v \<longrightarrow> \<not> child_hit x y v)"
proof (induction cs)
  case (Cons d cs)
  show ?case
  proof (cases "\<exists>v. map_of ws d = Some v \<and> child_hit x y v")
    case True
    with Cons.prems show ?thesis by (intro exI [of _ "[]"] exI [of _ cs]) auto
  next
    case False
    with Cons.prems have "first_hit ws x y cs = Some (c, w)" by (auto split: option.splits)
    from Cons.IH [OF this] obtain pre post where
      "cs = pre @ c # post \<and> map_of ws c = Some w \<and> child_hit x y w \<and>
       (\<forall>d \<in> set pre. \<forall>v. map_of ws d = Some v \<longrightarrow> \<not> child_hit x y v)" by blast
    with False show ?thesis by (intro exI [of _ "d # pre"] exI [of _ post]) auto
  qed
qed simp

lemma first_hit_None:
  "first_hit ws x y cs = None \<Longrightarrow> c \<in> set cs \<Longrightarrow> map_of ws c = Some w \<Longrightarrow> \<not> child_hit x y w"
  by (induction cs) (auto split: option.splits if_splits)

lemma descend_hit:
  assumes "children_ranked rank ws" "map_of ws p = Some pw" "rank p < n"
  shows "\<exists>r rx ry. descend n ws p x y = Some (r, rx, ry) \<and> hit_path ws p x y r rx ry \<and>
    no_child_hit ws r rx ry"
  using assms(2,3)
proof (induction n arbitrary: p pw x y)
  case (Suc n)
  show ?case
  proof (cases "first_hit ws x y (rev (w_children pw))")
    case None
    have "no_child_hit ws p x y"
      using first_hit_None [OF None] Suc.prems(1) by (auto simp: no_child_hit_def)
    with None Suc.prems(1) show ?thesis
      by (intro exI [of _ p] exI [of _ x] exI [of _ y]) (auto intro: hit_here)
  next
    case (Some cw)
    obtain c w where cw: "cw = (c, w)" by fastforce
    from first_hit_Some [OF Some [unfolded cw]] obtain pre post where hit:
      "rev (w_children pw) = pre @ c # post" "map_of ws c = Some w" "child_hit x y w"
      "\<forall>d \<in> set pre. \<forall>v. map_of ws d = Some v \<longrightarrow> \<not> child_hit x y v" by blast
    have order: "w_children pw = rev post @ c # rev pre"
      using arg_cong [OF hit(1), of rev] by simp
    then have "rank c < rank p"
      using assms(1) map_of_SomeD [OF Suc.prems(1)] by (fastforce simp: children_ranked_def)
    with Suc.prems(2) have "rank c < n" by simp
    from Suc.IH [OF hit(2) this, of "x - w_x w" "y - w_y w"] obtain r rx ry where r:
      "descend n ws c (x - w_x w) (y - w_y w) = Some (r, rx, ry)"
      "hit_path ws c (x - w_x w) (y - w_y w) r rx ry" "no_child_hit ws r rx ry" by blast
    have "hit_path ws p x y r rx ry"
      using hit(4) by (intro hit_child [OF Suc.prems(1) order hit(2,3) _ r(2)]) auto
    with r Some cw Suc.prems(1) show ?thesis by auto
  qed
qed simp

section \<open>Propagation follows the ancestor chain\<close>

definition sel_window :: "windows_t \<Rightarrow> u32 \<Rightarrow> u32 \<Rightarrow> bool" where
  "sel_window ws m c = (case map_of ws c of Some w \<Rightarrow> w_event_mask w AND m \<noteq> 0 | None \<Rightarrow> False)"

definition stop_window :: "windows_t \<Rightarrow> u32 \<Rightarrow> u32 \<Rightarrow> bool" where
  "stop_window ws m c = (case map_of ws c of Some w \<Rightarrow> w_do_not_propagate w AND m \<noteq> 0 | None \<Rightarrow> False)"

lemmas propagation_defs = sel_window_def stop_window_def

lemma propagate_from_chain:
  "propagate_from n ws m focus cur =
     (case find (\<lambda>c. sel_window ws m c \<or> stop_window ws m c) (chain_from n ws cur) of
        Some c \<Rightarrow> if sel_window ws m c then c else 0 | None \<Rightarrow> focus)"
  by (induction n arbitrary: cur) (auto simp: propagation_defs split: option.splits)

lemma walk_up_chain:
  "fst (walk_up n ws m src cur x y) =
     (case find (\<lambda>c. sel_window ws m c \<or> stop_window ws m c) (chain_from n ws cur) of
        Some c \<Rightarrow> if sel_window ws m c then c else fst src | None \<Rightarrow> fst src)"
  by (induction n arbitrary: cur x y) (auto simp: propagation_defs split: option.splits)

section \<open>Ancestor paths\<close>

lemma path_from_fuel:
  assumes "tree_ok depth ws" "map_of ws c \<noteq> None \<longrightarrow> depth c < n" "map_of ws c \<noteq> None \<longrightarrow> depth c < m"
  shows "path_from n ws root c = path_from m ws root c"
  using assms(2,3)
proof (induction n arbitrary: c m)
  case 0
  then have "map_of ws c = None" by simp
  then show ?case by (cases m) auto
next
  case (Suc n)
  show ?case
  proof (cases "map_of ws c")
    case (Some w)
    then obtain m' where m: "m = Suc m'" using Suc.prems(2) by (cases m) auto
    have "map_of ws (w_parent w) \<noteq> None \<longrightarrow> depth (w_parent w) < depth c"
      using tree_okD(2) [OF assms(1) Some] by auto
    then have "path_from n ws root (w_parent w) = path_from m' ws root (w_parent w)"
      using Suc.prems Some m by (intro Suc.IH) auto
    then show ?thesis using Some m by auto
  qed (cases m, auto)
qed

lemma path_from_SucD:
  assumes "v \<in> set (path_from (Suc n) ws root c)"
  obtains w where "map_of ws c = Some w"
    "path_from (Suc n) ws root c = w_parent w # path_from n ws root (w_parent w)"
proof (cases "c = root \<or> c = 0")
  case False
  with assms obtain w where w: "map_of ws c = Some w" by (cases "map_of ws c") auto
  with assms False have "path_from (Suc n) ws root c = w_parent w # path_from n ws root (w_parent w)"
    by (simp split: if_splits)
  with w that show thesis by blast
qed (use assms in simp)

lemma path_from_depth:
  assumes "tree_ok depth ws" "v \<in> set (path_from n ws root c)" "map_of ws v \<noteq> None"
  shows "depth v < depth c"
  using assms(2)
proof (induction n arbitrary: c)
  case (Suc n)
  obtain w where w: "map_of ws c = Some w" "v = w_parent w \<or> v \<in> set (path_from n ws root (w_parent w))"
    using path_from_SucD [OF Suc.prems] Suc.prems by (metis set_ConsD)
  show ?case
  proof (cases "v = w_parent w")
    case True
    then show ?thesis using tree_okD(2) [OF assms(1) w(1)] assms(3) by auto
  next
    case False
    with w(2) have v: "v \<in> set (path_from n ws root (w_parent w))" by simp
    then have "map_of ws (w_parent w) \<noteq> None"
      by (cases n) (auto elim: path_from_SucD simp del: path_from.simps(2))
    with tree_okD(2) [OF assms(1) w(1)] Suc.IH [OF v] show ?thesis by fastforce
  qed
qed simp

lemma path_from_self: "tree_ok depth ws \<Longrightarrow> c \<notin> set (path_from n ws root c)"
  using path_from_depth [of depth ws c n root c]
  by (cases n) (auto elim: path_from_SucD simp del: path_from.simps(2))

lemma path_from_distinct: "tree_ok depth ws \<Longrightarrow> distinct (path_from n ws root c)"
  by (induction n arbitrary: c) (auto simp: path_from_self split: option.splits)

lemma path_from_suffix:
  assumes "tree_ok depth ws" "v \<in> set (path_from n ws root c)" "map_of ws c \<noteq> None \<longrightarrow> depth c < n"
  shows "\<exists>pre. path_from n ws root c = pre @ v # path_from MAX_TREE_DEPTH ws root v"
  using assms(2,3)
proof (induction n arbitrary: c)
  case (Suc n)
  from path_from_SucD [OF Suc.prems(1)] obtain w where w: "map_of ws c = Some w"
    "path_from (Suc n) ws root c = w_parent w # path_from n ws root (w_parent w)" .
  then have v: "v = w_parent w \<or> v \<in> set (path_from n ws root (w_parent w))"
    using Suc.prems(1) by (simp del: path_from.simps)
  have d: "map_of ws (w_parent w) \<noteq> None \<longrightarrow> depth (w_parent w) < n"
    using tree_okD(2) [OF assms(1) w(1)] Suc.prems(2) w(1) by fastforce
  show ?case
  proof (cases "v = w_parent w")
    case True
    have "path_from n ws root v = path_from MAX_TREE_DEPTH ws root v"
      using d True tree_okD(1) [OF assms(1)] by (intro path_from_fuel [OF assms(1)]) auto
    then show ?thesis using True w(2) by (intro exI [of _ "[]"]) (simp del: path_from.simps)
  next
    case False
    with v Suc.IH [OF _ d] obtain pre where
      "path_from n ws root (w_parent w) = pre @ v # path_from MAX_TREE_DEPTH ws root v" by blast
    then show ?thesis using w(2) by (intro exI [of _ "w_parent w # pre"]) (simp del: path_from.simps)
  qed
qed simp

lemma ancestor_path_distinct: "tree_ok depth ws \<Longrightarrow> distinct (ancestor_path ws w root)"
  by (simp add: ancestor_path_def path_from_distinct path_from_self)

lemma ancestor_path_suffix:
  assumes "tree_ok depth ws" "v \<in> set (ancestor_path ws w root)"
  shows "\<exists>pre. ancestor_path ws w root = pre @ ancestor_path ws v root"
proof (cases "v = w")
  case False
  then have v: "v \<in> set (path_from MAX_TREE_DEPTH ws root w)" using assms(2) by (simp add: ancestor_path_def)
  have d: "map_of ws w \<noteq> None \<longrightarrow> depth w < MAX_TREE_DEPTH" using tree_okD(1) [OF assms(1)] by auto
  from path_from_suffix [OF assms(1) v d] obtain pre where
    "path_from MAX_TREE_DEPTH ws root w = pre @ v # path_from MAX_TREE_DEPTH ws root v" by blast
  then show ?thesis by (intro exI [of _ "w # pre"]) (simp add: ancestor_path_def)
qed auto

section \<open>Crossing events balance\<close>

lemma between_split: "xs = ys @ w # zs \<Longrightarrow> w \<notin> set ys \<Longrightarrow> ys \<noteq> [] \<Longrightarrow> between w xs = Some (tl ys)"
proof -
  assume a: "xs = ys @ w # zs" "w \<notin> set ys" "ys \<noteq> []"
  then obtain y ys' where ys: "ys = y # ys'" by (cases ys) auto
  have "position (\<lambda>v. v = w) xs = Some (length ys)" using a by (auto intro!: position_append)
  then show ?thesis using a ys by (simp add: between_def)
qed

text \<open>The windows a plan leaves and enters for good; Inferior events keep the pointer inside.\<close>

definition plan_left :: "(u8 \<times> u8 \<times> u32) list \<Rightarrow> u32 set" where
  "plan_left plan = {w. \<exists>d. (LEAVE_NOTIFY_EVENT, d, w) \<in> set plan \<and> d \<noteq> DETAIL_INFERIOR}"

definition plan_entered :: "(u8 \<times> u8 \<times> u32) list \<Rightarrow> u32 set" where
  "plan_entered plan = {w. \<exists>d. (ENTER_NOTIFY_EVENT, d, w) \<in> set plan \<and> d \<noteq> DETAIL_INFERIOR}"

lemmas crossing_consts = LEAVE_NOTIFY_EVENT_def ENTER_NOTIFY_EVENT_def DETAIL_INFERIOR_def
  DETAIL_ANCESTOR_def DETAIL_VIRTUAL_def DETAIL_NONLINEAR_def DETAIL_NONLINEAR_VIRTUAL_def

lemma plan_sets:
  "plan_left [] = {}" "plan_entered [] = {}"
  "plan_left (e # es) = (case e of (k, d, w) \<Rightarrow>
     if k = LEAVE_NOTIFY_EVENT \<and> d \<noteq> DETAIL_INFERIOR then {w} else {}) \<union> plan_left es"
  "plan_entered (e # es) = (case e of (k, d, w) \<Rightarrow>
     if k = ENTER_NOTIFY_EVENT \<and> d \<noteq> DETAIL_INFERIOR then {w} else {}) \<union> plan_entered es"
  "plan_left (es @ fs) = plan_left es \<union> plan_left fs"
  "plan_entered (es @ fs) = plan_entered es \<union> plan_entered fs"
  "plan_left (map (\<lambda>w. (k, d, w)) ws) =
     (if k = LEAVE_NOTIFY_EVENT \<and> d \<noteq> DETAIL_INFERIOR then set ws else {})"
  "plan_entered (map (\<lambda>w. (k, d, w)) ws) =
     (if k = ENTER_NOTIFY_EVENT \<and> d \<noteq> DETAIL_INFERIOR then set ws else {})"
  by (cases e; auto simp: plan_left_def plan_entered_def)+

lemma split_unique:
  "xs @ v # ys = us @ v # vs \<Longrightarrow> v \<notin> set xs \<Longrightarrow> v \<notin> set us \<Longrightarrow> xs = us \<and> ys = vs"
  by (induction xs arbitrary: us) (case_tac us; auto)+

lemma crossing_plan_balance:
  assumes "tree_ok depth ws" "old \<noteq> new"
    and "P = ancestor_path ws old root" "N = ancestor_path ws new root" "root \<in> set P" "root \<in> set N"
  shows "\<exists>plan. crossing_plan root old new P N = Some plan \<and>
    plan_left plan = set P - set N \<and> plan_entered plan = set N - set P"
proof -
  have dP: "distinct P" and dN: "distinct N" using ancestor_path_distinct [OF assms(1)] assms(3,4) by auto
  have hP: "P \<noteq> []" "hd P = old" and hN: "N \<noteq> []" "hd N = new"
    using assms(3,4) by (simp_all add: ancestor_path_def)
  have split: "\<exists>pre suf. P = pre @ v # suf \<and> N = pre' @ v # suf \<and> v \<notin> set pre'"
    if "N = pre' @ v # suf'" "v \<in> set P" "v \<notin> set pre'" for v pre' suf'
  proof -
    from ancestor_path_suffix [OF assms(1), of v old root] that(2) assms(3) obtain p1 where
      p1: "P = p1 @ ancestor_path ws v root" by auto
    from ancestor_path_suffix [OF assms(1), of v new root] that(1) assms(4) obtain p2 where
      p2: "N = p2 @ ancestor_path ws v root" by auto
    have hd_v: "\<exists>s. ancestor_path ws v root = v # s" by (simp add: ancestor_path_def)
    then obtain s where s: "ancestor_path ws v root = v # s" by blast
    have "v \<notin> set p2" using dN p2 s by auto
    then have "p2 = pre' \<and> s = suf'"
      using that(1,3) p2 s split_unique [of p2 v s pre' suf'] by simp
    then show ?thesis using p1 p2 s that by auto
  qed
  show ?thesis
  proof (cases "old \<in> set N")
    case True
    then obtain pre' suf' where N: "N = pre' @ old # suf'" "old \<notin> set pre'" by (metis split_list_first)
    have "old \<in> set P" using hP by (metis hd_in_set)
    from split [OF N(1) this N(2)] obtain pre suf where ps: "P = pre @ old # suf" "N = pre' @ old # suf" by blast
    have "pre = []" using dP hP ps(1) by (cases pre) auto
    have ne: "pre' \<noteq> []" using hN ps(2) assms(2) by auto
    have "set pre' = insert new (set (tl pre'))" using hN ps(2) ne by (cases pre') auto
    then show ?thesis
      using True between_split [OF ps(2) N(2) ne] ps \<open>pre = []\<close> dN N(2)
      by (auto simp: crossing_plan_def plan_sets crossing_consts)
  next
    case False
    show ?thesis
    proof (cases "new \<in> set P")
      case True
      have N: "N = [] @ new # tl N" using hN by (cases N) auto
      from split [OF N True] obtain pre suf where ps: "P = pre @ new # suf" "N = new # suf" by auto
      have ne: "pre \<noteq> []" "new \<notin> set pre" using hP ps(1) assms(2) dP by auto
      have "set pre = insert old (set (tl pre))" using hP ps(1) ne(1) by (cases pre) auto
      then show ?thesis
        using True False between_split [OF ps(1) ne(2,1)] ps dP ne
        by (auto simp: crossing_plan_def plan_sets crossing_consts)
    next
      case new: False
      from split_list_first_prop [of N "\<lambda>w. w \<in> set P"] assms(5,6) obtain pre' lca suf' where
        l: "N = pre' @ lca # suf'" "lca \<in> set P" "\<forall>v \<in> set pre'. v \<notin> set P" by blast
      then have nl: "lca \<notin> set pre'" by blast
      from split [OF l(1,2) nl] obtain pre suf where ps: "P = pre @ lca # suf" "N = pre' @ lca # suf" by blast
      have np: "lca \<notin> set pre" using dP ps(1) by auto
      have ne: "pre \<noteq> []" "pre' \<noteq> []"
        using hP hN ps False new l(2) by (auto simp: hd_append split: if_splits)
      have fnd: "find (\<lambda>w. w \<in> set P) N = Some lca"
        using l(2,3) by (subst l(1)) (auto simp: find_Some_iff nth_append intro!: exI [of _ "length pre'"])
      have sets: "set pre = insert old (set (tl pre))" "set pre' = insert new (set (tl pre'))"
        using hP hN ps ne by (cases pre; cases pre'; simp)+
      have "set P - set N = set pre" using ps dP l(3) by auto
      moreover have "set N - set P = set pre'" using ps dN l(3) by auto
      ultimately show ?thesis
        using False new fnd between_split [OF ps(1) np ne(1)] between_split [OF ps(2) nl ne(2)] sets
        by (auto simp: crossing_plan_def plan_sets crossing_consts Let_def)
    qed
  qed
qed

section \<open>Properties\<close>

text \<open>A connection with a window that has a child.\<close>

definition demo_grabs :: grab_state where
  "demo_grabs =
     \<lparr>pointer_grab = None, keyboard_grab = None, button_grabs = [], key_grabs = [],
      server_grab_count = 0, pointer_frozen = False, keyboard_frozen = False,
      pointer_sync_pending = False, keyboard_sync_pending = False,
      frozen_pointer_events = [], frozen_keyboard_events = []\<rparr>"

definition demo_windows :: windows_t where
  "demo_windows =
     [(5, (window_at 1 30 20 80 60 [6])\<lparr>w_event_mask := 4\<rparr>), (6, window_at 5 2 2 8 6 []),
      (7, window_at 1 0 0 8 6 [])]"

definition demo_input :: input_client where
  "demo_input =
     \<lparr>resource_id_base = 0, next_xid = 0, freed_xids = [], msb_first = False, pending_events = [],
      client_id = ''a'', root_window = 1, windows = demo_windows,
      shared_windows = [], shared_dirty_windows = [], x11_to_uuid = (\<lambda>_. None),
      event_broadcaster = broadcaster_new, sent_events = [], sequence = 1, timestamp = 0,
      screen_width = 800, screen_height = 600, atom_table = \<lparr>atoms = Map.empty, reverse = Map.empty, next_atom = 500\<rparr>, gtk_paths = [],
      messages = [], focus_window = 1, pointer_x = 0, pointer_y = 0,
      shared_pointer = (0, 0), last_entered_window = 1, pressed_keys = replicate 32 0,
      xi_selections = [], motion_hint_suppressed = False, motion_history = [],
      max_motion_history = 256, cursors = [], grabs = demo_grabs, server_grab = None,
      focus_revert_to = 1, shared_focus = 1, max_windows = 100, peer_pid = 0, bit_gravity = [],
      win_gravity = [], window_routes = [], event_routes = [], wm_events_tx = 0,
      wm_client = None, wm_tx = None, save_set = [], current_cursor = 0, cursor_watchers = [], counter_values = [],
      present_subscriptions = [], pixmap_sizes = []\<rparr>"

lemmas demo_defs = demo_input_def demo_windows_def demo_grabs_def window_at_def

text \<open>C28. Hit testing ends and finds the window under the pointer: if the nesting of children is
  bounded, a stack of that many frames suffices, the answer is reached from the starting window by
  going to the topmost child that contains the point (its input shape included) at every level, with
  coordinates relative to the window reached, and no child of the answer contains the point.\<close>

theorem hit_test_deepest:
  assumes "children_ranked rank ws" "map_of ws p = Some pw" "rank p < stack"
  shows "\<exists>r rx ry. find_deepest_window stack ws p x y = Some (r, rx, ry) \<and>
    hit_path ws p x y r rx ry \<and> no_child_hit ws r rx ry"
  unfolding find_deepest_window_def by (rule descend_hit [OF assms])

theorem hit_test_deepest_witness:
  "(\<exists>r rx ry. find_deepest_window 3 demo_windows 5 4 3 = Some (r, rx, ry) \<and>
     hit_path demo_windows 5 4 3 r rx ry \<and> no_child_hit demo_windows r rx ry) \<and>
   find_deepest_window 3 demo_windows 5 4 3 = Some (6, 2, 1)"
proof
  show "\<exists>r rx ry. find_deepest_window 3 demo_windows 5 4 3 = Some (r, rx, ry) \<and>
     hit_path demo_windows 5 4 3 r rx ry \<and> no_child_hit demo_windows r rx ry"
    by (rule hit_test_deepest [of "\<lambda>w. if w = 5 then 1 else 0" _ _ "the (map_of demo_windows 5)"])
      (simp_all add: children_ranked_def demo_defs)
  show "find_deepest_window 3 demo_windows 5 4 3 = Some (6, 2, 1)" by code_simp
qed

text \<open>The walks that look for a window selecting an event agree with one search over the ancestor
  chain: the first window of the chain that selects the event or stops its propagation decides.
  For a pointer event, when nobody selects it or propagation is stopped, the answer is the window
  under the pointer; for a keyboard event, the focus window and window 0 respectively.\<close>

theorem propagation_is_chain_search:
  "propagate_keyboard_event ws focus m =
     (case find (\<lambda>c. sel_window ws m c \<or> stop_window ws m c) (ancestor_chain ws focus) of
        Some c \<Rightarrow> if sel_window ws m c then c else 0 | None \<Rightarrow> focus) \<and>
   map_option fst (find_event_subwindow stack ws p x y m) =
     map_option (\<lambda>(src, _).
       case find (\<lambda>c. sel_window ws m c \<or> stop_window ws m c) (ancestor_chain ws src) of
         Some c \<Rightarrow> if sel_window ws m c then c else src | None \<Rightarrow> src)
       (find_deepest_window stack ws p x y)"
proof (intro conjI)
  show "propagate_keyboard_event ws focus m =
     (case find (\<lambda>c. sel_window ws m c \<or> stop_window ws m c) (ancestor_chain ws focus) of
        Some c \<Rightarrow> if sel_window ws m c then c else 0 | None \<Rightarrow> focus)"
    by (simp add: propagate_keyboard_event_def propagate_from_chain ancestor_chain_def)
  show "map_option fst (find_event_subwindow stack ws p x y m) =
     map_option (\<lambda>(src, _).
       case find (\<lambda>c. sel_window ws m c \<or> stop_window ws m c) (ancestor_chain ws src) of
         Some c \<Rightarrow> if sel_window ws m c then c else src | None \<Rightarrow> src)
       (find_deepest_window stack ws p x y)"
  proof (cases "find_deepest_window stack ws p x y")
    case (Some s)
    obtain src sx sy where s: "s = (src, sx, sy)" by (cases s)
    show ?thesis
      unfolding find_event_subwindow_def Some s option.case prod.case option.map walk_up_chain
        ancestor_chain_def fst_conv ..
  qed (simp add: find_event_subwindow_def)
qed

text \<open>C12. Enter and Leave events balance: when the pointer moves between two windows of the tree, the
  windows that receive a Leave event (other than Inferior) are exactly the ancestors-or-self of the
  old window that are not of the new one, those that receive an Enter event are the ancestors-or-self
  of the new window that are not of the old one, the events go only to windows that select them, and
  the new window is remembered. In particular the slices the code takes never panic.\<close>

theorem crossing_events_balance:
  assumes "tree_ok depth (windows st)" "last_entered_window st \<noteq> new"
    and "P = ancestor_path (windows st) (last_entered_window st) (root_window st)"
    and "N = ancestor_path (windows st) new (root_window st)"
    and "root_window st \<in> set P" "root_window st \<in> set N"
  shows "\<exists>plan rest. plan_left plan = set P - set N \<and> plan_entered plan = set N - set P \<and>
    build_crossing_events_with_mode E new x y mode st = Some (st\<lparr>last_entered_window := new\<rparr>,
      concat (map (\<lambda>e. serialize_event (enc_crossing E e) (msb_first st))
        (concat (map (emit_crossing st mode x y) plan))) @ rest)"
  using crossing_plan_balance [OF assms(1-4) assms(5,6)] assms(2-4)
  by (auto simp: build_crossing_events_with_mode_def Let_def)

definition demo_encoders :: encoders where
  "demo_encoders =
     \<lparr>enc_crossing = (\<lambda>e. replicate 32 0), enc_xi = (\<lambda>e. replicate 84 0),
      enc_device = (\<lambda>e. replicate 32 0), enc_focus = (\<lambda>e. replicate 32 0),
      enc_xi_focus = (\<lambda>e. replicate 84 0), enc_create = (\<lambda>e. replicate 32 0),
      enc_destroy = (\<lambda>e. replicate 32 0), enc_structure = (\<lambda>e. replicate 48 0)\<rparr>"

theorem crossing_events_balance_witness:
  "ancestor_path demo_windows 6 1 = [6, 5, 1] \<and> ancestor_path demo_windows 7 1 = [7, 1] \<and>
   (\<exists>plan rest. plan_left plan = {6, 5} \<and> plan_entered plan = {7} \<and>
     build_crossing_events_with_mode demo_encoders 7 1 1 0 (demo_input\<lparr>last_entered_window := 6\<rparr>) =
       Some (demo_input\<lparr>last_entered_window := 7\<rparr>,
         concat (map (\<lambda>e. serialize_event (enc_crossing demo_encoders e) False)
           (concat (map (emit_crossing (demo_input\<lparr>last_entered_window := 6\<rparr>) 0 1 1) plan))) @ rest))"
proof -
  have paths: "ancestor_path demo_windows 6 1 = [6, 5, 1]" "ancestor_path demo_windows 7 1 = [7, 1]"
    by code_simp+
  have tree: "tree_ok (\<lambda>c. if c = 6 then 2 else 1) demo_windows"
    by (simp add: tree_ok_def demo_defs MAX_TREE_DEPTH_def)
  have sets: "set [6, 5, 1 :: u32] - set [7, 1] = {6, 5}" "set [7, 1 :: u32] - set [6, 5, 1] = {7}"
    by auto
  show ?thesis
    using crossing_events_balance [of "\<lambda>c. if c = 6 then 2 else 1"
        "demo_input\<lparr>last_entered_window := 6\<rparr>" 7 "[6, 5, 1]" "[7, 1]" demo_encoders 1 1 0] paths tree
    unfolding sets by (simp add: demo_input_def)
qed

text \<open>Pointer coordinates under a grab are wrong. The coordinates of an input event are relative to
  the top-level window. Without a grab a press on a top-level window that selects it is reported at
  those coordinates. With an active grab on that very window the position of the window is
  subtracted a second time.\<close>

theorem grabbed_pointer_coordinates:
  assumes "map_of (windows st) w = Some win" "w_parent win = root_window st" "w \<noteq> root_window st" "w \<noteq> 0"
    and "no_child_hit (windows st) w x y" "w_event_mask win AND 4 \<noteq> 0"
    and "pg_window g = w" "\<not> pg_owner_events g" "pg_event_mask g AND 4 \<noteq> 0"
  shows "event_target (Suc n) (ButtonPress b x y s) w (st\<lparr>grabs := (grabs st)\<lparr>pointer_grab := None\<rparr>\<rparr>) =
      Some (w, x, y) \<and>
    event_target (Suc n) (ButtonPress b x y s) w (st\<lparr>grabs := (grabs st)\<lparr>pointer_grab := Some g\<rparr>\<rparr>) =
      Some (w, x - w_x win, y - w_y win)"
proof
  have "first_hit (windows st) x y (rev (w_children win)) = None"
  proof (rule ccontr)
    assume "first_hit (windows st) x y (rev (w_children win)) \<noteq> None"
    then obtain c v where "first_hit (windows st) x y (rev (w_children win)) = Some (c, v)" by auto
    from first_hit_Some [OF this] obtain pre post where
      "rev (w_children win) = pre @ c # post" "map_of (windows st) c = Some v" "child_hit x y v" by blast
    moreover from this(1) have "c \<in> set (w_children win)" by (metis in_set_conv_decomp set_rev)
    ultimately show False using assms(1,5) by (auto simp: no_child_hit_def)
  qed
  then show "event_target (Suc n) (ButtonPress b x y s) w (st\<lparr>grabs := (grabs st)\<lparr>pointer_grab := None\<rparr>\<rparr>) =
      Some (w, x, y)"
    using assms(1,6) by (simp add: event_target_def resolve_pointer_event_target_def
        find_event_subwindow_def find_deepest_window_def MAX_TREE_DEPTH_def numeral_eq_Suc)
  have "origin_from MAX_TREE_DEPTH (windows st) (root_window st) w (0, 0) = (sint (w_x win), sint (w_y win))"
    using assms(1-4) by (simp add: MAX_TREE_DEPTH_def numeral_eq_Suc)
  then show "event_target (Suc n) (ButtonPress b x y s) w
      (st\<lparr>grabs := (grabs st)\<lparr>pointer_grab := Some g\<rparr>\<rparr>) = Some (w, x - w_x win, y - w_y win)"
    using assms(7-9) by (simp add: event_target_def resolve_pointer_event_target_def
        window_local_coords_def Let_def)
qed

definition demo_pointer_grab :: active_pointer_grab where
  "demo_pointer_grab =
     \<lparr>pg_window = 5, pg_event_mask = 12, pg_pointer_mode = 1, pg_keyboard_mode = 1, pg_confine_to = 0,
      pg_cursor = 0, pg_owner_events = False, pg_confine_bounds = None\<rparr>"

theorem grabbed_pointer_coordinates_witness:
  "event_target 2 (ButtonPress 1 50 50 0) 5 demo_input = Some (5, 50, 50) \<and>
   event_target 2 (ButtonPress 1 50 50 0) 5
     (demo_input\<lparr>grabs := demo_grabs\<lparr>pointer_grab := Some demo_pointer_grab\<rparr>\<rparr>) = Some (5, 20, 30)"
proof -
  have hit: "no_child_hit demo_windows 5 50 50"
    by (auto simp: no_child_hit_def demo_defs child_hit_def in_bounds_def split: if_splits)
  show ?thesis
    using grabbed_pointer_coordinates [of demo_input 5 "the (map_of demo_windows 5)" 50 50
        demo_pointer_grab "Suc 0" 1 0] hit
    unfolding numeral_2_eq_2 by (simp add: demo_defs demo_pointer_grab_def)
qed

end
