(* ===== verification/Grab.thy ===== *)
theory Grab
  imports Input "HOL-Library.Multiset"
begin

text \<open>
  Grabs (\<open>xserver/grab.rs\<close>): active and passive pointer and keyboard grabs, frozen devices and their
  event queues, AllowEvents, confinement of the pointer, and the server grab.

  A handler is \<open>None\<close> when the code panics (in the crossing events a grab sends).
\<close>

unbundle bit_operations_syntax

section \<open>Crossing events of a grab\<close>

definition ANY_MODIFIER :: u16 where "ANY_MODIFIER = 0x8000"
definition TIMESTAMP_WRAP_THRESHOLD :: u32 where "TIMESTAMP_WRAP_THRESHOLD = 0x80000000"
definition BUTTON_STATE_MASK_ALL :: u16 where "BUTTON_STATE_MASK_ALL = 0x1F00"
definition MAX_FROZEN_EVENTS :: nat where "MAX_FROZEN_EVENTS = 4096"

text \<open>\<open>chunks_exact(32)\<close>: a shorter rest is dropped.\<close>

function chunks32 :: "bytes \<Rightarrow> bytes list" where
  "chunks32 bs = (if length bs < 32 then [] else take 32 bs # chunks32 (drop 32 bs))"
  by pat_completeness auto
termination by (relation "measure length") auto

declare chunks32.simps [simp del]

definition push_chunks :: "bytes \<Rightarrow> input_client \<Rightarrow> input_client" where
  "push_chunks evs st = st\<lparr>pending_events := pending_events st @ chunks32 evs\<rparr>"

definition emit_grab_crossing_events :: "encoders \<Rightarrow> u32 \<Rightarrow> input_client \<Rightarrow> input_client option" where
  "emit_grab_crossing_events E grab_window st =
     map_option (\<lambda>(st, evs). push_chunks evs st)
       (build_crossing_events_with_mode E grab_window (pointer_x st) (pointer_y st) 1 st)"

definition emit_ungrab_crossing_events :: "encoders \<Rightarrow> u32 \<Rightarrow> input_client \<Rightarrow> input_client option" where
  "emit_ungrab_crossing_events E grab_window st =
     (if grab_window = root_window st then Some st
      else
        (let st = st\<lparr>last_entered_window := grab_window\<rparr>
         in map_option (\<lambda>(st, evs). push_chunks evs st)
              (build_crossing_events_with_mode E (root_window st) (pointer_x st) (pointer_y st) 2 st)))"

section \<open>Viewability and bounds\<close>

fun viewable_within :: "nat \<Rightarrow> windows_t \<Rightarrow> u32 \<Rightarrow> u32 \<Rightarrow> bool" where
  "viewable_within 0 ws root cur = False"
| "viewable_within (Suc n) ws root cur =
     (if cur = root then True
      else case map_of ws cur of
             Some w \<Rightarrow> if w_mapped w then viewable_within n ws root (w_parent w) else False
           | None \<Rightarrow> False)"

definition is_viewable :: "windows_t \<Rightarrow> u32 \<Rightarrow> u32 \<Rightarrow> bool" where
  "is_viewable ws wid root = viewable_within MAX_TREE_DEPTH ws root wid"

fun abs_origin :: "nat \<Rightarrow> windows_t \<Rightarrow> u32 \<Rightarrow> u32 \<Rightarrow> i16 \<times> i16 \<Rightarrow> i16 \<times> i16" where
  "abs_origin 0 ws root cur p = p"
| "abs_origin (Suc n) ws root cur p =
     (if cur = root \<or> cur = 0 then p
      else case map_of ws cur of
             Some w \<Rightarrow> abs_origin n ws root (w_parent w) (fst p + w_x w, snd p + w_y w)
           | None \<Rightarrow> p)"

definition window_abs_bounds :: "windows_t \<Rightarrow> u32 \<Rightarrow> u32 \<Rightarrow> (i16 \<times> i16 \<times> i16 \<times> i16) option" where
  "window_abs_bounds ws wid root =
     map_option (\<lambda>w.
       (let (abs_x, abs_y) = abs_origin MAX_TREE_DEPTH ws root (w_parent w) (w_x w, w_y w)
        in (abs_x, abs_y, saturating_add_i16 abs_x (w_width w), saturating_add_i16 abs_y (w_height w))))
       (map_of ws wid)"

definition confine_bounds_for :: "u32 \<Rightarrow> input_client \<Rightarrow> (i16 \<times> i16 \<times> i16 \<times> i16) option" where
  "confine_bounds_for confine_to st =
     (if confine_to = 0 then None
      else if confine_to = root_window st then Some (0, 0, screen_width st, screen_height st)
      else window_abs_bounds (windows st) confine_to (root_window st))"

section \<open>Active grabs\<close>

record grab_pointer_request =
  gpr_owner_events :: bool
  gpr_window :: u32
  gpr_event_mask :: u32
  gpr_pointer_mode :: u8
  gpr_keyboard_mode :: u8
  gpr_confine_to :: u32
  gpr_cursor :: u32
  gpr_time :: u32

record grab_keyboard_request =
  gkr_owner_events :: bool
  gkr_window :: u32
  gkr_time :: u32
  gkr_pointer_mode :: u8
  gkr_keyboard_mode :: u8

text \<open>The reply carries the grab status: 0 Success, 2 InvalidTime, 3 NotViewable, 4 Frozen.\<close>

type_synonym grab_result = "(input_client \<times> u8 response) option"

definition upd_grabs :: "(grab_state \<Rightarrow> grab_state) \<Rightarrow> input_client \<Rightarrow> input_client" where
  "upd_grabs f st = st\<lparr>grabs := f (grabs st)\<rparr>"

definition window_known :: "u32 \<Rightarrow> input_client \<Rightarrow> bool" where
  "window_known w st \<longleftrightarrow> map_of (windows st) w \<noteq> None \<or> w = root_window st"

text \<open>A time is refused unless it is zero, the present, or up to half the clock in the past.\<close>

definition invalid_time :: "u32 \<Rightarrow> u32 \<Rightarrow> bool" where
  "invalid_time t now =
     (t \<noteq> 0 \<and> \<not> (now - t > 0 \<and> now - t < TIMESTAMP_WRAP_THRESHOLD) \<and> t \<noteq> now)"

definition handle_grab_pointer :: "encoders \<Rightarrow> grab_pointer_request \<Rightarrow> input_client \<Rightarrow> grab_result" where
  "handle_grab_pointer E r st =
     (let seq = sequence st; w = gpr_window r
      in if \<not> window_known w st
         then Some (st, ErrorReply (build_error WINDOW_ERROR seq w 26 0))
         else if gpr_cursor r \<noteq> 0 \<and> gpr_cursor r \<notin> set (cursors st)
         then Some (st, ErrorReply (build_error CURSOR_ERROR seq (gpr_cursor r) 26 0))
         else if pointer_frozen (grabs st) \<and> pointer_grab (grabs st) = None then Some (st, Reply 4)
         else if w \<noteq> root_window st \<and> \<not> is_viewable (windows st) w (root_window st)
         then Some (st, Reply 3)
         else if invalid_time (gpr_time r) (timestamp st) then Some (st, Reply 2)
         else
           (let g = \<lparr>pg_window = w, pg_event_mask = gpr_event_mask r,
                     pg_pointer_mode = gpr_pointer_mode r, pg_keyboard_mode = gpr_keyboard_mode r,
                     pg_confine_to = gpr_confine_to r, pg_cursor = gpr_cursor r,
                     pg_owner_events = gpr_owner_events r,
                     pg_confine_bounds = confine_bounds_for (gpr_confine_to r) st\<rparr>;
                st = upd_grabs (\<lambda>gs. gs\<lparr>pointer_frozen := (gpr_pointer_mode r = 0),
                       keyboard_frozen := (gpr_keyboard_mode r = 0 \<or> keyboard_frozen gs),
                       pointer_grab := Some g\<rparr>) st
            in map_option (\<lambda>st. (st, Reply 0)) (emit_grab_crossing_events E w st)))"

definition thaw_pointer :: "input_client \<Rightarrow> input_client" where
  "thaw_pointer st =
     st\<lparr>pending_events := pending_events st @ frozen_pointer_events (grabs st),
        grabs := (grabs st)\<lparr>pointer_frozen := False, frozen_pointer_events := []\<rparr>\<rparr>"

definition thaw_keyboard :: "input_client \<Rightarrow> input_client" where
  "thaw_keyboard st =
     st\<lparr>pending_events := pending_events st @ frozen_keyboard_events (grabs st),
        grabs := (grabs st)\<lparr>keyboard_frozen := False, frozen_keyboard_events := []\<rparr>\<rparr>"

definition handle_ungrab_pointer :: "encoders \<Rightarrow> input_client \<Rightarrow> grab_result" where
  "handle_ungrab_pointer E st =
     (case pointer_grab (grabs st) of
        None \<Rightarrow> Some (st, NoReply)
      | Some g \<Rightarrow>
          map_option (\<lambda>st. (upd_grabs (\<lambda>gs. gs\<lparr>pointer_grab := None\<rparr>) (thaw_pointer st), NoReply))
            (emit_ungrab_crossing_events E (pg_window g) st))"

definition handle_change_active_pointer_grab :: "u32 \<times> u32 \<Rightarrow> input_client \<Rightarrow> grab_result" where
  "handle_change_active_pointer_grab = (\<lambda>(cursor, event_mask) st.
     (if cursor \<noteq> 0 \<and> cursor \<notin> set (cursors st)
      then Some (st, ErrorReply (build_error CURSOR_ERROR (sequence st) cursor 30 0))
      else Some (upd_grabs (\<lambda>gs. gs\<lparr>pointer_grab := map_option (\<lambda>g.
             g\<lparr>pg_cursor := cursor, pg_event_mask := event_mask\<rparr>) (pointer_grab gs)\<rparr>) st, NoReply)))"

definition handle_grab_keyboard :: "encoders \<Rightarrow> grab_keyboard_request \<Rightarrow> input_client \<Rightarrow> grab_result" where
  "handle_grab_keyboard E r st =
     (let seq = sequence st; w = gkr_window r
      in if \<not> window_known w st
         then Some (st, ErrorReply (build_error WINDOW_ERROR seq w 31 0))
         else if keyboard_frozen (grabs st) \<and> keyboard_grab (grabs st) = None then Some (st, Reply 4)
         else if w \<noteq> root_window st \<and> \<not> is_viewable (windows st) w (root_window st)
         then Some (st, Reply 3)
         else if invalid_time (gkr_time r) (timestamp st) then Some (st, Reply 2)
         else
           (let g = \<lparr>kg_window = w, kg_pointer_mode = gkr_pointer_mode r,
                     kg_keyboard_mode = gkr_keyboard_mode r, kg_owner_events = gkr_owner_events r\<rparr>;
                st = upd_grabs (\<lambda>gs. gs\<lparr>keyboard_frozen := (gkr_keyboard_mode r = 0),
                       pointer_frozen := (gkr_pointer_mode r = 0 \<or> pointer_frozen gs),
                       keyboard_grab := Some g\<rparr>) st
            in map_option (\<lambda>st. (st, Reply 0)) (emit_grab_crossing_events E w st)))"

definition handle_ungrab_keyboard :: "encoders \<Rightarrow> input_client \<Rightarrow> grab_result" where
  "handle_ungrab_keyboard E st =
     (case keyboard_grab (grabs st) of
        None \<Rightarrow> Some (st, NoReply)
      | Some g \<Rightarrow>
          map_option (\<lambda>st.
            (let st = upd_grabs (keyboard_sync_pending_update (\<lambda>_. False)) (thaw_keyboard st);
                 st = (if kg_pointer_mode g = 0 \<and> pointer_grab (grabs st) = None
                       then upd_grabs (pointer_sync_pending_update (\<lambda>_. False)) (thaw_pointer st)
                       else st)
             in (upd_grabs (\<lambda>gs. gs\<lparr>keyboard_grab := None\<rparr>) st, NoReply)))
            (emit_ungrab_crossing_events E (kg_window g) st))"

section \<open>Passive grabs\<close>

record grab_button_request =
  gbr_owner_events :: bool
  gbr_window :: u32
  gbr_event_mask :: u32
  gbr_pointer_mode :: u8
  gbr_keyboard_mode :: u8
  gbr_confine_to :: u32
  gbr_cursor :: u32
  gbr_button :: u8
  gbr_modifiers :: u16

definition same_button :: "u32 \<Rightarrow> u8 \<Rightarrow> u16 \<Rightarrow> passive_button_grab \<Rightarrow> bool" where
  "same_button w button modifiers g \<longleftrightarrow>
     bg_window g = w \<and> bg_button g = button \<and> bg_modifiers g = modifiers"

definition same_key :: "u32 \<Rightarrow> u8 \<Rightarrow> u16 \<Rightarrow> passive_key_grab \<Rightarrow> bool" where
  "same_key w key modifiers g \<longleftrightarrow> yg_window g = w \<and> yg_key g = key \<and> yg_modifiers g = modifiers"

definition handle_grab_button :: "grab_button_request \<Rightarrow> input_client \<Rightarrow> grab_result" where
  "handle_grab_button r st =
     (let w = gbr_window r; seq = sequence st
      in if \<not> window_known w st
         then Some (st, ErrorReply (build_error WINDOW_ERROR seq w 28 0))
         else if gbr_cursor r \<noteq> 0 \<and> gbr_cursor r \<notin> set (cursors st)
         then Some (st, ErrorReply (build_error CURSOR_ERROR seq (gbr_cursor r) 28 0))
         else
           (let g = \<lparr>bg_window = w, bg_button = gbr_button r, bg_modifiers = gbr_modifiers r,
                     bg_event_mask = gbr_event_mask r, bg_pointer_mode = gbr_pointer_mode r,
                     bg_keyboard_mode = gbr_keyboard_mode r, bg_confine_to = gbr_confine_to r,
                     bg_cursor = gbr_cursor r, bg_owner_events = gbr_owner_events r\<rparr>
            in Some (upd_grabs (\<lambda>gs. gs\<lparr>button_grabs :=
                 g # filter (\<lambda>h. \<not> same_button w (gbr_button r) (gbr_modifiers r) h)
                       (button_grabs gs)\<rparr>) st, NoReply)))"

definition handle_ungrab_button :: "u8 \<times> u32 \<times> u16 \<Rightarrow> input_client \<Rightarrow> grab_result" where
  "handle_ungrab_button = (\<lambda>(button, w, modifiers) st.
     Some (upd_grabs (\<lambda>gs. gs\<lparr>button_grabs :=
       filter (if button = 0 \<and> modifiers = ANY_MODIFIER then (\<lambda>g. bg_window g \<noteq> w)
               else (\<lambda>g. \<not> same_button w button modifiers g)) (button_grabs gs)\<rparr>) st, NoReply))"

definition handle_grab_key :: "passive_key_grab \<Rightarrow> input_client \<Rightarrow> grab_result" where
  "handle_grab_key r st =
     (let w = yg_window r
      in if \<not> window_known w st
         then Some (st, ErrorReply (build_error WINDOW_ERROR (sequence st) w 33 0))
         else Some (upd_grabs (\<lambda>gs. gs\<lparr>key_grabs :=
                r # filter (\<lambda>h. \<not> same_key w (yg_key r) (yg_modifiers r) h) (key_grabs gs)\<rparr>) st,
                NoReply))"

definition handle_ungrab_key :: "u8 \<times> u32 \<times> u16 \<Rightarrow> input_client \<Rightarrow> grab_result" where
  "handle_ungrab_key = (\<lambda>(key, w, modifiers) st.
     Some (upd_grabs (\<lambda>gs. gs\<lparr>key_grabs :=
       filter (if key = 0 \<and> modifiers = ANY_MODIFIER then (\<lambda>g. yg_window g \<noteq> w)
               else (\<lambda>g. \<not> same_key w key modifiers g)) (key_grabs gs)\<rparr>) st, NoReply))"

definition button_matches :: "u32 \<Rightarrow> u8 \<Rightarrow> u16 \<Rightarrow> passive_button_grab \<Rightarrow> bool" where
  "button_matches w button modifiers g \<longleftrightarrow> bg_window g = w \<and>
     (bg_button g = 0 \<or> bg_button g = button) \<and>
     (bg_modifiers g = ANY_MODIFIER \<or> bg_modifiers g = modifiers)"

definition key_matches :: "u32 \<Rightarrow> u8 \<Rightarrow> u16 \<Rightarrow> passive_key_grab \<Rightarrow> bool" where
  "key_matches w key modifiers g \<longleftrightarrow> yg_window g = w \<and>
     (yg_key g = 0 \<or> yg_key g = key) \<and>
     (yg_modifiers g = ANY_MODIFIER \<or> yg_modifiers g = modifiers)"

text \<open>The first grab in the list that matches the window or, failing that, the nearest ancestor.\<close>

fun find_grab_up :: "nat \<Rightarrow> windows_t \<Rightarrow> (u32 \<Rightarrow> 'g \<Rightarrow> bool) \<Rightarrow> 'g list \<Rightarrow> u32 \<Rightarrow> 'g option" where
  "find_grab_up 0 ws m gs cur = None"
| "find_grab_up (Suc n) ws m gs cur =
     (case find (m cur) gs of
        Some g \<Rightarrow> Some g
      | None \<Rightarrow>
          (case map_of ws cur of
             Some w \<Rightarrow> if w_parent w \<noteq> 0 \<and> w_parent w \<noteq> cur
                       then find_grab_up n ws m gs (w_parent w) else None
           | None \<Rightarrow> None))"

definition check_passive_button_grab ::
    "encoders \<Rightarrow> u8 \<Rightarrow> u16 \<Rightarrow> u32 \<Rightarrow> input_client \<Rightarrow> (input_client \<times> bool) option" where
  "check_passive_button_grab E button modifiers w st =
     (case find_grab_up MAX_TREE_DEPTH (windows st) (\<lambda>v. button_matches v button modifiers)
             (button_grabs (grabs st)) w of
        None \<Rightarrow> Some (st, False)
      | Some g \<Rightarrow>
          (let active = \<lparr>pg_window = bg_window g, pg_event_mask = bg_event_mask g,
                 pg_pointer_mode = bg_pointer_mode g, pg_keyboard_mode = bg_keyboard_mode g,
                 pg_confine_to = bg_confine_to g, pg_cursor = bg_cursor g,
                 pg_owner_events = bg_owner_events g,
                 pg_confine_bounds = confine_bounds_for (bg_confine_to g) st\<rparr>;
               st = upd_grabs (\<lambda>gs. gs\<lparr>
                      pointer_frozen := (bg_pointer_mode g = 0 \<or> pointer_frozen gs),
                      keyboard_frozen := (bg_keyboard_mode g = 0 \<or> keyboard_frozen gs),
                      pointer_grab := Some active\<rparr>) st
           in map_option (\<lambda>st. (st, True)) (emit_grab_crossing_events E (bg_window g) st)))"

definition check_passive_key_grab ::
    "encoders \<Rightarrow> u8 \<Rightarrow> u16 \<Rightarrow> u32 \<Rightarrow> input_client \<Rightarrow> (input_client \<times> bool) option" where
  "check_passive_key_grab E keycode modifiers w st =
     (case find_grab_up MAX_TREE_DEPTH (windows st) (\<lambda>v. key_matches v keycode modifiers)
             (key_grabs (grabs st)) w of
        None \<Rightarrow> Some (st, False)
      | Some g \<Rightarrow>
          (let active = \<lparr>kg_window = yg_window g, kg_pointer_mode = yg_pointer_mode g,
                 kg_keyboard_mode = yg_keyboard_mode g, kg_owner_events = yg_owner_events g\<rparr>;
               st = upd_grabs (\<lambda>gs. gs\<lparr>
                      keyboard_frozen := (yg_keyboard_mode g = 0 \<or> keyboard_frozen gs),
                      pointer_frozen := (yg_pointer_mode g = 0 \<or> pointer_frozen gs),
                      keyboard_grab := Some active\<rparr>) st
           in map_option (\<lambda>st. (st, True)) (emit_grab_crossing_events E (yg_window g) st)))"

definition check_button_release_ungrab :: "encoders \<Rightarrow> u16 \<Rightarrow> input_client \<Rightarrow> input_client option" where
  "check_button_release_ungrab E button_mask st =
     (case pointer_grab (grabs st) of
        None \<Rightarrow> Some st
      | Some g \<Rightarrow>
          if button_mask AND BUTTON_STATE_MASK_ALL \<noteq> 0 then Some st
          else map_option (\<lambda>st.
                 upd_grabs (\<lambda>gs. gs\<lparr>pointer_sync_pending := False, pointer_grab := None\<rparr>)
                   (thaw_pointer st))
                 (emit_ungrab_crossing_events E (pg_window g) st))"

section \<open>Frozen devices\<close>

definition set_sync :: "bool \<Rightarrow> bool \<Rightarrow> bool \<Rightarrow> input_client \<Rightarrow> input_client" where
  "set_sync pointer keyboard v =
     upd_grabs (\<lambda>gs. gs\<lparr>
       pointer_sync_pending := (if pointer then v else pointer_sync_pending gs),
       keyboard_sync_pending := (if keyboard then v else keyboard_sync_pending gs)\<rparr>)"

definition handle_allow_events :: "encoders \<Rightarrow> u8 \<Rightarrow> input_client \<Rightarrow> grab_result" where
  "handle_allow_events E mode st =
     map_option (\<lambda>st. (st, NoReply))
       (if mode = 0 then Some (thaw_pointer (set_sync True False False st))
        else if mode = 1 then Some (thaw_pointer (set_sync True False True st))
        else if mode = 2 then
          map_option (\<lambda>st. upd_grabs (pointer_grab_update (\<lambda>_. None))
                             (thaw_pointer (set_sync True False False st)))
            (case pointer_grab (grabs st) of
               Some g \<Rightarrow> emit_ungrab_crossing_events E (pg_window g) st | None \<Rightarrow> Some st)
        else if mode = 3 then Some (thaw_keyboard (set_sync False True False st))
        else if mode = 4 then Some (thaw_keyboard (set_sync False True True st))
        else if mode = 5 then
          map_option (\<lambda>st. upd_grabs (keyboard_grab_update (\<lambda>_. None))
                             (thaw_keyboard (set_sync False True False st)))
            (case keyboard_grab (grabs st) of
               Some g \<Rightarrow> emit_ungrab_crossing_events E (kg_window g) st | None \<Rightarrow> Some st)
        else if mode = 6 then Some (thaw_keyboard (thaw_pointer (set_sync True True False st)))
        else if mode = 7 then Some (thaw_keyboard (thaw_pointer (set_sync True True True st)))
        else Some st)"

definition queue_frozen :: "bytes \<Rightarrow> bytes list \<Rightarrow> bytes list" where
  "queue_frozen ev q = (if length q \<ge> MAX_FROZEN_EVENTS then drop 1 q else q) @ [ev]"

text \<open>The result says whether the event is held back.\<close>

definition check_pointer_sync_freeze :: "bytes \<Rightarrow> input_client \<Rightarrow> input_client \<times> bool" where
  "check_pointer_sync_freeze ev st =
     (let gs = grabs st
      in if pointer_frozen gs
         then (upd_grabs (frozen_pointer_events_update (queue_frozen ev)) st, True)
         else if pointer_sync_pending gs
         then (upd_grabs (\<lambda>gs. gs\<lparr>pointer_sync_pending := False, pointer_frozen := True\<rparr>) st, False)
         else (st, False))"

definition check_keyboard_sync_freeze :: "bytes \<Rightarrow> input_client \<Rightarrow> input_client \<times> bool" where
  "check_keyboard_sync_freeze ev st =
     (let gs = grabs st
      in if keyboard_frozen gs
         then (upd_grabs (frozen_keyboard_events_update (queue_frozen ev)) st, True)
         else if keyboard_sync_pending gs
         then (upd_grabs (\<lambda>gs. gs\<lparr>keyboard_sync_pending := False, keyboard_frozen := True\<rparr>) st, False)
         else (st, False))"

definition clamp_to_confine :: "input_client \<Rightarrow> i16 \<Rightarrow> i16 \<Rightarrow> i16 \<times> i16" where
  "clamp_to_confine st x y =
     (case pointer_grab (grabs st) of
        Some g \<Rightarrow>
          (case pg_confine_bounds g of
             Some (x1, y1, x2, y2) \<Rightarrow>
               (smin (smax x x1) (saturating_sub_i16 x2 1), smin (smax y y1) (saturating_sub_i16 y2 1))
           | None \<Rightarrow> (x, y))
      | None \<Rightarrow> (x, y))"

section \<open>The server grab\<close>

definition handle_grab_server :: "input_client \<Rightarrow> input_client" where
  "handle_grab_server st =
     upd_grabs (\<lambda>gs. gs\<lparr>server_grab_count := server_grab_count gs + 1\<rparr>)
       (st\<lparr>server_grab := Some (client_id st)\<rparr>)"

definition handle_ungrab_server :: "input_client \<Rightarrow> input_client" where
  "handle_ungrab_server st =
     (let n = (if server_grab_count (grabs st) > 0 then server_grab_count (grabs st) - 1
               else server_grab_count (grabs st));
          st = upd_grabs (\<lambda>gs. gs\<lparr>server_grab_count := n\<rparr>) st
      in if n = 0 then st\<lparr>server_grab := None\<rparr> else st)"

text \<open>The check before a connection works on the bytes it has read.\<close>

definition may_process :: "input_client \<Rightarrow> bool" where
  "may_process st \<longleftrightarrow> server_grab st = None \<or> server_grab st = Some (client_id st)"

section \<open>Events held by a connection\<close>

text \<open>The events waiting to be written, and those kept back while a device is frozen.\<close>

definition held_events :: "input_client \<Rightarrow> bytes multiset" where
  "held_events st = mset (pending_events st) + mset (frozen_pointer_events (grabs st)) +
     mset (frozen_keyboard_events (grabs st))"

lemma upd_grabs_simps [simp]:
  "grabs (upd_grabs f st) = f (grabs st)" "pending_events (upd_grabs f st) = pending_events st"
  "windows (upd_grabs f st) = windows st" "root_window (upd_grabs f st) = root_window st"
  "sequence (upd_grabs f st) = sequence st" "last_entered_window (upd_grabs f st) = last_entered_window st"
  by (simp_all add: upd_grabs_def)

lemma push_chunks_simps [simp]:
  "grabs (push_chunks evs st) = grabs st" "windows (push_chunks evs st) = windows st"
  "root_window (push_chunks evs st) = root_window st" "sequence (push_chunks evs st) = sequence st"
  "pending_events (push_chunks evs st) = pending_events st @ chunks32 evs"
  by (simp_all add: push_chunks_def)

lemma thaw_simps [simp]:
  "grabs (thaw_pointer st) = (grabs st)\<lparr>pointer_frozen := False, frozen_pointer_events := []\<rparr>"
  "grabs (thaw_keyboard st) = (grabs st)\<lparr>keyboard_frozen := False, frozen_keyboard_events := []\<rparr>"
  "windows (thaw_pointer st) = windows st" "windows (thaw_keyboard st) = windows st"
  "root_window (thaw_pointer st) = root_window st" "root_window (thaw_keyboard st) = root_window st"
  "sequence (thaw_pointer st) = sequence st" "sequence (thaw_keyboard st) = sequence st"
  "pending_events (thaw_pointer st) = pending_events st @ frozen_pointer_events (grabs st)"
  "pending_events (thaw_keyboard st) = pending_events st @ frozen_keyboard_events (grabs st)"
  by (simp_all add: thaw_pointer_def thaw_keyboard_def)

lemma held_thaw [simp]:
  "held_events (thaw_pointer st) = held_events st" "held_events (thaw_keyboard st) = held_events st"
  by (simp_all add: held_events_def)

lemma held_set_sync [simp]: "held_events (set_sync p k v st) = held_events st"
  by (simp add: held_events_def set_sync_def)

lemma held_upd_grabs:
  "frozen_pointer_events (f (grabs st)) = frozen_pointer_events (grabs st) \<Longrightarrow>
   frozen_keyboard_events (f (grabs st)) = frozen_keyboard_events (grabs st) \<Longrightarrow>
   held_events (upd_grabs f st) = held_events st"
  by (simp add: held_events_def)

lemma held_server [simp]: "held_events (st\<lparr>server_grab := v\<rparr>) = held_events st"
  by (simp add: held_events_def)

lemma crossing_keeps:
  "build_crossing_events_with_mode E new x y m st = Some (st', evs) \<Longrightarrow>
   \<exists>w. st' = st\<lparr>last_entered_window := w\<rparr>"
  by (auto simp: build_crossing_events_with_mode_def Let_def split: if_splits
      intro: exI [of _ "last_entered_window st"])

text \<open>What the crossing events of a grab leave alone.\<close>

definition same_grabs :: "input_client \<Rightarrow> input_client \<Rightarrow> bool" where
  "same_grabs st st' \<longleftrightarrow> held_events st \<subseteq># held_events st' \<and> grabs st' = grabs st \<and>
     windows st' = windows st \<and> root_window st' = root_window st \<and> sequence st' = sequence st"

lemma emit_grab_crossing_same: "emit_grab_crossing_events E w st = Some st' \<Longrightarrow> same_grabs st st'"
  by (auto simp: emit_grab_crossing_events_def same_grabs_def held_events_def dest!: crossing_keeps)

lemma emit_ungrab_crossing_same: "emit_ungrab_crossing_events E w st = Some st' \<Longrightarrow> same_grabs st st'"
  by (auto simp: emit_ungrab_crossing_events_def same_grabs_def held_events_def Let_def
      split: if_splits dest!: crossing_keeps)

lemma same_grabs_held: "same_grabs st st' \<Longrightarrow> held_events st \<subseteq># held_events st'"
  by (simp add: same_grabs_def)

lemma same_grabs_refl: "same_grabs st st"
  by (simp add: same_grabs_def)

text \<open>One operation of a connection that touches grabs or the queues of events. An input event that
  meets a frozen device is queued; the queues hold \<open>MAX_FROZEN_EVENTS\<close> events.\<close>

inductive grab_step :: "encoders \<Rightarrow> input_client \<Rightarrow> input_client \<Rightarrow> bool" for E where
  grab_pointer: "handle_grab_pointer E r st = Some (st', res) \<Longrightarrow> grab_step E st st'"
| ungrab_pointer: "handle_ungrab_pointer E st = Some (st', res) \<Longrightarrow> grab_step E st st'"
| change_grab: "handle_change_active_pointer_grab q st = Some (st', res) \<Longrightarrow> grab_step E st st'"
| grab_keyboard: "handle_grab_keyboard E k st = Some (st', res) \<Longrightarrow> grab_step E st st'"
| ungrab_keyboard: "handle_ungrab_keyboard E st = Some (st', res) \<Longrightarrow> grab_step E st st'"
| grab_button: "handle_grab_button b st = Some (st', res) \<Longrightarrow> grab_step E st st'"
| ungrab_button: "handle_ungrab_button u st = Some (st', res) \<Longrightarrow> grab_step E st st'"
| grab_key: "handle_grab_key y st = Some (st', res) \<Longrightarrow> grab_step E st st'"
| ungrab_key: "handle_ungrab_key u st = Some (st', res) \<Longrightarrow> grab_step E st st'"
| button_press: "check_passive_button_grab E n m w st = Some (st', found) \<Longrightarrow> grab_step E st st'"
| key_press: "check_passive_key_grab E n m w st = Some (st', found) \<Longrightarrow> grab_step E st st'"
| button_release: "check_button_release_ungrab E m st = Some st' \<Longrightarrow> grab_step E st st'"
| allow_events: "handle_allow_events E mode st = Some (st', res) \<Longrightarrow> grab_step E st st'"
| pointer_input: "length (frozen_pointer_events (grabs st)) < MAX_FROZEN_EVENTS \<Longrightarrow>
    check_pointer_sync_freeze ev st = (st', hold) \<Longrightarrow> grab_step E st st'"
| keyboard_input: "length (frozen_keyboard_events (grabs st)) < MAX_FROZEN_EVENTS \<Longrightarrow>
    check_keyboard_sync_freeze ev st = (st', hold) \<Longrightarrow> grab_step E st st'"
| grab_server: "grab_step E st (handle_grab_server st)"
| ungrab_server: "grab_step E st (handle_ungrab_server st)"

lemmas active_grab_defs = handle_grab_pointer_def handle_ungrab_pointer_def handle_grab_keyboard_def
  handle_ungrab_keyboard_def check_passive_button_grab_def check_passive_key_grab_def
  check_button_release_ungrab_def

lemmas passive_grab_defs = handle_change_active_pointer_grab_def handle_grab_button_def
  handle_ungrab_button_def handle_grab_key_def handle_ungrab_key_def handle_grab_server_def
  handle_ungrab_server_def

lemma allow_events_held: "handle_allow_events E mode st = Some (st', res) \<Longrightarrow> held_events st \<subseteq># held_events st'"
  unfolding handle_allow_events_def
  by (auto simp: held_upd_grabs split: if_splits option.splits
      dest!: emit_ungrab_crossing_same same_grabs_held)

lemma grab_step_held: "grab_step E st st' \<Longrightarrow> held_events st \<subseteq># held_events st'"
proof (induction rule: grab_step.induct)
  case (allow_events mode st st' res)
  then show ?case by (rule allow_events_held)
next
  case (pointer_input st ev st' hold)
  then show ?case
    by (auto simp: check_pointer_sync_freeze_def held_events_def queue_frozen_def Let_def split: if_splits)
next
  case (keyboard_input st ev st' hold)
  then show ?case
    by (auto simp: check_keyboard_sync_freeze_def held_events_def queue_frozen_def Let_def split: if_splits)
qed (auto simp: active_grab_defs passive_grab_defs Let_def held_upd_grabs split: if_splits option.splits prod.splits
  dest!: emit_ungrab_crossing_same emit_grab_crossing_same same_grabs_held)

interpretation held: invariant_system "grab_step E" "\<lambda>st. m \<subseteq># held_events st" for E m
  by unfold_locales (auto dest: grab_step_held intro: subset_mset.trans)

lemma grab_steps_held: "(grab_step E)\<^sup>*\<^sup>* st st' \<Longrightarrow> held_events st \<subseteq># held_events st'"
  by (erule held.reachable_inv) (rule subset_mset.order_refl)

section \<open>Passive grabs as a search over the ancestors\<close>

lemma find_grab_up_chain:
  assumes "chain_from n ws v = pre @ c # post" "\<forall>d \<in> set pre. find (m d) gs = None" "find (m c) gs = Some g"
  shows "find_grab_up n ws m gs v = Some g"
  using assms(1,2)
proof (induction n arbitrary: v pre)
  case (Suc n)
  show ?case
  proof (cases pre)
    case Nil
    with Suc.prems(1) have "c = v" by simp
    with assms(3) show ?thesis by simp
  next
    case (Cons d pre')
    with Suc.prems(1) have "d = v" by simp
    with Cons Suc.prems(1) obtain w where w: "map_of ws v = Some w" "w_parent w \<noteq> 0" "w_parent w \<noteq> v"
      "chain_from n ws (w_parent w) = pre' @ c # post"
      by (cases "map_of ws v") (simp_all split: if_splits)
    have "find_grab_up n ws m gs (w_parent w) = Some g"
      using Suc.prems(2) Cons by (intro Suc.IH [OF w(4)]) simp
    with w \<open>d = v\<close> Suc.prems(2) Cons show ?thesis by simp
  qed
qed simp

section \<open>Panics and lost bytes\<close>

lemma crossing_from_unknown:
  assumes "map_of (windows st) (last_entered_window st) = None" "last_entered_window st \<noteq> root_window st"
  shows "build_crossing_events_with_mode E (root_window st) x y mode st = None"
proof -
  have "ancestor_path (windows st) (last_entered_window st) (root_window st) = [last_entered_window st]"
    using assms by (simp add: ancestor_path_def MAX_TREE_DEPTH_def numeral_eq_Suc)
  moreover have "ancestor_path (windows st) (root_window st) (root_window st) = [root_window st]"
    by (simp add: ancestor_path_def MAX_TREE_DEPTH_def numeral_eq_Suc)
  ultimately show ?thesis
    using assms(2) by (auto simp: build_crossing_events_with_mode_def crossing_plan_def between_def Let_def)
qed

lemma emit_ungrab_unknown:
  "map_of (windows st) w = None \<Longrightarrow> w \<noteq> root_window st \<Longrightarrow> emit_ungrab_crossing_events E w st = None"
  using crossing_from_unknown [of "st\<lparr>last_entered_window := w\<rparr>" E]
  by (simp add: emit_ungrab_crossing_events_def)

lemma concat_chunks32: "concat (chunks32 bs) = take (32 * (length bs div 32)) bs"
proof (induction bs rule: chunks32.induct)
  case (1 bs)
  show ?case
  proof (cases "length bs < 32")
    case False
    then have l: "length bs div 32 = Suc ((length bs - 32) div 32)" by (simp add: le_div_geq)
    have "concat (chunks32 bs) = take 32 bs @ take (32 * ((length bs - 32) div 32)) (drop 32 bs)"
      using 1 [OF False] False by (subst chunks32.simps) simp
    also have "\<dots> = take (32 * (length bs div 32)) bs" by (simp add: l take_add [symmetric])
    finally show ?thesis .
  qed (simp add: chunks32.simps [of bs])
qed

lemma length_chunks32: "e \<in> set (chunks32 bs) \<Longrightarrow> length e = 32"
proof (induction bs rule: chunks32.induct)
  case (1 bs)
  show ?case
  proof (cases "length bs < 32")
    case False
    with 1 show ?thesis by (auto simp: chunks32.simps [of bs])
  qed (use 1(2) in \<open>simp add: chunks32.simps [of bs]\<close>)
qed

section \<open>Properties\<close>

text \<open>C8. Grabs and frozen devices lose no event: over any sequence of grab requests, passive grab
  activations, releases, AllowEvents and input events (while the queues of frozen events are not
  full), every event that was waiting to be written or kept back is still there; and
  AllowEvents(AsyncBoth) hands all of them to the client and thaws both devices.\<close>

theorem grabs_lose_no_event:
  assumes "(grab_step E)\<^sup>*\<^sup>* st st'"
  shows "held_events st \<subseteq># held_events st' \<and>
    (\<exists>st''. handle_allow_events E 6 st' = Some (st'', NoReply) \<and>
       mset (pending_events st'') = held_events st' \<and>
       \<not> pointer_frozen (grabs st'') \<and> \<not> keyboard_frozen (grabs st''))"
proof (intro conjI exI)
  let ?s = "thaw_keyboard (thaw_pointer (set_sync True True False st'))"
  show "held_events st \<subseteq># held_events st'" by (rule grab_steps_held [OF assms])
  show "handle_allow_events E 6 st' = Some (?s, NoReply)" by (simp add: handle_allow_events_def)
  have "mset (pending_events ?s) = held_events ?s" by (subst held_events_def) simp
  then show "mset (pending_events ?s) = held_events st'" by simp
qed simp_all

theorem grabs_lose_no_event_witness:
  "let st = demo_input\<lparr>grabs := demo_grabs\<lparr>pointer_frozen := True, frozen_pointer_events := [[4]]\<rparr>\<rparr>;
       st' = fst (check_pointer_sync_freeze [5] st)
   in {#[4]#} \<subseteq># held_events st' \<and> held_events st' = {#[4], [5]#} \<and>
      (\<exists>st''. handle_allow_events demo_encoders 6 st' = Some (st'', NoReply) \<and>
         mset (pending_events st'') = {#[4], [5]#})"
proof -
  define st where "st = demo_input\<lparr>grabs := demo_grabs\<lparr>pointer_frozen := True, frozen_pointer_events := [[4]]\<rparr>\<rparr>"
  define st' where "st' = fst (check_pointer_sync_freeze [5] st)"
  have "grab_step demo_encoders st st'"
    unfolding st'_def
    by (rule grab_step.pointer_input [of _ "[5]" _ "snd (check_pointer_sync_freeze [5] st)"])
      (simp_all add: st_def demo_defs MAX_FROZEN_EVENTS_def)
  from grabs_lose_no_event [OF r_into_rtranclp [where r = "grab_step demo_encoders", OF this]]
  have "held_events st \<subseteq># held_events st' \<and>
    (\<exists>st''. handle_allow_events demo_encoders 6 st' = Some (st'', NoReply) \<and>
       mset (pending_events st'') = held_events st')" by blast
  moreover have "held_events st = {#[4]#}" "held_events st' = {#[4], [5]#}"
    by (simp_all add: st'_def st_def held_events_def demo_defs check_pointer_sync_freeze_def
        queue_frozen_def MAX_FROZEN_EVENTS_def add_mset_commute)
  ultimately show ?thesis unfolding Let_def st_def [symmetric] st'_def [symmetric] by simp
qed


definition demo_button_grab :: grab_button_request where
  "demo_button_grab =
     \<lparr>gbr_owner_events = False, gbr_window = 5, gbr_event_mask = 12, gbr_pointer_mode = 0,
      gbr_keyboard_mode = 1, gbr_confine_to = 0, gbr_cursor = 0, gbr_button = 1, gbr_modifiers = 0\<rparr>"


text \<open>UngrabPointer does not undo what GrabPointer did to the keyboard: when a client grabs the
  pointer with a synchronous keyboard mode and releases the pointer, the keyboard stays frozen.
  Key events are still held back, and GrabKeyboard is answered with Frozen although nobody has a
  grab.\<close>

theorem keyboard_stays_frozen:
  assumes "handle_grab_pointer E r st = Some (st1, Reply 0)" "gpr_keyboard_mode r = 0"
    and "keyboard_grab (grabs st) = None" "handle_ungrab_pointer E st1 = Some (st2, res)"
    and "window_known (gkr_window k) st2"
  shows "pointer_grab (grabs st2) = None \<and> keyboard_grab (grabs st2) = None \<and>
    handle_grab_keyboard E k st2 = Some (st2, Reply 4) \<and> snd (check_keyboard_sync_freeze ev st2)"
proof -
  have 1: "keyboard_frozen (grabs st1) \<and> keyboard_grab (grabs st1) = None \<and> pointer_grab (grabs st1) \<noteq> None"
    using assms(1-3) by (auto simp: handle_grab_pointer_def Let_def same_grabs_def
        split: if_splits dest!: emit_grab_crossing_same)
  have 2: "keyboard_frozen (grabs st2) \<and> keyboard_grab (grabs st2) = None \<and> pointer_grab (grabs st2) = None"
    using assms(4) 1 by (auto simp: handle_ungrab_pointer_def same_grabs_def
        split: option.splits dest!: emit_ungrab_crossing_same)
  then show ?thesis using assms(5)
    by (simp add: handle_grab_keyboard_def check_keyboard_sync_freeze_def Let_def)
qed

definition demo_grab_pointer :: grab_pointer_request where
  "demo_grab_pointer =
     \<lparr>gpr_owner_events = False, gpr_window = 1, gpr_event_mask = 12, gpr_pointer_mode = 1,
      gpr_keyboard_mode = 0, gpr_confine_to = 0, gpr_cursor = 0, gpr_time = 0\<rparr>"

theorem keyboard_stays_frozen_witness:
  "\<exists>st1 st2. handle_grab_pointer demo_encoders demo_grab_pointer demo_input = Some (st1, Reply 0) \<and>
     handle_ungrab_pointer demo_encoders st1 = Some (st2, NoReply) \<and> keyboard_grab (grabs st2) = None \<and>
     handle_grab_keyboard demo_encoders \<lparr>gkr_owner_events = False, gkr_window = 1, gkr_time = 0,
       gkr_pointer_mode = 1, gkr_keyboard_mode = 1\<rparr> st2 = Some (st2, Reply 4)"
proof -
  define st1 where "st1 = fst (the (handle_grab_pointer demo_encoders demo_grab_pointer demo_input))"
  define st2 where "st2 = fst (the (handle_ungrab_pointer demo_encoders st1))"
  have 1: "handle_grab_pointer demo_encoders demo_grab_pointer demo_input = Some (st1, Reply 0)"
    by (simp add: st1_def handle_grab_pointer_def demo_grab_pointer_def demo_defs window_known_def
        invalid_time_def emit_grab_crossing_events_def build_crossing_events_with_mode_def upd_grabs_def)
  have 2: "handle_ungrab_pointer demo_encoders st1 = Some (st2, NoReply)" "root_window st2 = 1"
    using 1 by (auto simp: st2_def handle_ungrab_pointer_def handle_grab_pointer_def demo_grab_pointer_def
        demo_defs window_known_def invalid_time_def emit_grab_crossing_events_def
        build_crossing_events_with_mode_def upd_grabs_def emit_ungrab_crossing_events_def push_chunks_def)
  show ?thesis
    using keyboard_stays_frozen [OF 1 _ _ 2(1), of "\<lparr>gkr_owner_events = False, gkr_window = 1, gkr_time = 0,
       gkr_pointer_mode = 1, gkr_keyboard_mode = 1\<rparr>"] 1 2
    by (simp add: demo_grab_pointer_def demo_defs window_known_def)
qed

text \<open>Releasing a pointer grab whose window has been destroyed panics, whichever way it is
  released: by UngrabPointer, by the release of the last button, or by AllowEvents(ReplayPointer).\<close>

theorem ungrab_destroyed_window_panics:
  assumes "pointer_grab (grabs st) = Some g" "map_of (windows st) (pg_window g) = None"
    and "pg_window g \<noteq> root_window st"
  shows "handle_ungrab_pointer E st = None \<and> check_button_release_ungrab E 0 st = None \<and>
    handle_allow_events E 2 st = None"
  using assms emit_ungrab_unknown [OF assms(2,3)]
  by (simp add: handle_ungrab_pointer_def check_button_release_ungrab_def handle_allow_events_def)

theorem ungrab_destroyed_window_panics_witness:
  "handle_ungrab_pointer demo_encoders
     (demo_input\<lparr>windows := [], grabs := demo_grabs\<lparr>pointer_grab := Some demo_pointer_grab\<rparr>\<rparr>) = None"
  using ungrab_destroyed_window_panics [of
      "demo_input\<lparr>windows := [], grabs := demo_grabs\<lparr>pointer_grab := Some demo_pointer_grab\<rparr>\<rparr>"
      demo_pointer_grab demo_encoders]
  by (simp add: demo_input_def demo_pointer_grab_def)

text \<open>The crossing events of a grab are cut into pieces of 32 bytes and a shorter rest is dropped:
  what the client is sent is a prefix of the events, and it is all of them iff their total size is a
  multiple of 32, which core events guarantee and XInput2 events do not.\<close>

theorem grab_crossing_bytes:
  assumes "build_crossing_events_with_mode E w (pointer_x st) (pointer_y st) 1 st = Some (st1, evs)"
  shows "\<exists>st' sent. emit_grab_crossing_events E w st = Some st' \<and>
    pending_events st' = pending_events st @ sent \<and> (\<forall>e \<in> set sent. length e = 32) \<and>
    concat sent = take (32 * (length evs div 32)) evs \<and> (concat sent = evs \<longleftrightarrow> 32 dvd length evs)"
proof -
  obtain w' where st1: "st1 = st\<lparr>last_entered_window := w'\<rparr>" using crossing_keeps [OF assms] by blast
  have "take (32 * (length evs div 32)) evs = evs \<longleftrightarrow> length evs \<le> 32 * (length evs div 32)"
    by (rule take_all_iff)
  also have "\<dots> \<longleftrightarrow> 32 dvd length evs"
    by (metis dvd_mult_div_cancel dvd_triv_left le_antisym times_div_less_eq_dividend order_refl)
  finally have iff: "take (32 * (length evs div 32)) evs = evs \<longleftrightarrow> 32 dvd length evs" .
  have "emit_grab_crossing_events E w st = Some (push_chunks evs st1)"
    unfolding emit_grab_crossing_events_def assms by simp
  moreover have "pending_events (push_chunks evs st1) = pending_events st @ chunks32 evs"
    unfolding st1 by simp
  ultimately show ?thesis using length_chunks32 [of _ evs] iff unfolding concat_chunks32 [symmetric] by blast
qed

theorem grab_crossing_bytes_witness:
  "let st = demo_input\<lparr>xi_selections := [\<lparr>xs_window = 5, xs_deviceid = 2, xs_mask = [0x80]\<rparr>]\<rparr>
   in \<exists>st1 evs st' sent.
     build_crossing_events_with_mode demo_encoders 5 0 0 1 st = Some (st1, evs) \<and> length evs = 84 \<and>
     emit_grab_crossing_events demo_encoders 5 st = Some st' \<and> pending_events st' = sent \<and>
     concat sent = take 64 evs"
proof -
  define st where "st = demo_input\<lparr>xi_selections := [\<lparr>xs_window = 5, xs_deviceid = 2, xs_mask = [0x80]\<rparr>]\<rparr>"
  obtain st1 evs where b: "build_crossing_events_with_mode demo_encoders 5 0 0 1 st = Some (st1, evs)"
    "length evs = 84"
  proof -
    have "map_option (\<lambda>(st1, evs). length evs) (build_crossing_events_with_mode demo_encoders 5 0 0 1 st) =
        Some 84" unfolding st_def by code_simp
    with that show thesis by auto
  qed
  have p: "pointer_x st = 0" "pointer_y st = 0" "pending_events st = []" by (simp_all add: st_def demo_input_def)
  show ?thesis
    using grab_crossing_bytes [of demo_encoders 5 st st1 evs] b p
    unfolding Let_def st_def [symmetric] by auto
qed

end
