(* ===== verification/Focus.thy ===== *)
theory Focus
  imports Input
begin

text \<open>
  Input focus (\<open>client/focus.rs\<close>): the change of the focus window with its FocusIn and FocusOut
  events, the mirror in the state all connections share, the properties of the root window that
  follow the focus, and the reversion of the focus when its window goes away; with the XInput2 focus
  events (\<open>xinput2/events.rs\<close>).
\<close>

unbundle bit_operations_syntax

section \<open>Focus events\<close>

definition FOCUS_IN_EVENT :: u8 where "FOCUS_IN_EVENT = 9"
definition FOCUS_OUT_EVENT :: u8 where "FOCUS_OUT_EVENT = 10"
definition FOCUS_CHANGE :: u32 where "FOCUS_CHANGE = 0x200000"

text \<open>The ancestors of a window, without the window itself.\<close>

fun parents_from :: "nat \<Rightarrow> windows_t \<Rightarrow> u32 \<Rightarrow> u32 list" where
  "parents_from 0 ws cur = []"
| "parents_from (Suc n) ws cur =
     (case map_of ws cur of
        Some w \<Rightarrow> if w_parent w \<noteq> 0 \<and> w_parent w \<noteq> cur
                  then w_parent w # parents_from n ws (w_parent w) else []
      | None \<Rightarrow> [])"

definition strict_ancestor_chain :: "windows_t \<Rightarrow> u32 \<Rightarrow> u32 list" where
  "strict_ancestor_chain ws w = parents_from MAX_TREE_DEPTH ws w"

text \<open>The details of the FocusOut and FocusIn events and the windows in between.\<close>

definition compute_focus_detail :: "windows_t \<Rightarrow> u32 \<Rightarrow> u32 \<Rightarrow> u32 \<Rightarrow> u8 \<times> u8 \<times> u32 list" where
  "compute_focus_detail ws root old new =
     (if old = 0 then (7, if new = 1 then 6 else 3, [])
      else if old = 1 then (6, if new = 0 then 7 else 3, [])
      else if new = 0 then (3, 7, [])
      else if new = 1 then (3, 6, [])
      else
        (let old_chain = strict_ancestor_chain ws old;
             new_chain = strict_ancestor_chain ws new
         in if old \<in> set new_chain then (2, 0, takeWhile (\<lambda>w. w \<noteq> old) new_chain)
            else if new \<in> set old_chain then (0, 2, takeWhile (\<lambda>w. w \<noteq> new) old_chain)
            else (3, 3,
              (case find (\<lambda>w. w \<in> set new_chain \<or> w = root) old_chain of
                 Some lca \<Rightarrow> takeWhile (\<lambda>w. w \<noteq> lca) old_chain @ lca #
                             rev (takeWhile (\<lambda>w. w \<noteq> lca) new_chain)
               | None \<Rightarrow> []))))"

definition virtual_detail :: "u8 \<Rightarrow> u8" where
  "virtual_detail d = (if d = 0 \<or> d = 2 then 1 else 4)"

text \<open>Kind, detail and window of every focus event of a change, in order, before selection.\<close>

definition focus_plan :: "windows_t \<Rightarrow> u32 \<Rightarrow> u32 \<Rightarrow> u32 \<Rightarrow> (u8 \<times> u8 \<times> u32) list" where
  "focus_plan ws root prev new =
     (let (out_detail, in_detail, virtual_path) = compute_focus_detail ws root prev new;
          between = filter (\<lambda>v. v \<noteq> prev \<and> v \<noteq> new) virtual_path
      in (if prev \<noteq> 0 \<and> prev \<noteq> 1
          then (FOCUS_OUT_EVENT, out_detail, prev) #
               map (\<lambda>v. (FOCUS_OUT_EVENT, virtual_detail out_detail, v)) between
          else if prev = 1 then [(FOCUS_OUT_EVENT, 6, root)] else []) @
         (if new \<noteq> 0 \<and> new \<noteq> 1
          then map (\<lambda>v. (FOCUS_IN_EVENT, virtual_detail in_detail, v)) (rev between) @
               [(FOCUS_IN_EVENT, in_detail, new)]
          else if new = 1 then [(FOCUS_IN_EVENT, 6, root)] else []))"

definition send_focus_event :: "encoders \<Rightarrow> u8 \<times> u8 \<times> u32 \<Rightarrow> input_client \<Rightarrow> input_client" where
  "send_focus_event E = (\<lambda>(code, detail, w) st.
     if window_selects w FOCUS_CHANGE st
     then push_event (serialize_event (enc_focus E
            \<lparr>fe_code = code, fe_detail = detail, fe_sequence = sequence st, fe_event = w\<rparr>)
            (msb_first st)) st
     else st)"

definition focus_keymap_notify :: "u32 \<Rightarrow> input_client \<Rightarrow> input_client" where
  "focus_keymap_notify new st =
     (if new \<noteq> 0 \<and> new \<noteq> 1 \<and> window_selects new 0x4000 st
      then push_event (serialize_event (KEYMAP_NOTIFY_EVENT # take 31 (drop 1 (pressed_keys st)))
             (msb_first st)) st
      else st)"

section \<open>XInput2 focus events\<close>

fun chain_below_root :: "nat \<Rightarrow> windows_t \<Rightarrow> u32 \<Rightarrow> u32 \<Rightarrow> u32 list" where
  "chain_below_root 0 ws root cur = []"
| "chain_below_root (Suc n) ws root cur =
     (case map_of ws cur of
        Some w \<Rightarrow> if w_parent w \<noteq> 0 \<and> w_parent w \<noteq> cur \<and> w_parent w \<noteq> root
                  then w_parent w # chain_below_root n ws root (w_parent w) else []
      | None \<Rightarrow> [])"

text \<open>The stack of the descendant walk with its top first; at most \<open>4 * MAX_TREE_DEPTH + 1\<close> windows
  are visited.\<close>

fun subtree_from :: "nat \<Rightarrow> windows_t \<Rightarrow> u32 list \<Rightarrow> u32 list" where
  "subtree_from 0 ws stack = []"
| "subtree_from (Suc n) ws [] = []"
| "subtree_from (Suc n) ws (w # stack) =
     w # subtree_from n ws ((case map_of ws w of Some v \<Rightarrow> rev (w_children v) | None \<Rightarrow> []) @ stack)"

definition window_subtree_chain :: "windows_t \<Rightarrow> u32 \<Rightarrow> u32 \<Rightarrow> u32 list" where
  "window_subtree_chain ws root w =
     (if w = 0 \<or> w = 1 then []
      else w # chain_below_root MAX_TREE_DEPTH ws root w @
           subtree_from (MAX_TREE_DEPTH * 4 + 1) ws
             (case map_of ws w of Some v \<Rightarrow> rev (w_children v) | None \<Rightarrow> []))"

definition xi_focus_wanted :: "xi_selection list \<Rightarrow> u16 \<Rightarrow> u32 \<Rightarrow> bool" where
  "xi_focus_wanted sels evtype w =
     list_ex (\<lambda>s. xs_window s = w \<and> xs_deviceid s \<in> {0, 1, 3} \<and> wants evtype s) sels"

definition build_xi_focus_event :: "encoders \<Rightarrow> u16 \<Rightarrow> u16 \<Rightarrow> u32 \<Rightarrow> bool \<Rightarrow> u32 \<Rightarrow> bytes" where
  "build_xi_focus_event E evtype seq root msb w =
     serialize_xi_reply (enc_xi_focus E
       \<lparr>xf_type = evtype, xf_detail = 3, xf_mode = 0, xf_sequence = seq, xf_root = root, xf_event = w\<rparr>) msb"

definition build_xi_focus_events_for ::
    "encoders \<Rightarrow> xi_selection list \<Rightarrow> u32 list \<Rightarrow> u32 list \<Rightarrow> u16 \<Rightarrow> u32 \<Rightarrow> bool \<Rightarrow> bytes list" where
  "build_xi_focus_events_for E sels prev next_ws seq root msb =
     map (build_xi_focus_event E 10 seq root msb) (filter (xi_focus_wanted sels 10) prev) @
     map (build_xi_focus_event E 9 seq root msb) (filter (xi_focus_wanted sels 9) next_ws)"

section \<open>Changing the focus\<close>

fun top_uuid_from :: "nat \<Rightarrow> input_client \<Rightarrow> u32 \<Rightarrow> string option" where
  "top_uuid_from 0 st cur = None"
| "top_uuid_from (Suc n) st cur =
     (case x11_to_uuid st cur of
        Some uuid \<Rightarrow> Some uuid
      | None \<Rightarrow>
          (case map_of (windows st) cur of
             Some w \<Rightarrow> if w_parent w \<noteq> root_window st \<and> w_parent w \<noteq> 0
                       then top_uuid_from n st (w_parent w) else None
           | None \<Rightarrow> None))"

definition top_level_uuid_for :: "u32 \<Rightarrow> input_client \<Rightarrow> string option" where
  "top_level_uuid_for w st =
     (if w = 0 \<or> w = root_window st then None else top_uuid_from MAX_TREE_DEPTH st w)"

definition write_focus_to_shared :: "u32 \<Rightarrow> input_client \<Rightarrow> input_client" where
  "write_focus_to_shared focus st = st\<lparr>shared_focus := focus\<rparr>"

definition broadcast_focus :: "string option \<Rightarrow> input_client \<Rightarrow> input_client" where
  "broadcast_focus uuid st = st\<lparr>messages := messages st @ [WindowFocused (client_id st) uuid]\<rparr>"

definition set_active_window :: "u32 \<Rightarrow> input_client \<Rightarrow> input_client" where
  "set_active_window new st =
     (let (st, net_active_atom) = intern_atom ''_NET_ACTIVE_WINDOW'' False st
      in modify_window (root_window st) (set_prop net_active_atom (window_list_value [new])) st)"

definition set_focus_window :: "encoders \<Rightarrow> u32 \<Rightarrow> input_client \<Rightarrow> input_client" where
  "set_focus_window E new st =
     (let prev = focus_window st;
          prev_uuid = top_level_uuid_for prev st;
          st = write_focus_to_shared new (st\<lparr>focus_window := new\<rparr>);
          next_uuid = top_level_uuid_for new st;
          st = (if prev_uuid \<noteq> next_uuid then broadcast_focus next_uuid st else st)
      in if prev = new then st
         else
           (let st = update_net_client_list (set_active_window new st);
                ws = windows st; root = root_window st;
                st = fold (send_focus_event E) (focus_plan ws root prev new) st;
                st = focus_keymap_notify new st
            in st\<lparr>pending_events := pending_events st @
                  build_xi_focus_events_for E (xi_selections st) (window_subtree_chain ws root prev)
                    (window_subtree_chain ws root new) (sequence st) root (msb_first st)\<rparr>))"

text \<open>RevertToParent takes the parent if it is known and the root window otherwise; the loop of the
  code runs at most twice.\<close>

definition revert_target :: "u32 \<Rightarrow> input_client \<Rightarrow> u32" where
  "revert_target w st =
     (if focus_revert_to st = 0 then 0
      else if focus_revert_to st = 1 then 1
      else if focus_revert_to st = 2 then
        (let candidate = (case map_of (windows st) w of Some v \<Rightarrow> w_parent v | None \<Rightarrow> root_window st);
             candidate = (if candidate = 0 \<or> candidate = root_window st
                             \<or> map_of (windows st) candidate \<noteq> None
                          then candidate else root_window st)
         in if candidate = 0 then root_window st else candidate)
      else root_window st)"

definition revert_focus_from :: "encoders \<Rightarrow> u32 \<Rightarrow> input_client \<Rightarrow> input_client" where
  "revert_focus_from E w st =
     (if focus_window st \<noteq> w then st else set_focus_window E (revert_target w st) st)"

section \<open>What a change of focus leaves alone\<close>

text \<open>The windows of a connection, apart from the properties of the root window.\<close>

definition core :: "input_client \<Rightarrow> u32 \<Rightarrow> window_state option" where
  "core st k = map_option (\<lambda>w. if k = root_window st then w\<lparr>w_properties := []\<rparr> else w) (map_of (windows st) k)"

text \<open>Focus, events and the properties of the root window may differ, nothing else.\<close>

definition same_core :: "input_client \<Rightarrow> input_client \<Rightarrow> bool" where
  "same_core st st' \<longleftrightarrow> core st' = core st \<and> root_window st' = root_window st \<and>
     shared_windows st' = shared_windows st \<and> freed_xids st' = freed_xids st \<and>
     resource_id_base st' = resource_id_base st \<and> grabs st' = grabs st \<and>
     focus_revert_to st' = focus_revert_to st \<and> x11_to_uuid st' = x11_to_uuid st \<and>
     client_id st' = client_id st \<and> sequence st' = sequence st \<and>
     last_entered_window st' = last_entered_window st"

lemma same_core_refl [simp]: "same_core st st"
  by (simp add: same_core_def)

lemma same_core_trans: "same_core a b \<Longrightarrow> same_core b c \<Longrightarrow> same_core a c"
  by (simp add: same_core_def)

lemma same_core_fold: "(\<And>x s. same_core s (f x s)) \<Longrightarrow> same_core s (fold f xs s)"
  by (induction xs arbitrary: s) (auto intro: same_core_trans)

lemma core_cong: "windows st' = windows st \<Longrightarrow> root_window st' = root_window st \<Longrightarrow> core st' = core st"
  by (simp add: core_def fun_eq_iff)

lemma same_core_events:
  "same_core st (push_event e st)" "same_core st (broadcast_event w m e st)" "same_core st (deliver_event w m e st)"
  "same_core st (st\<lparr>pending_events := q\<rparr>)" "same_core st (st\<lparr>messages := ms\<rparr>)" "same_core st (st\<lparr>atom_table := t\<rparr>)"
  "same_core st (st\<lparr>focus_window := f\<rparr>)" "same_core st (st\<lparr>shared_focus := f\<rparr>)"
  "same_core st (st\<lparr>focus_window := f, shared_focus := f'\<rparr>)"
  "same_core st (mark_window_shared_dirty w st)" "same_core st (fst (intern_atom n b st))"
  by (simp_all add: same_core_def core_def fun_eq_iff push_event_def broadcast_event_def deliver_event_def
      mark_window_shared_dirty_def intern_atom_def split: prod.split)

lemma same_core_root_props:
  assumes "\<And>w. \<exists>ps. f w = w\<lparr>w_properties := ps\<rparr>"
  shows "same_core st (modify_window (root_window st) f st)"
proof -
  have "(f w)\<lparr>w_properties := []\<rparr> = w\<lparr>w_properties := []\<rparr>" for w using assms [of w] by auto
  then show ?thesis
    by (auto simp: same_core_def core_def modify_window_def fun_eq_iff option.map_comp comp_def)
qed

lemma same_core_intern: "intern_atom n b st = (st', a) \<Longrightarrow> same_core st st'"
  using same_core_events(11) [of st n b] by simp

lemma set_prop_props: "\<exists>ps. set_prop a v w = w\<lparr>w_properties := ps\<rparr>"
  by (auto simp: set_prop_def)

lemma set_prop_props2: "\<exists>ps. set_prop a v (set_prop b u w) = w\<lparr>w_properties := ps\<rparr>"
  by (auto simp: set_prop_def)

lemma same_core_set_active_window: "same_core st (set_active_window new st)"
proof -
  obtain s a where "intern_atom ''_NET_ACTIVE_WINDOW'' False st = (s, a)" by (rule prod.exhaust)
  with same_core_intern [OF this] same_core_root_props [OF set_prop_props] show ?thesis
    by (auto simp: set_active_window_def intro: same_core_trans)
qed

lemma same_core_update_net_client_list: "same_core st (update_net_client_list st)"
proof -
  obtain s a where a: "intern_atom ''_NET_CLIENT_LIST'' False st = (s, a)" by (rule prod.exhaust)
  obtain t b where b: "intern_atom ''_NET_CLIENT_LIST_STACKING'' False s = (t, b)" by (rule prod.exhaust)
  have "same_core st t" using same_core_intern [OF a] same_core_intern [OF b] by (rule same_core_trans)
  then show ?thesis
    unfolding update_net_client_list_def a b Let_def prod.case
    by (rule same_core_trans [OF same_core_trans [OF _ same_core_root_props [OF set_prop_props2]]
          same_core_events(10)])
qed

lemma same_core_recalculate_workarea: "same_core st (recalculate_workarea st)"
proof -
  obtain l r u b where m: "max_struts (windows st) = (l, r, u, b)" by (metis prod.exhaust)
  obtain mgr a where i: "intern (name_bytes ''_NET_WORKAREA'') False (atom_table st) = (mgr, a)"
    by (rule prod.exhaust)
  show ?thesis
    unfolding recalculate_workarea_def m i Let_def prod.case
    by (rule same_core_trans [OF same_core_events(6) same_core_root_props
          [where st = "st\<lparr>atom_table := mgr\<rparr>", simplified, OF set_prop_props]])
qed

lemma same_core_send_focus_event: "same_core st (send_focus_event E e st)"
  by (cases e) (simp add: send_focus_event_def same_core_events)

lemma same_core_focus_keymap_notify: "same_core st (focus_keymap_notify new st)"
  by (simp add: focus_keymap_notify_def same_core_events)

lemma focus_unchanged [simp]:
  "focus_window (push_event e st) = focus_window st"
  "focus_window (broadcast_event w m e st) = focus_window st"
  "focus_window (deliver_event w m e st) = focus_window st"
  "focus_window (modify_window w f st) = focus_window st"
  "focus_window (mark_window_shared_dirty w st) = focus_window st"
  "focus_window (send_focus_event E p st) = focus_window st"
  "focus_window (focus_keymap_notify new st) = focus_window st"
  by (simp_all add: push_event_def broadcast_event_def deliver_event_def modify_window_def
      mark_window_shared_dirty_def send_focus_event_def focus_keymap_notify_def split: prod.split)

lemma focus_unchanged_intern: "intern_atom n b st = (st', a) \<Longrightarrow> focus_window st' = focus_window st"
  by (auto simp: intern_atom_def split: prod.splits)

lemma focus_unchanged_ewmh [simp]:
  "focus_window (set_active_window new st) = focus_window st"
  "focus_window (update_net_client_list st) = focus_window st"
  "focus_window (recalculate_workarea st) = focus_window st"
  by (auto simp: set_active_window_def update_net_client_list_def recalculate_workarea_def Let_def
      focus_unchanged_intern split: prod.splits)

lemma focus_unchanged_fold [simp]: "focus_window (fold (send_focus_event E) es st) = focus_window st"
  by (induction es arbitrary: st) simp_all

lemma set_focus_window_effect:
  "same_core st (set_focus_window E new st) \<and> focus_window (set_focus_window E new st) = new"
proof -
  define s1 where "s1 = write_focus_to_shared new (st\<lparr>focus_window := new\<rparr>)"
  define s2 where "s2 = (if top_level_uuid_for (focus_window st) st \<noteq> top_level_uuid_for new s1
    then broadcast_focus (top_level_uuid_for new s1) s1 else s1)"
  have 1: "same_core st s1" "focus_window s1 = new"
    by (simp_all add: s1_def write_focus_to_shared_def same_core_events)
  have 2: "same_core st s2" "focus_window s2 = new"
    using 1 by (auto simp: s2_def broadcast_focus_def intro: same_core_trans same_core_events)
  define s3 where "s3 = update_net_client_list (set_active_window new s2)"
  have 3: "same_core st s3" "focus_window s3 = new"
    unfolding s3_def using 2 same_core_trans [OF same_core_trans [OF 2(1) same_core_set_active_window]
      same_core_update_net_client_list] by simp_all
  define s4 where "s4 = focus_keymap_notify new
    (fold (send_focus_event E) (focus_plan (windows s3) (root_window s3) (focus_window st) new) s3)"
  have 4: "same_core st s4" "focus_window s4 = new"
    unfolding s4_def using 3 same_core_trans [OF same_core_trans [OF 3(1)
        same_core_fold [where f = "send_focus_event E", OF same_core_send_focus_event]]
      same_core_focus_keymap_notify] by simp_all
  show ?thesis
    unfolding set_focus_window_def Let_def s1_def [symmetric] s2_def [symmetric] s3_def [symmetric]
      s4_def [symmetric]
    using 2 4 by (auto intro: same_core_trans same_core_events)
qed

lemmas set_focus_window_same_core = set_focus_window_effect [THEN conjunct1]
  and set_focus_window_focus [simp] = set_focus_window_effect [THEN conjunct2]

lemma revert_focus_same_core: "same_core st (revert_focus_from E w st)"
  by (simp add: revert_focus_from_def set_focus_window_same_core)

lemma revert_focus_focus [simp]:
  "focus_window (revert_focus_from E w st) = (if focus_window st = w then revert_target w st else focus_window st)"
  by (simp add: revert_focus_from_def)
section \<open>Focus events and crossing events compared\<close>

text \<open>When the focus moves between two children of the root window, the root window is sent a FocusOut
  and a FocusIn event (detail NonlinearVirtual) although the focus never leaves it; for the pointer
  moving in the same way the crossing events leave the root window alone.\<close>

lemma parents_from_top:
  assumes "map_of ws a = Some wa" "w_parent wa = root" "a \<noteq> root" "root \<noteq> 0"
    and "\<And>wr. map_of ws root = Some wr \<Longrightarrow> w_parent wr = 0"
  shows "strict_ancestor_chain ws a = [root]"
  using assms by (cases "map_of ws root") (simp_all add: strict_ancestor_chain_def MAX_TREE_DEPTH_def numeral_eq_Suc)

theorem sibling_focus_events:
  assumes "map_of ws a = Some wa" "w_parent wa = root" "map_of ws b = Some wb" "w_parent wb = root"
    and "a \<noteq> b" "a \<notin> {0, 1, root}" "b \<notin> {0, 1, root}" "root \<noteq> 0"
    and "\<And>wr. map_of ws root = Some wr \<Longrightarrow> w_parent wr = 0"
  shows "focus_plan ws root a b =
      [(FOCUS_OUT_EVENT, 3, a), (FOCUS_OUT_EVENT, 4, root), (FOCUS_IN_EVENT, 4, root), (FOCUS_IN_EVENT, 3, b)] \<and>
    crossing_plan root a b (ancestor_path ws a root) (ancestor_path ws b root) =
      Some [(LEAVE_NOTIFY_EVENT, 3, a), (ENTER_NOTIFY_EVENT, 3, b)]"
proof
  have "strict_ancestor_chain ws a = [root]" "strict_ancestor_chain ws b = [root]"
    using assms(5-8) parents_from_top [OF assms(1,2) _ assms(8,9)] parents_from_top [OF assms(3,4) _ assms(8,9)]
    by auto
  then show "focus_plan ws root a b =
      [(FOCUS_OUT_EVENT, 3, a), (FOCUS_OUT_EVENT, 4, root), (FOCUS_IN_EVENT, 4, root), (FOCUS_IN_EVENT, 3, b)]"
    using assms(5-8) by (auto simp: focus_plan_def compute_focus_detail_def virtual_detail_def)
  have "ancestor_path ws a root = [a, root]" "ancestor_path ws b root = [b, root]"
    using assms(1-8) by (auto simp: ancestor_path_def MAX_TREE_DEPTH_def numeral_eq_Suc)
  then show "crossing_plan root a b (ancestor_path ws a root) (ancestor_path ws b root) =
      Some [(LEAVE_NOTIFY_EVENT, 3, a), (ENTER_NOTIFY_EVENT, 3, b)]"
    using assms(5-7) by (auto simp: crossing_plan_def between_def crossing_consts)
qed

theorem sibling_focus_events_witness:
  "focus_plan [(5, window_at 2 0 0 8 6 []), (6, window_at 2 0 0 8 6 [])] 2 5 6 =
     [(FOCUS_OUT_EVENT, 3, 5), (FOCUS_OUT_EVENT, 4, 2), (FOCUS_IN_EVENT, 4, 2), (FOCUS_IN_EVENT, 3, 6)]"
  using sibling_focus_events [of "[(5, window_at 2 0 0 8 6 []), (6, window_at 2 0 0 8 6 [])]" 5
      "window_at 2 0 0 8 6 []" 2 6 "window_at 2 0 0 8 6 []"]
  by (simp add: window_at_def)

end
