(* ===== verification/Lifecycle.thy ===== *)
theory Lifecycle
  imports Focus Grab
begin

text \<open>
  The life of a window (\<open>handlers/window/create.rs\<close>): CreateWindow, DestroyWindow and
  DestroySubwindows, with the routes and identifiers of a window (\<open>client/helpers.rs\<close>,
  \<open>types/routing.rs\<close>).

  The host name that \<open>/etc/hostname\<close> gives and the fresh UUID of a window are arguments. The walk
  that collects the descendants follows \<open>children_order\<close> without a bound; it is a partial function
  whose value \<open>None\<close> means that it does not return. Framebuffers are not part of the model.
\<close>

unbundle bit_operations_syntax

section \<open>CreateWindow\<close>

record create_window_values =
  vl_background_pixmap :: "u32 option"
  vl_background_pixel :: "u32 option"
  vl_border_pixmap :: "u32 option"
  vl_border_pixel :: "u32 option"
  vl_bit_gravity :: "u32 option"
  vl_win_gravity :: "u32 option"
  vl_backing_store :: "u32 option"
  vl_backing_planes :: "u32 option"
  vl_backing_pixel :: "u32 option"
  vl_override_redirect :: "u32 option"
  vl_save_under :: "u32 option"
  vl_event_mask :: "u32 option"
  vl_do_not_propagate :: "u32 option"
  vl_colormap :: "u32 option"
  vl_cursor :: "u32 option"

record create_window_request =
  cw_wid :: u32
  cw_parent :: u32
  cw_x :: i16
  cw_y :: i16
  cw_width :: u16
  cw_height :: u16
  cw_border_width :: u16
  cw_class :: u16
  cw_depth :: u8
  cw_visual :: u32
  cw_values :: create_window_values

definition or_default :: "'a \<Rightarrow> 'a option \<Rightarrow> 'a" where
  "or_default d v = (case v of Some x \<Rightarrow> x | None \<Rightarrow> d)"

definition ROOT_VISUAL :: u32 where "ROOT_VISUAL = 0x21"
definition NET_FRAME_EXTENTS :: u32 where "NET_FRAME_EXTENTS = 126"
definition NET_WM_PID :: u32 where "NET_WM_PID = 127"
definition WM_CLIENT_MACHINE :: u32 where "WM_CLIENT_MACHINE = 36"
definition STRUCTURE_NOTIFY :: u32 where "STRUCTURE_NOTIFY = 0x20000"
definition SUBSTRUCTURE_NOTIFY :: u32 where "SUBSTRUCTURE_NOTIFY = 0x80000"

definition can_create_window :: "input_client \<Rightarrow> bool" where
  "can_create_window st \<longleftrightarrow> length (windows st) < max_windows st"

definition known_window :: "u32 \<Rightarrow> input_client \<Rightarrow> bool" where
  "known_window w st \<longleftrightarrow> map_of (windows st) w \<noteq> None \<or> map_of (shared_windows st) w \<noteq> None"

definition window_class :: "create_window_request \<Rightarrow> input_client \<Rightarrow> u16" where
  "window_class r st =
     (if cw_class r = 0
      then (case map_of (windows st) (cw_parent r) of
              Some p \<Rightarrow> a_class (w_attrs p) | None \<Rightarrow> INPUT_OUTPUT)
      else cw_class r)"

text \<open>The first check that fails, as error code and value.\<close>

definition create_window_error :: "create_window_request \<Rightarrow> input_client \<Rightarrow> (u8 \<times> u32) option" where
  "create_window_error r st =
     (let wid = cw_wid r; parent = cw_parent r; vl = cw_values r;
          class = window_class r st;
          event_mask = or_default 0 (vl_event_mask vl);
          too_big = (\<lambda>v limit. case v of Some x \<Rightarrow> x > limit | None \<Rightarrow> False)
      in if \<not> validate_resource_id st wid then Some (ID_CHOICE_ERROR, wid)
         else if known_window wid st then Some (ID_CHOICE_ERROR, wid)
         else if \<not> can_create_window st then Some (ALLOC_ERROR, wid)
         else if parent \<noteq> root_window st \<and> \<not> known_window parent st then Some (WINDOW_ERROR, parent)
         else if cw_width r = 0 \<or> cw_height r = 0 \<or> cw_width r > 32767 \<or> cw_height r > 32767
         then Some (VALUE_ERROR, ucast (cw_width r))
         else if cw_depth r \<noteq> 0 \<and> class \<noteq> INPUT_ONLY \<and>
                 cw_depth r \<noteq> depth_for_visual (if cw_visual r = 0 then ROOT_VISUAL else cw_visual r)
         then Some (MATCH_ERROR, 0)
         else if too_big (vl_bit_gravity vl) 10
         then Some (VALUE_ERROR, or_default 0 (vl_bit_gravity vl))
         else if too_big (vl_win_gravity vl) 10
         then Some (VALUE_ERROR, or_default 1 (vl_win_gravity vl))
         else if too_big (vl_backing_store vl) 2
         then Some (VALUE_ERROR, or_default 0 (vl_backing_store vl))
         else if or_default 0 (vl_cursor vl) \<noteq> 0 \<and> or_default 0 (vl_cursor vl) \<notin> set (cursors st)
         then Some (CURSOR_ERROR, or_default 0 (vl_cursor vl))
         else if event_mask \<noteq> 0 \<and>
                 check_redirect_conflict parent event_mask (client_id st) (event_broadcaster st) \<noteq> None
         then Some (ACCESS_ERROR, 0)
         else None)"

definition initial_properties :: "bytes \<Rightarrow> u32 \<Rightarrow> property_value hashmap" where
  "initial_properties hostname pid =
     (let cardinal = (\<lambda>d. \<lparr>pv_type = CARDINAL, pv_format = 32, pv_data = d\<rparr>);
          props = AList.update NET_FRAME_EXTENTS (cardinal (replicate 16 0)) [];
          props = (if pid > 0 then AList.update NET_WM_PID (cardinal (le_bytes 4 pid)) props else props)
      in AList.update WM_CLIENT_MACHINE \<lparr>pv_type = 31, pv_format = 8, pv_data = hostname\<rparr> props)"

definition new_window_attributes :: "create_window_request \<Rightarrow> input_client \<Rightarrow> window_attributes" where
  "new_window_attributes r st =
     (let vl = cw_values r; class = window_class r st; only = (class = INPUT_ONLY);
          parent_visual =
            (case map_of (windows st) (cw_parent r) of
               Some p \<Rightarrow> if a_visual (w_attrs p) \<noteq> 0 then a_visual (w_attrs p) else ROOT_VISUAL
             | None \<Rightarrow> ROOT_VISUAL);
          visual = (if cw_visual r = 0 then parent_visual else cw_visual r);
          cursor = or_default 0 (vl_cursor vl)
      in \<lparr>a_border_width = (if only then 0 else cw_border_width r),
          a_visual = visual,
          a_depth = (if only then 0 else depth_for_visual visual),
          a_class = class,
          a_override_redirect = (or_default 0 (vl_override_redirect vl) \<noteq> 0),
          a_background_pixel = (if only then 0 else or_default 0 (vl_background_pixel vl)),
          a_background_pixmap = (if only then None else vl_background_pixmap vl),
          a_border_pixel = (if only then 0 else or_default 0 (vl_border_pixel vl)),
          a_border_pixmap = (if only then None else vl_border_pixmap vl),
          a_cursor = (if cursor = 0 then None else Some cursor),
          a_colormap = or_default 0 (vl_colormap vl),
          a_backing_store = (if only then 0 else ucast (or_default 0 (vl_backing_store vl))),
          a_backing_planes = (if only then 0xFFFFFFFF else or_default 0xFFFFFFFF (vl_backing_planes vl)),
          a_backing_pixel = (if only then 0 else or_default 0 (vl_backing_pixel vl)),
          a_save_under = (\<not> only \<and> or_default 0 (vl_save_under vl) \<noteq> 0)\<rparr>)"

definition new_window_state :: "bytes \<Rightarrow> create_window_request \<Rightarrow> input_client \<Rightarrow> window_state" where
  "new_window_state hostname r st =
     \<lparr>w_id = cw_wid r, w_parent = cw_parent r, w_x = cw_x r, w_y = cw_y r, w_width = cw_width r,
      w_height = cw_height r, w_mapped = False,
      w_event_mask = or_default 0 (vl_event_mask (cw_values r)),
      w_do_not_propagate = or_default 0 (vl_do_not_propagate (cw_values r)),
      w_redirected = False, w_properties = initial_properties hostname (peer_pid st),
      w_owner = client_id st, w_children = [], w_initial_state = None, w_transient_for = None,
      w_sync_counter = None, w_type = Normal, w_strut = None, w_hints_input = None,
      w_window_group = None, w_input_shape = None, w_bounding_shape = None, w_clip_shape = None, w_shape_clients = [], w_modal = False,
      w_fb = (if window_class r st = INPUT_ONLY then (0, 0) else (ucast (cw_width r), ucast (cw_height r))),
      w_saved = None, w_saved_geometry = None, w_visibility = 0, w_sync_value = 0,
      w_attrs = new_window_attributes r st\<rparr>"

definition get_or_create_window_uuid :: "string \<Rightarrow> u32 \<Rightarrow> input_client \<Rightarrow> input_client \<times> string" where
  "get_or_create_window_uuid fresh wid st =
     (case x11_to_uuid st wid of
        Some uuid \<Rightarrow> (st, uuid)
      | None \<Rightarrow>
          (st\<lparr>x11_to_uuid := (x11_to_uuid st)(wid \<mapsto> fresh),
              window_routes := AList.update fresh wid (window_routes st),
              event_routes := AList.update wid (wm_events_tx st) (event_routes st),
              messages := messages st @ [MenuRegister wid fresh (client_id st)]\<rparr>, fresh))"

definition add_child :: "u32 \<Rightarrow> u32 \<Rightarrow> input_client \<Rightarrow> input_client" where
  "add_child parent wid = modify_window parent (\<lambda>p. p\<lparr>w_children := w_children p @ [wid]\<rparr>)"

definition window_created_message :: "string \<Rightarrow> create_window_request \<Rightarrow> input_client \<Rightarrow> frontend_message" where
  "window_created_message uuid r st =
     (let a = new_window_attributes r st
      in WindowCreated (client_id st)
           \<lparr>wc_window_id = uuid, wc_x = cw_x r, wc_y = cw_y r, wc_width = cw_width r,
            wc_height = cw_height r,
            wc_is_top_level = (cw_parent r = root_window st \<and> a_class a = INPUT_OUTPUT \<and>
                               \<not> a_override_redirect a),
            wc_override_redirect = a_override_redirect a,
            wc_border_width = a_border_width a, wc_border_pixel = a_border_pixel a\<rparr>)"

definition handle_create_window ::
    "encoders \<Rightarrow> bytes \<Rightarrow> string \<Rightarrow> create_window_request \<Rightarrow> input_client \<Rightarrow> input_client \<times> unit response" where
  "handle_create_window E hostname fresh r st =
     (case create_window_error r st of
        Some (code, value) \<Rightarrow> (st, ErrorReply (build_error code (sequence st) value 1 0))
      | None \<Rightarrow>
          (let wid = cw_wid r; parent = cw_parent r; vl = cw_values r;
               event_mask = or_default 0 (vl_event_mask vl);
               win = new_window_state hostname r st;
               created = (\<lambda>uuid. window_created_message uuid r st);
               st = st\<lparr>windows := AList.update wid win (windows st)\<rparr>;
               st = (if event_mask \<noteq> 0
                     then subscribe_to_window_events wid event_mask (wm_events_tx st) st else st);
               st = st\<lparr>bit_gravity := AList.update wid (ucast (or_default 0 (vl_bit_gravity vl))) (bit_gravity st),
                       win_gravity := AList.update wid (ucast (or_default 1 (vl_win_gravity vl))) (win_gravity st)\<rparr>;
               st = add_child parent wid st;
               (st, uuid) = get_or_create_window_uuid fresh wid st;
               st = st\<lparr>messages := messages st @ [created uuid]\<rparr>;
               ev = serialize_event (enc_create E
                      \<lparr>cn_sequence = sequence st, cn_parent = parent, cn_window = wid,
                       cn_x = cw_x r, cn_y = cw_y r, cn_width = cw_width r, cn_height = cw_height r,
                       cn_border_width = cw_border_width r,
                       cn_override_redirect = a_override_redirect (w_attrs win)\<rparr>) (msb_first st);
               st = deliver_event parent SUBSTRUCTURE_NOTIFY ev st
           in (mark_window_shared_dirty wid st, NoReply)))"

section \<open>DestroyWindow\<close>

text \<open>The loop of both handlers: a window is taken from the stack (whose top comes first) and its
  children are pushed.\<close>

partial_function (option) collect :: "(u32 \<Rightarrow> u32 list) \<Rightarrow> u32 list \<Rightarrow> u32 list \<Rightarrow> u32 list option" where
  "collect kids stack found =
     (case stack of
        [] \<Rightarrow> Some found
      | c # rest \<Rightarrow> collect kids (rev (kids c) @ rest) (found @ [c]))"

declare collect.simps [code]

definition children_order :: "windows_t \<Rightarrow> u32 \<Rightarrow> u32 list" where
  "children_order ws c = (case map_of ws c of Some w \<Rightarrow> w_children w | None \<Rightarrow> [])"

definition collect_descendants :: "windows_t \<Rightarrow> u32 \<Rightarrow> u32 list option" where
  "collect_descendants ws wid = collect (children_order ws) (rev (children_order ws wid)) []"

definition destroy_notify :: "encoders \<Rightarrow> u32 \<Rightarrow> u32 \<Rightarrow> input_client \<Rightarrow> bytes" where
  "destroy_notify E event wid st =
     serialize_event (enc_destroy E \<lparr>dn_sequence = sequence st, dn_event = event, dn_window = wid\<rparr>)
       (msb_first st)"

text \<open>What is forgotten about a window: its routes, its menu entry and its UUID.\<close>

definition forget_uuid :: "u32 \<Rightarrow> input_client \<Rightarrow> input_client" where
  "forget_uuid wid st =
     (case x11_to_uuid st wid of
        Some uuid \<Rightarrow>
          st\<lparr>x11_to_uuid := (x11_to_uuid st)(wid := None),
             window_routes := AList.delete uuid (window_routes st),
             messages := messages st @ [MenuDetach uuid, WindowDestroyed (client_id st) uuid]\<rparr>
      | None \<Rightarrow> st)"

definition forget_menu :: "u32 \<Rightarrow> input_client \<Rightarrow> input_client" where
  "forget_menu wid st =
     st\<lparr>gtk_paths := AList.delete wid (gtk_paths st), messages := messages st @ [MenuUnregister wid]\<rparr>"

definition remove_shared :: "u32 \<Rightarrow> input_client \<Rightarrow> input_client" where
  "remove_shared wid st = st\<lparr>shared_windows := AList.delete wid (shared_windows st)\<rparr>"

definition remove_local :: "u32 \<Rightarrow> input_client \<Rightarrow> input_client" where
  "remove_local wid st = st\<lparr>windows := AList.delete wid (windows st)\<rparr>"

definition remove_window :: "u32 \<Rightarrow> input_client \<Rightarrow> input_client" where
  "remove_window wid st =
     forget_uuid wid (remove_shared wid (forget_menu wid (recycle_xid wid (remove_local wid st))))"

definition destroy_descendant :: "encoders \<Rightarrow> u32 \<Rightarrow> input_client \<Rightarrow> input_client" where
  "destroy_descendant E d st =
     (let st = (case map_of (windows st) d of
                  Some w \<Rightarrow>
                    broadcast_event (w_parent w) SUBSTRUCTURE_NOTIFY (destroy_notify E (w_parent w) d st)
                      (deliver_event d STRUCTURE_NOTIFY (destroy_notify E d d st) st)
                | None \<Rightarrow> st)
      in remove_window d st)"

definition remove_child :: "u32 \<Rightarrow> u32 \<Rightarrow> input_client \<Rightarrow> input_client" where
  "remove_child parent wid =
     modify_window parent (\<lambda>p. p\<lparr>w_children := filter (\<lambda>c. c \<noteq> wid) (w_children p)\<rparr>)"

text \<open>\<open>None\<close> when the collection of the descendants does not return.\<close>

definition handle_destroy_window ::
    "encoders \<Rightarrow> u32 \<Rightarrow> input_client \<Rightarrow> (input_client \<times> unit response) option" where
  "handle_destroy_window E wid st =
     (case map_of (windows st) wid of
        None \<Rightarrow> Some (st, ErrorReply (build_error WINDOW_ERROR (sequence st) wid 4 0))
      | Some win \<Rightarrow>
          (let had_strut = (w_strut win \<noteq> None); parent_id = w_parent win;
               st = deliver_event wid STRUCTURE_NOTIFY (destroy_notify E wid wid st) st;
               st = deliver_event parent_id SUBSTRUCTURE_NOTIFY (destroy_notify E parent_id wid st) st;
               st = revert_focus_from E wid st
           in map_option (\<lambda>all_descendants.
                (let st = fold (\<lambda>d st. if focus_window st = d then revert_focus_from E d st else st)
                            all_descendants st;
                     st = fold (destroy_descendant E) (rev all_descendants) st;
                     st = remove_child parent_id wid st;
                     st = remove_window wid st;
                     st = update_net_client_list st
                 in (if had_strut then recalculate_workarea st else st, NoReply)))
              (collect_descendants (windows st) wid)))"

section \<open>DestroySubwindows\<close>

text \<open>Children are found by scanning the table for the parent field.\<close>

definition scan_children :: "windows_t \<Rightarrow> u32 \<Rightarrow> u32 list" where
  "scan_children ws p = map w_id (filter (\<lambda>w. w_parent w = p) (map snd ws))"

definition scan_descendants :: "windows_t \<Rightarrow> u32 \<Rightarrow> u32 list option" where
  "scan_descendants ws p = collect (scan_children ws) (rev (scan_children ws p)) []"

definition handle_destroy_subwindows ::
    "encoders \<Rightarrow> u32 \<Rightarrow> input_client \<Rightarrow> (input_client \<times> unit response) option" where
  "handle_destroy_subwindows E parent st =
     (if map_of (windows st) parent = None
      then Some (st, ErrorReply (build_error WINDOW_ERROR (sequence st) parent 5 0))
      else map_option (\<lambda>all_descendants.
             (let st = (if focus_window st \<in> set all_descendants
                        then revert_focus_from E (focus_window st) st else st);
                  st = fold remove_shared all_descendants st
              in (fold (\<lambda>w st. forget_uuid w (forget_menu w (remove_local w st))) all_descendants st,
                  NoReply)))
             (scan_descendants (windows st) parent))"

section \<open>Collecting the descendants\<close>

text \<open>One window is below another by way of the children lists.\<close>

definition kid :: "(u32 \<Rightarrow> u32 list) \<Rightarrow> u32 \<Rightarrow> u32 \<Rightarrow> bool" where
  "kid kids p c \<longleftrightarrow> c \<in> set (kids p)"

definition below :: "(u32 \<Rightarrow> u32 list) \<Rightarrow> u32 list \<Rightarrow> u32 set" where
  "below kids cs = {d. \<exists>c \<in> set cs. (kid kids)\<^sup>*\<^sup>* c d}"

lemma below_simps [simp]: "below kids [] = {}" "below kids (c # cs) = insert c (below kids (kids c)) \<union> below kids cs"
  "below kids (rev cs) = below kids cs"
proof -
  have "(kid kids)\<^sup>*\<^sup>* c d \<longleftrightarrow> d = c \<or> (\<exists>c' \<in> set (kids c). (kid kids)\<^sup>*\<^sup>* c' d)" for d
  proof
    assume "(kid kids)\<^sup>*\<^sup>* c d"
    then show "d = c \<or> (\<exists>c' \<in> set (kids c). (kid kids)\<^sup>*\<^sup>* c' d)"
      by (cases rule: converse_rtranclpE) (auto simp: kid_def)
  qed (auto simp: kid_def intro: converse_rtranclp_into_rtranclp)
  then show "below kids (c # cs) = insert c (below kids (kids c)) \<union> below kids cs"
    unfolding below_def by auto
qed (auto simp: below_def)

lemma collect_prefix:
  assumes "\<And>p c. c \<in> set (kids p) \<Longrightarrow> rank c < (rank p :: nat)"
  shows "\<forall>c \<in> set cs. rank c < n \<Longrightarrow>
    \<exists>ds. set ds = below kids cs \<and> (\<forall>rest found. collect kids (cs @ rest) found = collect kids rest (found @ ds))"
proof (induction n arbitrary: cs)
  case (Suc n)
  note outer = Suc.IH
  from Suc.prems show ?case
  proof (induction cs)
    case (Cons c cs)
    have "\<forall>d \<in> set (rev (kids c)). rank d < n" using assms Cons.prems by fastforce
    from outer [OF this] obtain ds1 where d1: "set ds1 = below kids (kids c)"
      "\<And>rest found. collect kids (rev (kids c) @ rest) found = collect kids rest (found @ ds1)" by auto
    from Cons obtain ds2 where d2: "set ds2 = below kids cs"
      "\<And>rest found. collect kids (cs @ rest) found = collect kids rest (found @ ds2)" by auto
    have "collect kids ((c # cs) @ rest) found = collect kids rest (found @ c # ds1 @ ds2)" for rest found
      by (subst collect.simps) (simp add: d1(2) d2(2))
    with d1(1) d2(1) show ?case by (intro exI [of _ "c # ds1 @ ds2"]) auto
  qed (auto intro: exI [of _ "[]"])
qed auto

lemma collect_total:
  assumes "\<And>p c. c \<in> set (kids p) \<Longrightarrow> rank c < (rank p :: nat)"
  shows "\<exists>ds. collect kids (rev (kids p)) [] = Some ds \<and> set ds = below kids (kids p)"
proof -
  have "\<forall>c \<in> set (rev (kids p)). rank c < rank p" using assms by simp
  from collect_prefix [where kids = kids and rank = rank, OF assms this] obtain ds where ds: "set ds = below kids (kids p)"
    "\<And>rest found. collect kids (rev (kids p) @ rest) found = collect kids rest (found @ ds)" by auto
  from ds(2) [of "[]" "[]"] have "collect kids (rev (kids p)) [] = collect kids [] ds" by simp
  then show ?thesis using ds(1) by (subst (asm) (2) collect.simps) simp
qed

lemma children_order_ranked:
  "children_ranked rank ws \<Longrightarrow> c \<in> set (children_order ws p) \<Longrightarrow> rank c < rank p"
  by (cases "map_of ws p") (auto simp: children_ranked_def children_order_def dest: map_of_SomeD)

text \<open>The window and everything below it.\<close>

definition subtree :: "windows_t \<Rightarrow> u32 \<Rightarrow> u32 set" where
  "subtree ws wid = insert wid (below (children_order ws) (children_order ws wid))"

lemma collect_descendants_total:
  assumes "children_ranked rank ws"
  shows "\<exists>ds. collect_descendants ws wid = Some ds \<and> insert wid (set ds) = subtree ws wid"
  using collect_total [of "children_order ws" rank wid] children_order_ranked [OF assms]
  by (auto simp: collect_descendants_def subtree_def)

lemma children_order_core: "children_order (windows st) c = (case core st c of Some w \<Rightarrow> w_children w | None \<Rightarrow> [])"
  by (simp add: children_order_def core_def split: option.split)

section \<open>Removing windows\<close>

lemma core_dom: "map_of (windows st) k = None \<longleftrightarrow> core st k = None"
  by (simp add: core_def)

lemma remove_window_effect [simp]:
  "core (remove_window d st) = (core st)(d := None)" "root_window (remove_window d st) = root_window st"
  "focus_window (remove_window d st) = focus_window st" "grabs (remove_window d st) = grabs st"
  "map_of (shared_windows (remove_window d st)) = (map_of (shared_windows st))(d := None)"
  "resource_id_base (remove_window d st) = resource_id_base st"
  "freed_xids (remove_window d st) = freed_xids st @ (if validate_resource_id st d then [d] else [])"
  "last_entered_window (remove_window d st) = last_entered_window st"
  by (auto simp: remove_window_def forget_uuid_def remove_shared_def forget_menu_def remove_local_def
      recycle_xid_def core_def validate_resource_id_def fun_eq_iff split: option.splits)

definition after_removal :: "u32 set \<Rightarrow> input_client \<Rightarrow> input_client \<Rightarrow> bool" where
  "after_removal D st st' \<longleftrightarrow> core st' = (\<lambda>k. if k \<in> D then None else core st k) \<and>
     map_of (shared_windows st') = (\<lambda>k. if k \<in> D then None else map_of (shared_windows st) k) \<and>
     root_window st' = root_window st \<and> grabs st' = grabs st \<and>
     resource_id_base st' = resource_id_base st \<and> last_entered_window st' = last_entered_window st"

lemma destroy_descendant_effect:
  "after_removal {d} st (destroy_descendant E d st)" "focus_window (destroy_descendant E d st) = focus_window st"
  "set (freed_xids (destroy_descendant E d st)) = set (freed_xids st) \<union> {x \<in> {d}. validate_resource_id st x}"
proof -
  define s where "s = (case map_of (windows st) d of
      Some w \<Rightarrow> broadcast_event (w_parent w) SUBSTRUCTURE_NOTIFY (destroy_notify E (w_parent w) d st)
                  (deliver_event d STRUCTURE_NOTIFY (destroy_notify E d d st) st)
    | None \<Rightarrow> st)"
  have s: "destroy_descendant E d st = remove_window d s" by (simp add: destroy_descendant_def s_def)
  have same: "same_core st s" "focus_window s = focus_window st"
    by (auto simp: s_def split: option.split intro: same_core_trans same_core_events)
  then show "after_removal {d} st (destroy_descendant E d st)" "focus_window (destroy_descendant E d st) = focus_window st"
    by (auto simp: s after_removal_def same_core_def fun_eq_iff)
  show "set (freed_xids (destroy_descendant E d st)) = set (freed_xids st) \<union> {x \<in> {d}. validate_resource_id st x}"
    using same by (auto simp: s same_core_def validate_resource_id_def)
qed

lemma after_removal_trans:
  "after_removal D a b \<Longrightarrow> after_removal D' b c \<Longrightarrow> after_removal (D \<union> D') a c"
  by (auto simp: after_removal_def fun_eq_iff)

lemma validate_after_removal: "after_removal D a b \<Longrightarrow> validate_resource_id b x = validate_resource_id a x"
  by (simp add: after_removal_def validate_resource_id_def)

lemma destroy_descendants_effect:
  "after_removal (set ds) st (fold (destroy_descendant E) ds st) \<and>
   focus_window (fold (destroy_descendant E) ds st) = focus_window st \<and>
   set (freed_xids (fold (destroy_descendant E) ds st)) = set (freed_xids st) \<union> {x \<in> set ds. validate_resource_id st x}"
proof (induction ds arbitrary: st)
  case (Cons d ds)
  let ?s = "destroy_descendant E d st"
  note d = destroy_descendant_effect [where d = d and st = st and E = E]
  have "after_removal ({d} \<union> set ds) st (fold (destroy_descendant E) ds ?s)"
    using d(1) Cons.IH [of ?s] by (blast intro: after_removal_trans)
  moreover have "validate_resource_id ?s x = validate_resource_id st x" for x
    by (rule validate_after_removal [OF d(1)])
  ultimately show ?case using Cons.IH [of ?s] d(2,3) by auto
qed (simp add: after_removal_def)

definition without_child :: "u32 \<Rightarrow> window_state \<Rightarrow> window_state" where
  "without_child wid p = p\<lparr>w_children := filter (\<lambda>c. c \<noteq> wid) (w_children p)\<rparr>"

lemma remove_child_effect [simp]:
  "core (remove_child p wid st) = (core st)(p := map_option (without_child wid) (core st p))"
  "root_window (remove_child p wid st) = root_window st" "grabs (remove_child p wid st) = grabs st"
  "shared_windows (remove_child p wid st) = shared_windows st" "freed_xids (remove_child p wid st) = freed_xids st"
  "focus_window (remove_child p wid st) = focus_window st"
  "resource_id_base (remove_child p wid st) = resource_id_base st"
  "last_entered_window (remove_child p wid st) = last_entered_window st"
  by (auto simp: remove_child_def modify_window_def core_def without_child_def fun_eq_iff option.map_comp
      intro!: option.map_cong)

lemma collect_descendants_core:
  "core st' = core st \<Longrightarrow> collect_descendants (windows st') wid = collect_descendants (windows st) wid"
proof -
  assume "core st' = core st"
  then have "children_order (windows st') = children_order (windows st)"
    by (intro ext) (simp add: children_order_core)
  then show ?thesis by (simp add: collect_descendants_def)
qed

text \<open>The focus on its way through DestroyWindow.\<close>

definition revert_all :: "encoders \<Rightarrow> u32 list \<Rightarrow> input_client \<Rightarrow> input_client" where
  "revert_all E ds st = fold (\<lambda>d st. if focus_window st = d then revert_focus_from E d st else st) ds st"

lemma revert_all_same_core: "same_core st (revert_all E ds st)"
  unfolding revert_all_def by (rule same_core_fold) (simp add: revert_focus_same_core)

definition announce_destroy :: "encoders \<Rightarrow> u32 \<Rightarrow> u32 \<Rightarrow> input_client \<Rightarrow> input_client" where
  "announce_destroy E wid parent st =
     (let st = deliver_event wid STRUCTURE_NOTIFY (destroy_notify E wid wid st) st;
          st = deliver_event parent SUBSTRUCTURE_NOTIFY (destroy_notify E parent wid st) st
      in revert_focus_from E wid st)"

lemma announce_same_core: "same_core st (announce_destroy E wid parent st)"
  unfolding announce_destroy_def Let_def
  by (rule same_core_trans [OF same_core_trans [OF same_core_events(3) same_core_events(3)]
        revert_focus_same_core])

definition finish_destroy :: "encoders \<Rightarrow> u32 \<Rightarrow> u32 \<Rightarrow> bool \<Rightarrow> input_client \<Rightarrow> input_client" where
  "finish_destroy E wid parent had_strut st =
     (let st = update_net_client_list (remove_window wid (remove_child parent wid st))
      in if had_strut then recalculate_workarea st else st)"

lemma finish_destroy_effect:
  "same_core (remove_window wid (remove_child parent wid st)) (finish_destroy E wid parent b st)"
  "focus_window (finish_destroy E wid parent b st) = focus_window st"
  by (auto simp: finish_destroy_def Let_def
      intro: same_core_trans same_core_update_net_client_list same_core_recalculate_workarea)

lemma handle_destroy_window_unfold:
  assumes "map_of (windows st) wid = Some win" "collect_descendants (windows st) wid = Some ds"
  shows "handle_destroy_window E wid st = Some
    (finish_destroy E wid (w_parent win) (w_strut win \<noteq> None)
      (fold (destroy_descendant E) (rev ds) (revert_all E ds (announce_destroy E wid (w_parent win) st))), NoReply)"
proof -
  have "collect_descendants (windows (announce_destroy E wid (w_parent win) st)) wid = Some ds"
    using collect_descendants_core [of "announce_destroy E wid (w_parent win) st" st]
      announce_same_core [of st E wid "w_parent win"] assms(2) by (simp add: same_core_def)
  with assms(1) show ?thesis
    by (simp add: handle_destroy_window_def announce_destroy_def finish_destroy_def revert_all_def Let_def)
qed

lemma destroy_window_effect:
  assumes "map_of (windows st) wid = Some win" "collect_descendants (windows st) wid = Some ds"
    and "D = insert wid (set ds)"
  obtains st' where "handle_destroy_window E wid st = Some (st', NoReply)"
    and "core st' = (\<lambda>k. if k \<in> D then None else if k = w_parent win then map_option (without_child wid) (core st k)
            else core st k)"
    and "map_of (shared_windows st') = (\<lambda>k. if k \<in> D then None else map_of (shared_windows st) k)"
    and "root_window st' = root_window st" "grabs st' = grabs st" "last_entered_window st' = last_entered_window st"
    and "resource_id_base st' = resource_id_base st"
    and "set (freed_xids st') = set (freed_xids st) \<union> {x \<in> D. validate_resource_id st x}"
    and "focus_window st' = focus_window (revert_all E ds (announce_destroy E wid (w_parent win) st))"
proof -
  let ?a = "revert_all E ds (announce_destroy E wid (w_parent win) st)"
  let ?b = "fold (destroy_descendant E) (rev ds) ?a"
  let ?c = "finish_destroy E wid (w_parent win) (w_strut win \<noteq> None) ?b"
  have a: "same_core st ?a" by (rule same_core_trans [OF announce_same_core revert_all_same_core])
  have b: "after_removal (set ds) ?a ?b" "focus_window ?b = focus_window ?a"
    "set (freed_xids ?b) = set (freed_xids ?a) \<union> {x \<in> set ds. validate_resource_id ?a x}"
    using destroy_descendants_effect [of "rev ds" ?a E] by simp_all
  note c = finish_destroy_effect [where wid = wid and parent = "w_parent win" and st = ?b and E = E and b = "w_strut win \<noteq> None"]
  show thesis
  proof (rule that [OF handle_destroy_window_unfold [OF assms(1,2)]])
    show "core ?c = (\<lambda>k. if k \<in> D then None else if k = w_parent win then map_option (without_child wid) (core st k)
            else core st k)"
      using a b(1) c(1) assms(3) by (auto simp: same_core_def after_removal_def fun_eq_iff)
    show "map_of (shared_windows ?c) = (\<lambda>k. if k \<in> D then None else map_of (shared_windows st) k)"
      using a b(1) c(1) assms(3) by (auto simp: same_core_def after_removal_def fun_eq_iff)
    show "root_window ?c = root_window st" "grabs ?c = grabs st" "last_entered_window ?c = last_entered_window st"
      "resource_id_base ?c = resource_id_base st"
      using a b(1) c(1) by (simp_all add: same_core_def after_removal_def)
    show "set (freed_xids ?c) = set (freed_xids st) \<union> {x \<in> D. validate_resource_id st x}"
      using a b(1,3) c(1) assms(3) by (auto simp: same_core_def after_removal_def validate_resource_id_def)
    show "focus_window ?c = focus_window ?a" using b(2) c(2) by simp
  qed
qed

section \<open>The window tree as an invariant\<close>

text \<open>Every child a window lists exists and names that window as its parent, no child is listed twice,
  and the nesting is finite.\<close>

definition kids_ok :: "input_client \<Rightarrow> bool" where
  "kids_ok st \<longleftrightarrow> (\<forall>p w. core st p = Some w \<longrightarrow> distinct (w_children w) \<and>
     (\<forall>c \<in> set (w_children w). \<exists>v. core st c = Some v \<and> w_parent v = p))"

definition kids_ranked :: "input_client \<Rightarrow> bool" where
  "kids_ranked st \<longleftrightarrow> (\<exists>rank :: u32 \<Rightarrow> nat. \<forall>p w c. core st p = Some w \<longrightarrow> c \<in> set (w_children w) \<longrightarrow> rank c < rank p)"

definition window_tree_ok :: "input_client \<Rightarrow> bool" where
  "window_tree_ok st \<longleftrightarrow> kids_ok st \<and> kids_ranked st"

lemma window_tree_ok_core: "same_core st st' \<Longrightarrow> window_tree_ok st' = window_tree_ok st"
  by (simp add: window_tree_ok_def kids_ok_def kids_ranked_def same_core_def)

lemma kids_okD:
  assumes "kids_ok st" "core st p = Some w" "c \<in> set (w_children w)"
  obtains v where "core st c = Some v" "w_parent v = p"
  using assms unfolding kids_ok_def by blast

lemma kids_ok_fresh: "kids_ok st \<Longrightarrow> core st c = None \<Longrightarrow> core st p = Some w \<Longrightarrow> c \<notin> set (w_children w)"
  by (auto elim: kids_okD)

lemma kids_ranked_collect:
  assumes "kids_ranked st"
  obtains ds where "collect_descendants (windows st) wid = Some ds" "insert wid (set ds) = subtree (windows st) wid"
proof -
  from assms obtain rank :: "u32 \<Rightarrow> nat" where
    rank: "\<And>p w c. core st p = Some w \<Longrightarrow> c \<in> set (w_children w) \<Longrightarrow> rank c < rank p"
    unfolding kids_ranked_def by blast
  have "c \<in> set (children_order (windows st) p) \<Longrightarrow> rank c < rank p" for c p
    using rank [of p] by (cases "core st p") (simp_all add: children_order_core)
  from collect_total [where kids = "children_order (windows st)" and rank = rank and p = wid, OF this]
  show thesis using that by (auto simp: collect_descendants_def subtree_def)
qed

text \<open>The parent of a window below another lies below it too, or is it.\<close>

lemma subtree_child:
  "p \<in> subtree (windows st) wid \<Longrightarrow> core st p = Some w \<Longrightarrow> c \<in> set (w_children w) \<Longrightarrow> c \<in> subtree (windows st) wid"
proof -
  assume a: "p \<in> subtree (windows st) wid" "core st p = Some w" "c \<in> set (w_children w)"
  then have k: "kid (children_order (windows st)) p c" by (simp add: kid_def children_order_core)
  from a(1) consider "p = wid" | q where "q \<in> set (children_order (windows st) wid)"
      "(kid (children_order (windows st)))\<^sup>*\<^sup>* q p"
    by (auto simp: subtree_def below_def)
  then show ?thesis
  proof cases
    case 1
    with k show ?thesis by (auto simp: subtree_def below_def kid_def)
  next
    case 2
    with k show ?thesis by (auto simp: subtree_def below_def intro: rtranclp.rtrancl_into_rtrancl)
  qed
qed

lemma subtree_parent:
  assumes "c \<in> subtree (windows st) wid" "c \<noteq> wid"
  obtains p w where "p \<in> subtree (windows st) wid" "core st p = Some w" "c \<in> set (w_children w)"
proof -
  note hyp = that
  from assms obtain q where q: "q \<in> set (children_order (windows st) wid)"
    "(kid (children_order (windows st)))\<^sup>*\<^sup>* q c" by (auto simp: subtree_def below_def)
  have listed: thesis if "kid (children_order (windows st)) p c" "p \<in> subtree (windows st) wid" for p
    using that(1) hyp [OF that(2)] by (cases "core st p") (simp_all add: kid_def children_order_core)
  from q(2) show thesis
  proof (cases rule: rtranclp.cases)
    case rtrancl_refl
    with q(1) show thesis by (intro listed [of wid]) (simp_all add: kid_def subtree_def)
  next
    case (rtrancl_into_rtrancl p)
    with q(1) show thesis by (intro listed [of p]) (auto simp: subtree_def below_def)
  qed
qed

lemma destroy_keeps_tree:
  assumes "window_tree_ok st" "core st wid = Some win"
    and "core st' = (\<lambda>k. if k \<in> subtree (windows st) wid then None
           else if k = w_parent win then map_option (without_child wid) (core st k) else core st k)"
  shows "window_tree_ok st'"
proof -
  have old: "\<exists>v. core st p = Some v \<and> p \<notin> subtree (windows st) wid \<and>
      (w = v \<and> p \<noteq> w_parent win \<or> w = without_child wid v \<and> p = w_parent win)" if "core st' p = Some w" for p w
    using that fun_cong [OF assms(3), of p] by (simp split: if_splits) blast
  have sub: "set (w_children w) \<subseteq> set (w_children v)" if "w = v \<or> w = without_child wid v" for w v
    using that by (auto simp: without_child_def)
  from assms(1) obtain rank :: "u32 \<Rightarrow> nat" where
    rank: "\<And>p w c. core st p = Some w \<Longrightarrow> c \<in> set (w_children w) \<Longrightarrow> rank c < rank p"
    unfolding window_tree_ok_def kids_ranked_def by blast
  have "rank c < rank p" if "core st' p = Some w" "c \<in> set (w_children w)" for p w c
    using old [OF that(1)] that(2) rank [of p] sub by blast
  then have "kids_ranked st'" unfolding kids_ranked_def by blast
  moreover have "kids_ok st'"
    unfolding kids_ok_def
  proof (intro allI impI conjI ballI)
    fix p w
    assume w: "core st' p = Some w"
    from old [OF w] obtain v where v: "core st p = Some v" "p \<notin> subtree (windows st) wid"
      "w = v \<and> p \<noteq> w_parent win \<or> w = without_child wid v \<and> p = w_parent win" by blast
    have "distinct (w_children v)" using assms(1) v(1) unfolding window_tree_ok_def kids_ok_def by blast
    then show "distinct (w_children w)" using v(3) by (auto simp: without_child_def)
    fix c
    assume c: "c \<in> set (w_children w)"
    then have cv: "c \<in> set (w_children v)" using v(3) by (auto simp: without_child_def)
    have ok: "kids_ok st" using assms(1) by (simp add: window_tree_ok_def)
    from kids_okD [OF ok v(1) cv] obtain u where u: "core st c = Some u" "w_parent u = p" .
    have "c \<noteq> wid"
    proof (cases "p = w_parent win")
      case True
      with v(3) c show ?thesis by (simp add: without_child_def)
    next
      case False
      with u assms(2) show ?thesis by auto
    qed
    have "c \<notin> subtree (windows st) wid"
    proof
      assume "c \<in> subtree (windows st) wid"
      from subtree_parent [OF this \<open>c \<noteq> wid\<close>] obtain q x where q: "q \<in> subtree (windows st) wid"
        "core st q = Some x" "c \<in> set (w_children x)" .
      from kids_okD [OF ok q(2,3)] u have "q = p" by auto
      with q(1) v(2) show False by simp
    qed
    then show "\<exists>v. core st' c = Some v \<and> w_parent v = p"
      using u fun_cong [OF assms(3), of c] by (cases "c = w_parent win") (auto simp: without_child_def)
  qed
  ultimately show ?thesis by (simp add: window_tree_ok_def)
qed

section \<open>Creating windows\<close>

definition with_child :: "u32 \<Rightarrow> window_state \<Rightarrow> window_state" where
  "with_child wid p = p\<lparr>w_children := w_children p @ [wid]\<rparr>"

lemma or_default_simps [simp]: "or_default d None = d" "or_default d (Some v) = v"
  by (simp_all add: or_default_def)

lemma same_core_fields:
  assumes "same_core st st'"
  shows "core st' = core st" "root_window st' = root_window st" "resource_id_base st' = resource_id_base st"
    "shared_windows st' = shared_windows st" "freed_xids st' = freed_xids st" "grabs st' = grabs st"
  using assms by (simp_all add: same_core_def)

lemma get_uuid_simps [simp]:
  assumes "get_or_create_window_uuid fresh wid st = (st', uuid)"
  shows "windows st' = windows st" "root_window st' = root_window st" "resource_id_base st' = resource_id_base st"
    "shared_windows st' = shared_windows st" "freed_xids st' = freed_xids st" "grabs st' = grabs st"
    "focus_window st' = focus_window st"
  using assms by (auto simp: get_or_create_window_uuid_def split: option.splits)

text \<open>The window table after the new window has been entered; the remaining steps do not touch it.\<close>

lemma create_window_effect:
  assumes "create_window_error r st = None" "cw_parent r \<noteq> cw_wid r" "cw_wid r \<noteq> root_window st"
  obtains st' where "handle_create_window E hostname fresh r st = (st', NoReply)"
    and "core st' = (core st)(cw_wid r \<mapsto> new_window_state hostname r st,
           cw_parent r := map_option (with_child (cw_wid r)) (core st (cw_parent r)))"
    and "root_window st' = root_window st" "resource_id_base st' = resource_id_base st"
    and "shared_windows st' = shared_windows st" "freed_xids st' = freed_xids st" "grabs st' = grabs st"
    and "focus_window st' = focus_window st"
    and "windows st' = AList.map_entry (cw_parent r) (with_child (cw_wid r))
           (AList.update (cw_wid r) (new_window_state hostname r st) (windows st))"
proof -
  let ?wid = "cw_wid r" and ?p = "cw_parent r" and ?new = "new_window_state hostname r st"
  define mask where "mask = or_default 0 (vl_event_mask (cw_values r))"
  define s1 where "s1 = st\<lparr>windows := AList.update ?wid ?new (windows st)\<rparr>"
  define s2 where "s2 = (if mask \<noteq> 0 then subscribe_to_window_events ?wid mask (wm_events_tx s1) s1 else s1)"
  define s3 where "s3 = s2\<lparr>
    bit_gravity := AList.update ?wid (ucast (or_default 0 (vl_bit_gravity (cw_values r)))) (bit_gravity s2),
    win_gravity := AList.update ?wid (ucast (or_default 1 (vl_win_gravity (cw_values r)))) (win_gravity s2)\<rparr>"
  define s4 where "s4 = add_child ?p ?wid s3"
  obtain s5 uuid where s5: "get_or_create_window_uuid fresh ?wid s4 = (s5, uuid)" by (rule prod.exhaust)
  define s6 where "s6 = s5\<lparr>messages := messages s5 @ [window_created_message uuid r st]\<rparr>"
  define ev where "ev = serialize_event (enc_create E
      \<lparr>cn_sequence = sequence s6, cn_parent = ?p, cn_window = ?wid, cn_x = cw_x r, cn_y = cw_y r,
       cn_width = cw_width r, cn_height = cw_height r, cn_border_width = cw_border_width r,
       cn_override_redirect = a_override_redirect (w_attrs ?new)\<rparr>) (msb_first s6)"
  define st' where "st' = mark_window_shared_dirty ?wid (deliver_event ?p SUBSTRUCTURE_NOTIFY ev s6)"
  have res: "handle_create_window E hostname fresh r st = (st', NoReply)"
    by (simp only: handle_create_window_def Let_def assms(1) option.case mask_def [symmetric] s1_def [symmetric]
        s2_def [symmetric] s3_def [symmetric] s4_def [symmetric] s5 prod.case s6_def [symmetric] ev_def [symmetric]
        st'_def [symmetric])
  have s4: "windows s4 = AList.map_entry ?p (with_child ?wid) (AList.update ?wid ?new (windows st))"
    "root_window s4 = root_window st" "resource_id_base s4 = resource_id_base st" "focus_window s4 = focus_window st"
    "shared_windows s4 = shared_windows st" "freed_xids s4 = freed_xids st" "grabs s4 = grabs st"
    by (simp_all add: s4_def s3_def s2_def s1_def add_child_def modify_window_def with_child_def [abs_def]
        subscribe_to_window_events_def)
  have st': "same_core s6 st'" unfolding st'_def
    by (rule same_core_trans [OF same_core_events(3) same_core_events(10)])
  have focus: "focus_window st' = focus_window st" by (simp add: st'_def s6_def s4 get_uuid_simps [OF s5])
  have wins: "windows st' = windows s4"
    by (simp add: st'_def s6_def get_uuid_simps [OF s5] mark_window_shared_dirty_def deliver_event_def
        broadcast_event_def push_event_def)
  have "core s6 = (core st)(?wid \<mapsto> ?new, ?p := map_option (with_child ?wid) (core st ?p))"
    using assms(2,3) s4(1,2)
    by (auto simp: s6_def core_def get_uuid_simps [OF s5] fun_eq_iff with_child_def option.map_comp intro!: option.map_cong)
  moreover have "root_window s6 = root_window st" "resource_id_base s6 = resource_id_base st"
    "shared_windows s6 = shared_windows st" "freed_xids s6 = freed_xids st" "grabs s6 = grabs st"
    by (simp_all add: s6_def s4 get_uuid_simps [OF s5])
  ultimately show thesis using that [OF res] same_core_fields [OF st'] focus wins s4(1) by simp
qed

lemma core_Some:
  assumes "map_of (windows st) k = Some w"
  obtains v where "core st k = Some v" "w_parent v = w_parent w" "w_children v = w_children w"
  using assms that [of "if k = root_window st then w\<lparr>w_properties := []\<rparr> else w"] by (simp add: core_def split: if_splits)

lemma create_error_None:
  assumes "create_window_error r st = None"
  shows "validate_resource_id st (cw_wid r)" "core st (cw_wid r) = None" "map_of (shared_windows st) (cw_wid r) = None"
    "cw_parent r = root_window st \<or> known_window (cw_parent r) st" "\<not> known_window (cw_wid r) st"
proof -
  note unfold = create_window_error_def Let_def
  show valid: "validate_resource_id st (cw_wid r)" by (rule ccontr) (use assms in \<open>simp add: unfold\<close>)
  show new: "\<not> known_window (cw_wid r) st" by (rule notI) (use assms valid in \<open>simp add: unfold\<close>)
  show "core st (cw_wid r) = None" "map_of (shared_windows st) (cw_wid r) = None"
    using new by (simp_all add: known_window_def core_def)
  show "cw_parent r = root_window st \<or> known_window (cw_parent r) st"
    by (rule ccontr) (use assms valid new in \<open>cases "can_create_window st"; simp add: unfold\<close>)
qed

lemma create_distinct:
  assumes "create_window_error r st = None" "\<not> validate_resource_id st (root_window st)"
  shows "cw_parent r \<noteq> cw_wid r" "cw_wid r \<noteq> root_window st"
proof -
  show "cw_wid r \<noteq> root_window st" using create_error_None(1) [OF assms(1)] assms(2) by metis
  with create_error_None(4,5) [OF assms(1)] show "cw_parent r \<noteq> cw_wid r" by metis
qed

lemma create_keeps_tree:
  assumes "window_tree_ok st" "core st wid = None" "p \<noteq> wid" "w_children new = []" "w_parent new = p"
    and "core st' = (core st)(wid \<mapsto> new, p := map_option (with_child wid) (core st p))"
  shows "window_tree_ok st'"
proof -
  have ok: "kids_ok st" using assms(1) by (simp add: window_tree_ok_def)
  from assms(1) obtain rank :: "u32 \<Rightarrow> nat" where
    rank: "\<And>p w c. core st p = Some w \<Longrightarrow> c \<in> set (w_children w) \<Longrightarrow> rank c < rank p"
    unfolding window_tree_ok_def kids_ranked_def by blast
  have old: "(\<exists>v. core st q = Some v \<and> q \<noteq> wid \<and> (w = v \<and> q \<noteq> p \<or> w = with_child wid v \<and> q = p)) \<or>
      q = wid \<and> w = new" if "core st' q = Some w" for q w
    using that assms(3) fun_cong [OF assms(6), of q] assms(2) by (auto split: if_splits)
  have fresh: "wid \<notin> set (w_children v)" if "core st q = Some v" for q v
    using kids_ok_fresh [OF ok assms(2) that] .
  define rank' where "rank' c = (if c = wid then 0 else Suc (rank c))" for c
  have "rank' c < rank' q" if "core st' q = Some w" "c \<in> set (w_children w)" for q w c
    using old [OF that(1)] that(2) rank [of q] fresh assms(3,4)
    by (auto simp: rank'_def with_child_def)
  then have "kids_ranked st'" unfolding kids_ranked_def by blast
  moreover have "kids_ok st'"
    unfolding kids_ok_def
  proof (intro allI impI conjI ballI)
    fix q w
    assume w: "core st' q = Some w"
    show "distinct (w_children w)"
      using old [OF w] assms(4) ok fresh by (auto simp: with_child_def kids_ok_def)
    fix c
    assume c: "c \<in> set (w_children w)"
    show "\<exists>v. core st' c = Some v \<and> w_parent v = q"
    proof (cases "c = wid")
      case True
      with old [OF w] c fresh assms(4) have "q = p" by (auto simp: with_child_def)
      with True assms(3,5,6) show ?thesis by simp
    next
      case False
      with old [OF w] c assms(4) obtain v where v: "core st q = Some v" "c \<in> set (w_children v)"
        by (auto simp: with_child_def)
      from kids_okD [OF ok this] obtain u where "core st c = Some u" "w_parent u = q" .
      with False fun_cong [OF assms(6), of c] show ?thesis
        by (cases "c = p") (auto simp: with_child_def)
    qed
  qed
  ultimately show ?thesis by (simp add: window_tree_ok_def)
qed

lemma new_window_state_simps [simp]:
  "w_children (new_window_state hostname r st) = []" "w_parent (new_window_state hostname r st) = cw_parent r"
  by (simp_all add: new_window_state_def)

section \<open>Steps\<close>

text \<open>What a connection can do to its windows: create one, destroy one with everything below it,
  move the focus. Other handlers change neither parents nor children lists, except those that
  restack and reparent.\<close>

inductive life_step :: "encoders \<Rightarrow> input_client \<Rightarrow> input_client \<Rightarrow> bool" for E where
  life_create: "handle_create_window E hostname fresh r st = (st', res) \<Longrightarrow> life_step E st st'"
| life_destroy: "handle_destroy_window E wid st = Some (st', res) \<Longrightarrow> life_step E st st'"
| life_focus: "life_step E st (set_focus_window E w st)"

definition life_ok :: "input_client \<Rightarrow> bool" where
  "life_ok st \<longleftrightarrow> window_tree_ok st \<and> \<not> validate_resource_id st (root_window st)"

lemma destroy_outcome:
  assumes "kids_ranked st"
  shows "(map_of (windows st) wid = None \<and>
      handle_destroy_window E wid st = Some (st, ErrorReply (build_error WINDOW_ERROR (sequence st) wid 4 0))) \<or>
    (\<exists>win ds. map_of (windows st) wid = Some win \<and> collect_descendants (windows st) wid = Some ds \<and>
       insert wid (set ds) = subtree (windows st) wid)"
proof (cases "map_of (windows st) wid")
  case (Some win)
  from kids_ranked_collect [OF assms, of wid] obtain ds where
    "collect_descendants (windows st) wid = Some ds" "insert wid (set ds) = subtree (windows st) wid" .
  with Some show ?thesis by simp
qed (simp add: handle_destroy_window_def)

lemma life_destroy_ok:
  assumes "life_ok st" "handle_destroy_window E wid st = Some (st', res)"
  shows "life_ok st'"
proof -
  have "kids_ranked st" using assms(1) by (simp add: life_ok_def window_tree_ok_def)
  from destroy_outcome [OF this, of wid E] show ?thesis
  proof
    assume "\<exists>win ds. map_of (windows st) wid = Some win \<and> collect_descendants (windows st) wid = Some ds \<and>
       insert wid (set ds) = subtree (windows st) wid"
    then obtain win ds where w: "map_of (windows st) wid = Some win" and d: "collect_descendants (windows st) wid = Some ds"
      and s: "insert wid (set ds) = subtree (windows st) wid" by blast
    from core_Some [OF w] obtain win' where win': "core st wid = Some win'" "w_parent win' = w_parent win" .
    show ?thesis
    proof (rule destroy_window_effect [OF w d s [symmetric], of E])
      fix t
      assume t: "handle_destroy_window E wid st = Some (t, NoReply)" "root_window t = root_window st"
        "resource_id_base t = resource_id_base st"
        "core t = (\<lambda>k. if k \<in> subtree (windows st) wid then None
           else if k = w_parent win then map_option (without_child wid) (core st k) else core st k)"
      have "st' = t" using t(1) assms(2) by simp
      moreover have "window_tree_ok t"
        by (rule destroy_keeps_tree [OF _ win'(1), of t]) (use assms(1) win'(2) t(4) in \<open>simp_all only: life_ok_def\<close>)
      ultimately show ?thesis using t(2,3) assms(1) by (simp add: life_ok_def validate_resource_id_def)
    qed
  next
    assume "map_of (windows st) wid = None \<and>
      handle_destroy_window E wid st = Some (st, ErrorReply (build_error WINDOW_ERROR (sequence st) wid 4 0))"
    with assms(2) have "st' = st" by (metis option.inject prod.inject)
    with assms(1) show ?thesis by simp
  qed
qed

lemma life_step_ok: "life_step E st st' \<Longrightarrow> life_ok st \<Longrightarrow> life_ok st'"
proof (induction rule: life_step.induct)
  case (life_create hostname fresh r st st' res)
  show ?case
  proof (cases "create_window_error r st")
    case (Some e)
    with life_create show ?thesis by (cases e) (simp add: handle_create_window_def)
  next
    case None
    have root: "\<not> validate_resource_id st (root_window st)" using life_create.prems by (simp add: life_ok_def)
    show ?thesis
    proof (rule create_window_effect [OF None create_distinct [OF None root], of E hostname fresh])
      fix t
      assume t: "handle_create_window E hostname fresh r st = (t, NoReply)"
        "core t = (core st)(cw_wid r \<mapsto> new_window_state hostname r st,
           cw_parent r := map_option (with_child (cw_wid r)) (core st (cw_parent r)))"
        "root_window t = root_window st" "resource_id_base t = resource_id_base st"
      have "window_tree_ok t"
        by (rule create_keeps_tree [OF _ create_error_None(2) [OF None] create_distinct(1) [OF None root] _ _ t(2)])
          (use life_create.prems in \<open>simp_all add: life_ok_def\<close>)
      moreover have "st' = t" using t(1) life_create.hyps by simp
      ultimately show ?thesis using t(3,4) life_create.prems by (simp add: life_ok_def validate_resource_id_def)
    qed
  qed
next
  case (life_destroy wid st st' res)
  then show ?case by (blast intro: life_destroy_ok)
next
  case (life_focus st w)
  then show ?case
    using set_focus_window_same_core [of st E w] window_tree_ok_core [of st "set_focus_window E w st"]
    by (simp add: life_ok_def same_core_def validate_resource_id_def)
qed

interpretation life: invariant_system "life_step E" life_ok for E
  by unfold_locales (rule life_step_ok)

lemma collect_superset: "collect kids stack found = Some ds \<Longrightarrow> set stack \<union> set found \<subseteq> set ds"
proof (rule collect.raw_induct [where P = "\<lambda>kids stack found ds. set stack \<union> set found \<subseteq> set ds"])
  fix loop kids stack found ds
  assume ih: "\<And>kids stack found ds. loop kids stack found = Some ds \<Longrightarrow> set stack \<union> set found \<subseteq> set ds"
    and step: "(case stack of [] \<Rightarrow> Some found | c # rest \<Rightarrow> loop kids (rev (kids c) @ rest) (found @ [c])) = Some ds"
  show "set stack \<union> set found \<subseteq> set ds"
  proof (cases stack)
    case Nil
    with step show ?thesis by simp
  next
    case (Cons c rest)
    with step ih [of kids "rev (kids c) @ rest" "found @ [c]" ds] show ?thesis by auto
  qed
qed

lemma kid_rank:
  assumes "\<And>p c. c \<in> set (kids p) \<Longrightarrow> rank c < (rank p :: nat)" "d \<in> below kids (kids p)"
  shows "rank d < rank p"
proof -
  from assms(2) obtain c where c: "c \<in> set (kids p)" "(kid kids)\<^sup>*\<^sup>* c d" by (auto simp: below_def)
  from c(2) have "rank d \<le> rank c" by (induction rule: rtranclp_induct) (use assms(1) in \<open>fastforce simp: kid_def\<close>)+
  with assms(1) [OF c(1)] show ?thesis by simp
qed

section \<open>DestroySubwindows\<close>

lemma forget_effect [simp]:
  "core (forget_uuid w (forget_menu w (remove_local w st))) = (core st)(w := None)"
  "root_window (forget_uuid w (forget_menu w (remove_local w st))) = root_window st"
  "resource_id_base (forget_uuid w (forget_menu w (remove_local w st))) = resource_id_base st"
  by (auto simp: forget_uuid_def forget_menu_def remove_local_def core_def fun_eq_iff split: option.splits)

lemma forget_all_effect:
  "core (fold (\<lambda>w st. forget_uuid w (forget_menu w (remove_local w st))) ds st) = (\<lambda>k. if k \<in> set ds then None else core st k)"
  "root_window (fold (\<lambda>w st. forget_uuid w (forget_menu w (remove_local w st))) ds st) = root_window st"
  "resource_id_base (fold (\<lambda>w st. forget_uuid w (forget_menu w (remove_local w st))) ds st) = resource_id_base st"
  by (induction ds arbitrary: st) (auto simp: fun_eq_iff)

lemma remove_shared_effect:
  "core (fold remove_shared ds st) = core st" "root_window (fold remove_shared ds st) = root_window st"
  "resource_id_base (fold remove_shared ds st) = resource_id_base st"
proof -
  have "core (remove_shared d s) = core s" "root_window (remove_shared d s) = root_window s"
    "resource_id_base (remove_shared d s) = resource_id_base s" for d s
    by (simp_all add: remove_shared_def core_def fun_eq_iff)
  then show "core (fold remove_shared ds st) = core st" "root_window (fold remove_shared ds st) = root_window st"
    "resource_id_base (fold remove_shared ds st) = resource_id_base st"
    by (induction ds arbitrary: st) simp_all
qed

lemma destroy_subwindows_effect:
  assumes "handle_destroy_subwindows E p st = Some (st', NoReply)"
  obtains ds where "scan_descendants (windows st) p = Some ds"
    and "core st' = (\<lambda>k. if k \<in> set ds then None else core st k)" "root_window st' = root_window st"
    and "resource_id_base st' = resource_id_base st"
proof -
  have known: "map_of (windows st) p \<noteq> None"
  proof
    assume "map_of (windows st) p = None"
    with assms show False by (simp add: handle_destroy_subwindows_def)
  qed
  from assms known obtain ds where ds: "scan_descendants (windows st) p = Some ds"
    by (cases "scan_descendants (windows st) p") (simp_all add: handle_destroy_subwindows_def)
  define s where "s = (if focus_window st \<in> set ds then revert_focus_from E (focus_window st) st else st)"
  have s: "same_core st s" by (simp add: s_def revert_focus_same_core)
  have st': "st' = fold (\<lambda>w st. forget_uuid w (forget_menu w (remove_local w st))) ds (fold remove_shared ds s)"
    using assms known ds by (simp add: handle_destroy_subwindows_def Let_def s_def)
  have "core st' = (\<lambda>k. if k \<in> set ds then None else core st k)" "root_window st' = root_window st"
    "resource_id_base st' = resource_id_base st"
    using s unfolding st' forget_all_effect remove_shared_effect same_core_def by auto
  with that [OF ds] show thesis by blast
qed

lemma filter_other: "x \<notin> set xs \<Longrightarrow> filter (\<lambda>c. c \<noteq> x) xs = xs"
  by (induction xs) auto

section \<open>The focus while windows are destroyed\<close>

lemma revert_target_core:
  assumes "core st d = Some v" "focus_revert_to st = 2" "w_parent v \<noteq> 0" "core st (w_parent v) \<noteq> None"
  shows "revert_target d st = w_parent v"
proof -
  from assms(1) obtain w where w: "map_of (windows st) d = Some w" "w_parent w = w_parent v"
    by (cases "map_of (windows st) d") (auto simp: core_def)
  have "map_of (windows st) (w_parent v) \<noteq> None" using assms(4) by (simp add: core_dom)
  with w assms(2,3) show ?thesis by (simp add: revert_target_def)
qed

lemma revert_all_parent:
  assumes "kids_ok st" "core st 0 = None" "focus_revert_to st = 2" "same_core st s"
    and "focus_window s \<in> subtree (windows st) wid" "\<forall>d \<in> set ds. d \<in> subtree (windows st) wid \<and> d \<noteq> wid"
  shows "focus_window (revert_all E ds s) \<in> subtree (windows st) wid"
  using assms(4-6)
proof (induction ds arbitrary: s)
  case (Cons d ds)
  have step: "revert_all E (d # ds) s = revert_all E ds (if focus_window s = d then revert_focus_from E d s else s)"
    by (simp add: revert_all_def)
  show ?case
  proof (cases "focus_window s = d")
    case False
    with Cons step show ?thesis by simp
  next
    case True
    have d: "d \<in> subtree (windows st) wid" "d \<noteq> wid" using Cons.prems by auto
    from subtree_parent [OF d] obtain p w where p: "p \<in> subtree (windows st) wid" "core st p = Some w"
      "d \<in> set (w_children w)" .
    from kids_okD [OF assms(1) p(2,3)] obtain v where v: "core st d = Some v" "w_parent v = p" .
    have "p \<noteq> 0" using p(2) assms(2) by auto
    have s: "core s = core st" "focus_revert_to s = 2" using Cons.prems(1) assms(3) by (simp_all add: same_core_def)
    have "revert_target d s = p"
      using revert_target_core [of s d v] s v p(2) \<open>p \<noteq> 0\<close> by simp
    then have "focus_window (revert_focus_from E d s) \<in> subtree (windows st) wid"
      using True p(1) by simp
    with Cons.IH [of "revert_focus_from E d s"] Cons.prems True step
      same_core_trans [OF Cons.prems(1) revert_focus_same_core] show ?thesis by simp
  qed
qed (simp add: revert_all_def)

lemma revert_all_pointer_root:
  assumes "focus_revert_to st = 1" "same_core st s" "focus_window s \<in> set ds \<union> {1}" "1 \<notin> set ds"
  shows "focus_window (revert_all E ds s) = 1"
  using assms(2-4)
proof (induction ds arbitrary: s)
  case (Cons d ds)
  have step: "revert_all E (d # ds) s = revert_all E ds (if focus_window s = d then revert_focus_from E d s else s)"
    by (simp add: revert_all_def)
  have "revert_target d s = 1" using Cons.prems(1) assms(1) by (simp add: same_core_def revert_target_def)
  then show ?case
    using Cons.IH [of "revert_focus_from E d s"] Cons.IH [of s] Cons.prems step
      same_core_trans [OF Cons.prems(1) revert_focus_same_core] by auto
qed (simp add: revert_all_def)

lemma kids_ranked_wid:
  assumes "kids_ranked st" "collect_descendants (windows st) wid = Some ds"
    "insert wid (set ds) = subtree (windows st) wid"
  shows "wid \<notin> set ds"
proof
  assume wid: "wid \<in> set ds"
  from assms(1) obtain rank :: "u32 \<Rightarrow> nat" where
    rank: "\<And>p w c. core st p = Some w \<Longrightarrow> c \<in> set (w_children w) \<Longrightarrow> rank c < rank p"
    unfolding kids_ranked_def by blast
  have ranked: "c \<in> set (children_order (windows st) p) \<Longrightarrow> rank c < rank p" for c p
    using rank [of p] by (cases "core st p") (simp_all add: children_order_core)
  from collect_total [where kids = "children_order (windows st)" and rank = rank and p = wid, OF ranked] assms(2)
  have "set ds = below (children_order (windows st)) (children_order (windows st) wid)"
    by (simp add: collect_descendants_def)
  with wid kid_rank [where kids = "children_order (windows st)" and rank = rank and p = wid, OF ranked]
  show False by blast
qed

text \<open>What DestroyWindow does, for a window tree in order.\<close>

lemma destroy_removes:
  assumes "window_tree_ok st" "map_of (windows st) wid = Some win"
  shows "\<exists>st'. handle_destroy_window E wid st = Some (st', NoReply) \<and>
    core st' = (\<lambda>k. if k \<in> subtree (windows st) wid then None
      else if k = w_parent win then map_option (without_child wid) (core st k) else core st k) \<and>
    map_of (shared_windows st') =
      (\<lambda>k. if k \<in> subtree (windows st) wid then None else map_of (shared_windows st) k) \<and>
    set (freed_xids st') = set (freed_xids st) \<union> {x \<in> subtree (windows st) wid. validate_resource_id st x} \<and>
    grabs st' = grabs st \<and> root_window st' = root_window st"
proof -
  have "kids_ranked st" using assms(1) by (simp add: window_tree_ok_def)
  from kids_ranked_collect [OF this, of wid] obtain ds where d: "collect_descendants (windows st) wid = Some ds"
    "insert wid (set ds) = subtree (windows st) wid" .
  from destroy_window_effect [OF assms(2) d(1) d(2) [symmetric], of E] show ?thesis by blast
qed

section \<open>Properties\<close>

text \<open>The window tree stays a tree: after any sequence of CreateWindow, DestroyWindow and focus
  changes every listed child exists and names the listing window as its parent, no child is listed
  twice and nesting is finite; in particular the unbounded search for descendants always returns.
  (DestroySubwindows is not among the steps: it leaves destroyed windows listed.)\<close>

theorem window_lifecycle:
  assumes "(life_step E)\<^sup>*\<^sup>* st st'" "life_ok st"
  shows "window_tree_ok st' \<and> (\<exists>out. handle_destroy_window E wid st' = Some out)"
proof -
  have ok: "window_tree_ok st'" using life.reachable_inv [OF assms] by (simp add: life_ok_def)
  then have "kids_ranked st'" by (simp add: window_tree_ok_def)
  from destroy_outcome [OF this, of wid E] have "\<exists>out. handle_destroy_window E wid st' = Some out"
    using handle_destroy_window_unfold by blast
  with ok show ?thesis by blast
qed


text \<open>C33. A window that is created and destroyed at once leaves the window table as it was, and its
  identifier can be used again.\<close>

theorem create_destroy_roundtrip:
  assumes "life_ok st" "handle_create_window E hostname fresh r st = (st1, NoReply)"
  shows "\<exists>st2. handle_destroy_window E (cw_wid r) st1 = Some (st2, NoReply) \<and> core st2 = core st \<and>
    cw_wid r \<in> set (freed_xids st2)"
proof -
  have none: "create_window_error r st = None"
    using assms(2) by (cases "create_window_error r st") (auto simp: handle_create_window_def)
  have root: "\<not> validate_resource_id st (root_window st)" using assms(1) by (simp add: life_ok_def)
  note dist = create_distinct [OF none root]
  have ok1: "window_tree_ok st1"
    using life_step_ok [OF life_step.life_create [OF assms(2)] assms(1)] by (simp add: life_ok_def)
  show ?thesis
  proof (rule create_window_effect [OF none dist, of E hostname fresh])
    fix t
    assume t: "handle_create_window E hostname fresh r st = (t, NoReply)"
      "core t = (core st)(cw_wid r \<mapsto> new_window_state hostname r st,
           cw_parent r := map_option (with_child (cw_wid r)) (core st (cw_parent r)))"
      "root_window t = root_window st" "resource_id_base t = resource_id_base st"
    have "t = st1" using t(1) assms(2) by simp
    note t = t [unfolded this]
    have new: "core st1 (cw_wid r) = Some (new_window_state hostname r st)" using t(2) dist(1) by simp
    then obtain win where win: "map_of (windows st1) (cw_wid r) = Some win" "w_parent win = cw_parent r"
      using t(3) dist(2) by (cases "map_of (windows st1) (cw_wid r)") (auto simp: core_def)
    have sub: "subtree (windows st1) (cw_wid r) = {cw_wid r}"
      by (simp add: subtree_def children_order_core new)
    from destroy_removes [OF ok1 win(1), of E, unfolded sub win(2)] obtain st2 where
      st2: "handle_destroy_window E (cw_wid r) st1 = Some (st2, NoReply)"
        "core st2 = (\<lambda>k. if k \<in> {cw_wid r} then None
           else if k = cw_parent r then map_option (without_child (cw_wid r)) (core st1 k) else core st1 k)"
        "set (freed_xids st2) = set (freed_xids st1) \<union> {x \<in> {cw_wid r}. validate_resource_id st1 x}" by blast
    have fresh: "cw_wid r \<notin> set (w_children v)" if "core st q = Some v" for q v
      using kids_ok_fresh [OF _ create_error_None(2) [OF none] that] assms(1)
      by (simp add: life_ok_def window_tree_ok_def)
    have same: "map_option (without_child (cw_wid r)) (map_option (with_child (cw_wid r)) (core st q)) = core st q" for q
      using fresh [of q] by (cases "core st q") (simp_all add: without_child_def with_child_def filter_other)
    have "core st2 k = core st k" for k
    proof (cases "k = cw_wid r \<or> k = cw_parent r")
      case True
      then show ?thesis
        using same [of k] create_error_None(2) [OF none] dist(1) by (auto simp: st2(2) t(2))
    qed (simp add: st2(2) t(2))
    moreover have "cw_wid r \<in> set (freed_xids st2)"
      using st2(3) create_error_None(1) [OF none] t(4) by (simp add: validate_resource_id_def)
    ultimately show ?thesis using st2(1) by blast
  qed
qed

text \<open>C37. DestroySubwindows leaves the children it destroys in the list of their parent. When the client
  uses the identifier of such a child for a new window with another parent, destroying the old
  parent destroys the new window too.\<close>

theorem destroyed_subwindow_stays_listed:
  assumes "map_of (windows st) p = Some pw" "c \<in> set (w_children pw)" "c \<noteq> p"
    and "map_of (windows st) c = Some cw" "w_parent cw = p" "w_id cw = c"
    and "handle_destroy_subwindows E p st = Some (st1, NoReply)"
    and "handle_create_window E hostname fresh r st1 = (st2, NoReply)" "cw_wid r = c" "cw_parent r \<noteq> p"
    and "\<not> validate_resource_id st (root_window st)"
    and "handle_destroy_window E p st2 = Some (st3, NoReply)"
  shows "map_of (windows st1) c = None \<and>
    (\<exists>w. map_of (windows st2) c = Some w \<and> w_parent w = cw_parent r) \<and> map_of (windows st3) c = None"
proof -
  from destroy_subwindows_effect [OF assms(7)] obtain ds where ds: "scan_descendants (windows st) p = Some ds"
    "core st1 = (\<lambda>k. if k \<in> set ds then None else core st k)" "root_window st1 = root_window st"
    "resource_id_base st1 = resource_id_base st" .
  have "(c, cw) \<in> set (windows st)" using assms(4) by (rule map_of_SomeD)
  then have "c \<in> set (scan_children (windows st) p)" using assms(5,6) by (force simp: scan_children_def)
  then have "c \<in> set ds"
    using collect_superset [of "scan_children (windows st)" "rev (scan_children (windows st) p)" "[]" ds] ds(1)
    by (auto simp: scan_descendants_def)
  then have c1: "core st1 c = None" using ds(2) by simp
  have none: "create_window_error r st1 = None"
    using assms(8) by (cases "create_window_error r st1") (auto simp: handle_create_window_def)
  have root: "\<not> validate_resource_id st1 (root_window st1)" using assms(11) ds(3,4) by (simp add: validate_resource_id_def)
  note dist = create_distinct [OF none root]
  have core2: "core st2 = (core st1)(c \<mapsto> new_window_state hostname r st1,
      cw_parent r := map_option (with_child c) (core st1 (cw_parent r)))" and root2: "root_window st2 = root_window st1"
    using create_window_effect [OF none dist, of E hostname fresh] assms(8,9) by (metis prod.inject)+
  have c2: "core st2 c = Some (new_window_state hostname r st1)" using core2 dist(1) assms(9) by simp
  then obtain w where w: "map_of (windows st2) c = Some w" "w_parent w = cw_parent r"
    using root2 dist(2) assms(9) by (cases "map_of (windows st2) c") (auto simp: core_def)
  obtain pw2 where p2: "map_of (windows st2) p = Some pw2"
    using assms(12) by (cases "map_of (windows st2) p") (auto simp: handle_destroy_window_def)
  from core_Some [OF p2] obtain v where v: "core st2 p = Some v" "w_children v = w_children pw2" .
  have "core st2 p = core st1 p" using core2 assms(3,10) by simp
  then have "core st p = Some v" using v(1) ds(2) by (simp split: if_splits)
  then have kids: "w_children pw2 = w_children pw" using assms(1) v(2) by (auto simp: core_def split: if_splits)
  obtain es where es: "collect_descendants (windows st2) p = Some es"
  proof (cases "collect_descendants (windows st2) p")
    case None
    let ?a = "announce_destroy E p (w_parent pw2) st2"
    have "collect_descendants (windows ?a) p = None"
      using None collect_descendants_core [of ?a st2] announce_same_core [of st2] by (simp add: same_core_def)
    then have "handle_destroy_window E p st2 = None"
      using p2 by (simp add: handle_destroy_window_def announce_destroy_def Let_def)
    with assms(12) show thesis by simp
  qed (use that in blast)
  have "c \<in> set es"
    using collect_superset [of "children_order (windows st2)" "rev (children_order (windows st2) p)" "[]" es] es
      p2 kids assms(2) by (auto simp: collect_descendants_def children_order_def)
  moreover obtain t where "handle_destroy_window E p st2 = Some (t, NoReply)"
    "core t = (\<lambda>k. if k \<in> insert p (set es) then None
       else if k = w_parent pw2 then map_option (without_child p) (core st2 k) else core st2 k)"
    using destroy_window_effect [OF p2 es refl, of E] by blast
  ultimately have "core st3 c = None" using assms(12) by simp
  with c1 w show ?thesis by (auto simp: core_dom)
qed

text \<open>Destroying a window can leave the focus on a window that no longer exists: when the focus is on
  a window below the destroyed one and reverts to its parent, it ends on another destroyed window.
  (A focus that reverts to PointerRoot is moved there.)\<close>

theorem focus_left_on_destroyed_window:
  assumes "window_tree_ok st" "map_of (windows st) 0 = None" "map_of (windows st) 1 = None"
    and "map_of (windows st) wid = Some win"
    and "focus_window st \<in> subtree (windows st) wid" "focus_window st \<noteq> wid"
    and "handle_destroy_window E wid st = Some (st', res)"
  shows "(focus_revert_to st = 2 \<longrightarrow> focus_window st' \<in> subtree (windows st) wid \<and>
      map_of (windows st') (focus_window st') = None) \<and>
    (focus_revert_to st = 1 \<longrightarrow> focus_window st' = 1)"
proof -
  have ok: "kids_ok st" "kids_ranked st" using assms(1) by (simp_all add: window_tree_ok_def)
  from kids_ranked_collect [OF ok(2), of wid] obtain ds where d: "collect_descendants (windows st) wid = Some ds"
    "insert wid (set ds) = subtree (windows st) wid" .
  let ?a = "announce_destroy E wid (w_parent win) st"
  have focus: "focus_window ?a = focus_window st"
    using assms(6) by (simp add: announce_destroy_def Let_def)
  have same: "same_core st ?a" by (rule announce_same_core)
  have wid: "wid \<notin> set ds" by (rule kids_ranked_wid [OF ok(2) d])
  have in_ds: "focus_window st \<in> set ds" using assms(5,6) d(2) by blast
  obtain t where t: "handle_destroy_window E wid st = Some (t, NoReply)"
    "core t = (\<lambda>k. if k \<in> subtree (windows st) wid then None
       else if k = w_parent win then map_option (without_child wid) (core st k) else core st k)"
    "focus_window t = focus_window (revert_all E ds ?a)"
    by (rule destroy_window_effect [OF assms(4) d(1) d(2) [symmetric], of E]) (rule that; assumption)
  have "st' = t" using t(1) assms(7) by (metis option.inject prod.inject)
  have two: "focus_window t \<in> subtree (windows st) wid" if "focus_revert_to st = 2"
    unfolding t(3)
  proof (rule revert_all_parent [OF ok(1) _ that same])
    show "core st 0 = None" using assms(2) core_dom by blast
    show "focus_window ?a \<in> subtree (windows st) wid" using assms(5) focus by simp
    show "\<forall>d \<in> set ds. d \<in> subtree (windows st) wid \<and> d \<noteq> wid" using d(2) wid by blast
  qed
  moreover have "map_of (windows t) k = None" if "k \<in> subtree (windows st) wid" for k
    using t(2) that core_dom [of t k] by simp
  moreover have "focus_window t = 1" if "focus_revert_to st = 1"
  proof -
    have "1 \<notin> set ds"
    proof
      assume "1 \<in> set ds"
      with d(2) wid have "1 \<in> subtree (windows st) wid" "1 \<noteq> wid" by auto
      from subtree_parent [OF this] obtain p w where "core st p = Some w" "1 \<in> set (w_children w)" .
      from kids_okD [OF ok(1) this] obtain v where "core st 1 = Some v" .
      with assms(3) show False by (simp add: core_dom)
    qed
    then show ?thesis unfolding t(3)
      by (intro revert_all_pointer_root [OF that same]) (use focus in_ds in simp_all)
  qed
  ultimately show ?thesis unfolding \<open>st' = t\<close> by (intro conjI impI) simp_all
qed

section \<open>Witnesses\<close>

text \<open>A root window with two children, one of which has a child.\<close>

definition demo_life :: input_client where
  "demo_life = demo_input\<lparr>resource_id_base := 0x400000, focus_revert_to := 2, focus_window := 0x400002, windows :=
     [(9, (window_at 0 0 0 800 600 [0x400001, 0x400003])\<lparr>w_id := 9\<rparr>),
      (0x400001, (window_at 9 0 0 80 60 [0x400002])\<lparr>w_id := 0x400001\<rparr>),
      (0x400002, (window_at 0x400001 0 0 8 6 [])\<lparr>w_id := 0x400002\<rparr>),
      (0x400003, (window_at 9 0 0 8 6 [])\<lparr>w_id := 0x400003\<rparr>)], root_window := 9\<rparr>"

definition demo_create :: "u32 \<Rightarrow> u32 \<Rightarrow> create_window_request" where
  "demo_create wid parent =
     \<lparr>cw_wid = wid, cw_parent = parent, cw_x = 0, cw_y = 0, cw_width = 10, cw_height = 10,
      cw_border_width = 0, cw_class = 1, cw_depth = 24, cw_visual = 0x21,
      cw_values = \<lparr>vl_background_pixmap = None, vl_background_pixel = None, vl_border_pixmap = None,
        vl_border_pixel = None, vl_bit_gravity = None, vl_win_gravity = None, vl_backing_store = None,
        vl_backing_planes = None, vl_backing_pixel = None, vl_override_redirect = None,
        vl_save_under = None, vl_event_mask = None, vl_do_not_propagate = None, vl_colormap = None,
        vl_cursor = None\<rparr>\<rparr>"

lemma demo_life_root: "\<not> validate_resource_id demo_life (root_window demo_life)"
  by (simp add: validate_resource_id_def demo_life_def demo_input_def) code_simp

lemma demo_life_ok: "life_ok demo_life"
proof -
  have root: "root_window demo_life = 9" by (simp add: demo_life_def)
  have "kids_ok demo_life"
    unfolding kids_ok_def core_def root by (auto simp: demo_life_def window_at_def split: if_splits)
  moreover have "kids_ranked demo_life"
    unfolding kids_ranked_def core_def root
    by (rule exI [of _ "\<lambda>c. if c = 9 then 2 else if c = 0x400001 then 1 else 0"])
      (auto simp: demo_life_def window_at_def split: if_splits)
  ultimately show ?thesis using demo_life_root by (simp add: life_ok_def window_tree_ok_def)
qed

lemma response_NoReply: "map_option snd x = Some NoReply \<Longrightarrow> x = Some (fst (the x), NoReply)"
  by (cases x) auto

theorem window_lifecycle_witness:
  "window_tree_ok (fst (handle_create_window demo_encoders [] ''u'' (demo_create 0x400004 0x400003) demo_life)) \<and>
   (\<exists>out. handle_destroy_window demo_encoders 0x400001
     (fst (handle_create_window demo_encoders [] ''u'' (demo_create 0x400004 0x400003) demo_life)) = Some out)"
  by (rule window_lifecycle [OF r_into_rtranclp [where r = "life_step demo_encoders"] demo_life_ok])
    (rule life_step.life_create [of _ "[]" "''u''" "demo_create 0x400004 0x400003" _ _
      "snd (handle_create_window demo_encoders [] ''u'' (demo_create 0x400004 0x400003) demo_life)"], simp)


theorem create_destroy_roundtrip_witness:
  "\<exists>st1 st2. handle_create_window demo_encoders [] ''u'' (demo_create 0x400004 0x400003) demo_life = (st1, NoReply) \<and>
     handle_destroy_window demo_encoders 0x400004 st1 = Some (st2, NoReply) \<and> core st2 = core demo_life"
proof -
  have "snd (handle_create_window demo_encoders [] ''u'' (demo_create 0x400004 0x400003) demo_life) = NoReply"
    by code_simp
  then obtain st1 where c: "handle_create_window demo_encoders [] ''u'' (demo_create 0x400004 0x400003) demo_life =
      (st1, NoReply)" by (metis prod.collapse)
  from create_destroy_roundtrip [OF demo_life_ok c] c show ?thesis by (auto simp: demo_create_def)
qed

theorem destroyed_subwindow_stays_listed_witness:
  "\<exists>st1 st2 st3.
     handle_destroy_subwindows demo_encoders 0x400001 (demo_life\<lparr>focus_window := 1\<rparr>) = Some (st1, NoReply) \<and>
     handle_create_window demo_encoders [] ''u'' (demo_create 0x400002 0x400003) st1 = (st2, NoReply) \<and>
     map_of (windows st2) 0x400002 \<noteq> None \<and>
     handle_destroy_window demo_encoders 0x400001 st2 = Some (st3, NoReply) \<and> map_of (windows st3) 0x400002 = None"
proof -
  define st where "st = demo_life\<lparr>focus_window := 1\<rparr>"
  define st1 where "st1 = fst (the (handle_destroy_subwindows demo_encoders 0x400001 st))"
  define st2 where "st2 = fst (handle_create_window demo_encoders [] ''u'' (demo_create 0x400002 0x400003) st1)"
  have 1: "handle_destroy_subwindows demo_encoders 0x400001 st = Some (st1, NoReply)"
    unfolding st1_def by (rule response_NoReply) (unfold st_def, code_simp)
  have "snd (handle_create_window demo_encoders [] ''u'' (demo_create 0x400002 0x400003) st1) = NoReply"
    unfolding st1_def st_def by code_simp
  then have 2: "handle_create_window demo_encoders [] ''u'' (demo_create 0x400002 0x400003) st1 = (st2, NoReply)"
    unfolding st2_def by (metis prod.collapse)
  have "map_option w_children (map_of (windows st2) 0x400001) = Some [0x400002]"
    "collect_descendants (windows st2) 0x400001 = Some [0x400002]"
    unfolding st2_def st1_def st_def by code_simp+
  then obtain st3 where 3: "handle_destroy_window demo_encoders 0x400001 st2 = Some (st3, NoReply)"
    using handle_destroy_window_unfold by blast
  have root: "\<not> validate_resource_id st (root_window st)"
    using demo_life_root by (simp add: st_def validate_resource_id_def)
  have "map_of (windows st1) 0x400002 = None \<and>
      (\<exists>w. map_of (windows st2) 0x400002 = Some w \<and> w_parent w = cw_parent (demo_create 0x400002 0x400003)) \<and>
      map_of (windows st3) 0x400002 = None"
    by (rule destroyed_subwindow_stays_listed [where
          pw = "(window_at 9 0 0 80 60 [0x400002])\<lparr>w_id := 0x400001\<rparr>" and
          cw = "(window_at 0x400001 0 0 8 6 [])\<lparr>w_id := 0x400002\<rparr>", OF _ _ _ _ _ _ 1 2 _ _ root 3])
      (simp_all add: st_def demo_life_def window_at_def demo_create_def)
  with 1 2 3 show ?thesis unfolding st_def by blast
qed

theorem focus_left_on_destroyed_window_witness:
  "\<exists>st'. handle_destroy_window demo_encoders 0x400001 demo_life = Some (st', NoReply) \<and>
     map_of (windows st') (focus_window st') = None"
proof -
  have ok: "window_tree_ok demo_life" using demo_life_ok by (simp add: life_ok_def)
  have win: "map_of (windows demo_life) 0x400001 = Some ((window_at 9 0 0 80 60 [0x400002])\<lparr>w_id := 0x400001\<rparr>)"
    by (simp add: demo_life_def)
  from destroy_removes [OF ok win, of demo_encoders] obtain st' where
    1: "handle_destroy_window demo_encoders 0x400001 demo_life = Some (st', NoReply)" by blast
  have zero: "map_of (windows demo_life) 0 = None" "map_of (windows demo_life) 1 = None"
    and focus: "focus_window demo_life \<in> subtree (windows demo_life) 0x400001" "focus_window demo_life \<noteq> 0x400001"
    and revert: "focus_revert_to demo_life = 2"
    by (simp_all add: subtree_def children_order_def demo_life_def window_at_def)
  from focus_left_on_destroyed_window [OF ok zero win focus 1] revert 1 show ?thesis by blast
qed

end
