(* ===== verification/Window_Table.thy ===== *)
theory Window_Table
  imports Lifecycle
begin

text \<open>
  The window table of a client (\<open>ClientState::windows\<close>) as a map: its keys are distinct and every
  record carries its key, and CreateWindow, DestroyWindow, DestroySubwindows and the focus changes
  keep it so.
\<close>

section \<open>The window table is a map\<close>

text \<open>Keys are distinct, and every record carries its key.\<close>

definition wf_windows :: "windows_t \<Rightarrow> bool" where
  "wf_windows ws \<longleftrightarrow> wf_hashmap ws \<and> (\<forall>(k, w) \<in> set ws. w_id w = k)"

lemma wf_windows_map_entry:
  assumes "\<And>w. w_id (f w) = w_id w" "wf_windows ws"
  shows "wf_windows (AList.map_entry k f ws)"
proof -
  have "map fst (AList.map_entry k f ws) = map fst ws" by (induction ws) auto
  moreover have "\<forall>(i, w) \<in> set (AList.map_entry k f ws). w_id w = i" if "\<forall>(i, w) \<in> set ws. w_id w = i"
    using that by (induction ws) (auto simp: assms(1))
  ultimately show ?thesis using assms(2) by (simp add: wf_windows_def wf_hashmap_def)
qed

lemma wf_windows_update:
  assumes "w_id w = k" "wf_windows ws"
  shows "wf_windows (AList.update k w ws)"
proof -
  have "\<forall>(i, v) \<in> set (AList.update k w ws). w_id v = i" if "\<forall>(i, v) \<in> set ws. w_id v = i"
    using that assms(1) by (induction ws) auto
  then show ?thesis using assms(2) by (simp add: wf_windows_def wf_hashmap_def AList.distinct_update)
qed

lemma wf_windows_delete: "wf_windows ws \<Longrightarrow> wf_windows (AList.delete k ws)"
  using AList.distinct_delete [of ws k] by (auto simp: wf_windows_def wf_hashmap_def AList.delete_eq)

definition wf_table :: "input_client \<Rightarrow> bool" where
  "wf_table st \<longleftrightarrow> wf_windows (windows st)"

named_theorems wf_intros

lemma wf_table_same: "windows st' = windows st \<Longrightarrow> wf_table st \<Longrightarrow> wf_table st'"
  by (simp add: wf_table_def)

lemma wf_table_fold [wf_intros]: "(\<And>x s. wf_table s \<Longrightarrow> wf_table (f x s)) \<Longrightarrow> wf_table s \<Longrightarrow> wf_table (fold f xs s)"
  by (induction xs arbitrary: s) auto

lemma wf_table_modify [wf_intros]: "(\<And>w. w_id (f w) = w_id w) \<Longrightarrow> wf_table st \<Longrightarrow> wf_table (modify_window k f st)"
  by (simp add: wf_table_def modify_window_def wf_windows_map_entry)

lemma windows_events [simp]:
  fixes st :: input_client
  shows "windows (push_event e st) = windows st" "windows (broadcast_event w m e st) = windows st"
    "windows (deliver_event w m e st) = windows st" "windows (mark_window_shared_dirty w st) = windows st"
    "windows (recycle_xid w st) = windows st" "windows (forget_uuid w st) = windows st"
    "windows (forget_menu w st) = windows st" "windows (remove_shared w st) = windows st"
    "windows (send_focus_event E p st) = windows st" "windows (focus_keymap_notify k st) = windows st"
    "windows (write_focus_to_shared k st) = windows st" "windows (broadcast_focus u st) = windows st"
  by (simp_all add: push_event_def broadcast_event_def deliver_event_def mark_window_shared_dirty_def
      recycle_xid_def forget_uuid_def forget_menu_def remove_shared_def send_focus_event_def
      focus_keymap_notify_def write_focus_to_shared_def broadcast_focus_def split: prod.split option.split)

lemma wf_table_events [simp]:
  "wf_table (st\<lparr>pending_events := q\<rparr>) = wf_table st" "wf_table (deliver_event w m e st) = wf_table st"
  "wf_table (focus_keymap_notify k st) = wf_table st" "wf_table (remove_shared w st) = wf_table st"
  by (simp_all add: wf_table_def)

lemma windows_intern: "intern_atom n b st = (st', a) \<Longrightarrow> windows st' = windows st"
  by (auto simp: intern_atom_def split: prod.splits)

lemma w_id_set_prop [simp]: "w_id (set_prop a v w) = w_id w"
  by (simp add: set_prop_def)

lemma wf_table_ewmh [wf_intros]:
  assumes "wf_table st"
  shows "wf_table (set_active_window new st)" "wf_table (update_net_client_list st)" "wf_table (recalculate_workarea st)"
proof -
  have same: "wf_table s" if "windows s = windows st" for s using that assms by (rule wf_table_same)
  show "wf_table (set_active_window new st)"
  proof -
    obtain s a where i: "intern_atom ''_NET_ACTIVE_WINDOW'' False st = (s, a)" by (rule prod.exhaust)
    show ?thesis
      using wf_table_modify [OF _ same [OF windows_intern [OF i]]] by (simp add: set_active_window_def i)
  qed
  show "wf_table (recalculate_workarea st)"
  proof -
    obtain l r u b where m: "max_struts (windows st) = (l, r, u, b)" by (metis prod.exhaust)
    obtain mgr a where i: "intern (name_bytes ''_NET_WORKAREA'') False (atom_table st) = (mgr, a)"
      by (rule prod.exhaust)
    show ?thesis
      unfolding recalculate_workarea_def m i Let_def prod.case by (intro wf_table_modify same) simp_all
  qed
  obtain s a t b where i: "intern_atom ''_NET_CLIENT_LIST'' False st = (s, a)"
    "intern_atom ''_NET_CLIENT_LIST_STACKING'' False s = (t, b)" by (metis prod.exhaust)
  have "windows t = windows st" using windows_intern [OF i(1)] windows_intern [OF i(2)] by simp
  then show "wf_table (update_net_client_list st)"
    unfolding update_net_client_list_def i Let_def prod.case
    by (intro wf_table_same [OF windows_events(4)] wf_table_modify same) simp_all
qed

lemma wf_table_set_focus [wf_intros]: "wf_table st \<Longrightarrow> wf_table (set_focus_window E new st)"
proof -
  assume st: "wf_table st"
  define s2 where "s2 = (let s1 = write_focus_to_shared new (st\<lparr>focus_window := new\<rparr>)
    in if top_level_uuid_for (focus_window st) st \<noteq> top_level_uuid_for new s1
       then broadcast_focus (top_level_uuid_for new s1) s1 else s1)"
  have s2: "wf_table s2" by (rule wf_table_same [OF _ st]) (simp add: s2_def Let_def)
  have "wf_table (fold (send_focus_event E) plan s)" if "wf_table s" for plan s
    using that by (intro wf_table_fold) (auto intro: wf_table_same)
  then have "wf_table (focus_keymap_notify new (fold (send_focus_event E) plan (update_net_client_list (set_active_window new s2))))"
    for plan by (simp add: s2 wf_table_ewmh)
  with s2 show ?thesis
    unfolding set_focus_window_def Let_def s2_def [unfolded Let_def, symmetric] by simp
qed

lemma wf_table_revert [wf_intros]: "wf_table st \<Longrightarrow> wf_table (revert_focus_from E w st)"
  by (simp add: revert_focus_from_def wf_table_set_focus)

lemma wf_table_remove [wf_intros]:
  "wf_table st \<Longrightarrow> wf_table (remove_local w st)" "wf_table st \<Longrightarrow> wf_table (remove_window w st)"
  "wf_table st \<Longrightarrow> wf_table (remove_child p w st)" "wf_table st \<Longrightarrow> wf_table (destroy_descendant E w st)"
proof -
  show r: "wf_table (remove_local w st)" if "wf_table st" for st
    using that by (simp add: wf_table_def remove_local_def wf_windows_delete)
  show w: "wf_table (remove_window w st)" if "wf_table st" for st
    using r [OF that] by (simp add: remove_window_def wf_table_def)
  show "wf_table st \<Longrightarrow> wf_table (remove_child p w st)" by (simp add: remove_child_def wf_table_modify)
  show "wf_table st \<Longrightarrow> wf_table (destroy_descendant E w st)"
    unfolding destroy_descendant_def Let_def
    by (intro w) (auto simp: wf_table_def split: option.split)
qed

lemma destroy_collects:
  assumes "handle_destroy_window E wid st = Some (st', res)" "map_of (windows st) wid = Some win"
  obtains ds where "collect_descendants (windows st) wid = Some ds"
proof -
  let ?a = "announce_destroy E wid (w_parent win) st"
  have core: "core ?a = core st" using announce_same_core [of st E wid "w_parent win"] by (simp add: same_core_def)
  from assms show thesis
    using collect_descendants_core [OF core, of wid] that
    by (cases "collect_descendants (windows ?a) wid")
      (auto simp: handle_destroy_window_def announce_destroy_def Let_def)
qed

lemma wf_table_destroy:
  assumes "wf_table st" "handle_destroy_window E wid st = Some (st', res)"
  shows "wf_table st'"
proof (cases "map_of (windows st) wid")
  case (Some win)
  let ?a = "announce_destroy E wid (w_parent win) st"
  have a: "wf_table ?a" using assms(1) by (simp add: announce_destroy_def Let_def wf_table_revert)
  from destroy_collects [OF assms(2) Some] obtain ds where ds: "collect_descendants (windows st) wid = Some ds" .
  have "wf_table (revert_all E ds ?a)" unfolding revert_all_def by (intro wf_table_fold a) (simp add: wf_table_revert)
  then have "wf_table (fold (destroy_descendant E) (rev ds) (revert_all E ds ?a))"
    by (intro wf_table_fold) (simp_all add: wf_table_remove)
  then have "wf_table (finish_destroy E wid (w_parent win) (w_strut win \<noteq> None)
      (fold (destroy_descendant E) (rev ds) (revert_all E ds ?a)))"
    by (simp add: finish_destroy_def Let_def wf_table_remove wf_table_ewmh)
  then show ?thesis using assms(2) handle_destroy_window_unfold [OF Some ds, of E] by simp
qed (use assms in \<open>simp add: handle_destroy_window_def\<close>)
lemma wf_table_create:
  assumes "wf_table st" "\<not> validate_resource_id st (root_window st)"
    and "handle_create_window E hostname fresh r st = (st', res)"
  shows "wf_table st'"
proof (cases "create_window_error r st")
  case None
  show ?thesis
  proof (rule create_window_effect [OF None create_distinct [OF None assms(2)], of E hostname fresh])
    fix t
    assume t: "handle_create_window E hostname fresh r st = (t, NoReply)"
      "windows t = AList.map_entry (cw_parent r) (with_child (cw_wid r))
         (AList.update (cw_wid r) (new_window_state hostname r st) (windows st))"
    have "wf_windows (windows t)"
      unfolding t(2) using assms(1)
      by (intro wf_windows_map_entry wf_windows_update) (simp_all add: with_child_def new_window_state_def wf_table_def)
    with t(1) assms(3) show ?thesis by (simp add: wf_table_def)
  qed
next
  case (Some e)
  with assms show ?thesis by (cases e) (simp add: handle_create_window_def)
qed

lemma wf_table_destroy_subwindows:
  assumes "wf_table st" "handle_destroy_subwindows E p st = Some (st', res)"
  shows "wf_table st'"
proof (cases "map_of (windows st) p = None")
  case True
  with assms show ?thesis by (simp add: handle_destroy_subwindows_def)
next
  case False
  with assms(2) obtain ds where ds: "scan_descendants (windows st) p = Some ds"
    by (cases "scan_descendants (windows st) p") (simp_all add: handle_destroy_subwindows_def)
  define s where "s = (if focus_window st \<in> set ds then revert_focus_from E (focus_window st) st else st)"
  have st': "st' = fold (\<lambda>w st. forget_uuid w (forget_menu w (remove_local w st))) ds (fold remove_shared ds s)"
    using assms(2) False ds by (simp add: handle_destroy_subwindows_def Let_def s_def)
  have "wf_table s" using assms(1) by (simp add: s_def wf_table_revert)
  then have "wf_table (fold remove_shared ds s)"
    by (rule wf_table_fold [rotated]) (simp add: wf_table_def)
  then show ?thesis unfolding st'
    by (rule wf_table_fold [rotated]) (use wf_table_remove(1) in \<open>simp add: wf_table_def\<close>)
qed

text \<open>A step of the window table: one of \<open>life_step\<close> or DestroySubwindows.\<close>

definition table_step :: "encoders \<Rightarrow> input_client \<Rightarrow> input_client \<Rightarrow> bool" where
  "table_step E st st' \<longleftrightarrow> life_step E st st' \<or> (\<exists>p res. handle_destroy_subwindows E p st = Some (st', res))"

lemma table_step_frame:
  assumes "table_step E st st'" "\<not> validate_resource_id st (root_window st)"
  shows "root_window st' = root_window st \<and> resource_id_base st' = resource_id_base st"
  using assms(1) unfolding table_step_def
proof (elim disjE exE)
  assume "life_step E st st'"
  then show ?thesis
  proof cases
    case (life_create hostname fresh r res)
    show ?thesis
    proof (cases "create_window_error r st")
      case None
      show ?thesis
        by (rule create_window_effect [OF None create_distinct [OF None assms(2)], of E hostname fresh])
          (use life_create in simp)
    next
      case (Some e)
      with life_create show ?thesis by (cases e) (simp add: handle_create_window_def)
    qed
  next
    case (life_destroy wid res)
    show ?thesis
    proof (cases "map_of (windows st) wid")
      case (Some win)
      from destroy_collects [OF life_destroy Some] obtain ds where ds: "collect_descendants (windows st) wid = Some ds" .
      show ?thesis
        by (rule destroy_window_effect [OF Some ds refl, of E]) (use life_destroy in simp)
    qed (use life_destroy in \<open>simp add: handle_destroy_window_def\<close>)
  next
    case (life_focus w)
    then show ?thesis using set_focus_window_same_core [of st E w] by (simp add: same_core_def)
  qed
next
  fix p res
  assume d: "handle_destroy_subwindows E p st = Some (st', res)"
  show ?thesis
  proof (cases "map_of (windows st) p = None")
    case False
    with d have "res = NoReply" by (auto simp: handle_destroy_subwindows_def Let_def)
    with d show ?thesis by (auto elim: destroy_subwindows_effect)
  qed (use d in \<open>simp add: handle_destroy_subwindows_def\<close>)
qed

lemma table_step_wf:
  assumes "table_step E st st'" "wf_table st" "\<not> validate_resource_id st (root_window st)"
  shows "wf_table st' \<and> \<not> validate_resource_id st' (root_window st')"
proof
  show "\<not> validate_resource_id st' (root_window st')"
    using table_step_frame [OF assms(1,3)] assms(3) by (simp add: validate_resource_id_def)
  show "wf_table st'"
    using assms(1) unfolding table_step_def
  proof (elim disjE exE)
    assume "life_step E st st'"
    then show ?thesis
      using assms(2,3) by cases (auto intro: wf_table_create wf_table_destroy wf_table_set_focus)
  qed (use assms(2) in \<open>auto intro: wf_table_destroy_subwindows\<close>)
qed

interpretation table: invariant_system "table_step E" "\<lambda>st. wf_table st \<and> \<not> validate_resource_id st (root_window st)" for E
  by unfold_locales (auto dest: table_step_wf)



end
