(* ===== verification/Chunking.thy ===== *)
theory Chunking
  imports Prelude "HOL-Library.Multiset"
begin

text \<open>
  Messages to the browser are cut into chunks for the media channel (\<open>crates/backend/src/chunking.rs\<close>).
  A chunk is an eight-byte header (message, index and number of chunks, little endian) and a piece of
  the message. The receiver is in the browser; what it relies on is stated with a reference
  reassembly that sorts the chunks of a message by their index.
\<close>

section \<open>The chunker\<close>

definition HEADER_BYTES :: nat where "HEADER_BYTES = 8"
definition CHUNK_TOTAL_BYTES :: nat where "CHUNK_TOTAL_BYTES = 16 * 1024"
definition CHUNK_PAYLOAD_BYTES :: nat where "CHUNK_PAYLOAD_BYTES = CHUNK_TOTAL_BYTES - HEADER_BYTES"

record chunker =
  next_msg_id :: u32

definition chunker_new :: chunker where "chunker_new = \<lparr>next_msg_id = 0\<rparr>"

definition make_chunk :: "u32 \<Rightarrow> u16 \<Rightarrow> u16 \<Rightarrow> bytes \<Rightarrow> bytes" where
  "make_chunk msg_id idx total_chunks piece = le_bytes 4 msg_id @ le_bytes 2 idx @ le_bytes 2 total_chunks @ piece"

text \<open>\<open>slice::chunks\<close>.\<close>

function chunks_of :: "nat \<Rightarrow> 'a list \<Rightarrow> 'a list list" where
  "chunks_of n xs = (if xs = [] \<or> n = 0 then [] else take n xs # chunks_of n (drop n xs))"
  by pat_completeness auto
termination by (relation "measure (\<lambda>(n, xs). length xs)") auto

declare chunks_of.simps [simp del]

definition chunk :: "bytes \<Rightarrow> chunker \<Rightarrow> chunker \<times> bytes list" where
  "chunk payload c =
     (let msg_id = next_msg_id c;
          c = c\<lparr>next_msg_id := next_msg_id c + 1\<rparr>;
          total_chunks = (if payload = [] then 1
                   else of_nat (min (div_ceil (length payload) CHUNK_PAYLOAD_BYTES) 65535)) :: u16
      in (c, if payload = [] then [make_chunk msg_id 0 total_chunks []]
             else map (\<lambda>(idx, piece). make_chunk msg_id (of_nat idx) total_chunks piece)
                    (List.enumerate 0 (chunks_of CHUNK_PAYLOAD_BYTES payload))))"

section \<open>Reassembly\<close>

definition header :: "bytes \<Rightarrow> u32 \<times> u16 \<times> u16" where
  "header c = (of_le_bytes (take 4 c), of_le_bytes (take 2 (drop 4 c)), of_le_bytes (take 2 (drop 6 c)))"

definition chunk_index :: "bytes \<Rightarrow> u16" where "chunk_index c = fst (snd (header c))"

definition reassemble :: "bytes list \<Rightarrow> bytes" where
  "reassemble cs = concat (map (drop HEADER_BYTES) (sort_key (\<lambda>c. unat (chunk_index c)) cs))"

lemma header_make_chunk [simp]:
  "header (make_chunk m i n piece) = (m, i, n)" "chunk_index (make_chunk m i n piece) = i"
  "drop HEADER_BYTES (make_chunk m i n piece) = piece" "length (make_chunk m i n piece) = HEADER_BYTES + length piece"
  by (simp_all add: make_chunk_def header_def chunk_index_def HEADER_BYTES_def)

section \<open>Pieces\<close>

lemma concat_chunks_of [simp]: "0 < n \<Longrightarrow> concat (chunks_of n xs) = xs"
  by (induction n xs rule: chunks_of.induct) (subst chunks_of.simps, simp)

lemma div_ceil_simps: "div_ceil 0 n = 0" "0 < m \<Longrightarrow> m \<le> n \<Longrightarrow> div_ceil m n = 1" "0 < n \<Longrightarrow> n < m \<Longrightarrow> div_ceil m n = Suc (div_ceil (m - n) n)"
proof -
  show "div_ceil 0 n = 0" by (cases n) (simp_all add: div_ceil_def)
next
  assume m: "0 < m" "m \<le> n"
  then have "m + n - 1 = n + (m - 1)" by simp
  moreover have "(n + (m - 1)) div n = Suc ((m - 1) div n)" using m div_add_self1 [of n "m - 1"] by simp
  ultimately show "div_ceil m n = 1" using m by (simp add: div_ceil_def)
next
  assume m: "0 < n" "n < m"
  then have "m + n - 1 = n + (m - n + n - 1)" by simp
  moreover have "(n + (m - n + n - 1)) div n = Suc ((m - n + n - 1) div n)" using m div_add_self1 [of n "m - n + n - 1"] by simp
  ultimately show "div_ceil m n = Suc (div_ceil (m - n) n)" by (simp only: div_ceil_def)
qed

lemma length_chunks_of: "0 < n \<Longrightarrow> length (chunks_of n xs) = div_ceil (length xs) n"
proof (induction n xs rule: chunks_of.induct)
  case (1 n xs)
  consider "xs = []" | "xs \<noteq> []" "length xs \<le> n" | "n < length xs" by linarith
  then show ?case
  proof cases
    case 1
    then show ?thesis by (simp add: chunks_of.simps div_ceil_simps)
  next
    case 2
    then show ?thesis
      using \<open>0 < n\<close> by (subst chunks_of.simps) (simp add: chunks_of.simps [of n "[]"] div_ceil_simps)
  next
    case 3
    then have "\<not> (xs = [] \<or> n = 0)" using \<open>0 < n\<close> by auto
    with 1(1) 3 \<open>0 < n\<close> show ?thesis by (subst chunks_of.simps) (simp add: div_ceil_simps(3))
  qed
qed

lemma chunks_of_sizes: "c \<in> set (chunks_of n xs) \<Longrightarrow> 0 < length c \<and> length c \<le> n"
proof (induction n xs rule: chunks_of.induct)
  case (1 n xs)
  show ?case
  proof (cases "xs = [] \<or> n = 0")
    case False
    with 1(2) have "c = take n xs \<or> c \<in> set (chunks_of n (drop n xs))" by (subst (asm) chunks_of.simps) auto
    with 1(1) [OF False] False show ?thesis by auto
  qed (use 1(2) in \<open>simp add: chunks_of.simps\<close>)
qed

section \<open>Chunks of one message\<close>

definition MAX_MESSAGE :: nat where "MAX_MESSAGE = 65535 * CHUNK_PAYLOAD_BYTES"

lemmas chunk_sizes = HEADER_BYTES_def CHUNK_TOTAL_BYTES_def CHUNK_PAYLOAD_BYTES_def MAX_MESSAGE_def

text \<open>The pieces and the number of chunks of a message, empty messages included.\<close>

definition pieces :: "bytes \<Rightarrow> bytes list" where
  "pieces payload = (if payload = [] then [[]] else chunks_of CHUNK_PAYLOAD_BYTES payload)"

lemma pieces_facts:
  shows concat_pieces: "concat (pieces payload) = payload"
    and length_pieces: "length (pieces payload) = max 1 (div_ceil (length payload) CHUNK_PAYLOAD_BYTES)"
    and pieces_size: "p \<in> set (pieces payload) \<Longrightarrow> length p \<le> CHUNK_PAYLOAD_BYTES"
proof -
  show "concat (pieces payload) = payload" by (simp add: pieces_def chunk_sizes)
  have "1 \<le> div_ceil (length payload) CHUNK_PAYLOAD_BYTES" if "payload \<noteq> []"
    using that by (cases payload) (simp_all add: div_ceil_def chunk_sizes)
  moreover have "div_ceil 0 CHUNK_PAYLOAD_BYTES = 0" by (simp add: div_ceil_def chunk_sizes)
  ultimately show "length (pieces payload) = max 1 (div_ceil (length payload) CHUNK_PAYLOAD_BYTES)"
    by (simp add: pieces_def length_chunks_of chunk_sizes)
  show "length p \<le> CHUNK_PAYLOAD_BYTES" if "p \<in> set (pieces payload)"
    using that chunks_of_sizes by (auto simp: pieces_def split: if_splits)
qed

lemma chunk_eq:
  "snd (chunk payload c) =
     map (\<lambda>(idx, piece). make_chunk (next_msg_id c) (of_nat idx) (of_nat (min (length (pieces payload)) 65535)) piece)
       (List.enumerate 0 (pieces payload))"
proof (cases "payload = []")
  case True
  then show ?thesis by (simp add: chunk_def Let_def pieces_def)
next
  case False
  have "length (pieces payload) = div_ceil (length payload) CHUNK_PAYLOAD_BYTES"
    using False by (simp add: pieces_def length_chunks_of chunk_sizes)
  with False show ?thesis by (simp add: chunk_def Let_def pieces_def)
qed

lemma pieces_bound:
  assumes "length payload \<le> MAX_MESSAGE" shows "length (pieces payload) \<le> 65535"
proof -
  have "(length payload + 16376 - 1) div 16376 \<le> 65535" using assms by (simp add: chunk_sizes)
  then show ?thesis unfolding length_pieces by (simp add: div_ceil_def chunk_sizes)
qed

text \<open>In sending order the chunks of a message have the indexes 0, 1, 2 and so on.\<close>

lemma chunk_indexes:
  assumes "length payload \<le> MAX_MESSAGE"
  shows "map (\<lambda>x. unat (chunk_index x)) (snd (chunk payload c)) = [0..<length (pieces payload)]"
proof (rule nth_equalityI)
  fix i
  assume "i < length (map (\<lambda>x. unat (chunk_index x)) (snd (chunk payload c)))"
  then have i: "i < length (pieces payload)" by (simp add: chunk_eq)
  then have "i < 65536" using pieces_bound [OF assms] by simp
  then have "unat (of_nat i :: u16) = i" by (simp add: unat_of_nat take_bit_nat_eq_self)
  with i show "map (\<lambda>x. unat (chunk_index x)) (snd (chunk payload c)) ! i = [0..<length (pieces payload)] ! i"
    by (simp add: chunk_eq nth_enumerate_eq)
qed (simp add: chunk_eq)

lemma reassemble_permuted:
  assumes "length payload \<le> MAX_MESSAGE" "mset cs = mset (snd (chunk payload c))"
  shows "reassemble cs = payload"
proof -
  let ?f = "\<lambda>x. unat (chunk_index x)" and ?xs = "snd (chunk payload c)"
  have d: "distinct (map ?f ?xs)" "sorted (map ?f ?xs)" by (simp_all add: chunk_indexes [OF assms(1)])
  have m: "mset (sort_key ?f cs) = mset ?xs" using assms(2) by simp
  then have "mset (map ?f (sort_key ?f cs)) = mset (map ?f ?xs)" by (metis mset_map)
  then have d2: "distinct (map ?f (sort_key ?f cs))" using d(1) by (metis mset_eq_imp_distinct_iff)
  have s: "set (sort_key ?f cs) = set ?xs" using m by (rule mset_eq_setD)
  have "sort_key ?f cs = ?xs"
    by (rule map_sorted_distinct_set_unique [where f = ?f])
      (use d d2 s in \<open>auto simp: distinct_map\<close>)
  then have "reassemble cs = concat (map (drop HEADER_BYTES) ?xs)" by (simp add: reassemble_def)
  also have "map (drop HEADER_BYTES) ?xs = pieces payload"
    by (simp add: chunk_eq comp_def case_prod_beta)
  finally show ?thesis by (simp add: concat_pieces)
qed

section \<open>Several messages\<close>

fun chunk_all :: "bytes list \<Rightarrow> chunker \<Rightarrow> bytes list" where
  "chunk_all [] c = []"
| "chunk_all (p # ps) c = (let (c', out) = chunk p c in out @ chunk_all ps c')"

lemma chunk_all_Cons:
  "chunk_all (p # ps) c = snd (chunk p c) @ chunk_all ps (c\<lparr>next_msg_id := next_msg_id c + 1\<rparr>)"
  by (simp add: chunk_def Let_def)

lemma chunk_ids: "x \<in> set (snd (chunk p c)) \<Longrightarrow> fst (header x) = next_msg_id c"
  by (auto simp: chunk_eq)

lemma chunk_all_ids: "x \<in> set (chunk_all ps c) \<Longrightarrow> \<exists>k < length ps. fst (header x) = next_msg_id c + of_nat k"
proof (induction ps arbitrary: c)
  case (Cons p ps)
  let ?c = "c\<lparr>next_msg_id := next_msg_id c + 1\<rparr>"
  from Cons.prems have "x \<in> set (snd (chunk p c)) \<or> x \<in> set (chunk_all ps ?c)" by (simp only: chunk_all_Cons set_append Un_iff)
  then show ?case
  proof
    assume "x \<in> set (chunk_all ps ?c)"
    from Cons.IH [OF this] obtain k where k: "k < length ps" "fst (header x) = next_msg_id ?c + of_nat k" by blast
    have "next_msg_id ?c + of_nat k = next_msg_id c + of_nat (Suc k)" by simp
    with k show ?case by (intro exI [of _ "Suc k"]) simp
  next
    assume "x \<in> set (snd (chunk p c))"
    from chunk_ids [OF this] show ?case by (intro exI [of _ 0]) simp
  qed
qed simp

lemma filter_message:
  assumes "k < length ps" "length ps \<le> 2 ^ 32"
  shows "filter (\<lambda>x. fst (header x) = next_msg_id c + of_nat k) (chunk_all ps c) =
    snd (chunk (ps ! k) (c\<lparr>next_msg_id := next_msg_id c + of_nat k\<rparr>))"
  using assms
proof (induction ps arbitrary: c k)
  case (Cons p ps)
  let ?c = "c\<lparr>next_msg_id := next_msg_id c + 1\<rparr>"
  note all = chunk_all_Cons [of p ps c]
  have small: "of_nat j = (0 :: u32) \<longleftrightarrow> j = 0" if "j < 2 ^ 32" for j
    using that by (simp add: word_of_nat_eq_0_iff dvd_eq_mod_eq_0)
  show ?case
  proof (cases k)
    case 0
    have "fst (header x) \<noteq> next_msg_id c" if "x \<in> set (chunk_all ps ?c)" for x
    proof -
      from chunk_all_ids [OF that] obtain j where j: "j < length ps" "fst (header x) = next_msg_id ?c + of_nat j" by blast
      have "next_msg_id ?c + of_nat j = next_msg_id c + of_nat (Suc j)" by simp
      with j small [of "Suc j"] Cons.prems(2) show ?thesis by (simp del: of_nat_Suc)
    qed
    then have "filter (\<lambda>x. fst (header x) = next_msg_id c) (chunk_all ps ?c) = []" by (simp add: filter_empty_conv)
    moreover have "filter (\<lambda>x. fst (header x) = next_msg_id c) (snd (chunk p c)) = snd (chunk p c)"
      using chunk_ids by (intro filter_True) blast
    ultimately show ?thesis using 0 by (simp add: all del: chunk_all.simps)
  next
    case (Suc j)
    have "fst (header x) \<noteq> next_msg_id c + of_nat k" if "x \<in> set (snd (chunk p c))" for x
      using chunk_ids [OF that] small [of k] Cons.prems Suc by (simp del: of_nat_Suc)
    then have "filter (\<lambda>x. fst (header x) = next_msg_id c + of_nat k) (snd (chunk p c)) = []"
      by (simp add: filter_empty_conv)
    moreover have "next_msg_id c + of_nat k = next_msg_id ?c + of_nat j" using Suc by simp
    ultimately show ?thesis using Cons.IH [of j ?c] Cons.prems Suc by (simp only: all filter_append) simp
  qed
qed simp

section \<open>Properties\<close>



text \<open>Every chunk fits the channel, the header and the pieces account for every byte that is sent, and
  the receiver can tell from the header of any chunk how many to wait for and where it belongs.\<close>

theorem chunk_bounds:
  assumes "length payload \<le> MAX_MESSAGE"
  shows "(\<forall>x \<in> set (snd (chunk payload c)). HEADER_BYTES \<le> length x \<and> length x \<le> CHUNK_TOTAL_BYTES \<and>
      (case header x of (m, idx, n) \<Rightarrow> m = next_msg_id c \<and> idx < n \<and> unat n = length (snd (chunk payload c)))) \<and>
    sum_list (map length (snd (chunk payload c))) = length payload + HEADER_BYTES * length (snd (chunk payload c)) \<and>
    length (snd (chunk payload c)) = max 1 (div_ceil (length payload) CHUNK_PAYLOAD_BYTES)"
proof -
  let ?n = "length (pieces payload)"
  have n: "?n \<le> 65535" by (rule pieces_bound [OF assms])
  then have un: "unat (of_nat ?n :: u16) = ?n" by (simp add: unat_of_nat take_bit_nat_eq_self)
  have len: "length (snd (chunk payload c)) = ?n" by (simp add: chunk_eq)
  have each: "HEADER_BYTES \<le> length x \<and> length x \<le> CHUNK_TOTAL_BYTES \<and>
      (case header x of (m, idx, n) \<Rightarrow> m = next_msg_id c \<and> idx < n \<and> unat n = ?n)"
    if x: "x \<in> set (snd (chunk payload c))" for x
  proof -
    from x obtain i where i: "i < ?n"
      "x = make_chunk (next_msg_id c) (of_nat i) (of_nat (min ?n 65535)) (pieces payload ! i)"
      by (auto simp: chunk_eq in_set_enumerate_eq)
    have "unat (of_nat i :: u16) = i" using i(1) n by (simp add: unat_of_nat take_bit_nat_eq_self)
    then have "(of_nat i :: u16) < of_nat ?n" using i(1) un by (simp add: word_less_nat_alt)
    with i n un pieces_size [of "pieces payload ! i" payload] show ?thesis by (simp add: min_def chunk_sizes)
  qed
  have "sum_list (map length (snd (chunk payload c))) = sum_list (map (\<lambda>p. HEADER_BYTES + length p) (pieces payload))"
    by (simp add: chunk_eq comp_def case_prod_beta) (metis (no_types) map_snd_enumerate map_map comp_apply map_eq_conv)
  also have "\<dots> = length (concat (pieces payload)) + HEADER_BYTES * ?n"
    by (simp add: sum_list_addf sum_list_triv length_concat algebra_simps)
  finally show ?thesis using each len by (simp add: concat_pieces length_pieces)
qed

theorem chunk_bounds_witness:
  "length (snd (chunk (replicate 16377 7) chunker_new)) = 2 \<and>
   sum_list (map length (snd (chunk (replicate 16377 7) chunker_new))) = 16393"
  using chunk_bounds [of "replicate 16377 7" chunker_new] by (simp add: chunk_sizes div_ceil_def)

text \<open>A message of more than 65536 chunks has two chunks with the same header.\<close>

theorem oversized_message_ambiguous:
  assumes "length payload > 65536 * CHUNK_PAYLOAD_BYTES"
  shows "header (snd (chunk payload c) ! 0) = header (snd (chunk payload c) ! 65536)"
proof -
  have "65536 < (length payload + 16376 - 1) div 16376" using assms by (simp add: chunk_sizes)
  then have "65536 < length (pieces payload)" unfolding length_pieces by (simp add: div_ceil_def chunk_sizes)
  moreover from this have "pieces payload \<noteq> []" by auto
  moreover have "(65536 :: u16) = 0" by simp
  ultimately show ?thesis by (simp add: chunk_eq nth_enumerate_eq)
qed

theorem oversized_message_ambiguous_witness:
  "header (snd (chunk (replicate (65537 * CHUNK_PAYLOAD_BYTES) 0) chunker_new) ! 0) =
   header (snd (chunk (replicate (65537 * CHUNK_PAYLOAD_BYTES) 0) chunker_new) ! 65536)"
  by (rule oversized_message_ambiguous) (simp add: chunk_sizes)

end
