(* ===== verification/Map_Window.thy ===== *)
theory Map_Window
  imports Window_Table
begin

text \<open>
  Mapping and unmapping windows (\<open>handlers/window/map.rs\<close>), the visibility of siblings
  (\<open>handlers/window/mod.rs\<close>) and the ICCCM and EWMH properties that follow (\<open>client/focus.rs\<close>).

  A handler returns the bytes it sends at once: an error, or events of the own client. Of a framebuffer
  the model keeps the size, and of the pixels saved for the backing store their number, which is what
  decides whether a window is exposed; the pixels themselves are not modelled. \<open>None\<close> means a panic.
  UnmapWindow calls itself for transient windows; the depth of the calls is the first argument of
  \<open>unmap_window\<close>, and the number of windows is proved to be enough.
\<close>

unbundle bit_operations_syntax

section \<open>Helpers\<close>

definition SUBSTRUCTURE_REDIRECT :: u32 where "SUBSTRUCTURE_REDIRECT = 0x100000"
definition VISIBILITY_CHANGE :: u32 where "VISIBILITY_CHANGE = 0x10000"
definition EXPOSURE :: u32 where "EXPOSURE = 0x8000"

definition structure_bytes :: "encoders \<Rightarrow> structure_event \<Rightarrow> input_client \<Rightarrow> bytes" where
  "structure_bytes E ev st = serialize_event (enc_structure E ev) (msb_first st)"

definition say :: "frontend_message \<Rightarrow> input_client \<Rightarrow> input_client" where
  "say m st = st\<lparr>messages := messages st @ [m]\<rparr>"

definition send_to_wm :: "bytes \<Rightarrow> input_client \<Rightarrow> input_client" where
  "send_to_wm ev st = (case wm_tx st of Some tx \<Rightarrow> st\<lparr>sent_events := sent_events st @ [(tx, ev)]\<rparr> | None \<Rightarrow> st)"

definition should_redirect :: "input_client \<Rightarrow> bool" where
  "should_redirect st \<longleftrightarrow> (case wm_client st of Some i \<Rightarrow> i \<noteq> client_id st | None \<Rightarrow> False)"

text \<open>Whether a change of a window is left to the window manager or another client.\<close>

definition redirected :: "window_state \<Rightarrow> input_client \<Rightarrow> bool" where
  "redirected w st \<longleftrightarrow> \<not> a_override_redirect (w_attrs w) \<and> w_parent w \<noteq> 0 \<and>
     (should_redirect st \<or> window_selects (w_parent w) SUBSTRUCTURE_REDIRECT st)"

definition uuid_for_x11_wid :: "u32 \<Rightarrow> input_client \<Rightarrow> string option" where
  "uuid_for_x11_wid wid st = map_option fst (find (\<lambda>(uuid, w). w = wid) (window_routes st))"

definition resolve_uuid :: "u32 \<Rightarrow> input_client \<Rightarrow> string option" where
  "resolve_uuid wid st =
     (case window_uuid wid st of Some u \<Rightarrow> Some u | None \<Rightarrow> uuid_for_x11_wid wid st)"

definition is_top_level :: "window_state \<Rightarrow> input_client \<Rightarrow> bool" where
  "is_top_level w st \<longleftrightarrow> w_parent w = root_window st \<and> a_class (w_attrs w) = INPUT_OUTPUT \<and>
     \<not> a_override_redirect (w_attrs w)"

section \<open>Properties of the window manager\<close>

definition set_wm_state :: "u32 \<Rightarrow> u32 \<Rightarrow> input_client \<Rightarrow> input_client" where
  "set_wm_state wid v st =
     (let (st, atom) = intern_atom ''WM_STATE'' False st
      in modify_window wid (set_prop atom \<lparr>pv_type = atom, pv_format = 32, pv_data = le_bytes 4 v @ [0, 0, 0, 0]\<rparr>) st)"

fun intern_all :: "string list \<Rightarrow> input_client \<Rightarrow> input_client \<times> u32 list" where
  "intern_all [] st = (st, [])"
| "intern_all (n # ns) st =
     (let (st, a) = intern_atom n False st; (st, as) = intern_all ns st in (st, a # as))"

definition allowed_actions :: "string list" where
  "allowed_actions =
     [''_NET_WM_ACTION_MOVE'', ''_NET_WM_ACTION_RESIZE'', ''_NET_WM_ACTION_MINIMIZE'',
      ''_NET_WM_ACTION_SHADE'', ''_NET_WM_ACTION_MAXIMIZE_HORZ'', ''_NET_WM_ACTION_MAXIMIZE_VERT'',
      ''_NET_WM_ACTION_FULLSCREEN'', ''_NET_WM_ACTION_CLOSE'']"

definition ATOM_TYPE :: u32 where "ATOM_TYPE = 4"

definition set_allowed_actions :: "u32 \<Rightarrow> input_client \<Rightarrow> input_client" where
  "set_allowed_actions wid st =
     (let (st, allowed) = intern_atom ''_NET_WM_ALLOWED_ACTIONS'' False st;
          (st, actions) = intern_all allowed_actions st;
          v = \<lparr>pv_type = ATOM_TYPE, pv_format = 32, pv_data = concat (map (le_bytes 4) actions)\<rparr>
      in modify_shared wid (set_prop allowed v) (modify_window wid (set_prop allowed v) st))"

text \<open>An atom that exists, or 0.\<close>

definition atom_if_exists :: "string \<Rightarrow> input_client \<Rightarrow> u32" where
  "atom_if_exists n st = snd (intern_atom n True st)"

fun has_word :: "u32 \<Rightarrow> bytes \<Rightarrow> bool" where
  "has_word a (b0 # b1 # b2 # b3 # bs) \<longleftrightarrow> of_le_bytes [b0, b1, b2, b3] = a \<or> has_word a bs"
| "has_word a _ \<longleftrightarrow> False"

definition window_supports_protocol :: "u32 \<Rightarrow> u32 \<Rightarrow> input_client \<Rightarrow> bool" where
  "window_supports_protocol wid protocol st \<longleftrightarrow>
     (let protocols = atom_if_exists ''WM_PROTOCOLS'' st
      in protocols \<noteq> 0 \<and>
         (case map_of (windows st) wid of
            None \<Rightarrow> False
          | Some w \<Rightarrow> (case map_of (w_properties w) protocols of
                         None \<Rightarrow> False
                       | Some pv \<Rightarrow> pv_format pv = 32 \<and> has_word protocol (pv_data pv))))"

definition send_protocol :: "encoders \<Rightarrow> string \<Rightarrow> u32 list \<Rightarrow> u32 \<Rightarrow> input_client \<Rightarrow> input_client" where
  "send_protocol E name arguments wid st =
     (let (st, protocol) = intern_atom name False st
      in if window_supports_protocol wid protocol st
         then (let (st, protocols) = intern_atom ''WM_PROTOCOLS'' False st
               in push_event (structure_bytes E
                    (ClientMessageEv (sequence st) wid protocols ([protocol, timestamp st] @ arguments)) st) st)
         else st)"

definition send_wm_take_focus :: "encoders \<Rightarrow> u32 \<Rightarrow> input_client \<Rightarrow> input_client" where
  "send_wm_take_focus E wid = send_protocol E ''WM_TAKE_FOCUS'' [0, 0, 0] wid"

definition send_wm_ping :: "encoders \<Rightarrow> u32 \<Rightarrow> input_client \<Rightarrow> input_client" where
  "send_wm_ping E wid = send_protocol E ''_NET_WM_PING'' [wid, 0, 0] wid"

definition read_u32_word :: "bytes \<Rightarrow> nat \<Rightarrow> u32" where
  "read_u32_word data i = of_le_bytes (take 4 (drop (4 * i) data))"

text \<open>The bytes of WM\<open>_\<close>NORMAL\<open>_\<close>HINTS when they are complete.\<close>

definition normal_hints :: "u32 \<Rightarrow> input_client \<Rightarrow> bytes option" where
  "normal_hints wid st =
     (let atom = atom_if_exists ''WM_NORMAL_HINTS'' st
      in if atom = 0 then None
         else case map_of (windows st) wid of
                None \<Rightarrow> None
              | Some w \<Rightarrow>
                  (case map_of (w_properties w) atom of
                     None \<Rightarrow> None
                   | Some pv \<Rightarrow> if pv_format pv \<noteq> 32 \<or> length (pv_data pv) < 72 then None else Some (pv_data pv)))"

definition get_size_hints_position :: "u32 \<Rightarrow> input_client \<Rightarrow> (i16 \<times> i16) option" where
  "get_size_hints_position wid st =
     (case normal_hints wid st of
        None \<Rightarrow> None
      | Some d \<Rightarrow> if read_u32_word d 0 AND (1 OR 4) = 0 then None
                  else Some (ucast (read_u32_word d 1), ucast (read_u32_word d 2)))"

section \<open>Visibility of siblings\<close>

definition expose_sibling :: "encoders \<Rightarrow> u32 \<Rightarrow> u16 \<Rightarrow> input_client \<Rightarrow> input_client" where
  "expose_sibling E sib seq st =
     (let (wd, ht, msk) = (case map_of (windows st) sib of
                             Some w \<Rightarrow> (w_width w, w_height w, w_event_mask w) | None \<Rightarrow> (0, 0, 0));
          ev = structure_bytes E (ExposeEv seq sib wd ht 0) st;
          st = (if msk AND EXPOSURE \<noteq> 0 then push_event ev st else st)
      in broadcast_event sib EXPOSURE ev st)"

definition refresh_sibling :: "encoders \<Rightarrow> bool \<Rightarrow> u16 \<Rightarrow> u32 \<Rightarrow> input_client \<Rightarrow> input_client" where
  "refresh_sibling E save_under_active seq sib st =
     (let old_vis = (case map_of (windows st) sib of Some w \<Rightarrow> w_visibility w | None \<Rightarrow> 0);
          new_vis = compute_visibility (windows st) sib
      in if new_vis = old_vis then st
         else
           (let ev = structure_bytes E (VisibilityEv seq sib new_vis) st;
                has_backing = (case map_of (windows st) sib of
                                 Some w \<Rightarrow> a_backing_store (w_attrs w) \<noteq> 0 | None \<Rightarrow> False);
                st = (if window_selects sib VISIBILITY_CHANGE st then push_event ev st else st);
                st = modify_window sib (\<lambda>w. w\<lparr>w_visibility := new_vis\<rparr>) st;
                st = broadcast_event sib VISIBILITY_CHANGE ev st
            in if old_vis > new_vis \<and> \<not> save_under_active \<and> \<not> has_backing
               then expose_sibling E sib seq st else st))"

definition update_sibling_visibility :: "encoders \<Rightarrow> u32 \<Rightarrow> u16 \<Rightarrow> input_client \<Rightarrow> input_client" where
  "update_sibling_visibility E wid seq st =
     (case map_of (windows st) wid of
        None \<Rightarrow> st
      | Some w \<Rightarrow>
          (case map_of (windows st) (w_parent w) of
             None \<Rightarrow> st
           | Some p \<Rightarrow> fold (refresh_sibling E (a_save_under (w_attrs w)) seq) (w_children p) st))"

section \<open>MapWindow\<close>

definition place_by_hints :: "u32 \<Rightarrow> string \<Rightarrow> input_client \<Rightarrow> input_client" where
  "place_by_hints wid uuid st =
     (case map_of (windows st) wid of
        None \<Rightarrow> st
      | Some w \<Rightarrow>
          if is_top_level w st
          then (case get_size_hints_position wid st of
                  Some (hx, hy) \<Rightarrow>
                    if (hx, hy) \<noteq> (w_x w, w_y w)
                    then say (WindowConfigured (client_id st) uuid hx hy (w_width w) (w_height w)
                                (a_border_width (w_attrs w)) (a_border_pixel (w_attrs w)))
                           (modify_window wid (\<lambda>w. w\<lparr>w_x := hx, w_y := hy\<rparr>) st)
                    else st
                | None \<Rightarrow> st)
          else st)"

definition restored :: "window_state \<Rightarrow> bool" where
  "restored w \<longleftrightarrow> a_backing_store (w_attrs w) \<noteq> 0 \<and>
     w_saved w = Some (unat (fst (w_fb w) * snd (w_fb w) * 4))"

definition mapped_descendants :: "u32 \<Rightarrow> windows_t \<Rightarrow> window_state list" where
  "mapped_descendants wid ws =
     filter (\<lambda>w. w_mapped w \<and> w_id w \<noteq> wid \<and> is_descendant_of ws (w_id w) wid) (map snd ws)"

text \<open>The Expose events of a window that is shown and of its mapped descendants; the count of an event is
  the number of windows that come after it.\<close>

definition map_exposures :: "u16 \<Rightarrow> u32 \<Rightarrow> window_state \<Rightarrow> windows_t \<Rightarrow> structure_event \<times> structure_event list" where
  "map_exposures seq wid w ws =
     (let descendants = mapped_descendants wid ws;
          base = (if w_event_mask w AND EXPOSURE \<noteq> 0 then 1 else 0);
          n = base + length descendants;
          own_event = ExposeEv seq wid (w_width w) (w_height w) (of_nat (n - 1))
      in (own_event,
          (if base = 1 then [own_event] else []) @
          concat (map (\<lambda>(i, d).
            if (case map_of ws (w_id d) of Some v \<Rightarrow> w_event_mask v | None \<Rightarrow> 0) AND EXPOSURE \<noteq> 0
            then [ExposeEv seq (w_id d) (w_width d) (w_height d) (of_nat (n - (base + 1 + i)))] else [])
            (List.enumerate 0 descendants))))"

definition show_window :: "encoders \<Rightarrow> u32 \<Rightarrow> string \<Rightarrow> u32 \<Rightarrow> input_client \<Rightarrow> input_client \<times> bytes" where
  "show_window E wid uuid wm_state_atom st =
     (case map_of (windows st) wid of
        None \<Rightarrow> (st, [])
      | Some w \<Rightarrow>
          (let seq = sequence st; top_level = is_top_level w st; parent = w_parent w;
               ovr = a_override_redirect (w_attrs w); msk = w_event_mask w;
               iconic = (top_level \<and> w_initial_state w = Some 3);
               state_value = \<lparr>pv_type = wm_state_atom, pv_format = 32,
                              pv_data = le_bytes 4 (if iconic then 3 else 1 :: u32) @ [0, 0, 0, 0]\<rparr>;
               st = modify_window wid (\<lambda>w. set_prop wm_state_atom state_value
                      (w\<lparr>w_mapped := True,
                         w_saved := (if a_backing_store (w_attrs w) \<noteq> 0 then None else w_saved w)\<rparr>)) st;
               st = say (WindowMapped (w_owner w) uuid top_level ovr) st;
               st = (if iconic then say (WindowStateChanged (w_owner w) uuid WmMinimized) st else st);
               map_event = structure_bytes E (MapNotifyEv seq wid wid ovr) st;
               events = (if msk AND STRUCTURE_NOTIFY \<noteq> 0 then map_event else []);
               st = deliver_event parent SUBSTRUCTURE_NOTIFY
                      (structure_bytes E (MapNotifyEv seq parent wid ovr) st) st;
               st = broadcast_event wid STRUCTURE_NOTIFY map_event st;
               vis = compute_visibility (windows st) wid;
               st = modify_window wid (\<lambda>w. w\<lparr>w_visibility := vis\<rparr>) st;
               events = events @ (if msk AND VISIBILITY_CHANGE \<noteq> 0
                                  then structure_bytes E (VisibilityEv seq wid vis) st else [])
           in if restored w then (st, events)
              else
                (let (own_event, exposures) = map_exposures seq wid w (windows st)
                 in (broadcast_event wid EXPOSURE (structure_bytes E own_event st) st,
                     events @ concat (map (\<lambda>e. structure_bytes E e st) exposures)))))"

definition insert_above :: "u32 \<Rightarrow> u32 \<Rightarrow> u32 list \<Rightarrow> u32 list" where
  "insert_above sib wid cs =
     (if sib \<in> set cs then takeWhile (\<lambda>c. c \<noteq> sib) cs @ [sib, wid] @ tl (dropWhile (\<lambda>c. c \<noteq> sib) cs)
      else cs @ [wid])"

definition stack_transient :: "u32 \<Rightarrow> input_client \<Rightarrow> input_client" where
  "stack_transient wid st =
     (case map_of (windows st) wid of
        Some w \<Rightarrow>
          (case w_transient_for w of
             Some p \<Rightarrow>
               modify_window (root_window st) (\<lambda>r.
                 if p \<in> set (w_children r) \<and> wid \<in> set (w_children r)
                 then r\<lparr>w_children := insert_above p wid (filter (\<lambda>c. c \<noteq> wid) (w_children r))\<rparr> else r) st
           | None \<Rightarrow> st)
      | None \<Rightarrow> st)"

definition default_net_wm_state :: "u32 \<Rightarrow> input_client \<Rightarrow> input_client" where
  "default_net_wm_state wid st =
     (let (st, atom) = intern_atom ''_NET_WM_STATE'' False st
      in modify_window wid (\<lambda>w. if map_of (w_properties w) atom = None
                                then set_prop atom \<lparr>pv_type = ATOM_TYPE, pv_format = 32, pv_data = []\<rparr> w else w) st)"

definition pointer_inside :: "window_state \<Rightarrow> input_client \<Rightarrow> bool" where
  "pointer_inside w st \<longleftrightarrow>
     sint (w_x w) \<le> sint (pointer_x st) \<and> sint (pointer_x st) < sint (w_x w + ucast (w_width w)) \<and>
     sint (w_y w) \<le> sint (pointer_y st) \<and> sint (pointer_y st) < sint (w_y w + ucast (w_height w))"

definition enter_mapped :: "encoders \<Rightarrow> u32 \<Rightarrow> input_client \<Rightarrow> (input_client \<times> bytes) option" where
  "enter_mapped E wid st =
     (case map_of (windows st) wid of
        Some w \<Rightarrow> if w_mapped w \<and> pointer_inside w st
                  then build_crossing_events E wid (pointer_x st) (pointer_y st) st else Some (st, [])
      | None \<Rightarrow> Some (st, []))"

definition focus_mapped :: "encoders \<Rightarrow> u32 \<Rightarrow> input_client \<Rightarrow> input_client" where
  "focus_mapped E wid st =
     (let accepts_input = (case map_of (windows st) wid of
                             Some w \<Rightarrow> or_default True (w_hints_input w) | None \<Rightarrow> True);
          st = (if accepts_input then set_focus_window E wid st else st)
      in send_wm_ping E wid (send_wm_take_focus E wid st))"

definition complete_map :: "encoders \<Rightarrow> u32 \<Rightarrow> input_client \<Rightarrow> input_client" where
  "complete_map E wid st =
     (let top_level = (case map_of (windows st) wid of Some w \<Rightarrow> is_top_level w st | None \<Rightarrow> False);
          st = default_net_wm_state wid st;
          st = (if top_level then set_allowed_actions wid st else st);
          st = mark_window_shared_dirty wid st;
          st = (case map_of (windows st) wid of
                  Some w \<Rightarrow> st\<lparr>windows := restack_by_window_type wid (w_parent w) (windows st)\<rparr> | None \<Rightarrow> st);
          st = stack_transient wid st;
          st = update_net_client_list st
      in if top_level then focus_mapped E wid st else st)"

definition handle_map_window :: "encoders \<Rightarrow> u32 \<Rightarrow> input_client \<Rightarrow> (input_client \<times> bytes) option" where
  "handle_map_window E wid st =
     (case map_of (windows st) wid of
        None \<Rightarrow> Some (st, build_error WINDOW_ERROR (sequence st) wid 8 0)
      | Some w \<Rightarrow>
          if redirected w st
          then (let ev = structure_bytes E (MapRequestEv (w_parent w) wid) st
                in Some (deliver_event (w_parent w) SUBSTRUCTURE_REDIRECT ev (send_to_wm ev st), []))
          else if w_mapped w then Some (st, [])
          else
            (case resolve_uuid wid st of
               None \<Rightarrow> Some (st, [])
             | Some uuid \<Rightarrow>
                 (let (st, wm_state_atom) = intern_atom ''WM_STATE'' False st;
                      st = place_by_hints wid uuid st;
                      (st, events) = show_window E wid uuid wm_state_atom st;
                      st = complete_map E wid st
                  in map_option (\<lambda>(st, crossing). (st, events @ crossing)) (enter_mapped E wid st))))"

text \<open>A request for several windows: the bytes of all calls, or a panic.\<close>

fun for_windows ::
    "(u32 \<Rightarrow> input_client \<Rightarrow> (input_client \<times> bytes) option) \<Rightarrow> u32 list \<Rightarrow> input_client \<Rightarrow> (input_client \<times> bytes) option" where
  "for_windows f [] st = Some (st, [])"
| "for_windows f (w # ws) st =
     (case f w st of
        None \<Rightarrow> None
      | Some (st, a) \<Rightarrow> map_option (\<lambda>(st, b). (st, a @ b)) (for_windows f ws st))"

definition handle_map_subwindows :: "encoders \<Rightarrow> u32 \<Rightarrow> input_client \<Rightarrow> (input_client \<times> bytes) option" where
  "handle_map_subwindows E parent st =
     (if map_of (windows st) parent = None
      then Some (st, build_error WINDOW_ERROR (sequence st) parent 9 0)
      else for_windows (handle_map_window E)
             (map w_id (filter (\<lambda>w. w_parent w = parent \<and> \<not> w_mapped w) (map snd (windows st)))) st)"

section \<open>UnmapWindow\<close>

definition hide_window :: "encoders \<Rightarrow> u32 \<Rightarrow> window_state \<Rightarrow> input_client \<Rightarrow> input_client \<times> bytes" where
  "hide_window E wid w st =
     (let seq = sequence st; parent = w_parent w;
          st = modify_window wid (\<lambda>w. w\<lparr>w_mapped := False,
                 w_saved := (if a_backing_store (w_attrs w) \<noteq> 0 \<and> w_mapped w
                             then Some (unat (fst (w_fb w)) * 4 * unat (snd (w_fb w))) else w_saved w)\<rparr>) st;
          st = mark_window_shared_dirty wid st;
          st = (case resolve_uuid wid st of Some uuid \<Rightarrow> say (WindowUnmapped (w_owner w) uuid) st | None \<Rightarrow> st);
          unmap_event = structure_bytes E (UnmapNotifyEv seq wid wid) st;
          events = (if w_event_mask w AND STRUCTURE_NOTIFY \<noteq> 0 then unmap_event else []);
          parent_event = structure_bytes E (UnmapNotifyEv seq parent wid) st;
          events = events @ (if parent \<noteq> 0 \<and> window_selects parent SUBSTRUCTURE_NOTIFY st then parent_event else []);
          st = (if parent \<noteq> 0
                then broadcast_event wid STRUCTURE_NOTIFY unmap_event
                       (broadcast_event parent SUBSTRUCTURE_NOTIFY parent_event st)
                else st);
          st = (if parent = root_window st then set_wm_state wid 0 st else st)
      in (st, events))"

definition leave_unmapped :: "encoders \<Rightarrow> u32 \<Rightarrow> u32 \<Rightarrow> input_client \<Rightarrow> (input_client \<times> bytes) option" where
  "leave_unmapped E wid parent st =
     (if last_entered_window st = wid
      then build_crossing_events E (if parent \<noteq> 0 then parent else root_window st) (pointer_x st) (pointer_y st) st
      else Some (st, []))"

definition mapped_transients :: "u32 \<Rightarrow> windows_t \<Rightarrow> u32 list" where
  "mapped_transients wid ws = map w_id (filter (\<lambda>w. w_transient_for w = Some wid \<and> w_mapped w) (map snd ws))"

fun unmap_window :: "nat \<Rightarrow> encoders \<Rightarrow> u32 \<Rightarrow> input_client \<Rightarrow> (input_client \<times> bytes) option" where
  "unmap_window 0 E wid st = None"
| "unmap_window (Suc n) E wid st =
     (case map_of (windows st) wid of
        None \<Rightarrow> Some (st, build_error WINDOW_ERROR (sequence st) wid 10 0)
      | Some w \<Rightarrow>
          if \<not> w_mapped w then Some (st, [])
          else
            (let seq = sequence st; (st, events) = hide_window E wid w st
             in case for_windows (unmap_window n E) (mapped_transients wid (windows st)) st of
                  None \<Rightarrow> None
                | Some (st, _) \<Rightarrow>
                    (let st = update_net_client_list st;
                         st = revert_focus_from E wid st;
                         st = update_sibling_visibility E wid seq st
                     in map_option (\<lambda>(st, crossing). (st, events @ crossing))
                          (leave_unmapped E wid (w_parent w) st))))"

definition handle_unmap_window :: "encoders \<Rightarrow> u32 \<Rightarrow> input_client \<Rightarrow> (input_client \<times> bytes) option" where
  "handle_unmap_window E wid st = unmap_window (length (windows st) + 1) E wid st"

definition handle_unmap_subwindows :: "encoders \<Rightarrow> u32 \<Rightarrow> input_client \<Rightarrow> (input_client \<times> bytes) option" where
  "handle_unmap_subwindows E parent st =
     (if map_of (windows st) parent = None
      then Some (st, build_error WINDOW_ERROR (sequence st) parent 11 0)
      else for_windows (handle_unmap_window E)
             (map w_id (filter (\<lambda>w. w_parent w = parent \<and> w_mapped w) (map snd (windows st)))) st)"

section \<open>What mapping and unmapping leave alone\<close>

text \<open>A window without its properties, visibility and saved pixels.\<close>

definition erase :: "window_state \<Rightarrow> window_state" where
  "erase w = w\<lparr>w_properties := [], w_visibility := 0, w_saved := None\<rparr>"

definition outline :: "input_client \<Rightarrow> u32 \<Rightarrow> window_state option" where
  "outline st k = map_option erase (map_of (windows st) k)"

definition same_outline :: "input_client \<Rightarrow> input_client \<Rightarrow> bool" where
  "same_outline st st' \<longleftrightarrow> outline st' = outline st \<and> root_window st' = root_window st \<and> resource_id_base st' = resource_id_base st \<and> (wf_table st \<longrightarrow> wf_table st')"

lemma same_outline_refl [simp]: "same_outline st st"
  by (simp add: same_outline_def)

lemma same_outline_trans: "same_outline a b \<Longrightarrow> same_outline b c \<Longrightarrow> same_outline a c"
  by (simp add: same_outline_def)

lemma same_outline_fold: "(\<And>x s. same_outline s (f x s)) \<Longrightarrow> same_outline s (fold f xs s)"
  by (induction xs arbitrary: s) (auto intro: same_outline_trans)

lemma erase_core: "map_option erase (core st k) = outline st k"
  by (cases "map_of (windows st) k") (simp_all add: core_def outline_def erase_def)

lemma same_outline_core:
  assumes "same_core st st'" "wf_table st \<Longrightarrow> wf_table st'"
  shows "same_outline st st'"
proof -
  have "outline st' k = outline st k" for k
    using assms(1) erase_core [of st k] erase_core [of st' k] by (simp add: same_core_def)
  then show ?thesis using assms by (auto simp: same_outline_def same_core_def)
qed

lemma same_outline_frame:
  assumes "windows st' = windows st" "root_window st' = root_window st" "resource_id_base st' = resource_id_base st"
  shows "same_outline st st'"
  using assms by (simp add: same_outline_def outline_def fun_eq_iff wf_table_def)

lemma root_window_events [simp]:
  fixes st :: input_client
  shows "root_window (push_event e st) = root_window st" "root_window (broadcast_event w m e st) = root_window st"
    "root_window (deliver_event w m e st) = root_window st" "root_window (mark_window_shared_dirty w st) = root_window st"
    "root_window (say m' st) = root_window st" "windows (say m' st) = windows st"
    "root_window (send_to_wm e st) = root_window st" "windows (send_to_wm e st) = windows st"
    "root_window (modify_window k f st) = root_window st" "root_window (modify_shared k f st) = root_window st"
    "windows (modify_shared k f st) = windows st"
    "resource_id_base (push_event e st) = resource_id_base st" "resource_id_base (broadcast_event w m e st) = resource_id_base st"
    "resource_id_base (deliver_event w m e st) = resource_id_base st" "resource_id_base (mark_window_shared_dirty w st) = resource_id_base st"
    "resource_id_base (say m' st) = resource_id_base st" "resource_id_base (send_to_wm e st) = resource_id_base st"
    "resource_id_base (modify_window k f st) = resource_id_base st" "resource_id_base (modify_shared k f st) = resource_id_base st"
  by (simp_all add: push_event_def broadcast_event_def deliver_event_def mark_window_shared_dirty_def say_def
      send_to_wm_def modify_window_def modify_shared_def split: option.split)

lemma intern_frame: "intern_atom n b st = (st', a) \<Longrightarrow> windows st' = windows st \<and> root_window st' = root_window st \<and>
    resource_id_base st' = resource_id_base (st :: input_client)"
  by (auto simp: intern_atom_def split: prod.splits)

lemma same_outline_intern: "intern_atom n b st = (st', a) \<Longrightarrow> same_outline st st'"
  by (rule same_outline_frame) (simp_all add: intern_frame)

lemma same_outline_modify:
  assumes "\<And>w. erase (f w) = erase w"
  shows "same_outline st (modify_window k f st)"
proof -
  have "w_id (f w) = w_id w" for w using arg_cong [OF assms [of w], of w_id] by (simp add: erase_def)
  then show ?thesis
    using assms by (auto simp: same_outline_def outline_def modify_window_def fun_eq_iff option.map_comp comp_def
        wf_table_def wf_windows_map_entry)
qed

lemma erase_simps [simp]:
  "erase (set_prop a v w) = erase w" "erase (w\<lparr>w_visibility := vis\<rparr>) = erase w" "erase (w\<lparr>w_saved := s\<rparr>) = erase w"
  "erase (w\<lparr>w_mapped := m\<rparr>) = (erase w)\<lparr>w_mapped := m\<rparr>" "w_mapped (erase w) = w_mapped w"
  "w_parent (erase w) = w_parent w" "w_transient_for (erase w) = w_transient_for w" "w_id (erase w) = w_id w"
  "w_children (erase w) = w_children w" "w_event_mask (erase w) = w_event_mask w" "erase (erase w) = erase w"
  by (simp_all add: erase_def set_prop_def)

lemma same_outline_wm:
  "same_outline st (update_net_client_list st)" "same_outline st (set_focus_window E k st)"
  "same_outline st (revert_focus_from E k st)"
  by (auto intro: same_outline_core same_core_update_net_client_list set_focus_window_same_core
      revert_focus_same_core wf_intros)

lemma same_outline_set_wm_state: "same_outline st (set_wm_state k v st)"
proof -
  obtain s a where i: "intern_atom ''WM_STATE'' False st = (s, a)" by (rule prod.exhaust)
  show ?thesis
    unfolding set_wm_state_def i Let_def prod.case
    by (rule same_outline_trans [OF same_outline_intern [OF i] same_outline_modify]) simp
qed

lemma same_outline_expose: "same_outline st (expose_sibling E sib seq st)"
  by (rule same_outline_frame) (auto simp: expose_sibling_def Let_def split: option.split prod.split)

lemma same_outline_refresh: "same_outline st (refresh_sibling E b seq sib st)"
proof -
  have "same_outline st (broadcast_event u m ev (modify_window sib (\<lambda>w. w\<lparr>w_visibility := v\<rparr>) st'))"
    if "windows st' = windows st" "root_window st' = root_window st" "resource_id_base st' = resource_id_base st" for u m ev v st'
    by (rule same_outline_trans [OF same_outline_frame [OF that]
          same_outline_trans [OF same_outline_modify same_outline_frame]]) simp_all
  then show ?thesis
    unfolding refresh_sibling_def Let_def by (auto intro: same_outline_trans [OF _ same_outline_expose])
qed

lemma same_outline_siblings: "same_outline st (update_sibling_visibility E wid seq st)"
  by (auto simp: update_sibling_visibility_def split: option.split intro: same_outline_fold same_outline_refresh)

section \<open>UnmapWindow and transient windows\<close>

text \<open>The windows that go with a window when it is unmapped: mapped windows that are transient for it,
  and so on.\<close>

definition follows :: "(u32 \<Rightarrow> u32 option) \<Rightarrow> u32 set \<Rightarrow> u32 \<Rightarrow> u32 \<Rightarrow> bool" where
  "follows T M a b \<longleftrightarrow> a \<in> M \<and> b \<in> M \<and> T b = Some a"

definition unmap_group :: "(u32 \<Rightarrow> u32 option) \<Rightarrow> u32 set \<Rightarrow> u32 \<Rightarrow> u32 set" where
  "unmap_group T M a = {k. a \<in> M \<and> (follows T M)\<^sup>*\<^sup>* a k}"

lemma unmap_group_subset: "unmap_group T M a \<subseteq> M"
proof
  fix k assume "k \<in> unmap_group T M a"
  then have "(follows T M)\<^sup>*\<^sup>* a k" "a \<in> M" by (simp_all add: unmap_group_def)
  then show "k \<in> M" by (induction rule: rtranclp_induct) (simp_all add: follows_def)
qed

lemma follows_mono: "(follows T N)\<^sup>*\<^sup>* a k \<Longrightarrow> N \<subseteq> M \<Longrightarrow> (follows T M)\<^sup>*\<^sup>* a k"
  by (erule rtranclp_mono [THEN predicate2D, rotated]) (auto simp: follows_def)

lemma unmap_group_mono: "N \<subseteq> M \<Longrightarrow> unmap_group T N a \<subseteq> unmap_group T M a"
  using follows_mono [of T N _ _ M] by (auto simp: unmap_group_def)

lemma unmap_group_extend: "k \<in> unmap_group T M a \<Longrightarrow> z \<in> M \<Longrightarrow> T z = Some k \<Longrightarrow> z \<in> unmap_group T M a"
proof -
  assume k: "k \<in> unmap_group T M a" and z: "z \<in> M" "T z = Some k"
  then have "follows T M k z" using unmap_group_subset [of T M a] by (auto simp: follows_def)
  with k show ?thesis by (auto simp: unmap_group_def intro: rtranclp.rtrancl_into_rtrancl)
qed

text \<open>Removing one group first does not change the union.\<close>

lemma unmap_group_cons:
  "unmap_group T M c \<union> unmap_group T (M - unmap_group T M c) d = unmap_group T M c \<union> unmap_group T M d"
proof -
  let ?R = "unmap_group T M c"
  have "k \<in> ?R \<union> unmap_group T (M - ?R) d" if "(follows T M)\<^sup>*\<^sup>* d k" "d \<in> M" for k
    using that
  proof (induction rule: rtranclp_induct)
    case (step y z)
    then have "z \<in> M" "T z = Some y" by (simp_all add: follows_def)
    then show ?case using step unmap_group_extend [of y T M c z] unmap_group_extend [of y T "M - ?R" d z] by auto
  qed (auto simp: unmap_group_def)
  then have "unmap_group T M d \<subseteq> ?R \<union> unmap_group T (M - ?R) d" by (auto simp: unmap_group_def [of T M d])
  then show ?thesis using unmap_group_mono [of "M - ?R" M T d] by blast
qed

lemma unmap_group_step:
  assumes "a \<in> M"
  shows "unmap_group T M a = insert a (\<Union>c \<in> {c \<in> M - {a}. T c = Some a}. unmap_group T (M - {a}) c)" (is "_ = ?r")
proof
  have "k \<in> ?r" if "(follows T M)\<^sup>*\<^sup>* a k" for k
    using that
  proof (induction rule: rtranclp_induct)
    case (step y z)
    then have z: "z \<in> M" "T z = Some y" by (simp_all add: follows_def)
    have "z \<in> unmap_group T (M - {a}) z" if "z \<noteq> a" using z that by (simp add: unmap_group_def)
    then show ?case using step z unmap_group_extend [of y T "M - {a}" _ z] by auto
  qed simp
  then show "unmap_group T M a \<subseteq> ?r" by (auto simp: unmap_group_def [of T M a])
  have "(follows T M)\<^sup>*\<^sup>* a k" if "c \<in> M" "T c = Some a" "(follows T (M - {a}))\<^sup>*\<^sup>* c k" for c k
    using follows_mono [OF that(3), of M] that(1,2) assms
    by (auto intro: converse_rtranclp_into_rtranclp [of _ a c] simp: follows_def)
  then show "?r \<subseteq> unmap_group T M a" using assms by (auto simp: unmap_group_def)
qed

definition mapped_set :: "input_client \<Rightarrow> u32 set" where
  "mapped_set st = {k. \<exists>w. outline st k = Some w \<and> w_mapped w}"

definition transient_of :: "input_client \<Rightarrow> u32 \<Rightarrow> u32 option" where
  "transient_of st k = Option.bind (outline st k) w_transient_for"

text \<open>Every window but the root has a parent, the root has none, and 0 is no window.\<close>

definition parented :: "input_client \<Rightarrow> bool" where
  "parented st \<longleftrightarrow> outline st 0 = None \<and> (\<forall>k p. map_option w_parent (outline st k) = Some p \<longrightarrow> (p = 0 \<longleftrightarrow> k = root_window st))"

text \<open>The windows of a set are no longer mapped, and nothing else has changed.\<close>

definition unmapped :: "u32 set \<Rightarrow> input_client \<Rightarrow> input_client \<Rightarrow> bool" where
  "unmapped D st st' \<longleftrightarrow>
     outline st' = (\<lambda>k. map_option (\<lambda>w. if k \<in> D then w\<lparr>w_mapped := False\<rparr> else w) (outline st k)) \<and>
     root_window st' = root_window st \<and> resource_id_base st' = resource_id_base st \<and> (wf_table st \<longrightarrow> wf_table st')"

lemma unmapped_outline: "same_outline st st' \<Longrightarrow> unmapped {} st st'"
  by (simp add: same_outline_def unmapped_def fun_eq_iff option.map_ident)

lemma unmapped_trans: "unmapped A a b \<Longrightarrow> unmapped B b c \<Longrightarrow> unmapped (A \<union> B) a c"
  by (auto simp: unmapped_def fun_eq_iff option.map_comp comp_def intro!: option.map_cong)

lemma unmapped_then: "unmapped A a b \<Longrightarrow> same_outline b c \<Longrightarrow> unmapped A a c"
  using unmapped_trans [OF _ unmapped_outline, of A a b c] by simp

lemma unmapped_sets:
  assumes "unmapped D st st'"
  shows "mapped_set st' = mapped_set st - D" "transient_of st' = transient_of st" "parented st' = parented st"
proof -
  have o: "outline st' k = map_option (\<lambda>w. if k \<in> D then w\<lparr>w_mapped := False\<rparr> else w) (outline st k)"
    "root_window st' = root_window st" for k using assms by (simp_all add: unmapped_def)
  have "k \<in> mapped_set st' \<longleftrightarrow> k \<in> mapped_set st - D" for k
    by (cases "outline st k"; cases "k \<in> D") (simp_all add: mapped_set_def o)
  then show "mapped_set st' = mapped_set st - D" by blast
  show "transient_of st' = transient_of st"
    by (rule ext) (auto simp: transient_of_def o Option.bind_map_option intro!: bind_option_cong)
  have "map_option w_parent (outline st' k) = map_option w_parent (outline st k)" for k
    by (cases "outline st k") (simp_all add: o)
  then show "parented st' = parented st" by (simp add: parented_def o del: map_option_eq_Some)
qed

lemma finite_mapped: "finite (mapped_set st)" "card (mapped_set st) \<le> length (windows st)"
proof -
  have sub: "mapped_set st \<subseteq> fst ` set (windows st)"
    by (auto simp: mapped_set_def outline_def dest!: map_of_SomeD intro!: image_eqI)
  then show "finite (mapped_set st)" by (rule finite_subset) simp
  show "card (mapped_set st) \<le> length (windows st)"
    using card_mono [OF _ sub] card_length [of "map fst (windows st)"] by simp
qed

lemma mapped_transients_set:
  assumes "wf_table st"
  shows "set (mapped_transients wid (windows st)) = {c \<in> mapped_set st. transient_of st c = Some wid}"
proof -
  have *: "map_of (windows st) k = Some w \<longleftrightarrow> (k, w) \<in> set (windows st)" for k w
    using assms by (simp add: wf_table_def wf_windows_def wf_hashmap_def)
  have id: "w_id w = k" if "map_of (windows st) k = Some w" for k w
    using assms map_of_SomeD [OF that] by (auto simp: wf_table_def wf_windows_def)
  have "c \<in> set (mapped_transients wid (windows st)) \<longleftrightarrow>
      (\<exists>w. map_of (windows st) c = Some w \<and> w_mapped w \<and> w_transient_for w = Some wid)" for c
  proof
    assume "c \<in> set (mapped_transients wid (windows st))"
    then obtain k w where "(k, w) \<in> set (windows st)" "w_mapped w" "w_transient_for w = Some wid" "c = w_id w"
      by (auto simp: mapped_transients_def)
    then show "\<exists>w. map_of (windows st) c = Some w \<and> w_mapped w \<and> w_transient_for w = Some wid"
      using * [of k w] id [of k w] by auto
  next
    assume "\<exists>w. map_of (windows st) c = Some w \<and> w_mapped w \<and> w_transient_for w = Some wid"
    then obtain w where "(c, w) \<in> set (windows st)" "w_mapped w" "w_transient_for w = Some wid" "w_id w = c"
      using * id by blast
    then show "c \<in> set (mapped_transients wid (windows st))" by (force simp: mapped_transients_def)
  qed
  then show ?thesis
    by (auto simp: mapped_set_def transient_of_def outline_def)
qed

lemma path_from_parent:
  assumes "map_of ws w = Some v" "w_parent v \<noteq> 0" "w_parent v \<noteq> w" "w \<noteq> root" "w \<noteq> 0"
  shows "w_parent v \<in> set (ancestor_path ws w root)"
proof -
  obtain n where depth: "MAX_TREE_DEPTH = Suc n" by (cases MAX_TREE_DEPTH) (simp_all add: MAX_TREE_DEPTH_def)
  show ?thesis unfolding ancestor_path_def depth using assms by simp
qed

lemma between_Some: "v \<noteq> hd path \<Longrightarrow> path \<noteq> [] \<Longrightarrow> \<exists>m. between v path = Some m"
  by (cases path) (auto simp: between_def split: option.split nat.split)

lemma crossing_to_parent:
  assumes "new \<in> set (ancestor_path (windows st) (last_entered_window st) (root_window st))"
  shows "\<exists>bs. build_crossing_events E new x y st = Some (st\<lparr>last_entered_window := new\<rparr>, bs)"
proof (cases "last_entered_window st = new")
  case False
  define P N where "P = ancestor_path (windows st) (last_entered_window st) (root_window st)"
    and "N = ancestor_path (windows st) new (root_window st)"
  have "hd P = last_entered_window st" "P \<noteq> []" "hd N = new" "N \<noteq> []" by (simp_all add: P_def N_def ancestor_path_def)
  then have "\<exists>m. between new P = Some m" "\<exists>m. between (last_entered_window st) N = Some m"
    using False between_Some [of new P] between_Some [of "last_entered_window st" N] by auto
  then have "\<exists>plan. crossing_plan (root_window st) (last_entered_window st) new P N = Some plan"
    using assms by (auto simp: crossing_plan_def P_def [symmetric])
  with False show ?thesis
    by (auto simp: build_crossing_events_def build_crossing_events_with_mode_def Let_def P_def N_def)
qed (auto simp: build_crossing_events_def build_crossing_events_with_mode_def)

lemma hide_window_unmapped:
  assumes "map_of (windows st) wid = Some w" "hide_window E wid w st = (st', ev)"
  shows "unmapped {wid} st st'"
proof -
  define s1 where "s1 = modify_window wid (\<lambda>w. w\<lparr>w_mapped := False,
    w_saved := (if a_backing_store (w_attrs w) \<noteq> 0 \<and> w_mapped w
                then Some (unat (fst (w_fb w)) * 4 * unat (snd (w_fb w))) else w_saved w)\<rparr>) st"
  have 1: "unmapped {wid} st s1"
  proof -
    have "outline s1 k = map_option (\<lambda>w. if k \<in> {wid} then w\<lparr>w_mapped := False\<rparr> else w) (outline st k)" for k
      by (cases "map_of (windows st) k"; cases "k = wid") (simp_all add: s1_def outline_def modify_window_def erase_def)
    then show ?thesis
      by (auto simp: unmapped_def s1_def modify_window_def wf_table_def wf_windows_map_entry)
  qed
  obtain s2 where s2: "windows s2 = windows s1" "root_window s2 = root_window s1" "resource_id_base s2 = resource_id_base s1"
    and st': "st' = (if w_parent w = root_window s2 then set_wm_state wid 0 s2 else s2)"
  proof
    define t where "t = (case resolve_uuid wid (mark_window_shared_dirty wid s1) of
        Some uuid \<Rightarrow> say (WindowUnmapped (w_owner w) uuid) (mark_window_shared_dirty wid s1)
      | None \<Rightarrow> mark_window_shared_dirty wid s1)"
    define s2 where "s2 = (if w_parent w \<noteq> 0
      then broadcast_event wid STRUCTURE_NOTIFY (structure_bytes E (UnmapNotifyEv (sequence st) wid wid) t)
             (broadcast_event (w_parent w) SUBSTRUCTURE_NOTIFY
               (structure_bytes E (UnmapNotifyEv (sequence st) (w_parent w) wid) t) t) else t)"
    have "windows t = windows s1 \<and> root_window t = root_window s1 \<and> resource_id_base t = resource_id_base s1" by (simp add: t_def split: option.split)
    then show "windows s2 = windows s1" "root_window s2 = root_window s1" "resource_id_base s2 = resource_id_base s1" by (simp_all add: s2_def)
    show "st' = (if w_parent w = root_window s2 then set_wm_state wid 0 s2 else s2)"
      using assms(2) unfolding hide_window_def Let_def s1_def [symmetric] t_def [symmetric] s2_def [symmetric]
      by (simp only: prod.inject)
  qed
  show ?thesis
    using unmapped_then [OF unmapped_then [OF 1 same_outline_frame [OF s2]] same_outline_set_wm_state]
      unmapped_then [OF 1 same_outline_frame [OF s2]] unfolding st' by simp
qed

lemma leave_unmapped_returns:
  assumes "outline st wid = Some w" "parented st"
  shows "\<exists>st' bs. leave_unmapped E wid (w_parent w) st = Some (st', bs) \<and> same_outline st st'"
proof -
  define target where "target = (if w_parent w \<noteq> 0 then w_parent w else root_window st)"
  from assms obtain v where v: "map_of (windows st) wid = Some v" "w = erase v" by (auto simp: outline_def)
  have "wid \<noteq> 0" using assms by (auto simp: parented_def)
  have root: "w_parent v = 0 \<longleftrightarrow> wid = root_window st" using assms v by (auto simp: parented_def)
  have "target \<in> set (ancestor_path (windows st) wid (root_window st))"
  proof (cases "target = wid")
    case False
    then have "wid \<noteq> root_window st" "target = w_parent v" using root v by (auto simp: target_def)
    then show ?thesis using path_from_parent [OF v(1)] False root \<open>wid \<noteq> 0\<close> by auto
  qed (simp add: ancestor_path_def)
  then have "\<exists>bs. build_crossing_events E target (pointer_x st) (pointer_y st) st =
      Some (st\<lparr>last_entered_window := target\<rparr>, bs)" if "last_entered_window st = wid"
    using crossing_to_parent [of target st] that by simp
  then show ?thesis
    by (auto simp: leave_unmapped_def target_def [symmetric] intro!: same_outline_frame)
qed

lemma for_windows_groups:
  assumes f: "\<And>c s. wf_table s \<Longrightarrow> parented s \<Longrightarrow> card (mapped_set s) < n \<Longrightarrow>
      \<exists>s' ev. f c s = Some (s', ev) \<and> unmapped (unmap_group (transient_of s) (mapped_set s) c) s s'"
    and "wf_table s" "parented s" "transient_of s = T" "card (mapped_set s) < n"
  shows "\<exists>s' ev. for_windows f cs s = Some (s', ev) \<and> unmapped (\<Union>c \<in> set cs. unmap_group T (mapped_set s) c) s s'"
  using assms(2-)
proof (induction cs arbitrary: s)
  case Nil
  show ?case using unmapped_outline [OF same_outline_refl, of s] by simp
next
  case (Cons c cs)
  from f [OF Cons.prems(1,2,4), of c] obtain s1 e1 where
    s1: "f c s = Some (s1, e1)" "unmapped (unmap_group T (mapped_set s) c) s s1" unfolding Cons.prems(3) by blast
  note sets = unmapped_sets [OF s1(2)]
  have "card (mapped_set s1) \<le> card (mapped_set s)" unfolding sets(1) by (rule card_mono) (auto simp: finite_mapped)
  then have "card (mapped_set s1) < n" using Cons.prems(4) by simp
  moreover have "wf_table s1" using s1(2) Cons.prems(1) by (simp add: unmapped_def)
  ultimately obtain s2 e2 where s2: "for_windows f cs s1 = Some (s2, e2)"
      "unmapped (\<Union>c \<in> set cs. unmap_group T (mapped_set s1) c) s1 s2"
    using Cons.IH [of s1] Cons.prems(2,3) unfolding sets(2,3) by blast
  have "unmap_group T (mapped_set s) c \<union> (\<Union>d \<in> set cs. unmap_group T (mapped_set s1) d) =
      (\<Union>d \<in> set (c # cs). unmap_group T (mapped_set s) d)" (is "?l = ?r")
  proof -
    have "?l = unmap_group T (mapped_set s) c \<union>
        (\<Union>d \<in> set cs. unmap_group T (mapped_set s) c \<union> unmap_group T (mapped_set s1) d)" by blast
    also have "\<dots> = ?r" unfolding sets(1) unmap_group_cons by auto
    finally show ?thesis .
  qed
  with unmapped_trans [OF s1(2) s2(2)] show ?case by (simp add: s1(1) s2(1))
qed

text \<open>Unmapping a window ends within as many nested calls as there are mapped windows.\<close>

lemma unmap_window_effect:
  assumes "wf_table st" "parented st" "card (mapped_set st) < n"
  shows "\<exists>st' ev. unmap_window n E wid st = Some (st', ev) \<and>
    unmapped (unmap_group (transient_of st) (mapped_set st) wid) st st'"
  using assms
proof (induction n arbitrary: wid st)
  case (Suc n)
  define T where "T = transient_of st"
  show ?case
  proof (cases "wid \<in> mapped_set st")
    case False
    then have "unmap_group T (mapped_set st) wid = {}" by (simp add: unmap_group_def)
    moreover have "\<exists>ev. unmap_window (Suc n) E wid st = Some (st, ev)"
      using False by (cases "map_of (windows st) wid") (simp_all add: mapped_set_def outline_def)
    ultimately show ?thesis using unmapped_outline [OF same_outline_refl, of st] unfolding T_def by metis
  next
    case True
    then obtain w where w: "map_of (windows st) wid = Some w" "w_mapped w" by (auto simp: mapped_set_def outline_def)
    obtain s1 e1 where h: "hide_window E wid w st = (s1, e1)" by (rule prod.exhaust)
    note s1 = hide_window_unmapped [OF w(1) h]
    have sets: "mapped_set s1 = mapped_set st - {wid}" "transient_of s1 = T" "parented s1" "wf_table s1"
      using unmapped_sets [OF s1] s1 Suc.prems(1,2) unfolding T_def unmapped_def by blast+
    have "card (mapped_set s1) < n"
      using Suc.prems(3) card_Diff1_less [OF finite_mapped(1) True] by (simp add: sets)
    from for_windows_groups [where f = "unmap_window n E", OF Suc.IH sets(4,3,2) this] obtain s2 e2 where
      s2: "for_windows (unmap_window n E) (mapped_transients wid (windows s1)) s1 = Some (s2, e2)"
        "unmapped (\<Union>c \<in> set (mapped_transients wid (windows s1)). unmap_group T (mapped_set s1) c) s1 s2" by blast
    have g: "unmap_group T (mapped_set st) wid =
        {wid} \<union> (\<Union>c \<in> set (mapped_transients wid (windows s1)). unmap_group T (mapped_set s1) c)"
      unfolding unmap_group_step [OF True, of T] mapped_transients_set [OF sets(4)] sets by simp
    define s3 where "s3 = update_sibling_visibility E wid (sequence st) (revert_focus_from E wid (update_net_client_list s2))"
    have s3: "unmapped (unmap_group T (mapped_set st) wid) st s3"
      unfolding g s3_def
      by (rule unmapped_then [OF unmapped_then [OF unmapped_then [OF unmapped_trans [OF s1 s2(2)]
            same_outline_wm(1)] same_outline_wm(3)] same_outline_siblings])
    have "outline st wid = Some (erase w)" using w by (simp add: outline_def)
    then obtain v where v: "outline s3 wid = Some v" "w_parent v = w_parent w"
      using s3 unfolding unmapped_def by (cases "wid \<in> unmap_group T (mapped_set st) wid") simp_all
    have "parented s3" using unmapped_sets [OF s3] Suc.prems by simp
    from leave_unmapped_returns [OF v(1) this, of E] obtain s4 e4 where
      s4: "leave_unmapped E wid (w_parent w) s3 = Some (s4, e4)" "same_outline s3 s4" unfolding v(2) by blast
    have "unmap_window (Suc n) E wid st = Some (s4, e1 @ e4)"
      unfolding unmap_window.simps w(1) option.case Let_def h prod.case s2(1) s3_def [symmetric] s4(1)
      using w(2) by simp
    with unmapped_then [OF s3 s4(2)] show ?thesis unfolding T_def by blast
  qed
qed simp

section \<open>MapWindow shows one window\<close>

text \<open>A window without what MapWindow may adjust: position, stacking order, properties, visibility.\<close>

definition bones :: "window_state \<Rightarrow> window_state" where
  "bones w = (erase w)\<lparr>w_x := 0, w_y := 0, w_children := sort (w_children w)\<rparr>"

definition skeleton :: "input_client \<Rightarrow> u32 \<Rightarrow> window_state option" where
  "skeleton st k = map_option bones (map_of (windows st) k)"

definition same_skeleton :: "input_client \<Rightarrow> input_client \<Rightarrow> bool" where
  "same_skeleton st st' \<longleftrightarrow> skeleton st' = skeleton st \<and> root_window st' = root_window st \<and> resource_id_base st' = resource_id_base st \<and> (wf_table st \<longrightarrow> wf_table st')"

lemma same_skeleton_refl [simp]: "same_skeleton st st"
  by (simp add: same_skeleton_def)

lemma same_skeleton_trans: "same_skeleton a b \<Longrightarrow> same_skeleton b c \<Longrightarrow> same_skeleton a c"
  by (simp add: same_skeleton_def)

lemma bones_simps [simp]:
  "bones (erase w) = bones w" "bones (set_prop a v w) = bones w" "bones (w\<lparr>w_visibility := vis\<rparr>) = bones w"
  "bones (w\<lparr>w_saved := s\<rparr>) = bones w" "bones (w\<lparr>w_x := x, w_y := y\<rparr>) = bones w"
  "bones (w\<lparr>w_mapped := m\<rparr>) = (bones w)\<lparr>w_mapped := m\<rparr>" "w_parent (bones w) = w_parent w" "w_id (bones w) = w_id w"
  "w_mapped (bones w) = w_mapped w" "set (w_children (bones w)) = set (w_children w)"
  "distinct (w_children (bones w)) = distinct (w_children w)"
  by (simp_all add: bones_def erase_def set_prop_def)

lemma skeleton_outline: "skeleton st k = map_option bones (outline st k)"
  by (cases "map_of (windows st) k") (simp_all add: skeleton_def outline_def)

lemma same_skeleton_outline: "same_outline st st' \<Longrightarrow> same_skeleton st st'"
  by (simp add: same_skeleton_def same_outline_def skeleton_outline fun_eq_iff)

lemma same_skeleton_frame: "windows st' = windows st \<Longrightarrow> root_window st' = root_window st \<Longrightarrow> resource_id_base st' = resource_id_base st \<Longrightarrow> same_skeleton st st'"
  by (intro same_skeleton_outline same_outline_frame)

lemma sort_mset: "mset xs = mset ys \<Longrightarrow> sort xs = sort (ys :: 'a :: linorder list)"
  by (rule properties_for_sort [symmetric]) simp_all

lemma same_skeleton_modify:
  assumes "\<And>w. map_of (windows st) k = Some w \<Longrightarrow> bones (f w) = bones w" "\<And>w. w_id (f w) = w_id w"
  shows "same_skeleton st (modify_window k f st)"
proof -
  have "skeleton (modify_window k f st) c = skeleton st c" for c
    using assms(1) by (cases "map_of (windows st) c"; cases "c = k") (simp_all add: skeleton_def modify_window_def)
  then show ?thesis
    using assms(2) by (simp add: same_skeleton_def fun_eq_iff wf_table_def modify_window_def wf_windows_map_entry)
qed

text \<open>No child is listed twice.\<close>

definition tidy :: "input_client \<Rightarrow> bool" where
  "tidy st \<longleftrightarrow> (\<forall>k w. skeleton st k = Some w \<longrightarrow> distinct (w_children w))"

definition listed :: "u32 \<Rightarrow> input_client \<Rightarrow> bool" where
  "listed wid st \<longleftrightarrow> (\<forall>w p. skeleton st wid = Some w \<longrightarrow> skeleton st (w_parent w) = Some p \<longrightarrow> wid \<in> set (w_children p))"

lemma mset_vec_insert: "mset (vec_insert i x xs) = add_mset x (mset xs)"
  using append_take_drop_id [of i xs] by (metis mset.simps(2) mset_append union_mset_add_mset_right vec_insert_def)

lemma mset_insert_above: "mset (insert_above s x xs) = add_mset x (mset xs)"
proof (cases "s \<in> set xs")
  case True
  have "xs = takeWhile (\<lambda>c. c \<noteq> s) xs @ s # tl (dropWhile (\<lambda>c. c \<noteq> s) xs)"
    using True takeWhile_dropWhile_id [of "\<lambda>c. c \<noteq> s" xs]
    by (metis (mono_tags, lifting) dropWhile_eq_Nil_conv hd_dropWhile list.collapse)
  then have "mset xs = mset (takeWhile (\<lambda>c. c \<noteq> s) xs) + add_mset s (mset (tl (dropWhile (\<lambda>c. c \<noteq> s) xs)))"
    by (metis mset.simps(2) mset_append)
  with True show ?thesis by (simp add: insert_above_def)
qed (simp add: insert_above_def)

lemma mset_reinsert:
  assumes "distinct cs" "x \<in> set cs"
  shows "add_mset x {#c \<in># mset cs. c \<noteq> x#} = mset cs"
proof -
  have "insert x {c \<in> set cs. c \<noteq> x} = set cs" using assms(2) by auto
  then have "mset_set (set cs) = mset_set (insert x {c \<in> set cs. c \<noteq> x})" by simp
  also have "\<dots> = add_mset x {#c \<in># mset_set (set cs). c \<noteq> x#}" by (simp add: filter_mset_mset_set)
  finally show ?thesis using mset_set_set [OF assms(1)] by simp
qed

lemma same_skeleton_restack:
  assumes "map_of (windows st) wid = Some w" "tidy st" "listed wid st"
  shows "same_skeleton st (st\<lparr>windows := restack_by_window_type wid (w_parent w) (windows st)\<rparr>)"
proof (cases "map_of (windows st) (w_parent w)")
  case None
  then have "map_of (restack_by_window_type wid (w_parent w) (windows st)) k = map_of (windows st) k" for k
    by (simp add: restack_by_window_type_def Let_def)
  moreover have "wf_windows (restack_by_window_type wid (w_parent w) (windows st))" if "wf_windows (windows st)"
    using that unfolding restack_by_window_type_def Let_def by (intro wf_windows_map_entry) simp_all
  ultimately show ?thesis by (simp add: same_skeleton_def skeleton_def fun_eq_iff wf_table_def)
next
  case p: (Some p)
  have "distinct (w_children (bones p))" using assms(2) p by (auto simp: tidy_def skeleton_def simp del: bones_simps)
  moreover have "wid \<in> set (w_children (bones p))"
    using assms(1,3) p unfolding listed_def skeleton_def by (metis bones_simps(7) option.simps(9))
  ultimately have p: "map_of (windows st) (w_parent w) = Some p" "wid \<in> set (w_children p)" "distinct (w_children p)"
    using p by simp_all
  define cs where "cs = vec_insert (after_last (\<lambda>c. layer_of (windows st) c \<le> layer_of (windows st) wid)
    (filter (\<lambda>c. c \<noteq> wid) (w_children p))) wid (filter (\<lambda>c. c \<noteq> wid) (w_children p))"
  have "sort cs = sort (w_children p)"
    by (rule sort_mset) (simp add: cs_def mset_vec_insert mset_reinsert p)
  then have "bones (p\<lparr>w_children := cs\<rparr>) = bones p" by (simp add: bones_def erase_def)
  then have "map_option bones (map_of (restack_by_window_type wid (w_parent w) (windows st)) k) =
      map_option bones (map_of (windows st) k)" for k
    using restack_parent [OF p(1) refl, of wid, folded cs_def] p(1)
    by (cases "k = w_parent w") (simp_all add: restack_by_window_type_def Let_def)
  moreover have "wf_windows (restack_by_window_type wid (w_parent w) (windows st))" if "wf_windows (windows st)"
    using that unfolding restack_by_window_type_def Let_def by (intro wf_windows_map_entry) simp_all
  ultimately show ?thesis by (simp add: same_skeleton_def skeleton_def fun_eq_iff wf_table_def)
qed

lemma same_skeleton_transient:
  assumes "tidy st"
  shows "same_skeleton st (stack_transient wid st)"
proof -
  have "bones (r\<lparr>w_children := insert_above p wid (filter (\<lambda>c. c \<noteq> wid) (w_children r))\<rparr>) = bones r"
    if "map_of (windows st) (root_window st) = Some r" "wid \<in> set (w_children r)" for r p
  proof -
    have "distinct (w_children r)" using assms that(1) by (force simp: tidy_def skeleton_def)
    then have "sort (insert_above p wid (filter (\<lambda>c. c \<noteq> wid) (w_children r))) = sort (w_children r)"
      by (intro sort_mset) (simp add: mset_insert_above mset_reinsert that(2))
    then show ?thesis by (simp add: bones_def erase_def)
  qed
  then show ?thesis
    unfolding stack_transient_def by (auto split: option.split intro!: same_skeleton_modify)
qed

lemma intern_focus: "intern_atom n b st = (st', a) \<Longrightarrow> focus_window st' = focus_window st \<and> last_entered_window st' = last_entered_window st"
  by (auto simp: intern_atom_def split: prod.splits)

lemma same_outline_send_protocol:
  "same_outline st (send_protocol E n as wid st) \<and> focus_window (send_protocol E n as wid st) = focus_window st"
proof -
  obtain s a where i: "intern_atom n False st = (s, a)" by (rule prod.exhaust)
  obtain t b where j: "intern_atom ''WM_PROTOCOLS'' False s = (t, b)" by (rule prod.exhaust)
  show ?thesis
    unfolding send_protocol_def i j Let_def prod.case using intern_frame [OF i] intern_frame [OF j] intern_focus [OF i] intern_focus [OF j]
    by (auto intro!: same_outline_frame simp: push_event_def)
qed

lemma same_outline_focus_mapped:
  "same_outline st (focus_mapped E wid st)"
  "map_of (windows st) wid = Some w \<Longrightarrow> or_default True (w_hints_input w) \<Longrightarrow> focus_window (focus_mapped E wid st) = wid"
proof -
  define s where "s = (if case map_of (windows st) wid of Some w \<Rightarrow> or_default True (w_hints_input w) | None \<Rightarrow> True
    then set_focus_window E wid st else st)"
  have "focus_mapped E wid st = send_wm_ping E wid (send_wm_take_focus E wid s)"
    by (simp add: focus_mapped_def s_def)
  moreover have "same_outline st s" by (simp add: s_def same_outline_wm)
  moreover have "map_of (windows st) wid = Some w \<Longrightarrow> or_default True (w_hints_input w) \<Longrightarrow> focus_window s = wid"
    using set_focus_window_effect [of st E wid] by (simp add: s_def)
  moreover define t where "t = send_wm_take_focus E wid s"
  ultimately have f: "focus_mapped E wid st = send_wm_ping E wid t" "same_outline st s"
    "map_of (windows st) wid = Some w \<Longrightarrow> or_default True (w_hints_input w) \<Longrightarrow> focus_window s = wid" by simp_all
  have t: "same_outline s t" "focus_window t = focus_window s"
    unfolding t_def send_wm_take_focus_def using same_outline_send_protocol by blast+
  have p: "same_outline t (send_wm_ping E wid t)" "focus_window (send_wm_ping E wid t) = focus_window t"
    unfolding send_wm_ping_def using same_outline_send_protocol by blast+
  show "same_outline st (focus_mapped E wid st)"
    unfolding f(1) by (rule same_outline_trans [OF f(2) same_outline_trans [OF t(1) p(1)]])
  show "map_of (windows st) wid = Some w \<Longrightarrow> or_default True (w_hints_input w) \<Longrightarrow> focus_window (focus_mapped E wid st) = wid"
    unfolding f(1) p(2) t(2) by (rule f(3))
qed

lemma same_outline_allowed: "same_outline st (set_allowed_actions wid st)"
proof -
  have all: "intern_all ns st = (st', as) \<Longrightarrow> same_outline st st'" for ns st st' as
    by (induction ns arbitrary: st st' as)
      (auto simp: Let_def split: prod.splits intro: same_outline_trans same_outline_intern)
  obtain s a where i: "intern_atom ''_NET_WM_ALLOWED_ACTIONS'' False st = (s, a)" by (rule prod.exhaust)
  obtain t as where j: "intern_all allowed_actions s = (t, as)" by (rule prod.exhaust)
  show ?thesis
    unfolding set_allowed_actions_def i j Let_def prod.case
    by (rule same_outline_trans [OF same_outline_trans [OF same_outline_intern [OF i] all [OF j]]
          same_outline_trans [OF same_outline_modify same_outline_frame]]) simp_all
qed

lemma same_outline_default_state: "same_outline st (default_net_wm_state wid st)"
proof -
  obtain s a where i: "intern_atom ''_NET_WM_STATE'' False st = (s, a)" by (rule prod.exhaust)
  show ?thesis
    unfolding default_net_wm_state_def i Let_def prod.case
    by (rule same_outline_trans [OF same_outline_intern [OF i] same_outline_modify]) simp
qed

lemma same_skeleton_place: "same_skeleton st (place_by_hints wid uuid st)"
proof -
  have "same_skeleton st (say m (modify_window wid (\<lambda>w. w\<lparr>w_x := x, w_y := y\<rparr>) st))" for m x y
    by (rule same_skeleton_trans [OF same_skeleton_modify same_skeleton_frame]) simp_all
  then show ?thesis unfolding place_by_hints_def by (auto split: option.split)
qed

lemma tidy_skeleton: "same_skeleton st st' \<Longrightarrow> tidy st' = tidy st" "same_skeleton st st' \<Longrightarrow> listed wid st' = listed wid st"
  by (simp_all add: same_skeleton_def tidy_def listed_def)

text \<open>Completing MapWindow: the properties, the stacking order and the focus.\<close>

lemma same_skeleton_complete:
  assumes "tidy st" "listed wid st"
  shows "same_skeleton st (complete_map E wid st)"
proof -
  define b where "b = (case map_of (windows st) wid of Some w \<Rightarrow> is_top_level w st | None \<Rightarrow> False)"
  define s1 where "s1 = default_net_wm_state wid st"
  define s2 where "s2 = mark_window_shared_dirty wid (if b then set_allowed_actions wid s1 else s1)"
  define s3 where "s3 = (case map_of (windows s2) wid of
    Some w \<Rightarrow> s2\<lparr>windows := restack_by_window_type wid (w_parent w) (windows s2)\<rparr> | None \<Rightarrow> s2)"
  define s4 where "s4 = update_net_client_list (stack_transient wid s3)"
  have r: "complete_map E wid st = (if b then focus_mapped E wid s4 else s4)"
    unfolding complete_map_def Let_def b_def s1_def s2_def s3_def s4_def ..
  have 1: "same_skeleton st s1" unfolding s1_def by (intro same_skeleton_outline same_outline_default_state)
  have "same_skeleton s1 (if b then set_allowed_actions wid s1 else s1)"
    by (simp add: same_skeleton_outline same_outline_allowed)
  then have 2: "same_skeleton s1 s2"
    unfolding s2_def by (rule same_skeleton_trans) (rule same_skeleton_frame, simp_all)
  note 12 = same_skeleton_trans [OF 1 2]
  have 3: "same_skeleton s2 s3"
    using assms tidy_skeleton [OF 12] by (auto simp: s3_def split: option.split intro: same_skeleton_restack)
  note 13 = same_skeleton_trans [OF 12 3]
  have "same_skeleton s3 (stack_transient wid s3)"
    using assms tidy_skeleton [OF 13] by (intro same_skeleton_transient) simp
  then have "same_skeleton s3 s4"
    unfolding s4_def by (rule same_skeleton_trans) (intro same_skeleton_outline same_outline_wm)
  with 13 have "same_skeleton st s4" by (rule same_skeleton_trans)
  then show ?thesis
    unfolding r using same_skeleton_trans [OF _ same_skeleton_outline [OF same_outline_focus_mapped(1)]] by simp
qed

text \<open>The window is mapped, and every other window keeps its place in the tree.\<close>

definition shown :: "u32 \<Rightarrow> input_client \<Rightarrow> input_client \<Rightarrow> bool" where
  "shown wid st st' \<longleftrightarrow>
     skeleton st' = (\<lambda>k. map_option (\<lambda>w. if k = wid then w\<lparr>w_mapped := True\<rparr> else w) (skeleton st k)) \<and>
     root_window st' = root_window st \<and> resource_id_base st' = resource_id_base st \<and> (wf_table st \<longrightarrow> wf_table st')"

lemma shown_before: "same_skeleton a b \<Longrightarrow> shown wid b c \<Longrightarrow> shown wid a c"
  by (simp add: same_skeleton_def shown_def)

lemma shown_after: "shown wid a b \<Longrightarrow> same_skeleton b c \<Longrightarrow> shown wid a c"
  by (simp add: same_skeleton_def shown_def)

lemma shown_skeleton:
  assumes "shown wid st st'"
  shows "skeleton st' k = map_option (\<lambda>w. if k = wid then w\<lparr>w_mapped := True\<rparr> else w) (skeleton st k)"
  using assms by (simp add: shown_def)

lemma tidy_shown: "shown wid st st' \<Longrightarrow> tidy st \<Longrightarrow> tidy st'"
  by (auto simp: shown_skeleton tidy_def split: if_splits)

lemma listed_shown:
  assumes "shown wid st st'" "listed wid st"
  shows "listed wid st'"
  unfolding listed_def
proof (intro allI impI)
  fix w' p' assume "skeleton st' wid = Some w'" "skeleton st' (w_parent w') = Some p'"
  then obtain w p where w: "skeleton st wid = Some w" "w_parent w = w_parent w'" "skeleton st (w_parent w') = Some p"
      "w_children p' = w_children p"
    by (auto simp: shown_skeleton [OF assms(1)] split: if_splits)
  with assms(2) show "wid \<in> set (w_children p')" by (auto simp: listed_def)
qed

lemma shown_parent: "shown wid st st' \<Longrightarrow> map_option w_parent (skeleton st' k) = map_option w_parent (skeleton st k)"
  by (cases "skeleton st k") (simp_all add: shown_def)

lemma show_window_shown:
  assumes "map_of (windows st) wid = Some w" "show_window E wid uuid a st = (st', ev)"
  shows "shown wid st st'"
proof -
  define iconic where "iconic \<longleftrightarrow> is_top_level w st \<and> w_initial_state w = Some 3"
  define v where "v = \<lparr>pv_type = a, pv_format = 32, pv_data = le_bytes 4 (if iconic then 3 else 1 :: u32) @ [0, 0, 0, 0]\<rparr>"
  define s1 where "s1 = modify_window wid (\<lambda>w. set_prop a v (w\<lparr>w_mapped := True,
    w_saved := (if a_backing_store (w_attrs w) \<noteq> 0 then None else w_saved w)\<rparr>)) st"
  define s2 where "s2 = say (WindowMapped (w_owner w) uuid (is_top_level w st) (a_override_redirect (w_attrs w))) s1"
  define s3 where "s3 = (if iconic then say (WindowStateChanged (w_owner w) uuid WmMinimized) s2 else s2)"
  define s4 where "s4 = broadcast_event wid STRUCTURE_NOTIFY
      (structure_bytes E (MapNotifyEv (sequence st) wid wid (a_override_redirect (w_attrs w))) s3)
    (deliver_event (w_parent w) SUBSTRUCTURE_NOTIFY
      (structure_bytes E (MapNotifyEv (sequence st) (w_parent w) wid (a_override_redirect (w_attrs w))) s3) s3)"
  define s5 where "s5 = modify_window wid (\<lambda>w'. w'\<lparr>w_visibility := compute_visibility (windows s4) wid\<rparr>) s4"
  have "skeleton s1 k = map_option (\<lambda>w. if k = wid then w\<lparr>w_mapped := True\<rparr> else w) (skeleton st k)" for k
    by (cases "map_of (windows st) k"; cases "k = wid") (simp_all add: skeleton_def s1_def modify_window_def)
  then have 1: "shown wid st s1"
    by (auto simp: shown_def s1_def modify_window_def wf_table_def wf_windows_map_entry)
  have 2: "same_skeleton s1 s4"
    by (rule same_skeleton_frame) (simp_all add: s4_def s3_def s2_def)
  have 3: "same_skeleton s4 s5" unfolding s5_def by (rule same_skeleton_modify) simp_all
  have "st' = s5 \<or> (\<exists>e. st' = broadcast_event wid EXPOSURE e s5)"
    using assms(2) unfolding show_window_def assms(1) option.case Let_def iconic_def [symmetric] v_def [symmetric]
      s1_def [symmetric] s2_def [symmetric] s3_def [symmetric] s4_def [symmetric] s5_def [symmetric]
    by (simp only: prod.inject split: if_splits prod.splits) blast+
  moreover have "same_skeleton s5 (broadcast_event wid EXPOSURE e s5)" for e by (rule same_skeleton_frame) simp_all
  ultimately show ?thesis using shown_after [OF 1 same_skeleton_trans [OF 2 3]] shown_after by blast
qed

lemma path_from_cong:
  assumes "\<And>k. map_option w_parent (map_of ws' k) = map_option w_parent (map_of ws k)"
  shows "path_from n ws' root w = path_from n ws root w"
proof (induction n arbitrary: w)
  case (Suc n)
  show ?case
  proof (cases "map_of ws w")
    case None
    moreover have "map_of ws' w = None" using assms [of w] None by simp
    ultimately show ?thesis by simp
  next
    case (Some v)
    then obtain v' where "map_of ws' w = Some v'" "w_parent v' = w_parent v" using assms [of w] by auto
    with Some show ?thesis by (simp add: Suc.IH)
  qed
qed simp

lemma ancestor_path_shown:
  assumes "shown wid st st'"
  shows "ancestor_path (windows st') k root = ancestor_path (windows st) k root"
proof -
  have "map_option w_parent (map_of (windows st') c) = map_option w_parent (map_of (windows st) c)" for c
    using shown_parent [OF assms, of c]
    by (cases "map_of (windows st') c"; cases "map_of (windows st) c") (simp_all add: skeleton_def)
  from path_from_cong [where ws = "windows st" and ws' = "windows st'" and n = MAX_TREE_DEPTH and root = root and w = k, OF this]
  show ?thesis unfolding ancestor_path_def by (simp only:)
qed

lemma crossing_returns:
  assumes "root_window st \<in> set (ancestor_path (windows st) new (root_window st))" "new \<noteq> root_window st"
  shows "\<exists>bs. build_crossing_events E new x y st = Some (st\<lparr>last_entered_window := new\<rparr>, bs)"
proof (cases "last_entered_window st = new")
  case False
  define old where "old = last_entered_window st"
  define P N where "P = ancestor_path (windows st) old (root_window st)"
    and "N = ancestor_path (windows st) new (root_window st)"
  have hd: "hd P = old" "P \<noteq> []" "hd N = new" "N \<noteq> []" by (simp_all add: P_def N_def ancestor_path_def)
  have b: "\<exists>m. between v P = Some m" if "v \<noteq> old" for v using between_Some [of v P] hd that by auto
  have c: "\<exists>m. between v N = Some m" if "v \<noteq> new" for v using between_Some [of v N] hd that by auto
  have root: "root_window st \<in> set N" using assms(1) by (simp add: N_def)
  define lca where "lca = (case find (\<lambda>w. w \<in> set P) N of Some w \<Rightarrow> w | None \<Rightarrow> root_window st)"
  have lca: "lca \<noteq> old \<and> lca \<noteq> new" if "old \<notin> set N" "new \<notin> set P"
  proof (cases "find (\<lambda>w. w \<in> set P) N")
    case None
    with root that(1) show ?thesis using assms(2) by (auto simp: lca_def)
  next
    case (Some v)
    then have "v \<in> set N" "v \<in> set P" by (auto simp: find_Some_iff)
    with Some that show ?thesis by (auto simp: lca_def)
  qed
  have "\<exists>plan. crossing_plan (root_window st) old new P N = Some plan"
  proof -
    consider "old \<in> set N" | "old \<notin> set N" "new \<in> set P" | "old \<notin> set N" "new \<notin> set P" by blast
    then show ?thesis
    proof cases
      case 1
      then show ?thesis using c [of old] False by (auto simp: crossing_plan_def old_def)
    next
      case 2
      then show ?thesis using b [of new] False by (auto simp: crossing_plan_def old_def)
    next
      case 3
      then show ?thesis using b [of lca] c [of lca] lca
        by (auto simp: crossing_plan_def lca_def [symmetric])
    qed
  qed
  with False show ?thesis
    by (auto simp: build_crossing_events_def build_crossing_events_with_mode_def Let_def P_def N_def old_def)
qed (auto simp: build_crossing_events_def build_crossing_events_with_mode_def)

lemma enter_mapped_returns:
  assumes "root_window st \<in> set (ancestor_path (windows st) wid (root_window st))" "wid \<noteq> root_window st"
  shows "\<exists>st' bs. enter_mapped E wid st = Some (st', bs) \<and> windows st' = windows st \<and>
    root_window st' = root_window st \<and> resource_id_base st' = resource_id_base st \<and> focus_window st' = focus_window st"
proof (cases "map_of (windows st) wid")
  case (Some w)
  from crossing_returns [OF assms, of E "pointer_x st" "pointer_y st"] Some show ?thesis
    by (auto simp: enter_mapped_def)
qed (simp add: enter_mapped_def)

lemma map_window_shown:
  assumes "map_of (windows st) wid = Some w" "\<not> redirected w st" "\<not> w_mapped w" "resolve_uuid wid st = Some uuid"
    and "tidy st" "listed wid st" "root_window st \<in> set (ancestor_path (windows st) wid (root_window st))" "wid \<noteq> root_window st"
  shows "\<exists>st' ev. handle_map_window E wid st = Some (st', ev) \<and> shown wid st st'"
proof -
  obtain s1 a where i: "intern_atom ''WM_STATE'' False st = (s1, a)" by (rule prod.exhaust)
  define s2 where "s2 = place_by_hints wid uuid s1"
  obtain s3 ev where sh: "show_window E wid uuid a s2 = (s3, ev)" by (rule prod.exhaust)
  have "same_skeleton st s1" by (rule same_skeleton_outline [OF same_outline_intern [OF i]])
  then have 2: "same_skeleton st s2" unfolding s2_def by (rule same_skeleton_trans) (rule same_skeleton_place)
  obtain v where v: "map_of (windows s2) wid = Some v"
    using assms(1) 2 by (cases "map_of (windows s2) wid") (auto simp: same_skeleton_def skeleton_def dest!: fun_cong [of _ _ wid])
  have 3: "shown wid st s3" by (rule shown_before [OF 2 show_window_shown [OF v sh]])
  have 4: "shown wid st (complete_map E wid s3)"
    by (rule shown_after [OF 3 same_skeleton_complete [OF tidy_shown [OF 3 assms(5)] listed_shown [OF 3 assms(6)]]])
  have root: "root_window (complete_map E wid s3) = root_window st" using 4 by (simp add: shown_def)
  have path: "root_window (complete_map E wid s3) \<in> set (ancestor_path (windows (complete_map E wid s3)) wid
      (root_window (complete_map E wid s3)))" "wid \<noteq> root_window (complete_map E wid s3)"
    using assms(7,8) by (simp_all add: root ancestor_path_shown [OF 4])
  from enter_mapped_returns [OF path, of E] obtain s5 bs where
    s5: "enter_mapped E wid (complete_map E wid s3) = Some (s5, bs)" "windows s5 = windows (complete_map E wid s3)"
      "root_window s5 = root_window (complete_map E wid s3)"
      "resource_id_base s5 = resource_id_base (complete_map E wid s3)" by blast
  have "handle_map_window E wid st = Some (s5, ev @ bs)"
    unfolding handle_map_window_def assms(1,4) option.case Let_def i prod.case s2_def [symmetric] sh s5(1)
    using assms(2,3) by simp
  with shown_after [OF 4 same_skeleton_frame [OF s5(2-4)]] show ?thesis by blast
qed

lemma kids_ok_tidy: "kids_ok st \<Longrightarrow> tidy st"
proof -
  assume "kids_ok st"
  then have "distinct (w_children w)" if "map_of (windows st) k = Some w" for k w
  proof -
    have "core st k = Some (if k = root_window st then w\<lparr>w_properties := []\<rparr> else w)" using that by (simp add: core_def)
    with \<open>kids_ok st\<close> have "distinct (w_children (if k = root_window st then w\<lparr>w_properties := []\<rparr> else w))"
      unfolding kids_ok_def by blast
    then show ?thesis by (simp split: if_splits)
  qed
  then show ?thesis by (auto simp: tidy_def skeleton_def)
qed

lemma listedI: "map_of (windows st) wid = Some w \<Longrightarrow> map_of (windows st) (w_parent w) = Some p \<Longrightarrow> wid \<in> set (w_children p) \<Longrightarrow> listed wid st"
  by (simp add: listed_def skeleton_def)

lemma map_window_redirected:
  assumes "map_of (windows st) wid = Some w" "redirected w st"
  shows "\<exists>st'. handle_map_window E wid st = Some (st', []) \<and> windows st' = windows st"
  using assms by (simp add: handle_map_window_def Let_def)

lemma unmapped_skeleton:
  assumes "unmapped D st st'"
  shows "skeleton st' k = map_option (\<lambda>w. if k \<in> D then w\<lparr>w_mapped := False\<rparr> else w) (skeleton st k)"
  using assms by (cases "outline st k") (simp_all add: skeleton_outline unmapped_def)

lemma outline_shown:
  assumes "shown wid st st'"
  shows "map_option w_parent (outline st' k) = map_option w_parent (outline st k)"
    "map_option w_transient_for (outline st' k) = map_option w_transient_for (outline st k)"
    "map_option w_mapped (outline st' k) = map_option (\<lambda>m. k = wid \<or> m) (map_option w_mapped (outline st k))"
proof -
  have t: "w_transient_for (bones w) = w_transient_for w" for w by (simp add: bones_def)
  note s = shown_skeleton [OF assms, of k, unfolded skeleton_def]
  show "map_option w_parent (outline st' k) = map_option w_parent (outline st k)"
    using arg_cong [OF s, of "map_option w_parent"]
    by (cases "map_of (windows st') k"; cases "map_of (windows st) k") (simp_all add: outline_def split: if_splits)
  show "map_option w_transient_for (outline st' k) = map_option w_transient_for (outline st k)"
    using arg_cong [OF s, of "map_option w_transient_for"]
    by (cases "map_of (windows st') k"; cases "map_of (windows st) k") (simp_all add: outline_def t split: if_splits)
  show "map_option w_mapped (outline st' k) = map_option (\<lambda>m. k = wid \<or> m) (map_option w_mapped (outline st k))"
    using arg_cong [OF s, of "map_option w_mapped"]
    by (cases "map_of (windows st') k"; cases "map_of (windows st) k") (simp_all add: outline_def split: if_splits)
qed

lemma mapped_set_alt: "mapped_set st = {k. map_option w_mapped (outline st k) = Some True}"
  by (auto simp: mapped_set_def)

lemma transient_of_alt: "transient_of st k = Option.bind (map_option w_transient_for (outline st k)) id"
  by (cases "outline st k") (simp_all add: transient_of_def)

lemma shown_sets:
  assumes "shown wid st st'" "outline st wid \<noteq> None"
  shows "mapped_set st' = insert wid (mapped_set st)" "transient_of st' = transient_of st" "parented st' = parented st"
proof -
  show "mapped_set st' = insert wid (mapped_set st)"
    using assms(2) by (auto simp: mapped_set_alt outline_shown(3) [OF assms(1)])
  show "transient_of st' = transient_of st"
    by (rule ext) (simp only: transient_of_alt outline_shown(2) [OF assms(1)])
  have "outline st' 0 = None \<longleftrightarrow> outline st 0 = None" using outline_shown(1) [OF assms(1), of 0] by (metis option.map_disc_iff)
  moreover have "root_window st' = root_window st" using assms(1) by (simp add: shown_def)
  ultimately show "parented st' = parented st" by (simp only: parented_def outline_shown(1) [OF assms(1)])
qed

section \<open>Properties\<close>

text \<open>C6. UnmapWindow ends and unmaps a group: when the table is well formed, every window but the root has
  a parent and the root has none, the nested calls for transient windows end within the number of windows
  without a panic, the window and the mapped windows that are transient for it, directly or through other
  mapped windows, are unmapped (also when they are transient for each other in a circle), and of all
  windows nothing else changes but properties, visibility and saved pixels.\<close>

theorem unmap_window_exact:
  assumes "wf_windows (windows st)" "parented st"
  shows "\<exists>st' ev. handle_unmap_window E wid st = Some (st', ev) \<and>
    (\<forall>k. outline st' k = map_option (\<lambda>w. if k \<in> unmap_group (transient_of st) (mapped_set st) wid
                                        then w\<lparr>w_mapped := False\<rparr> else w) (outline st k))"
proof -
  have "card (mapped_set st) < length (windows st) + 1" using finite_mapped(2) [of st] by simp
  from unmap_window_effect [OF _ assms(2) this, of E wid] assms(1) show ?thesis
    by (auto simp: wf_table_def handle_unmap_window_def unmapped_def)
qed

text \<open>C15. MapWindow maps one window or asks: when the parent is managed by another client, or a client
  has selected SubstructureRedirect on it, no window changes; otherwise a window that is not mapped, lies
  below the root and is listed by its parent is mapped without a panic, and of every window the parent,
  the set of its children and all attributes are as before.\<close>

theorem map_window_exact:
  assumes "kids_ok st" "map_of (windows st) wid = Some w"
  shows "(redirected w st \<longrightarrow> (\<exists>st'. handle_map_window E wid st = Some (st', []) \<and> windows st' = windows st)) \<and>
    (\<not> redirected w st \<and> \<not> w_mapped w \<and> resolve_uuid wid st = Some uuid \<and>
     map_of (windows st) (w_parent w) = Some p \<and> wid \<in> set (w_children p) \<and> wid \<noteq> root_window st \<and>
     root_window st \<in> set (ancestor_path (windows st) wid (root_window st)) \<longrightarrow>
       (\<exists>st' ev. handle_map_window E wid st = Some (st', ev) \<and>
          (\<forall>k. skeleton st' k = map_option (\<lambda>w. if k = wid then w\<lparr>w_mapped := True\<rparr> else w) (skeleton st k))))"
proof (intro conjI impI)
  show "redirected w st \<Longrightarrow> \<exists>st'. handle_map_window E wid st = Some (st', []) \<and> windows st' = windows st"
    by (rule map_window_redirected [OF assms(2)])
  assume "\<not> redirected w st \<and> \<not> w_mapped w \<and> resolve_uuid wid st = Some uuid \<and>
     map_of (windows st) (w_parent w) = Some p \<and> wid \<in> set (w_children p) \<and> wid \<noteq> root_window st \<and>
     root_window st \<in> set (ancestor_path (windows st) wid (root_window st))"
  then show "\<exists>st' ev. handle_map_window E wid st = Some (st', ev) \<and>
      (\<forall>k. skeleton st' k = map_option (\<lambda>w. if k = wid then w\<lparr>w_mapped := True\<rparr> else w) (skeleton st k))"
    using map_window_shown [OF assms(2) _ _ _ kids_ok_tidy [OF assms(1)] listedI [OF assms(2), of p]] shown_skeleton by blast
qed


text \<open>The Expose events of MapWindow count windows, not the events still to come for the same window:
  when a window with mapped windows below it is shown, only the last of these can get a count of 0, so the
  window itself never does, and nobody does if the last one has not selected Exposure. Clients that
  redraw at a count of 0 do not redraw.\<close>

theorem expose_count_spans_windows:
  assumes "mapped_descendants wid ws = ds @ [d]" "length ds < 65535"
    and "ExposeEv seq v wd ht 0 \<in> set (snd (map_exposures seq wid w ws))"
  shows "v = w_id d \<and> (case map_of ws v of Some u \<Rightarrow> w_event_mask u | None \<Rightarrow> 0) AND EXPOSURE \<noteq> 0"
proof -
  have nz: "(of_nat n :: u16) \<noteq> 0" if "0 < n" "n < 65536" for n
    using that by (simp add: word_unat_eq_iff unat_of_nat)
  define base :: nat where "base = (if w_event_mask w AND EXPOSURE \<noteq> 0 then 1 else 0)"
  define n where "n = base + Suc (length ds)"
  from assms(3) consider "base = 1" "(of_nat (n - 1) :: u16) = 0"
    | i e where "(i, e) \<in> set (List.enumerate 0 (ds @ [d]))" "v = w_id e" "(of_nat (n - (base + 1 + i)) :: u16) = 0"
        "(case map_of ws v of Some u \<Rightarrow> w_event_mask u | None \<Rightarrow> 0) AND EXPOSURE \<noteq> 0"
    unfolding map_exposures_def Let_def assms(1) base_def [symmetric]
    by (auto simp: n_def split: if_splits prod.splits)
  then show ?thesis
  proof cases
    case 1
    with nz [of "n - 1"] assms(2) show ?thesis by (simp add: n_def)
  next
    case (2 i e)
    from 2(1) have i: "i \<le> length ds" "e = (ds @ [d]) ! i" by (auto simp: in_set_enumerate_eq)
    have "i = length ds"
    proof (rule ccontr)
      assume "i \<noteq> length ds"
      with i(1) have "0 < n - (base + 1 + i)" "n - (base + 1 + i) < 65536" using assms(2) by (auto simp: n_def)
      from nz [OF this] 2(3) show False by simp
    qed
    with i(2) 2(2,4) show ?thesis by simp
  qed
qed

section \<open>Witnesses\<close>

text \<open>A main window that is not mapped and, transient for each other, two mapped dialogs.\<close>

definition demo_map :: input_client where
  "demo_map = demo_life\<lparr>x11_to_uuid := [0x400001 \<mapsto> ''u''], windows :=
     [(9, (window_at 0 0 0 800 600 [0x400001, 0x400003, 0x400004])\<lparr>w_id := 9\<rparr>),
      (0x400001, (window_at 9 0 0 80 60 [0x400002])\<lparr>w_id := 0x400001, w_mapped := False\<rparr>),
      (0x400002, (window_at 0x400001 0 0 8 6 [])\<lparr>w_id := 0x400002\<rparr>),
      (0x400003, (window_at 9 0 0 8 6 [])\<lparr>w_id := 0x400003, w_transient_for := Some 0x400004\<rparr>),
      (0x400004, (window_at 9 0 0 8 6 [])\<lparr>w_id := 0x400004, w_transient_for := Some 0x400003\<rparr>)]\<rparr>"

lemma demo_map_root [simp]: "root_window demo_map = 9"
  by (simp add: demo_map_def demo_life_def)

lemma demo_map_kids: "kids_ok demo_map"
  unfolding kids_ok_def core_def demo_map_root by (auto simp: demo_map_def window_at_def split: if_splits)

lemma demo_map_wf: "wf_windows (windows demo_map)"
  by (simp add: wf_windows_def wf_hashmap_def demo_map_def)

lemma demo_map_parented: "parented demo_map"
  unfolding parented_def outline_def demo_map_root
  by (auto simp: demo_map_def window_at_def erase_def split: if_splits)

lemma demo_map_transient: "transient_of demo_map c \<noteq> Some 0x400001"
  by (auto simp: transient_of_def outline_def demo_map_def window_at_def erase_def split: if_splits)

theorem unmap_window_exact_witness:
  "\<exists>st' ev. handle_unmap_window demo_encoders 0x400003 demo_map = Some (st', ev) \<and>
     map_option w_mapped (outline st' 0x400003) = Some False \<and> map_option w_mapped (outline st' 0x400004) = Some False"
proof -
  have mem: "0x400003 \<in> mapped_set demo_map" "0x400004 \<in> mapped_set demo_map" "transient_of demo_map 0x400004 = Some 0x400003"
    by (simp_all add: mapped_set_def transient_of_def outline_def demo_map_def window_at_def erase_def)
  then have "follows (transient_of demo_map) (mapped_set demo_map) 0x400003 0x400004" by (simp add: follows_def)
  with mem have "0x400003 \<in> unmap_group (transient_of demo_map) (mapped_set demo_map) 0x400003"
    "0x400004 \<in> unmap_group (transient_of demo_map) (mapped_set demo_map) 0x400003"
    by (auto simp: unmap_group_def)
  moreover have "outline demo_map 0x400003 \<noteq> None" "outline demo_map 0x400004 \<noteq> None"
    by (simp_all add: outline_def demo_map_def)
  ultimately show ?thesis
    using unmap_window_exact [OF demo_map_wf demo_map_parented, of demo_encoders "0x400003"] by fastforce
qed

lemma demo_map_path: "root_window demo_map \<in> set (ancestor_path (windows demo_map) 0x400001 (root_window demo_map))"
  unfolding demo_map_root by code_simp

lemma demo_map_window:
  "map_of (windows demo_map) 0x400001 = Some ((window_at 9 0 0 80 60 [0x400002])\<lparr>w_id := 0x400001, w_mapped := False\<rparr>)"
  "map_of (windows demo_map) 9 = Some ((window_at 0 0 0 800 600 [0x400001, 0x400003, 0x400004])\<lparr>w_id := 9\<rparr>)"
  by (simp_all add: demo_map_def)

lemma demo_map_direct:
  "\<not> redirected ((window_at 9 0 0 80 60 [0x400002])\<lparr>w_id := 0x400001, w_mapped := False\<rparr>) demo_map"
  "resolve_uuid 0x400001 demo_map = Some ''u''"
  by code_simp+

theorem map_window_exact_witness:
  "\<exists>st' ev. handle_map_window demo_encoders 0x400001 demo_map = Some (st', ev) \<and>
     map_option w_mapped (skeleton st' 0x400001) = Some True"
proof -
  have "skeleton demo_map 0x400001 \<noteq> None" by (simp add: skeleton_def demo_map_window)
  then show ?thesis
    using map_window_exact [OF demo_map_kids demo_map_window(1), of demo_encoders "''u''"] demo_map_window(2)
      demo_map_direct demo_map_path by (fastforce simp: window_at_def)
qed


theorem expose_count_spans_windows_witness:
  "snd (map_exposures 1 5 (window_at 1 0 0 80 60 [6])
     [(1, (window_at 0 0 0 800 600 [5])\<lparr>w_id := 1\<rparr>), (5, (window_at 1 0 0 80 60 [6])\<lparr>w_id := 5\<rparr>),
      (6, (window_at 5 0 0 8 6 [])\<lparr>w_id := 6, w_event_mask := 0x8000\<rparr>)]) = [ExposeEv 1 6 8 6 0] \<and>
   (case map_of [(1, (window_at 0 0 0 800 600 [5])\<lparr>w_id := 1\<rparr>), (5, (window_at 1 0 0 80 60 [6])\<lparr>w_id := 5\<rparr>),
      (6, (window_at 5 0 0 8 6 [])\<lparr>w_id := 6, w_event_mask := 0x8000\<rparr>)] (6 :: u32) of
      Some u \<Rightarrow> w_event_mask u | None \<Rightarrow> 0) AND EXPOSURE \<noteq> 0"
proof -
  define ws where "ws = [(1, (window_at 0 0 0 800 600 [5])\<lparr>w_id := 1\<rparr>), (5, (window_at 1 0 0 80 60 [6])\<lparr>w_id := 5\<rparr>),
      (6 :: u32, (window_at 5 0 0 8 6 [])\<lparr>w_id := 6, w_event_mask := 0x8000\<rparr>)]"
  have d: "mapped_descendants 5 ws = [] @ [(window_at 5 0 0 8 6 [])\<lparr>w_id := 6, w_event_mask := 0x8000\<rparr>]"
    unfolding ws_def by code_simp
  have e: "snd (map_exposures 1 5 (window_at 1 0 0 80 60 [6]) ws) = [ExposeEv 1 6 8 6 0]"
    unfolding ws_def by code_simp
  have "ExposeEv 1 6 8 6 0 \<in> set (snd (map_exposures 1 5 (window_at 1 0 0 80 60 [6]) ws))" by (simp add: e)
  from expose_count_spans_windows [OF d _ this] e show ?thesis by (simp add: ws_def)
qed

end
