(* ===== verification/Configure.thy ===== *)
theory Configure
  imports Map_Window
begin

text \<open>
  ReparentWindow, ConfigureWindow and CirculateWindow (\<open>handlers/window/configure.rs\<close>), window gravity
  (\<open>handlers/window/mod.rs\<close>), the size hints of ICCCM (\<open>client/focus.rs\<close>) and the ConfigureNotify events of
  PRESENT (\<open>handlers/present.rs\<close>). Of a framebuffer only the size is kept.

  A handler returns the bytes it sends at once: an error or events. ReparentWindow may panic where the
  MapWindow it performs does.
\<close>

unbundle bit_operations_syntax

section \<open>Size hints\<close>

record size_hints =
  min_width :: u16
  min_height :: u16
  max_width :: u16
  max_height :: u16
  width_inc :: u16
  height_inc :: u16
  base_width :: u16
  base_height :: u16

definition P_MIN_SIZE :: u32 where "P_MIN_SIZE = 0x10"
definition P_MAX_SIZE :: u32 where "P_MAX_SIZE = 0x20"
definition P_RESIZE_INC :: u32 where "P_RESIZE_INC = 0x40"
definition P_BASE_SIZE :: u32 where "P_BASE_SIZE = 0x100"

definition get_size_hints :: "u32 \<Rightarrow> input_client \<Rightarrow> size_hints option" where
  "get_size_hints wid st =
     map_option (\<lambda>d.
       let flags = read_u32_word d 0;
           hint = (\<lambda>flag i. if flags AND flag \<noteq> 0 then ucast (read_u32_word d i) else 0)
       in \<lparr>min_width = hint P_MIN_SIZE 5, min_height = hint P_MIN_SIZE 6,
           max_width = hint P_MAX_SIZE 7, max_height = hint P_MAX_SIZE 8,
           width_inc = hint P_RESIZE_INC 9, height_inc = hint P_RESIZE_INC 10,
           base_width = hint P_BASE_SIZE 13, base_height = hint P_BASE_SIZE 14\<rparr>)
       (normal_hints wid st)"

text \<open>A size rounded down to the increments and brought into the range; the code has it once for the width and
  once for the height.\<close>

definition constrain :: "u16 \<Rightarrow> u16 \<Rightarrow> u16 \<Rightarrow> u16 \<Rightarrow> u16 \<Rightarrow> u16" where
  "constrain lo hi inc base v =
     (let b = (if base > 0 then base else lo);
          v = (if inc > 1 \<and> v > b then v - (v - b) mod inc else v);
          v = (if lo > 0 \<and> v < lo then lo else v)
      in if hi > 0 \<and> v > hi then hi else v)"

definition hinted_width :: "size_hints option \<Rightarrow> u32 \<Rightarrow> u16" where
  "hinted_width hints v =
     (case hints of Some h \<Rightarrow> constrain (min_width h) (max_width h) (width_inc h) (base_width h) (ucast v) | None \<Rightarrow> ucast v)"

definition hinted_height :: "size_hints option \<Rightarrow> u32 \<Rightarrow> u16" where
  "hinted_height hints v =
     (case hints of Some h \<Rightarrow> constrain (min_height h) (max_height h) (height_inc h) (base_height h) (ucast v) | None \<Rightarrow> ucast v)"

section \<open>Window gravity\<close>

text \<open>\<open>d / 2\<close> on \<open>i16\<close>, rounded towards zero.\<close>

definition half :: "i16 \<Rightarrow> i16" where
  "half d = word_of_int (sgn (sint d) * (\<bar>sint d\<bar> div 2))"

definition win_gravity_delta :: "u8 \<Rightarrow> i16 \<Rightarrow> i16 \<Rightarrow> i16 \<times> i16" where
  "win_gravity_delta gravity dw dh =
     (if gravity = 2 then (half dw, 0) else if gravity = 3 then (dw, 0)
      else if gravity = 4 then (0, half dh) else if gravity = 5 then (half dw, half dh)
      else if gravity = 6 then (dw, half dh) else if gravity = 7 then (0, dh)
      else if gravity = 8 then (half dw, dh) else if gravity = 9 then (dw, dh) else (0, 0))"

definition unmap_for_gravity :: "encoders \<Rightarrow> u32 \<Rightarrow> u32 \<Rightarrow> input_client \<Rightarrow> input_client" where
  "unmap_for_gravity E wid child st =
     (let ev = structure_bytes E (UnmapNotifyEv (sequence st) child child) st;
          parent_ev = structure_bytes E (UnmapNotifyEv (sequence st) wid child) st
      in broadcast_event wid SUBSTRUCTURE_NOTIFY parent_ev (broadcast_event child STRUCTURE_NOTIFY ev
           (push_event ev (modify_window child (\<lambda>c. c\<lparr>w_mapped := False\<rparr>) st))))"

definition map_for_gravity :: "encoders \<Rightarrow> u32 \<Rightarrow> u32 \<Rightarrow> input_client \<Rightarrow> input_client" where
  "map_for_gravity E wid child st =
     (let ev = structure_bytes E (MapNotifyEv (sequence st) child child False) st;
          parent_ev = structure_bytes E (MapNotifyEv (sequence st) wid child False) st
      in broadcast_event wid SUBSTRUCTURE_NOTIFY parent_ev (broadcast_event child STRUCTURE_NOTIFY ev
           (push_event ev (modify_window child (\<lambda>c. c\<lparr>w_mapped := True\<rparr>) st))))"

definition move_child :: "encoders \<Rightarrow> u32 \<Rightarrow> i16 \<Rightarrow> i16 \<Rightarrow> u32 \<Rightarrow> input_client \<Rightarrow> input_client" where
  "move_child E wid dx dy child st =
     (case map_of (windows st) child of
        None \<Rightarrow> st
      | Some c \<Rightarrow>
          (let cx = saturating_add_i16 (w_x c) dx; cy = saturating_add_i16 (w_y c) dy;
               ev = structure_bytes E (GravityNotifyEv (sequence st) child wid cx cy) st;
               parent_ev = structure_bytes E (GravityNotifyEv (sequence st) wid wid cx cy) st
           in broadcast_event wid SUBSTRUCTURE_NOTIFY parent_ev (broadcast_event child STRUCTURE_NOTIFY ev
                (push_event ev (modify_window child (\<lambda>c. c\<lparr>w_x := cx, w_y := cy\<rparr>) st)))))"

definition gravity_step :: "encoders \<Rightarrow> u32 \<Rightarrow> i16 \<Rightarrow> i16 \<Rightarrow> u32 \<Rightarrow> input_client \<times> u32 list \<Rightarrow> input_client \<times> u32 list" where
  "gravity_step E wid dw dh child = (\<lambda>(st, unmap_children).
     (let wg = or_default 1 (map_of (win_gravity st) child)
      in if wg = 0
         then (case map_of (windows st) child of
                 Some c \<Rightarrow> if w_mapped c then (unmap_for_gravity E wid child st, unmap_children @ [child])
                           else (st, unmap_children)
               | None \<Rightarrow> (st, unmap_children))
         else (let (dx, dy) = win_gravity_delta wg dw dh
               in if dx \<noteq> 0 \<or> dy \<noteq> 0 then (move_child E wid dx dy child st, unmap_children)
                  else (st, unmap_children))))"

definition apply_win_gravity :: "encoders \<Rightarrow> u32 \<Rightarrow> i16 \<Rightarrow> i16 \<Rightarrow> u32 list \<Rightarrow> input_client \<Rightarrow> input_client" where
  "apply_win_gravity E wid dw dh old_children st =
     (if dw \<noteq> 0 \<or> dh \<noteq> 0
      then (let (st, unmap_children) = fold (gravity_step E wid dw dh) old_children (st, [])
            in fold (map_for_gravity E wid) unmap_children st)
      else st)"

section \<open>Stacking\<close>

definition insert_below :: "u32 \<Rightarrow> u32 \<Rightarrow> u32 list \<Rightarrow> u32 list" where
  "insert_below sib wid cs =
     (if sib \<in> set cs then takeWhile (\<lambda>c. c \<noteq> sib) cs @ [wid] @ dropWhile (\<lambda>c. c \<noteq> sib) cs else wid # cs)"

text \<open>The outer rectangle of a window, with its border, in \<open>i32\<close>.\<close>

definition outer_rect :: "window_state \<Rightarrow> int \<times> int \<times> int \<times> int" where
  "outer_rect w =
     (sint (w_x w), sint (w_y w), uint (w_width w) + 2 * uint (a_border_width (w_attrs w)),
      uint (w_height w) + 2 * uint (a_border_width (w_attrs w)))"

definition rects_overlap :: "int \<times> int \<times> int \<times> int \<Rightarrow> int \<times> int \<times> int \<times> int \<Rightarrow> bool" where
  "rects_overlap a b =
     (let (ax, ay, aw, ah) = a; (bx, by, bw, bh) = b
      in ax < bx + bw \<and> ax + aw > bx \<and> ay < by + bh \<and> ay + ah > by)"

definition overlaps :: "windows_t \<Rightarrow> window_state \<Rightarrow> u32 \<Rightarrow> bool" where
  "overlaps ws w c =
     (case map_of ws c of Some s \<Rightarrow> rects_overlap (outer_rect w) (outer_rect s) | None \<Rightarrow> False)"

text \<open>Whether a sibling above position \<open>k\<close> of the children overlaps the window, or only the given one if it
  lies above; and the same below.\<close>

definition occluded_by_above :: "windows_t \<Rightarrow> window_state \<Rightarrow> nat \<Rightarrow> u32 list \<Rightarrow> u32 \<Rightarrow> bool" where
  "occluded_by_above ws w k cs sibling =
     (if sibling \<noteq> 0
      then (case position (\<lambda>c. c = sibling) cs of Some i \<Rightarrow> i > k \<and> overlaps ws w sibling | None \<Rightarrow> False)
      else list_ex (overlaps ws w) (drop (Suc k) cs))"

definition occludes_below :: "windows_t \<Rightarrow> window_state \<Rightarrow> nat \<Rightarrow> u32 list \<Rightarrow> u32 \<Rightarrow> bool" where
  "occludes_below ws w k cs sibling =
     (if sibling \<noteq> 0
      then (case position (\<lambda>c. c = sibling) cs of Some i \<Rightarrow> i < k \<and> overlaps ws w sibling | None \<Rightarrow> False)
      else list_ex (overlaps ws w) (take k cs))"

text \<open>The new stacking order of the children and whether the window was raised.\<close>

definition stacked :: "windows_t \<Rightarrow> u32 \<Rightarrow> window_state \<Rightarrow> u8 \<Rightarrow> u32 \<Rightarrow> u32 list \<Rightarrow> u32 list \<times> bool" where
  "stacked ws wid w mode sibling cs =
     (let rest = filter (\<lambda>c. c \<noteq> wid) cs
      in if mode = 0
         then (if sibling \<noteq> 0 then insert_above sibling wid rest
               else vec_insert (after_last (\<lambda>c. layer_of ws c \<le> layer_of ws wid) rest) wid rest, True)
         else if mode = 1
         then (if sibling \<noteq> 0 then insert_below sibling wid rest
               else vec_insert (case position (\<lambda>c. layer_of ws c \<ge> layer_of ws wid) rest of Some i \<Rightarrow> i | None \<Rightarrow> length rest)
                      wid rest, False)
         else
           (case position (\<lambda>c. c = wid) cs of
              None \<Rightarrow> (cs, False)
            | Some k \<Rightarrow>
                (let over = occluded_by_above ws w k cs sibling; under = occludes_below ws w k cs sibling
                 in if mode = 2 then (if over then (rest @ [wid], True) else (cs, False))
                    else if mode = 3 then (if under then (wid # rest, False) else (cs, False))
                    else if over then (rest @ [wid], True)
                    else if under then (wid # rest, False) else (cs, False))))"

definition restack :: "u32 \<Rightarrow> window_state \<Rightarrow> u8 \<Rightarrow> u32 \<Rightarrow> input_client \<Rightarrow> input_client \<times> bool" where
  "restack wid w mode sibling st =
     (case map_of (windows st) (w_parent w) of
        Some p \<Rightarrow>
          (let (cs, raised) = stacked (windows st) wid w mode sibling (w_children p)
           in (modify_window (w_parent w) (\<lambda>p. p\<lparr>w_children := cs\<rparr>) st, raised))
      | None \<Rightarrow> (st, mode = 0))"

section \<open>ConfigureWindow\<close>

record configure_values =
  cv_x :: "i32 option"
  cv_y :: "i32 option"
  cv_width :: "u32 option"
  cv_height :: "u32 option"
  cv_border_width :: "u32 option"
  cv_sibling :: "u32 option"
  cv_stack_mode :: "u32 option"

definition RESIZE_REDIRECT :: u32 where "RESIZE_REDIRECT = 0x40000"

definition config_mask :: "configure_values \<Rightarrow> u16" where
  "config_mask v =
     (if cv_x v \<noteq> None then 1 else 0) OR (if cv_y v \<noteq> None then 2 else 0) OR
     (if cv_width v \<noteq> None then 4 else 0) OR (if cv_height v \<noteq> None then 8 else 0) OR
     (if cv_border_width v \<noteq> None then 16 else 0) OR (if cv_sibling v \<noteq> None then 32 else 0) OR
     (if cv_stack_mode v \<noteq> None then 64 else 0)"

definition configure_request :: "u32 \<Rightarrow> configure_values \<Rightarrow> window_state \<Rightarrow> configure_request_event" where
  "configure_request wid v w =
     \<lparr>cr_stack_mode = (case cv_stack_mode v of Some m \<Rightarrow> ucast m | None \<Rightarrow> 0), cr_parent = w_parent w,
      cr_window = wid, cr_sibling = or_default 0 (cv_sibling v),
      cr_x = (case cv_x v of Some x \<Rightarrow> ucast x | None \<Rightarrow> w_x w),
      cr_y = (case cv_y v of Some y \<Rightarrow> ucast y | None \<Rightarrow> w_y w),
      cr_width = (case cv_width v of Some x \<Rightarrow> ucast x | None \<Rightarrow> w_width w),
      cr_height = (case cv_height v of Some x \<Rightarrow> ucast x | None \<Rightarrow> w_height w),
      cr_border_width = (case cv_border_width v of Some x \<Rightarrow> ucast x | None \<Rightarrow> a_border_width (w_attrs w)),
      cr_value_mask = config_mask v\<rparr>"

definition redirect_configure :: "encoders \<Rightarrow> u32 \<Rightarrow> configure_values \<Rightarrow> window_state \<Rightarrow> input_client \<Rightarrow> input_client" where
  "redirect_configure E wid v w st =
     (let ev = structure_bytes E (ConfigureRequestEv (configure_request wid v w)) st
      in broadcast_event (w_parent w) SUBSTRUCTURE_REDIRECT ev (send_to_wm ev st))"

definition resizes :: "configure_values \<Rightarrow> bool" where
  "resizes v \<longleftrightarrow> cv_width v \<noteq> None \<or> cv_height v \<noteq> None"

definition resize_redirected :: "u32 \<Rightarrow> configure_values \<Rightarrow> input_client \<Rightarrow> bool" where
  "resize_redirected wid v st \<longleftrightarrow>
     has_mask_subscriber wid RESIZE_REDIRECT (client_id st) (event_broadcaster st) \<and> resizes v"

definition request_resize :: "encoders \<Rightarrow> u32 \<Rightarrow> configure_values \<Rightarrow> input_client \<Rightarrow> input_client" where
  "request_resize E wid v st =
     (let size = (\<lambda>sel req. case req of Some x \<Rightarrow> ucast x
                           | None \<Rightarrow> (case map_of (windows st) wid of Some w \<Rightarrow> sel w | None \<Rightarrow> 1))
      in broadcast_event wid RESIZE_REDIRECT
           (structure_bytes E (ResizeRequestEv (sequence st) wid (size w_width (cv_width v)) (size w_height (cv_height v))) st) st)"

text \<open>\<open>_NET_WM_SYNC_REQUEST\<close> before a resize: the value of the window goes up and the counter follows.\<close>

definition request_sync :: "encoders \<Rightarrow> u32 \<Rightarrow> input_client \<Rightarrow> input_client" where
  "request_sync E wid st =
     (case map_of (windows st) wid of
        Some w \<Rightarrow>
          (case w_sync_counter w of
             Some counter \<Rightarrow>
               (let (st, sync_atom) = intern_atom ''_NET_WM_SYNC_REQUEST'' False st;
                    (st, protocols) = intern_atom ''WM_PROTOCOLS'' False st
                in if window_supports_protocol wid sync_atom st
                   then (let value = w_sync_value w + 1;
                             lo = ucast value :: u32; hi = ucast (drop_bit 32 value) :: u32;
                             st = modify_window wid (\<lambda>w. w\<lparr>w_sync_value := value\<rparr>) st;
                             st = st\<lparr>counter_values := AList.map_entry counter (\<lambda>_. (hi, lo)) (counter_values st)\<rparr>
                         in push_event (structure_bytes E (ClientMessageEv (sequence st) wid protocols
                              [sync_atom, timestamp st, lo, hi, 0]) st) st)
                   else st)
           | None \<Rightarrow> st)
      | None \<Rightarrow> st)"

text \<open>The geometry of the record, up to the first value that is refused. The second component is the error.\<close>

definition configured :: "bool \<Rightarrow> size_hints option \<Rightarrow> configure_values \<Rightarrow> window_state \<Rightarrow> window_state \<times> (u8 \<times> u32) option" where
  "configured sized hints v w =
     (let w = w\<lparr>w_x := (case cv_x v of Some x \<Rightarrow> ucast x | None \<Rightarrow> w_x w),
                w_y := (case cv_y v of Some y \<Rightarrow> ucast y | None \<Rightarrow> w_y w)\<rparr>;
          width = (if sized then cv_width v else None); height = (if sized then cv_height v else None)
      in if width = Some 0 then (w, Some (VALUE_ERROR, 0))
         else
           (let w = w\<lparr>w_width := (case width of Some x \<Rightarrow> hinted_width hints x | None \<Rightarrow> w_width w)\<rparr>
            in if height = Some 0 then (w, Some (VALUE_ERROR, 0))
               else
                 (let w = w\<lparr>w_height := (case height of Some x \<Rightarrow> hinted_height hints x | None \<Rightarrow> w_height w),
                            w_attrs := (w_attrs w)\<lparr>a_border_width := (case cv_border_width v of Some x \<Rightarrow> ucast x
                                                        | None \<Rightarrow> a_border_width (w_attrs w))\<rparr>\<rparr>
                  in (w, case cv_stack_mode v of
                           Some m \<Rightarrow> if m > 4 then Some (VALUE_ERROR, m) else None | None \<Rightarrow> None))))"

definition geometry_changed :: "bool \<Rightarrow> configure_values \<Rightarrow> bool" where
  "geometry_changed sized v \<longleftrightarrow> cv_x v \<noteq> None \<or> cv_y v \<noteq> None \<or> sized \<and> resizes v"

definition announce_geometry :: "u32 \<Rightarrow> window_state \<Rightarrow> input_client \<Rightarrow> input_client" where
  "announce_geometry wid w st =
     (case resolve_uuid wid st of
        Some uuid \<Rightarrow> say (WindowConfigured (w_owner w) uuid (w_x w) (w_y w) (w_width w) (w_height w)
                            (a_border_width (w_attrs w)) (a_border_pixel (w_attrs w))) st
      | None \<Rightarrow> st)"

text \<open>The new geometry reaches the framebuffer, the frontend, the shared registry and the children.\<close>

definition spread_geometry :: "encoders \<Rightarrow> u32 \<Rightarrow> window_state \<Rightarrow> window_state \<Rightarrow> input_client \<Rightarrow> input_client" where
  "spread_geometry E wid old w st =
     (let st = modify_window wid (\<lambda>w. w\<lparr>w_fb := (ucast (w_width w), ucast (w_height w))\<rparr>) st;
          st = mark_window_shared_dirty wid (announce_geometry wid w st)
      in apply_win_gravity E wid (w_width w - w_width old) (w_height w - w_height old) (w_children old) st)"

text \<open>The sibling must have the same parent.\<close>

definition bad_sibling :: "u32 \<Rightarrow> window_state \<Rightarrow> input_client \<Rightarrow> bool" where
  "bad_sibling sibling w st \<longleftrightarrow> sibling \<noteq> 0 \<and>
     (case map_of (windows st) sibling of Some s \<Rightarrow> w_parent s \<noteq> w_parent w | None \<Rightarrow> True)"

definition announce_raise :: "u32 \<Rightarrow> bool \<Rightarrow> input_client \<Rightarrow> input_client" where
  "announce_raise wid raised st =
     (case window_uuid wid st of
        Some uuid \<Rightarrow> if raised then say (WindowRaised (client_id st) uuid) st else st
      | None \<Rightarrow> st)"

definition above_sibling :: "u32 \<Rightarrow> window_state \<Rightarrow> windows_t \<Rightarrow> u32" where
  "above_sibling wid w ws =
     (case map_of ws (w_parent w) of
        Some p \<Rightarrow> (case position (\<lambda>c. c = wid) (w_children p) of
                     Some (Suc i) \<Rightarrow> w_children p ! i | _ \<Rightarrow> 0)
      | None \<Rightarrow> 0)"

definition configure_event :: "u32 \<Rightarrow> window_state \<Rightarrow> u32 \<Rightarrow> u32 \<Rightarrow> u16 \<Rightarrow> structure_event" where
  "configure_event wid w abv event seq =
     ConfigureNotifyEv \<lparr>cf_sequence = seq, cf_event = event, cf_window = wid, cf_above_sibling = abv,
       cf_x = w_x w, cf_y = w_y w, cf_width = w_width w, cf_height = w_height w,
       cf_border_width = a_border_width (w_attrs w), cf_override_redirect = a_override_redirect (w_attrs w)\<rparr>"

text \<open>The second \<open>_NET_WM_SYNC_REQUEST\<close>, after the size has changed; it does not touch the counter.\<close>

definition resync :: "encoders \<Rightarrow> u32 \<Rightarrow> input_client \<Rightarrow> input_client" where
  "resync E wid st =
     (case map_of (windows st) wid of
        Some w \<Rightarrow>
          (if w_sync_counter w = None then st
           else
             (let (st, protocols) = intern_atom ''WM_PROTOCOLS'' False st;
                  (st, sync_atom) = intern_atom ''_NET_WM_SYNC_REQUEST'' False st;
                  value = w_sync_value w + 1;
                  lo = ucast value :: u32; hi = ucast (drop_bit 32 value) :: u32;
                  st = modify_window wid (\<lambda>w. w\<lparr>w_sync_value := value\<rparr>) st;
                  ev = structure_bytes E (ClientMessageEv 0 wid protocols [sync_atom, timestamp st, lo, hi, 0]) st
              in broadcast_event wid STRUCTURE_NOTIFY ev (push_event ev st)))
      | None \<Rightarrow> st)"

text \<open>The Expose events after a resize; \<open>total - 1\<close> wraps when nothing is selected.\<close>

definition expose_resized :: "encoders \<Rightarrow> u32 \<Rightarrow> window_state \<Rightarrow> input_client \<Rightarrow> input_client" where
  "expose_resized E wid w st =
     (let descendants = filter (\<lambda>d. w_event_mask d AND EXPOSURE \<noteq> 0) (mapped_descendants wid (windows st));
          self = (w_event_mask w AND EXPOSURE \<noteq> 0);
          n = (if self then 1 else 0) + length descendants;
          ev = structure_bytes E (ExposeEv (sequence st) wid (w_width w) (w_height w) (of_nat n - 1)) st;
          st = broadcast_event wid EXPOSURE ev (if self then push_event ev st else st)
      in fold (\<lambda>(i, d) st. push_event (structure_bytes E (ExposeEv (sequence st) (w_id d) (w_width d) (w_height d)
                                          (of_nat (length descendants - 1 - i))) st) st)
           (List.enumerate 0 descendants) st)"

definition PRESENT_CONFIGURE_NOTIFY :: u32 where "PRESENT_CONFIGURE_NOTIFY = 1"

definition CONFIGURE_NOTIFY_LAYOUT :: "(nat \<times> nat) list" where
  "CONFIGURE_NOTIFY_LAYOUT =
     [(2, 2), (4, 4), (8, 2), (12, 4), (16, 4), (20, 2), (22, 2), (24, 2), (26, 2), (28, 2), (30, 2), (32, 2), (34, 2), (36, 4)]"

definition send_present_config_notify :: "encoders \<Rightarrow> u32 \<Rightarrow> window_state \<Rightarrow> input_client \<Rightarrow> input_client option" where
  "send_present_config_notify E wid w st =
     fold (\<lambda>eid r. Option.bind r (\<lambda>st. map_option (\<lambda>ev. push_event ev st)
             (serialize_event_with_layout (enc_structure E
                (PresentConfigureEv (sequence st) eid wid (w_x w) (w_y w) (w_width w) (w_height w)))
              (msb_first st) CONFIGURE_NOTIFY_LAYOUT)))
       (map fst (filter (\<lambda>(eid, win, m). win = wid \<and> m AND PRESENT_CONFIGURE_NOTIFY \<noteq> 0) (present_subscriptions st)))
       (Some st)"

text \<open>What the window and its surroundings learn of the new geometry or stacking; the event for the window
  itself is the answer.\<close>

definition notify_configured :: "encoders \<Rightarrow> u32 \<Rightarrow> window_state \<Rightarrow> u16 \<Rightarrow> u16 \<Rightarrow> input_client \<Rightarrow> (input_client \<times> bytes) option" where
  "notify_configured E wid w old_w old_h st =
     (let seq = sequence st; abv = above_sibling wid w (windows st);
          size_changed = (w_width w \<noteq> old_w \<or> w_height w \<noteq> old_h);
          st = (if size_changed then resync E wid st else st);
          event = structure_bytes E (configure_event wid w abv wid seq) st;
          parent_event = structure_bytes E (configure_event wid w abv (w_parent w) seq) st;
          st = deliver_event wid STRUCTURE_NOTIFY event (deliver_event (w_parent w) SUBSTRUCTURE_NOTIFY parent_event st);
          st = (if size_changed then expose_resized E wid w st else st)
      in map_option (\<lambda>st. (update_sibling_visibility E wid seq st, event)) (send_present_config_notify E wid w st))"

text \<open>Stacking: an error, or the new state and whether a stack mode was given.\<close>

definition apply_stacking :: "u32 \<Rightarrow> configure_values \<Rightarrow> window_state \<Rightarrow> input_client \<Rightarrow> input_client option" where
  "apply_stacking wid v w st =
     (case cv_stack_mode v of
        None \<Rightarrow> Some st
      | Some m \<Rightarrow>
          if bad_sibling (or_default 0 (cv_sibling v)) w st then None
          else (let (st, raised) = restack wid w (ucast m) (or_default 0 (cv_sibling v)) st
                in Some (announce_raise wid raised st)))"

definition configure_known :: "encoders \<Rightarrow> u32 \<Rightarrow> configure_values \<Rightarrow> window_state \<Rightarrow> bool \<Rightarrow> input_client \<Rightarrow> (input_client \<times> bytes) option" where
  "configure_known E wid v old sized st =
     (let seq = sequence st; (w, err) = configured sized (get_size_hints wid st) v old;
          st = modify_window wid (\<lambda>_. w) st
      in case err of
           Some (code, bad) \<Rightarrow> Some (st, build_error code seq bad 12 0)
         | None \<Rightarrow>
             (let changed = geometry_changed sized v;
                  st = (if changed then spread_geometry E wid old w st else st)
              in case map_of (windows st) wid of
                   None \<Rightarrow> Some (st, [])
                 | Some w \<Rightarrow>
                     (case apply_stacking wid v w st of
                        None \<Rightarrow> Some (st, build_error MATCH_ERROR seq 0 12 0)
                      | Some st \<Rightarrow>
                          if changed \<or> cv_stack_mode v \<noteq> None
                          then notify_configured E wid w (w_width old) (w_height old) st
                          else Some (st, []))))"

definition handle_configure_window :: "encoders \<Rightarrow> u32 \<Rightarrow> configure_values \<Rightarrow> input_client \<Rightarrow> (input_client \<times> bytes) option" where
  "handle_configure_window E wid v st =
     (case map_of (windows st) wid of
        None \<Rightarrow>
          if wid \<noteq> root_window st then Some (st, build_error WINDOW_ERROR (sequence st) wid 12 0)
          else Some (if resize_redirected wid v st then request_resize E wid v st else st, [])
      | Some w \<Rightarrow>
          if redirected w st then Some (redirect_configure E wid v w st, [])
          else
            (let sized = (\<not> resize_redirected wid v st);
                 st = (if sized then st else request_resize E wid v st);
                 st = (if sized \<and> resizes v then request_sync E wid st else st)
             in case map_of (windows st) wid of
                  Some old \<Rightarrow> configure_known E wid v old sized st
                | None \<Rightarrow> Some (st, [])))"

section \<open>ReparentWindow\<close>

definition unmap_notify :: "encoders \<Rightarrow> u32 \<Rightarrow> u32 \<Rightarrow> input_client \<Rightarrow> input_client" where
  "unmap_notify E window old_parent st =
     (let st = deliver_event window STRUCTURE_NOTIFY (structure_bytes E (UnmapNotifyEv (sequence st) window window) st) st;
          st = (if old_parent \<noteq> 0
                then deliver_event old_parent SUBSTRUCTURE_NOTIFY
                       (structure_bytes E (UnmapNotifyEv (sequence st) old_parent window) st) st else st)
      in modify_window window (\<lambda>w. w\<lparr>w_mapped := False\<rparr>) st)"

definition move_in_tree :: "u32 \<Rightarrow> u32 \<Rightarrow> u32 \<Rightarrow> i16 \<Rightarrow> i16 \<Rightarrow> input_client \<Rightarrow> input_client" where
  "move_in_tree window old_parent new_parent x y st =
     (let st = modify_window old_parent (\<lambda>p. p\<lparr>w_children := filter (\<lambda>c. c \<noteq> window) (w_children p)\<rparr>) st;
          st = modify_window window (\<lambda>w. w\<lparr>w_parent := new_parent, w_x := x, w_y := y\<rparr>) st;
          st = mark_window_shared_dirty window st
      in modify_window new_parent (\<lambda>p. p\<lparr>w_children := w_children p @ [window]\<rparr>) st)"

definition notify_reparented :: "encoders \<Rightarrow> u32 \<Rightarrow> u32 \<Rightarrow> u32 \<Rightarrow> i16 \<Rightarrow> i16 \<Rightarrow> input_client \<Rightarrow> input_client \<times> bytes" where
  "notify_reparented E window old_parent new_parent x y st =
     (let ovr = (case map_of (windows st) window of Some w \<Rightarrow> a_override_redirect (w_attrs w) | None \<Rightarrow> False);
          notify = (\<lambda>event. structure_bytes E (ReparentNotifyEv (sequence st) event window new_parent x y ovr) st);
          events = (if window_selects window STRUCTURE_NOTIFY st then notify window else []);
          st = broadcast_event window STRUCTURE_NOTIFY (notify window) st;
          st = deliver_event old_parent SUBSTRUCTURE_NOTIFY (notify old_parent) st;
          st = (if old_parent \<noteq> new_parent
                then deliver_event new_parent SUBSTRUCTURE_NOTIFY (notify new_parent) st else st)
      in (st, events))"

definition handle_reparent_window :: "encoders \<Rightarrow> u32 \<Rightarrow> u32 \<Rightarrow> i16 \<Rightarrow> i16 \<Rightarrow> input_client \<Rightarrow> (input_client \<times> bytes) option" where
  "handle_reparent_window E window new_parent x y st =
     (case map_of (windows st) window of
        None \<Rightarrow> Some (st, build_error WINDOW_ERROR (sequence st) window 7 0)
      | Some w \<Rightarrow>
          if map_of (windows st) new_parent = None
          then Some (st, build_error WINDOW_ERROR (sequence st) new_parent 7 0)
          else if window = new_parent \<or> is_descendant_of (windows st) new_parent window
          then Some (st, build_error MATCH_ERROR (sequence st) window 7 0)
          else
            (let old_parent = w_parent w;
                 st = (if w_mapped w then unmap_notify E window old_parent st else st);
                 st = move_in_tree window old_parent new_parent x y st;
                 (st, events) = notify_reparented E window old_parent new_parent x y st
             in if w_mapped w
                then map_option (\<lambda>(st, more). (st, events @ more)) (handle_map_window E window st)
                else Some (st, events)))"

section \<open>CirculateWindow\<close>

definition handle_circulate_window :: "encoders \<Rightarrow> u8 \<Rightarrow> u32 \<Rightarrow> input_client \<Rightarrow> input_client \<times> bytes" where
  "handle_circulate_window E direction window st =
     (case map_of (windows st) window of
        None \<Rightarrow> (st, build_error WINDOW_ERROR (sequence st) window 13 0)
      | Some w \<Rightarrow>
          (let seq = sequence st; children = w_children w;
               mapped_children = filter (\<lambda>c. case map_of (windows st) c of Some v \<Rightarrow> w_mapped v | None \<Rightarrow> False) children
           in if length children < 2 \<or> length mapped_children < 2 then (st, [])
              else
                (let target = (if direction = 0 then hd mapped_children else last mapped_children)
                 in if w_event_mask w AND SUBSTRUCTURE_REDIRECT \<noteq> 0
                    then (let ev = structure_bytes E (CirculateRequestEv seq window target direction) st
                          in (broadcast_event window SUBSTRUCTURE_REDIRECT ev (push_event ev st), []))
                    else
                      (let rest = filter (\<lambda>c. c \<noteq> target) children;
                           st = modify_window window (\<lambda>p. p\<lparr>w_children := (if direction = 0 then rest @ [target] else target # rest)\<rparr>) st;
                           st = announce_raise target (direction = 0) st;
                           place = (if direction = 0 then 0 else 1);
                           st = deliver_event target STRUCTURE_NOTIFY
                                  (structure_bytes E (CirculateNotifyEv seq target target place) st) st
                       in (deliver_event window SUBSTRUCTURE_NOTIFY
                             (structure_bytes E (CirculateNotifyEv seq window target place) st) st, [])))))"

section \<open>Stacking\<close>

lemma position_split: "position p cs = Some k \<Longrightarrow> k < length cs \<and> p (cs ! k) \<and> (\<forall>j < k. \<not> p (cs ! j))"
  by (induction cs arbitrary: k) (auto split: if_splits simp: less_Suc_eq_0_disj nth_Cons')

lemma position_append_cases: "position p (xs @ ys) =
    (case position p xs of Some i \<Rightarrow> Some i | None \<Rightarrow> map_option (\<lambda>i. length xs + i) (position p ys))"
proof (induction xs)
  case Nil
  show ?case by (cases "position p ys") simp_all
next
  case (Cons a xs)
  then show ?case by (cases "position p xs"; cases "position p ys") simp_all
qed

lemma position_None: "position p cs = None \<longleftrightarrow> (\<forall>c \<in> set cs. \<not> p c)"
  by (induction cs) auto

lemma mset_insert_below: "mset (insert_below s x xs) = add_mset x (mset xs)"
proof -
  have "mset (takeWhile (\<lambda>c. c \<noteq> s) xs) + mset (dropWhile (\<lambda>c. c \<noteq> s) xs) = mset xs"
    unfolding mset_append [symmetric] takeWhile_dropWhile_id ..
  then show ?thesis by (simp add: insert_below_def)
qed

lemma filter_insert_above: "x \<notin> set xs \<Longrightarrow> filter (\<lambda>c. c \<noteq> x) (insert_above s x xs) = xs"
proof (cases "s \<in> set xs")
  case True
  assume x: "x \<notin> set xs"
  have split: "takeWhile (\<lambda>c. c \<noteq> s) xs @ s # tl (dropWhile (\<lambda>c. c \<noteq> s) xs) = xs"
    using True takeWhile_dropWhile_id [of "\<lambda>c. c \<noteq> s" xs]
    by (metis (mono_tags, lifting) dropWhile_eq_Nil_conv hd_dropWhile list.collapse)
  have "filter (\<lambda>c. c \<noteq> x) (takeWhile (\<lambda>c. c \<noteq> s) xs @ s # tl (dropWhile (\<lambda>c. c \<noteq> s) xs)) = xs"
    unfolding split using x by (auto simp: filter_id_conv)
  with True show ?thesis by (simp add: insert_above_def split: if_splits)
qed (auto simp: insert_above_def filter_id_conv)

lemma filter_insert_below: "x \<notin> set xs \<Longrightarrow> filter (\<lambda>c. c \<noteq> x) (insert_below s x xs) = xs"
proof -
  assume x: "x \<notin> set xs"
  have "filter (\<lambda>c. c \<noteq> x) (takeWhile (\<lambda>c. c \<noteq> s) xs @ dropWhile (\<lambda>c. c \<noteq> s) xs) = xs"
    unfolding takeWhile_dropWhile_id using x by (auto simp: filter_id_conv)
  with x show ?thesis by (auto simp: insert_below_def filter_id_conv simp del: takeWhile_dropWhile_id)
qed

text \<open>The window moves, the others keep their order.\<close>

lemma stacked_others: "filter (\<lambda>c. c \<noteq> wid) (fst (stacked ws wid w mode sibling cs)) = filter (\<lambda>c. c \<noteq> wid) cs"
proof -
  define rest where "rest = filter (\<lambda>c. c \<noteq> wid) cs"
  have r: "wid \<notin> set rest" "filter (\<lambda>c. c \<noteq> wid) rest = rest" by (simp_all add: rest_def)
  then show ?thesis
    unfolding stacked_def rest_def [symmetric] Let_def
    by (simp add: filter_insert_above filter_insert_below filter_vec_insert rest_def [symmetric] split: option.split)
qed

lemma stacked_once:
  assumes "distinct cs" "wid \<in> set cs"
  shows "mset (fst (stacked ws wid w mode sibling cs)) = mset cs"
proof -
  define rest where "rest = filter (\<lambda>c. c \<noteq> wid) cs"
  have r: "add_mset wid (mset rest) = mset cs" using mset_reinsert [OF assms] by (simp add: rest_def)
  then show ?thesis
    unfolding stacked_def rest_def [symmetric] Let_def
    by (simp add: mset_insert_above mset_insert_below mset_vec_insert split: option.split)
qed

lemma insert_above_adjacent: "s \<in> set xs \<Longrightarrow> \<exists>pre post. insert_above s x xs = pre @ [s, x] @ post"
  by (auto simp: insert_above_def)

lemma insert_below_adjacent: "s \<in> set xs \<Longrightarrow> \<exists>pre post. insert_below s x xs = pre @ [x, s] @ post"
proof -
  assume s: "s \<in> set xs"
  then have "hd (dropWhile (\<lambda>c. c \<noteq> s) xs) = s" "dropWhile (\<lambda>c. c \<noteq> s) xs \<noteq> []"
    by (metis (mono_tags, lifting) dropWhile_eq_Nil_conv hd_dropWhile)+
  then obtain post where "dropWhile (\<lambda>c. c \<noteq> s) xs = s # post" by (metis list.collapse)
  with s show ?thesis by (auto simp: insert_below_def)
qed

text \<open>Where a sibling lies relative to the window.\<close>

lemma position_split_around:
  assumes "distinct cs" "cs = lower @ wid # upper"
  shows "((case position (\<lambda>c. c = s) cs of Some i \<Rightarrow> i > length lower | None \<Rightarrow> False) \<longleftrightarrow> s \<in> set upper) \<and>
    ((case position (\<lambda>c. c = s) cs of Some i \<Rightarrow> i < length lower | None \<Rightarrow> False) \<longleftrightarrow> s \<in> set lower)"
proof -
  have fresh: "wid \<notin> set lower" "wid \<notin> set upper" using assms by auto
  have pos: "position (\<lambda>c. c = wid) cs = Some (length lower)"
    using fresh(1) unfolding assms(2) by (induction lower) auto
  consider "s \<in> set lower" "s \<notin> set upper" "s \<noteq> wid" | "s = wid" | "s \<notin> set lower" "s \<in> set upper" "s \<noteq> wid"
    | "s \<notin> set cs" using assms(1,2) by auto
  then show ?thesis
  proof cases
    case 1
    then obtain i where i: "position (\<lambda>c. c = s) lower = Some i"
      by (cases "position (\<lambda>c. c = s) lower") (auto simp: position_None)
    with 1 position_split [OF i]
    show ?thesis
      by (simp_all add: assms(2) position_append_cases)
  next
    case 2
    with pos fresh show ?thesis by simp_all
  next
    case 3
    then have n: "position (\<lambda>c. c = s) lower = None" by (auto simp: position_None)
    from 3 obtain i where i: "position (\<lambda>c. c = s) upper = Some i"
      by (cases "position (\<lambda>c. c = s) upper") (auto simp: position_None)
    from 3 n i show ?thesis
      by (simp_all add: assms(2) position_append_cases)
  next
    case 4
    then have "position (\<lambda>c. c = s) cs = None" by (auto simp: position_None)
    with 4 show ?thesis
      by (simp_all add: assms(2))
  qed
qed

lemma occlusion_split:
  assumes "distinct cs" "cs = lower @ wid # upper"
  shows "occluded_by_above ws w (length lower) cs sibling \<longleftrightarrow>
      (\<exists>c \<in> set upper. overlaps ws w c \<and> (sibling = 0 \<or> c = sibling))"
    "occludes_below ws w (length lower) cs sibling \<longleftrightarrow>
      (\<exists>c \<in> set lower. overlaps ws w c \<and> (sibling = 0 \<or> c = sibling))"
proof -
  note idx = position_split_around [OF assms, THEN conjunct1] position_split_around [OF assms, THEN conjunct2]
  have parts: "drop (Suc (length lower)) cs = upper" "take (length lower) cs = lower" by (simp_all add: assms(2))
  have conj: "(case x of Some i \<Rightarrow> P i \<and> Q | None \<Rightarrow> False) \<longleftrightarrow> (case x of Some i \<Rightarrow> P i | None \<Rightarrow> False) \<and> Q"
    for x :: "nat option" and P Q by (cases x) simp_all
  show "occluded_by_above ws w (length lower) cs sibling \<longleftrightarrow>
      (\<exists>c \<in> set upper. overlaps ws w c \<and> (sibling = 0 \<or> c = sibling))"
    unfolding occluded_by_above_def conj idx parts by (auto simp: list_ex_iff)
  show "occludes_below ws w (length lower) cs sibling \<longleftrightarrow>
      (\<exists>c \<in> set lower. overlaps ws w c \<and> (sibling = 0 \<or> c = sibling))"
    unfolding occludes_below_def conj idx parts by (auto simp: list_ex_iff)
qed


section \<open>Sizes\<close>


text \<open>A width that is a multiple of 65536 passes the test for zero: without size hints, or with hints
  that set neither a minimum nor increments, the window becomes 0 pixels wide although the
  protocol requires a Value error.\<close>

theorem huge_width_becomes_zero:
  assumes "cv_width v = Some n" "n \<noteq> 0" "unat n mod 65536 = 0" "cv_height v = None" "cv_stack_mode v = None"
    and "hints = None \<or> hints = Some h \<and> min_width h = 0 \<and> base_width h = 0 \<and> width_inc h \<le> 1"
  shows "\<exists>w'. configured True hints v w = (w', None) \<and> w_width w' = 0"
proof -
  have "(ucast n :: u16) = 0"
    using assms(3) by (simp add: word_unat_eq_iff unsigned_ucast_eq take_bit_eq_mod)
  then have "hinted_width hints n = 0"
    using assms(6) by (auto simp: hinted_width_def constrain_def Let_def)
  then show ?thesis using assms(1,2,4,5) by (simp add: configured_def Let_def)
qed

section \<open>Errors\<close>

lemma request_sync_effect:
  assumes "map_of (windows st) wid = Some w"
  shows "\<exists>v. map_of (windows (request_sync E wid st)) wid = Some (w\<lparr>w_sync_value := v\<rparr>)"
    and "sequence (request_sync E wid st) = sequence st"
proof -
  obtain s a where i: "intern_atom ''_NET_WM_SYNC_REQUEST'' False st = (s, a)" by (rule prod.exhaust)
  obtain t b where j: "intern_atom ''WM_PROTOCOLS'' False s = (t, b)" by (rule prod.exhaust)
  have w: "windows t = windows st" "sequence t = sequence st" using intern_frame [OF i] intern_frame [OF j] i j
    by (auto simp: intern_atom_def split: prod.splits)
  have id: "\<exists>v. w = w\<lparr>w_sync_value := v\<rparr>" by (rule exI [of _ "w_sync_value w"]) simp
  show "\<exists>v. map_of (windows (request_sync E wid st)) wid = Some (w\<lparr>w_sync_value := v\<rparr>)"
    unfolding request_sync_def assms option.case i j Let_def prod.case
    using assms id by (auto simp: w push_event_def modify_window_def split: option.split)
  show "sequence (request_sync E wid st) = sequence st"
    unfolding request_sync_def assms option.case i j Let_def prod.case
    by (auto simp: w push_event_def modify_window_def split: option.split)
qed

text \<open>A refused ConfigureWindow still moves the window: when the position is valid and the width is zero, the
  client gets a Value error, but the position has already been stored.\<close>

theorem refused_configure_moves:
  assumes "map_of (windows st) wid = Some w" "\<not> redirected w st" "\<not> resize_redirected wid v st"
    and "cv_x v = Some x" "cv_y v = Some y" "cv_width v = Some 0"
  shows "\<exists>st'. handle_configure_window E wid v st = Some (st', build_error VALUE_ERROR (sequence st) 0 12 0) \<and>
    map_option (\<lambda>w. (w_x w, w_y w)) (map_of (windows st') wid) = Some (ucast x, ucast y)"
proof -
  define s where "s = request_sync E wid st"
  have "resizes v" using assms(6) by (simp add: resizes_def)
  from request_sync_effect [OF assms(1), of E] obtain k where
    s: "map_of (windows s) wid = Some (w\<lparr>w_sync_value := k\<rparr>)" "sequence s = sequence st" unfolding s_def by blast
  define w' where "w' = w\<lparr>w_sync_value := k, w_x := ucast x, w_y := ucast y\<rparr>"
  have c: "configured True hints v (w\<lparr>w_sync_value := k\<rparr>) = (w', Some (VALUE_ERROR, 0))" for hints
    using assms(4-6) by (simp add: configured_def Let_def w'_def)
  have "handle_configure_window E wid v st =
      Some (modify_window wid (\<lambda>_. w') s, build_error VALUE_ERROR (sequence st) 0 12 0)"
    unfolding handle_configure_window_def assms(1) option.case Let_def
    using assms(2,3) \<open>resizes v\<close> by (simp add: s_def [symmetric] s configure_known_def c)
  then show ?thesis by (simp add: modify_window_def s w'_def)
qed

section \<open>Witnesses\<close>

definition no_values :: configure_values where
  "no_values = \<lparr>cv_x = None, cv_y = None, cv_width = None, cv_height = None, cv_border_width = None,
     cv_sibling = None, cv_stack_mode = None\<rparr>"



theorem huge_width_becomes_zero_witness:
  "\<exists>w'. configured True None (no_values\<lparr>cv_width := Some 65536\<rparr>) (window_at 1 0 0 10 10 []) = (w', None) \<and> w_width w' = 0"
  by (rule huge_width_becomes_zero [where n = 65536 and h = "\<lparr>min_width = 0, min_height = 0, max_width = 0, max_height = 0,
        width_inc = 0, height_inc = 0, base_width = 0, base_height = 0\<rparr>"]) (simp_all add: no_values_def)

theorem refused_configure_moves_witness:
  "\<exists>st'. handle_configure_window demo_encoders 0x400001
       (no_values\<lparr>cv_x := Some 3, cv_y := Some 4, cv_width := Some 0\<rparr>) demo_map =
     Some (st', build_error VALUE_ERROR (sequence demo_map) 0 12 0) \<and>
     map_option (\<lambda>w. (w_x w, w_y w)) (map_of (windows st') 0x400001) = Some (3, 4)"
proof -
  have "\<not> resize_redirected 0x400001 (no_values\<lparr>cv_x := Some 3, cv_y := Some 4, cv_width := Some 0\<rparr>) demo_map"
    by code_simp
  from refused_configure_moves [OF demo_map_window(1) demo_map_direct(1) this, of 3 4 demo_encoders]
  show ?thesis by (simp add: no_values_def)
qed

end
