(* ===== verification/Tree_Requests.thy ===== *)
theory Tree_Requests
  imports Configure
begin

text \<open>
  The window tree under all requests of \<open>handlers/window\<close> that create, destroy, map, unmap, configure, reparent
  and circulate windows: parents and children lists always describe the same finite tree.
\<close>

section \<open>Kinship\<close>

text \<open>The parent of a window and its children regardless of their order.\<close>

definition kin :: "input_client \<Rightarrow> u32 \<Rightarrow> (u32 \<times> u32 list) option" where
  "kin st k = map_option (\<lambda>w. (w_parent w, sort (w_children w))) (map_of (windows st) k)"

definition same_kin :: "input_client \<Rightarrow> input_client \<Rightarrow> bool" where
  "same_kin st st' \<longleftrightarrow> kin st' = kin st \<and> root_window st' = root_window st \<and>
     resource_id_base st' = resource_id_base st \<and> (wf_table st \<longrightarrow> wf_table st')"

named_theorems kin_intros

lemma same_kin_refl [simp, kin_intros]: "same_kin st st"
  by (simp add: same_kin_def)

lemma same_kin_trans: "same_kin a b \<Longrightarrow> same_kin b c \<Longrightarrow> same_kin a c"
  by (simp add: same_kin_def)

lemma same_kin_fold: "(\<And>x s. same_kin s (f x s)) \<Longrightarrow> same_kin s (fold f xs s)"
  by (induction xs arbitrary: s) (auto intro: same_kin_trans)

lemma kin_outline: "kin st k = map_option (\<lambda>w. (w_parent w, sort (w_children w))) (outline st k)"
  by (cases "map_of (windows st) k") (simp_all add: kin_def outline_def)

lemma kin_skeleton: "kin st k = map_option (\<lambda>w. (w_parent w, w_children w)) (skeleton st k)"
  by (cases "map_of (windows st) k") (simp_all add: kin_def skeleton_def bones_def)

lemma same_kin_outline: "same_outline st st' \<Longrightarrow> same_kin st st'"
  by (simp add: same_kin_def same_outline_def kin_outline fun_eq_iff)

lemma same_kin_skeleton: "same_skeleton st st' \<Longrightarrow> same_kin st st'"
  by (simp add: same_kin_def same_skeleton_def kin_skeleton fun_eq_iff)

lemma same_kin_shown: "shown wid st st' \<Longrightarrow> same_kin st st'"
proof -
  assume s: "shown wid st st'"
  have "kin st' k = kin st k" for k
    unfolding kin_skeleton shown_skeleton [OF s] by (cases "skeleton st k") simp_all
  with s show ?thesis by (simp add: same_kin_def shown_def fun_eq_iff)
qed

lemma same_kin_unmapped: "unmapped D st st' \<Longrightarrow> same_kin st st'"
proof -
  assume s: "unmapped D st st'"
  have "kin st' k = kin st k" for k
    unfolding kin_skeleton unmapped_skeleton [OF s] by (cases "skeleton st k") simp_all
  with s show ?thesis by (simp add: same_kin_def unmapped_def fun_eq_iff)
qed

lemma same_kin_frame:
  "windows st' = windows st \<Longrightarrow> root_window st' = root_window st \<Longrightarrow> resource_id_base st' = resource_id_base st \<Longrightarrow> same_kin st st'"
  by (intro same_kin_outline same_outline_frame)

lemma same_kin_modify:
  assumes "\<And>w. map_of (windows st) k = Some w \<Longrightarrow> w_parent (f w) = w_parent w \<and> mset (w_children (f w)) = mset (w_children w)"
    and "\<And>w. w_id (f w) = w_id w"
  shows "same_kin st (modify_window k f st)"
proof -
  have "kin (modify_window k f st) c = kin st c" for c
    using assms(1) sort_mset
    by (cases "map_of (windows st) c"; cases "c = k") (auto simp: kin_def modify_window_def)
  then show ?thesis
    using assms(2) by (simp add: same_kin_def fun_eq_iff wf_table_def modify_window_def wf_windows_map_entry)
qed

text \<open>Every child that is listed exists and has that parent, is listed once, every window is listed by its parent
  unless that window belongs to someone else, and the nesting is finite.\<close>

definition kin_children :: "input_client \<Rightarrow> u32 \<Rightarrow> u32 list" where
  "kin_children st p = (case kin st p of Some (_, cs) \<Rightarrow> cs | None \<Rightarrow> [])"

definition tree_inv :: "input_client \<Rightarrow> bool" where
  "tree_inv st \<longleftrightarrow>
     (\<forall>p. distinct (kin_children st p) \<and> (\<forall>c \<in> set (kin_children st p). map_option fst (kin st c) = Some p)) \<and>
     (\<forall>c p. map_option fst (kin st c) = Some p \<longrightarrow>
        (if kin st p = None then \<not> validate_resource_id st p else c \<in> set (kin_children st p))) \<and>
     (\<exists>rank :: u32 \<Rightarrow> nat. \<forall>p. \<forall>c \<in> set (kin_children st p). rank c < rank p) \<and>
     wf_table st \<and> \<not> validate_resource_id st (root_window st)"

lemma tree_inv_kin: "same_kin st st' \<Longrightarrow> tree_inv st \<Longrightarrow> tree_inv st'"
proof -
  assume k: "same_kin st st'" and inv: "tree_inv st"
  have "kin st' = kin st" "root_window st' = root_window st" "wf_table st \<Longrightarrow> wf_table st'" using k by (simp_all add: same_kin_def)
  moreover have "kin_children st' = kin_children st" using k by (simp add: same_kin_def kin_children_def fun_eq_iff)
  moreover have "validate_resource_id st' = validate_resource_id st" using k by (simp add: same_kin_def validate_resource_id_def fun_eq_iff)
  ultimately show ?thesis using inv unfolding tree_inv_def by simp
qed

lemma kin_core: "kin st k = map_option (\<lambda>w. (w_parent w, sort (w_children w))) (core st k)"
  by (cases "map_of (windows st) k") (simp_all add: kin_def core_def)

lemma tree_inv_tree_ok: "tree_inv st \<Longrightarrow> window_tree_ok st"
proof -
  assume inv: "tree_inv st"
  have ch: "kin_children st p = sort (w_children w)" if "core st p = Some w" for p w
    using that by (simp add: kin_children_def kin_core)
  have "distinct (w_children w) \<and> (\<forall>c \<in> set (w_children w). \<exists>v. core st c = Some v \<and> w_parent v = p)"
    if w: "core st p = Some w" for p w
  proof -
    have "distinct (kin_children st p)" "\<forall>c \<in> set (kin_children st p). map_option fst (kin st c) = Some p"
      using inv by (simp_all add: tree_inv_def)
    then show ?thesis unfolding ch [OF w] by (auto simp: kin_core)
  qed
  moreover obtain rank :: "u32 \<Rightarrow> nat" where rank: "\<forall>p. \<forall>c \<in> set (kin_children st p). rank c < rank p"
    using inv unfolding tree_inv_def by blast
  then have "rank c < rank p" if "core st p = Some w" "c \<in> set (w_children w)" for p w c
    using that ch [OF that(1)] by (metis set_sort)
  ultimately show ?thesis unfolding window_tree_ok_def kids_ok_def kids_ranked_def by blast
qed

lemma tree_inv_tidy: "tree_inv st \<Longrightarrow> tidy st"
  using tree_inv_tree_ok kids_ok_tidy by (auto simp: window_tree_ok_def)

text \<open>A window whose parent exists is listed by it.\<close>

lemma tree_inv_listed:
  assumes "tree_inv st" "map_of (windows st) wid = Some w" "map_of (windows st) (w_parent w) = Some p"
  shows "wid \<in> set (w_children p)" "distinct (w_children p)"
proof -
  have k: "kin st wid = Some (w_parent w, sort (w_children w))" "kin st (w_parent w) = Some (w_parent p, sort (w_children p))"
    using assms(2,3) by (simp_all add: kin_def)
  then have "map_option fst (kin st wid) = Some (w_parent w)" by simp
  with assms(1) k(2) have "wid \<in> set (kin_children st (w_parent w))" unfolding tree_inv_def by (metis option.distinct(1))
  then show "wid \<in> set (w_children p)" by (simp add: kin_children_def k)
  have "distinct (kin_children st (w_parent w))" using assms(1) by (simp add: tree_inv_def)
  then show "distinct (w_children p)" by (simp add: kin_children_def k)
qed

section \<open>Mapping and unmapping\<close>

lemma enter_mapped_frame: "enter_mapped E wid st = Some (st', bs) \<Longrightarrow> same_kin st st'"
  by (rule same_kin_frame)
    (auto simp: enter_mapped_def build_crossing_events_def build_crossing_events_with_mode_def Let_def
      split: option.splits if_splits)

lemma leave_unmapped_frame: "leave_unmapped E wid p st = Some (st', bs) \<Longrightarrow> same_kin st st'"
  by (rule same_kin_frame)
    (auto simp: leave_unmapped_def build_crossing_events_def build_crossing_events_with_mode_def Let_def
      split: option.splits if_splits)

lemma tree_inv_listed_all: "tree_inv st \<Longrightarrow> listed wid st"
  unfolding listed_def
proof (intro allI impI)
  fix w p assume inv: "tree_inv st" and w: "skeleton st wid = Some w" "skeleton st (w_parent w) = Some p"
  then obtain v q where v: "map_of (windows st) wid = Some v" "map_of (windows st) (w_parent v) = Some q" "p = bones q"
    by (auto simp: skeleton_def)
  with tree_inv_listed(1) [OF inv v(1,2)] show "wid \<in> set (w_children p)" by simp
qed

lemma complete_map_kin: "tree_inv st \<Longrightarrow> same_kin st (complete_map E wid st)"
  by (intro same_kin_skeleton same_skeleton_complete tree_inv_tidy tree_inv_listed_all)

lemma map_window_kin:
  assumes "tree_inv st" "handle_map_window E wid st = Some (st', ev)"
  shows "same_kin st st'"
proof (cases "map_of (windows st) wid")
  case None
  with assms(2) show ?thesis by (simp add: handle_map_window_def)
next
  case (Some w)
  consider "redirected w st" | "\<not> redirected w st" "w_mapped w \<or> resolve_uuid wid st = None"
    | uuid where "\<not> redirected w st" "\<not> w_mapped w" "resolve_uuid wid st = Some uuid" by blast
  then show ?thesis
  proof cases
    case 1
    with assms(2) Some have "st' = deliver_event (w_parent w) SUBSTRUCTURE_REDIRECT
        (structure_bytes E (MapRequestEv (w_parent w) wid) st) (send_to_wm (structure_bytes E (MapRequestEv (w_parent w) wid) st) st)"
      by (simp add: handle_map_window_def Let_def)
    then show ?thesis by (intro same_kin_frame) simp_all
  next
    case 2
    with assms(2) Some have "st' = st" by (cases "w_mapped w") (simp_all add: handle_map_window_def)
    then show ?thesis by simp
  next
    case direct: (3 uuid)
    obtain s1 a where i: "intern_atom ''WM_STATE'' False st = (s1, a)" by (rule prod.exhaust)
    define s2 where "s2 = place_by_hints wid uuid s1"
    obtain s3 e where sh: "show_window E wid uuid a s2 = (s3, e)" by (rule prod.exhaust)
    have 2: "same_kin st s2"
      unfolding s2_def using same_kin_trans [OF same_kin_outline [OF same_outline_intern [OF i]]
          same_kin_skeleton [OF same_skeleton_place]] .
    have 3: "same_kin s2 s3"
    proof (cases "map_of (windows s2) wid")
      case None
      with sh show ?thesis by (simp add: show_window_def)
    next
      case (Some v)
      from same_kin_shown [OF show_window_shown [OF this sh]] show ?thesis .
    qed
    note 23 = same_kin_trans [OF 2 3]
    have 4: "same_kin st (complete_map E wid s3)"
      by (rule same_kin_trans [OF 23 complete_map_kin [OF tree_inv_kin [OF 23 assms(1)]]])
    have "\<exists>bs. enter_mapped E wid (complete_map E wid s3) = Some (st', bs)"
      using assms(2) \<open>\<not> redirected w st\<close> \<open>\<not> w_mapped w\<close>
      unfolding handle_map_window_def Some option.case Let_def i prod.case direct(3) s2_def [symmetric] sh by auto
    then show ?thesis using same_kin_trans [OF 4 enter_mapped_frame] by blast
  qed
qed

lemma for_windows_kin:
  assumes "\<And>c s s' e. tree_inv s \<Longrightarrow> f c s = Some (s', e) \<Longrightarrow> same_kin s s'" "tree_inv st" "for_windows f cs st = Some (st', ev)"
  shows "same_kin st st'"
  using assms(2,3)
proof (induction cs arbitrary: st ev)
  case (Cons c cs)
  then obtain s1 e1 e2 where 1: "f c st = Some (s1, e1)" "for_windows f cs s1 = Some (st', e2)"
    by (auto split: option.splits prod.splits)
  note k = assms(1) [OF Cons.prems(1) 1(1)]
  from same_kin_trans [OF k Cons.IH [OF tree_inv_kin [OF k Cons.prems(1)] 1(2)]] show ?case .
qed simp

lemma unmap_window_kin: "tree_inv st \<Longrightarrow> unmap_window n E wid st = Some (st', ev) \<Longrightarrow> same_kin st st'"
proof (induction n arbitrary: wid st st' ev)
  case (Suc n)
  show ?case
  proof (cases "map_of (windows st) wid")
    case None
    with Suc.prems show ?thesis by simp
  next
    case (Some w)
    show ?thesis
    proof (cases "w_mapped w")
      case False
      with Some Suc.prems show ?thesis by simp
    next
      case True
      obtain s1 e1 where h: "hide_window E wid w st = (s1, e1)" by (rule prod.exhaust)
      note k1 = same_kin_unmapped [OF hide_window_unmapped [OF Some h]]
      from Suc.prems(2) True obtain s2 e2 where
        s2: "for_windows (unmap_window n E) (mapped_transients wid (windows s1)) s1 = Some (s2, e2)"
        unfolding unmap_window.simps Some option.case Let_def h prod.case
        by (cases "for_windows (unmap_window n E) (mapped_transients wid (windows s1)) s1") auto
      have k2: "same_kin s1 s2"
        by (rule for_windows_kin [OF Suc.IH tree_inv_kin [OF k1 Suc.prems(1)] s2])
      define s3 where "s3 = update_sibling_visibility E wid (sequence st) (revert_focus_from E wid (update_net_client_list s2))"
      have k3: "same_kin s2 s3"
        unfolding s3_def by (rule same_kin_outline [OF same_outline_trans [OF same_outline_trans
              [OF same_outline_wm(1) same_outline_wm(3)] same_outline_siblings]])
      have "\<exists>e4. leave_unmapped E wid (w_parent w) s3 = Some (st', e4)"
        using Suc.prems(2) True
        unfolding unmap_window.simps Some option.case Let_def h prod.case s2 s3_def [symmetric] by auto
      then obtain e4 where "leave_unmapped E wid (w_parent w) s3 = Some (st', e4)" by blast
      from same_kin_trans [OF same_kin_trans [OF same_kin_trans [OF k1 k2] k3] leave_unmapped_frame [OF this]]
      show ?thesis .
    qed
  qed
qed simp

lemma subwindows_kin:
  assumes "tree_inv st"
  shows "handle_map_subwindows E p st = Some (st', ev) \<Longrightarrow> same_kin st st'"
    "handle_unmap_window E p st = Some (st', ev) \<Longrightarrow> same_kin st st'"
    "handle_unmap_subwindows E p st = Some (st', ev) \<Longrightarrow> same_kin st st'"
proof -
  show "handle_map_subwindows E p st = Some (st', ev) \<Longrightarrow> same_kin st st'"
    using for_windows_kin [where f = "handle_map_window E", OF map_window_kin assms] by (auto simp: handle_map_subwindows_def split: if_splits)
  show u: "handle_unmap_window E p st = Some (st', ev) \<Longrightarrow> same_kin st st'" for p st' ev
    unfolding handle_unmap_window_def by (rule unmap_window_kin [OF assms])
  have each: "handle_unmap_window E c s = Some (s', e) \<Longrightarrow> same_kin s s'" if "tree_inv s" for c s s' e
    unfolding handle_unmap_window_def by (rule unmap_window_kin [OF that])
  show "handle_unmap_subwindows E p st = Some (st', ev) \<Longrightarrow> same_kin st st'"
    using for_windows_kin [where f = "handle_unmap_window E", OF each assms]
    unfolding handle_unmap_subwindows_def by (simp split: if_splits)
qed

section \<open>Configuring and circulating\<close>

lemma gravity_kin: "same_kin st (apply_win_gravity E wid dw dh cs st)"
proof -
  have un: "same_kin s (unmap_for_gravity E wid c s)" "same_kin s (map_for_gravity E wid c s)" for c s
    unfolding unmap_for_gravity_def map_for_gravity_def Let_def
    by (rule same_kin_trans [OF same_kin_modify same_kin_frame], simp_all)+
  have mv: "same_kin s (move_child E wid dx dy c s)" for dx dy c s
  proof (cases "map_of (windows s) c")
    case (Some v)
    show ?thesis
      unfolding move_child_def Some option.case Let_def
      by (rule same_kin_trans [OF same_kin_modify same_kin_frame]) simp_all
  qed (simp add: move_child_def)
  have step: "same_kin s (fst (gravity_step E wid dw dh c (s, us)))" for c s us
    unfolding gravity_step_def using un mv by (simp add: Let_def split: option.split prod.split)
  have loop: "same_kin s (fst (fold (gravity_step E wid dw dh) cs (s, us)))" for cs s us
  proof (induction cs arbitrary: s us)
    case (Cons c cs)
    obtain s' us' where g: "gravity_step E wid dw dh c (s, us) = (s', us')" by (rule prod.exhaust)
    have "same_kin s s'" using step [of s c us] by (simp add: g)
    from same_kin_trans [OF this Cons.IH] show ?case by (simp add: g)
  qed simp
  obtain s' us' where f: "fold (gravity_step E wid dw dh) cs (st, []) = (s', us')" by (rule prod.exhaust)
  have "same_kin st s'" using loop [of st cs "[]"] by (simp add: f)
  moreover have "same_kin s' (fold (map_for_gravity E wid) us' s')" by (rule same_kin_fold) (rule un)
  ultimately show ?thesis unfolding apply_win_gravity_def by (auto simp: f intro: same_kin_trans)
qed

lemma announce_kin:
  "same_kin st (announce_geometry wid w st)" "same_kin st (announce_raise wid r st)" "same_kin st (request_resize E wid v st)"
  "same_kin st (redirect_configure E wid v w st)" "same_kin st (mark_window_shared_dirty wid st)" "same_kin st (deliver_event wid m ev st)"
  by (rule same_kin_frame; simp add: announce_geometry_def announce_raise_def request_resize_def redirect_configure_def Let_def
      split: option.split)+

lemma spread_geometry_kin: "same_kin st (spread_geometry E wid old w st)"
  unfolding spread_geometry_def Let_def
  by (rule same_kin_trans [OF same_kin_trans [OF same_kin_trans [OF same_kin_modify announce_kin(1)] announce_kin(5)] gravity_kin]) simp_all

lemma request_sync_kin: "same_kin st (request_sync E wid st)"
proof -
  obtain s a where i: "intern_atom ''_NET_WM_SYNC_REQUEST'' False st = (s, a)" by (rule prod.exhaust)
  obtain t b where j: "intern_atom ''WM_PROTOCOLS'' False s = (t, b)" by (rule prod.exhaust)
  have t: "same_kin st t" by (intro same_kin_outline same_outline_trans [OF same_outline_intern [OF i] same_outline_intern [OF j]])
  have "same_kin t (push_event e (modify_window wid (\<lambda>w. w\<lparr>w_sync_value := v\<rparr>) t\<lparr>counter_values := c\<rparr>))" for e v c
    by (rule same_kin_trans [OF same_kin_modify same_kin_frame]) simp_all
  with t show ?thesis
    unfolding request_sync_def i j Let_def prod.case by (auto split: option.split intro: same_kin_trans)
qed

lemma resync_kin: "same_kin st (resync E wid st)"
proof -
  obtain s a where i: "intern_atom ''WM_PROTOCOLS'' False st = (s, a)" by (rule prod.exhaust)
  obtain t b where j: "intern_atom ''_NET_WM_SYNC_REQUEST'' False s = (t, b)" by (rule prod.exhaust)
  have t: "same_kin st t" by (intro same_kin_outline same_outline_trans [OF same_outline_intern [OF i] same_outline_intern [OF j]])
  have "same_kin t (broadcast_event u m e (push_event e (modify_window wid (\<lambda>w. w\<lparr>w_sync_value := v\<rparr>) t)))" for u m e v
    by (rule same_kin_trans [OF same_kin_modify same_kin_frame]) simp_all
  with t show ?thesis
    unfolding resync_def i j Let_def prod.case by (auto split: option.split intro: same_kin_trans)
qed

lemma expose_resized_kin: "same_kin st (expose_resized E wid w st)"
proof -
  have "same_kin s (fold (\<lambda>(i, d) st. push_event (f i d st) st) xs s)" for f :: "nat \<Rightarrow> window_state \<Rightarrow> input_client \<Rightarrow> bytes" and xs s
    by (rule same_kin_fold) (auto intro: same_kin_frame)
  moreover have "same_kin st (broadcast_event wid EXPOSURE e (if b then push_event e st else st))" for e b
    by (rule same_kin_frame) simp_all
  ultimately show ?thesis unfolding expose_resized_def Let_def by (rule same_kin_trans [rotated])
qed

lemma present_kin: "send_present_config_notify E wid w st = Some st' \<Longrightarrow> same_kin st st'"
proof -
  have "fold (\<lambda>eid r. Option.bind r (\<lambda>st. map_option (\<lambda>ev. push_event ev st) (f eid st))) xs r = Some st' \<Longrightarrow>
      \<exists>s. r = Some s \<and> same_kin s st'" for f :: "u32 \<Rightarrow> input_client \<Rightarrow> bytes option" and xs r
  proof (induction xs arbitrary: r)
    case (Cons x xs)
    from Cons.IH Cons.prems obtain s where s: "Option.bind r (\<lambda>st. map_option (\<lambda>ev. push_event ev st) (f x st)) = Some s" "same_kin s st'"
      by fastforce
    then obtain s0 ev where "r = Some s0" "s = push_event ev s0" by (auto simp: Option.bind_eq_Some_conv)
    moreover have "same_kin s0 (push_event ev s0)" by (rule same_kin_frame) simp_all
    ultimately show ?case using s(2) by (blast intro: same_kin_trans)
  qed simp
  note loop = this
  assume "send_present_config_notify E wid w st = Some st'"
  from loop [OF this [unfolded send_present_config_notify_def]] show "same_kin st st'" by simp
qed

lemma notify_configured_kin: "notify_configured E wid w ow oh st = Some (st', ev) \<Longrightarrow> same_kin st st'"
proof -
  assume n: "notify_configured E wid w ow oh st = Some (st', ev)"
  define b where "b \<longleftrightarrow> w_width w \<noteq> ow \<or> w_height w \<noteq> oh"
  define s1 where "s1 = (if b then resync E wid st else st)"
  from n obtain e1 e2 s3 where
    s3: "send_present_config_notify E wid w (if b then expose_resized E wid w (deliver_event wid STRUCTURE_NOTIFY e1
        (deliver_event (w_parent w) SUBSTRUCTURE_NOTIFY e2 s1))
       else deliver_event wid STRUCTURE_NOTIFY e1 (deliver_event (w_parent w) SUBSTRUCTURE_NOTIFY e2 s1)) = Some s3"
      "st' = update_sibling_visibility E wid (sequence st) s3"
    unfolding notify_configured_def Let_def b_def [symmetric] s1_def [symmetric] by (auto split: if_splits)
  have "same_kin st s1" by (simp add: s1_def resync_kin)
  then have "same_kin st (deliver_event wid STRUCTURE_NOTIFY e1 (deliver_event (w_parent w) SUBSTRUCTURE_NOTIFY e2 s1))"
    by (rule same_kin_trans) (rule same_kin_trans [OF announce_kin(6) announce_kin(6)])
  then have "same_kin st (if b then expose_resized E wid w (deliver_event wid STRUCTURE_NOTIFY e1
        (deliver_event (w_parent w) SUBSTRUCTURE_NOTIFY e2 s1))
       else deliver_event wid STRUCTURE_NOTIFY e1 (deliver_event (w_parent w) SUBSTRUCTURE_NOTIFY e2 s1))"
    using same_kin_trans [OF _ expose_resized_kin] by simp
  then have "same_kin st s3" by (rule same_kin_trans [OF _ present_kin [OF s3(1)]])
  then show ?thesis unfolding s3(2) by (rule same_kin_trans) (rule same_kin_outline [OF same_outline_siblings])
qed

lemma restack_kin:
  assumes "tree_inv st" "map_of (windows st) wid = Some w" "restack wid w mode sibling st = (st', r)"
  shows "same_kin st st'"
proof (cases "map_of (windows st) (w_parent w)")
  case None
  with assms(3) show ?thesis by (simp add: restack_def)
next
  case (Some p)
  define cs where "cs = fst (stacked (windows st) wid w mode sibling (w_children p))"
  have "mset cs = mset (w_children p)"
    unfolding cs_def using tree_inv_listed [OF assms(1,2) Some] by (intro stacked_once)
  then have "same_kin st (modify_window (w_parent w) (\<lambda>p. p\<lparr>w_children := cs\<rparr>) st)"
    using Some by (intro same_kin_modify) simp_all
  with assms(3) Some show ?thesis by (auto simp: restack_def cs_def split: prod.splits)
qed

lemma apply_stacking_kin:
  assumes "tree_inv st" "map_of (windows st) wid = Some w" "apply_stacking wid v w st = Some st'"
  shows "same_kin st st'"
proof (cases "cv_stack_mode v")
  case None
  with assms(3) show ?thesis by (simp add: apply_stacking_def)
next
  case (Some m)
  obtain s r where rs: "restack wid w (ucast m) (or_default 0 (cv_sibling v)) st = (s, r)" by (rule prod.exhaust)
  with assms(3) Some have "st' = announce_raise wid r s" by (simp add: apply_stacking_def split: if_splits)
  then show ?thesis using same_kin_trans [OF restack_kin [OF assms(1,2) rs] announce_kin(2)] by simp
qed

lemma configured_kin:
  assumes "configured sized hints v w = (w', err)"
  shows "w_parent w' = w_parent w" "w_children w' = w_children w" "w_id w' = w_id w"
  using assms by (auto simp: configured_def Let_def split: if_splits)

lemma wf_windows_replace:
  assumes "w_id w = k" "wf_windows ws"
  shows "wf_windows (AList.map_entry k (\<lambda>_. w) ws)"
proof -
  have "map fst (AList.map_entry k (\<lambda>_. w) ws) = map fst ws" by (induction ws) auto
  moreover have "\<forall>(i, v) \<in> set (AList.map_entry k (\<lambda>_. w) ws). w_id v = i" if "\<forall>(i, v) \<in> set ws. w_id v = i"
    using that assms(1) by (induction ws) auto
  ultimately show ?thesis using assms(2) by (simp add: wf_windows_def wf_hashmap_def)
qed

lemma replace_window_kin:
  assumes "tree_inv st" "map_of (windows st) wid = Some old" "configured sized hints v old = (w, err)"
  shows "same_kin st (modify_window wid (\<lambda>_. w) st)"
proof -
  have "w_id old = wid" using assms(1) map_of_SomeD [OF assms(2)] by (auto simp: tree_inv_def wf_table_def wf_windows_def)
  then have "w_id w = wid" using configured_kin(3) [OF assms(3)] by simp
  moreover have "kin (modify_window wid (\<lambda>_. w) st) k = kin st k" for k
    using assms(2) configured_kin(1,2) [OF assms(3)] by (cases "k = wid") (simp_all add: kin_def modify_window_def)
  ultimately show ?thesis
    by (simp add: same_kin_def fun_eq_iff modify_window_def wf_table_def wf_windows_replace)
qed

lemma configure_known_kin:
  assumes "tree_inv st" "map_of (windows st) wid = Some old" "configure_known E wid v old sized st = Some (st', ev)"
  shows "same_kin st st'"
proof -
  obtain w err where c: "configured sized (get_size_hints wid st) v old = (w, err)" by (rule prod.exhaust)
  define s1 where "s1 = modify_window wid (\<lambda>_. w) st"
  have k1: "same_kin st s1" unfolding s1_def by (rule replace_window_kin [OF assms(1,2) c])
  show ?thesis
  proof (cases err)
    case (Some e)
    with assms(3) k1 show ?thesis
      by (auto simp: configure_known_def c Let_def s1_def [symmetric] split: prod.splits)
  next
    case None
    define s2 where "s2 = (if geometry_changed sized v then spread_geometry E wid old w s1 else s1)"
    have k2: "same_kin st s2" unfolding s2_def using same_kin_trans [OF k1 spread_geometry_kin] k1 by simp
    note inv2 = tree_inv_kin [OF k2 assms(1)]
    have eq: "(case map_of (windows s2) wid of None \<Rightarrow> Some (s2, [])
        | Some w \<Rightarrow> (case apply_stacking wid v w s2 of
            None \<Rightarrow> Some (s2, build_error MATCH_ERROR (sequence st) 0 12 0)
          | Some st \<Rightarrow> if geometry_changed sized v \<or> cv_stack_mode v \<noteq> None
              then notify_configured E wid w (w_width old) (w_height old) st else Some (st, []))) = Some (st', ev)"
      using assms(3) unfolding configure_known_def Let_def c prod.case s1_def [symmetric] None option.case
        s2_def [symmetric] .
    show ?thesis
    proof (cases "map_of (windows s2) wid")
      case None
      with eq k2 show ?thesis by simp
    next
      case (Some u)
      show ?thesis
      proof (cases "apply_stacking wid v u s2")
        case None
        with eq Some k2 show ?thesis by simp
      next
        case (Some s3)
        note k3 = same_kin_trans [OF k2 apply_stacking_kin [OF inv2 \<open>map_of (windows s2) wid = Some u\<close> Some]]
        from eq Some \<open>map_of (windows s2) wid = Some u\<close> show ?thesis
          using k3 same_kin_trans [OF k3 notify_configured_kin] by (auto split: if_splits)
      qed
    qed
  qed
qed

lemma handle_configure_kin:
  assumes "tree_inv st" "handle_configure_window E wid v st = Some (st', ev)"
  shows "same_kin st st'"
proof (cases "map_of (windows st) wid")
  case None
  with assms(2) show ?thesis by (auto simp: handle_configure_window_def announce_kin split: if_splits)
next
  case (Some w)
  show ?thesis
  proof (cases "redirected w st")
    case True
    with assms(2) Some show ?thesis by (auto simp: handle_configure_window_def announce_kin)
  next
    case False
    define sized where "sized = (\<not> resize_redirected wid v st)"
    define s1 where "s1 = (if sized then st else request_resize E wid v st)"
    define s2 where "s2 = (if sized \<and> resizes v then request_sync E wid s1 else s1)"
    have k: "same_kin st s2"
      unfolding s2_def s1_def using request_sync_kin announce_kin(3) by simp
    have eq: "(case map_of (windows s2) wid of Some old \<Rightarrow> configure_known E wid v old sized s2 | None \<Rightarrow> Some (s2, [])) = Some (st', ev)"
      using assms(2) False
      unfolding handle_configure_window_def Some option.case Let_def sized_def [symmetric] s1_def [symmetric] s2_def [symmetric]
      by simp
    then show ?thesis
      using k same_kin_trans [OF k configure_known_kin [OF tree_inv_kin [OF k assms(1)]]]
      by (auto split: option.splits)
  qed
qed

lemma handle_circulate_kin:
  assumes "tree_inv st" "handle_circulate_window E d wid st = (st', ev)"
  shows "same_kin st st'"
proof (cases "map_of (windows st) wid")
  case None
  with assms(2) show ?thesis by (simp add: handle_circulate_window_def)
next
  case (Some w)
  define ms where "ms = filter (\<lambda>c. case map_of (windows st) c of Some v \<Rightarrow> w_mapped v | None \<Rightarrow> False) (w_children w)"
  define t where "t = (if d = 0 then hd ms else last ms)"
  have dist: "distinct (w_children w)"
    using assms(1) Some unfolding tree_inv_def kin_children_def kin_def by (metis (no_types, lifting) case_prod_conv distinct_sort option.case(2) option.simps(9))
  consider "st' = st" | "w_event_mask w AND SUBSTRUCTURE_REDIRECT \<noteq> 0" "length ms \<ge> 2"
    | "w_event_mask w AND SUBSTRUCTURE_REDIRECT = 0" "length ms \<ge> 2"
    using assms(2) by (cases "length (w_children w) < 2 \<or> length ms < 2")
      (auto simp: handle_circulate_window_def Some Let_def ms_def [symmetric])
  then show ?thesis
  proof cases
    case 2
    with assms(2) Some show ?thesis
      by (intro same_kin_frame) (auto simp: handle_circulate_window_def Let_def ms_def [symmetric] split: if_splits)
  next
    case 3
    then have "ms \<noteq> []" by auto
    then have "t \<in> set ms" by (simp add: t_def)
    then have t: "t \<in> set (w_children w)" by (simp add: ms_def)
    define cs where "cs = (if d = 0 then filter (\<lambda>c. c \<noteq> t) (w_children w) @ [t] else t # filter (\<lambda>c. c \<noteq> t) (w_children w))"
    have "mset cs = mset (w_children w)" using t dist by (simp add: cs_def mset_reinsert)
    then have "same_kin st (modify_window wid (\<lambda>p. p\<lparr>w_children := cs\<rparr>) st)"
      using Some by (intro same_kin_modify) simp_all
    note k = same_kin_trans [OF same_kin_trans [OF same_kin_trans [OF this announce_kin(2)] announce_kin(6)] announce_kin(6)]
    show ?thesis
    proof (cases "length (w_children w) < 2")
      case False
      with 3 assms(2) Some show ?thesis
        unfolding handle_circulate_window_def Some option.case Let_def ms_def [symmetric] t_def [symmetric] cs_def [symmetric]
        using k by auto
    qed (use assms(2) Some in \<open>simp add: handle_circulate_window_def\<close>)
  qed simp
qed

section \<open>Creating and destroying\<close>

definition kin_parent :: "input_client \<Rightarrow> u32 \<Rightarrow> u32 option" where
  "kin_parent st c = map_option fst (kin st c)"

lemma kin_parent_core: "kin_parent st c = map_option w_parent (core st c)"
  by (cases "core st c") (simp_all add: kin_parent_def kin_core)

lemma kin_children_core: "kin_children st p = (case core st p of Some w \<Rightarrow> sort (w_children w) | None \<Rightarrow> [])"
  by (cases "core st p") (simp_all add: kin_children_def kin_core)

lemma tree_inv_iff:
  "tree_inv st \<longleftrightarrow> window_tree_ok st \<and> wf_table st \<and> \<not> validate_resource_id st (root_window st) \<and>
     (\<forall>c w. core st c = Some w \<longrightarrow>
        (case core st (w_parent w) of None \<Rightarrow> \<not> validate_resource_id st (w_parent w) | Some p \<Rightarrow> c \<in> set (w_children p)))"
proof -
  have listed: "(\<forall>c p. map_option fst (kin st c) = Some p \<longrightarrow>
        (if kin st p = None then \<not> validate_resource_id st p else c \<in> set (kin_children st p))) \<longleftrightarrow>
      (\<forall>c w. core st c = Some w \<longrightarrow>
        (case core st (w_parent w) of None \<Rightarrow> \<not> validate_resource_id st (w_parent w) | Some p \<Rightarrow> c \<in> set (w_children p)))"
    (is "?l = ?r")
  proof -
    have "?l \<longleftrightarrow> (\<forall>c w. core st c = Some w \<longrightarrow>
        (if kin st (w_parent w) = None then \<not> validate_resource_id st (w_parent w) else c \<in> set (kin_children st (w_parent w))))"
      unfolding kin_core by (auto split: if_splits)
    also have "\<dots> \<longleftrightarrow> ?r"
    proof -
      have "(if kin st q = None then \<not> validate_resource_id st q else c \<in> set (kin_children st q)) =
          (case core st q of None \<Rightarrow> \<not> validate_resource_id st q | Some p \<Rightarrow> c \<in> set (w_children p))" for q c
        by (cases "core st q") (simp_all add: kin_core kin_children_core)
      then show ?thesis by (simp only:)
    qed
    finally show ?thesis .
  qed
  have "window_tree_ok st \<Longrightarrow>
     (\<forall>p. distinct (kin_children st p) \<and> (\<forall>c \<in> set (kin_children st p). map_option fst (kin st c) = Some p)) \<and>
     (\<exists>rank :: u32 \<Rightarrow> nat. \<forall>p. \<forall>c \<in> set (kin_children st p). rank c < rank p)"
  proof -
    assume ok: "window_tree_ok st"
    then obtain rank :: "u32 \<Rightarrow> nat" where
      rank: "\<And>p w c. core st p = Some w \<Longrightarrow> c \<in> set (w_children w) \<Longrightarrow> rank c < rank p"
      unfolding window_tree_ok_def kids_ranked_def by blast
    have "distinct (kin_children st p) \<and> (\<forall>c \<in> set (kin_children st p). map_option fst (kin st c) = Some p)" for p
    proof (cases "core st p")
      case (Some w)
      with ok have "distinct (w_children w)" "\<forall>c \<in> set (w_children w). \<exists>v. core st c = Some v \<and> w_parent v = p"
        unfolding window_tree_ok_def kids_ok_def by blast+
      with Some show ?thesis by (auto simp: kin_children_core kin_core)
    qed (simp add: kin_children_core)
    moreover have "\<forall>p. \<forall>c \<in> set (kin_children st p). rank c < rank p"
    proof (intro allI ballI)
      fix p c assume "c \<in> set (kin_children st p)"
      then show "rank c < rank p" using rank [of p] by (cases "core st p") (simp_all add: kin_children_core)
    qed
    ultimately show ?thesis by blast
  qed
  then show ?thesis using tree_inv_tree_ok [of st] unfolding tree_inv_def listed by blast
qed

lemma destroy_tree_inv:
  assumes inv: "tree_inv st" and d: "handle_destroy_window E wid st = Some (st', res)"
  shows "tree_inv st'"
proof -
  have life: "life_ok st" and wf: "wf_table st"
    using inv by (simp_all add: tree_inv_iff life_ok_def)
  have life': "life_ok st'" by (rule life_destroy_ok [OF life d])
  have "kids_ranked st" using life by (simp add: life_ok_def window_tree_ok_def)
  from destroy_outcome [OF this, of wid E] show ?thesis
  proof
    assume "map_of (windows st) wid = None \<and>
      handle_destroy_window E wid st = Some (st, ErrorReply (build_error WINDOW_ERROR (sequence st) wid 4 0))"
    with d have "st' = st" by (metis option.inject prod.inject)
    with inv show ?thesis by simp
  next
    assume "\<exists>win ds. map_of (windows st) wid = Some win \<and> collect_descendants (windows st) wid = Some ds \<and>
       insert wid (set ds) = subtree (windows st) wid"
    then obtain win ds where w: "map_of (windows st) wid = Some win" and c: "collect_descendants (windows st) wid = Some ds"
      and s: "insert wid (set ds) = subtree (windows st) wid" by blast
    obtain t where t: "handle_destroy_window E wid st = Some (t, NoReply)" "resource_id_base t = resource_id_base st"
      "core t = (\<lambda>k. if k \<in> subtree (windows st) wid then None
           else if k = w_parent win then map_option (without_child wid) (core st k) else core st k)"
      by (rule destroy_window_effect [OF w c s [symmetric], of E]) (rule that; assumption)
    have "st' = t" using t(1) d by simp
    have "case core t (w_parent u) of None \<Rightarrow> \<not> validate_resource_id t (w_parent u) | Some p \<Rightarrow> k \<in> set (w_children p)"
      if u: "core t k = Some u" for k u
    proof -
      from u obtain v where v: "core st k = Some v" "w_parent v = w_parent u" "k \<notin> subtree (windows st) wid"
        unfolding t(3) by (auto simp: without_child_def split: if_splits)
      have k: "k \<noteq> wid" using v(3) by (auto simp: subtree_def)
      have old: "case core st (w_parent u) of None \<Rightarrow> \<not> validate_resource_id st (w_parent u) | Some p \<Rightarrow> k \<in> set (w_children p)"
        using inv v(1,2) unfolding tree_inv_iff by metis
      show ?thesis
      proof (cases "core st (w_parent u)")
        case None
        moreover from this old have "\<not> validate_resource_id t (w_parent u)" using t(2) by (simp add: validate_resource_id_def)
        moreover from None have "core t (w_parent u) = None" unfolding t(3) by auto
        ultimately show ?thesis by simp
      next
        case (Some p)
        with old have "k \<in> set (w_children p)" by simp
        moreover from this have "w_parent u \<notin> subtree (windows st) wid" using subtree_child [OF _ Some] v(3) by blast
        ultimately show ?thesis using Some k unfolding t(3)
          by (cases "w_parent u = w_parent win") (simp_all add: without_child_def)
      qed
    qed
    then show ?thesis
      using life' wf_table_destroy [OF wf d] unfolding \<open>st' = t\<close> by (simp add: tree_inv_iff life_ok_def)
  qed
qed

lemma create_tree_inv:
  assumes inv: "tree_inv st" and c: "handle_create_window E hostname fresh r st = (st', res)"
    and own: "validate_resource_id st (cw_parent r) \<longrightarrow> map_of (windows st) (cw_parent r) \<noteq> None"
  shows "tree_inv st'"
proof (cases "create_window_error r st")
  case (Some e)
  with c inv show ?thesis by (cases e) (simp add: handle_create_window_def)
next
  case None
  have life: "life_ok st" and wf: "wf_table st" and root: "\<not> validate_resource_id st (root_window st)"
    using inv by (simp_all add: tree_inv_iff life_ok_def)
  have life': "life_ok st'" by (rule life_step_ok [OF life_create [OF c] life])
  have wf': "wf_table st'" by (rule wf_table_create [OF wf root c])
  obtain t where t: "handle_create_window E hostname fresh r st = (t, NoReply)" "resource_id_base t = resource_id_base st"
    "core t = (core st)(cw_wid r \<mapsto> new_window_state hostname r st,
           cw_parent r := map_option (with_child (cw_wid r)) (core st (cw_parent r)))"
    by (rule create_window_effect [OF None create_distinct [OF None root], of E hostname fresh]) (rule that; assumption)
  note new = create_error_None [OF None] and dist = create_distinct [OF None root]
  have "st' = t" using t(1) c by simp
  have valid: "validate_resource_id t = validate_resource_id st" using t(2) by (simp add: fun_eq_iff validate_resource_id_def)
  have "case core t (w_parent u) of None \<Rightarrow> \<not> validate_resource_id t (w_parent u) | Some p \<Rightarrow> k \<in> set (w_children p)"
    if u: "core t k = Some u" for k u
  proof (cases "k = cw_wid r")
    case True
    with u dist have "w_parent u = cw_parent r" unfolding t(3) by (auto simp: fun_upd_def)
    with own True show ?thesis unfolding t(3) valid
      by (auto simp: with_child_def core_dom [symmetric] split: option.split)
  next
    case False
    from u False obtain v where v: "core st k = Some v" "w_parent v = w_parent u"
      unfolding t(3) by (auto simp: with_child_def split: if_splits)
    have old: "case core st (w_parent u) of None \<Rightarrow> \<not> validate_resource_id st (w_parent u) | Some p \<Rightarrow> k \<in> set (w_children p)"
      using inv v unfolding tree_inv_iff by metis
    have "w_parent u \<noteq> cw_wid r" using old new(1,2) by auto
    with old show ?thesis unfolding t(3) valid
      by (auto simp: with_child_def split: option.splits)
  qed
  then show ?thesis using life' wf' unfolding \<open>st' = t\<close> by (simp add: tree_inv_iff life_ok_def)
qed

section \<open>Reparenting\<close>

text \<open>Moving a window below one that is not below it keeps the tree.\<close>

lemma kin_children_unlisted:
  assumes "tree_inv st" "kin_parent st c \<noteq> Some p"
  shows "c \<notin> set (kin_children st p)"
  using assms unfolding tree_inv_def kin_parent_def by blast

lemma moved_rank:
  assumes inv: "tree_inv st" and nb: "\<not> (parent_of (windows st))\<^sup>*\<^sup>* new wid"
    and ch: "\<And>p. set (kin_children st' p) = set (kin_children st p) - {wid} \<union> (if p = new then {wid} else {})"
  shows "\<exists>rank :: u32 \<Rightarrow> nat. \<forall>p. \<forall>c \<in> set (kin_children st' p). rank c < rank p"
proof -
  obtain rank :: "u32 \<Rightarrow> nat" where rank: "\<And>p c. c \<in> set (kin_children st p) \<Longrightarrow> rank c < rank p"
    using inv unfolding tree_inv_def by blast
  define B where "B = {k. (parent_of (windows st))\<^sup>*\<^sup>* k wid}"
  define rank' where "rank' k = (if k \<in> B then rank k else rank k + rank wid + 1)" for k
  have B: "wid \<in> B" "new \<notin> B" using nb by (simp_all add: B_def)
  have iff: "c \<in> B \<longleftrightarrow> p \<in> B" if c: "c \<in> set (kin_children st p)" "c \<noteq> wid" for c p
  proof -
    have "kin_parent st c = Some p" using kin_children_unlisted [OF inv] c(1) by blast
    then obtain w where w: "map_of (windows st) c = Some w" "w_parent w = p" by (auto simp: kin_parent_def kin_def)
    show ?thesis
      using c(2) w ancestor_iff [of "windows st" c wid] by (auto simp: B_def Nitpick.rtranclp_unfold)
  qed
  have "rank' c < rank' p" if "c \<in> set (kin_children st' p)" for p c
  proof (cases "c = wid")
    case True
    with that ch have "p = new" by (auto split: if_splits)
    with True B show ?thesis by (simp add: rank'_def)
  next
    case False
    with that ch have c: "c \<in> set (kin_children st p)" by (auto split: if_splits)
    with iff [OF c False] rank [OF c] show ?thesis by (simp add: rank'_def)
  qed
  then show ?thesis by blast
qed

lemma moved_tree_inv:
  assumes inv: "tree_inv st" and nb: "\<not> (parent_of (windows st))\<^sup>*\<^sup>* new wid"
    and new: "kin st new \<noteq> None" "kin st wid \<noteq> None"
    and ch: "\<And>p. set (kin_children st' p) = set (kin_children st p) - {wid} \<union> (if p = new then {wid} else {})"
      "\<And>p. distinct (kin_children st' p)"
    and par: "\<And>c. kin_parent st' c = (if c = wid then Some new else kin_parent st c)"
    and same: "wf_table st'" "root_window st' = root_window st" "resource_id_base st' = resource_id_base st"
  shows "tree_inv st'"
proof -
  have dom: "kin st' p = None \<longleftrightarrow> kin st p = None" for p
    using par [of p] new by (cases "kin st p"; cases "kin st' p") (auto simp: kin_parent_def split: if_splits)
  have valid: "validate_resource_id st' = validate_resource_id st" using same(3) by (simp add: fun_eq_iff validate_resource_id_def)
  have "map_option fst (kin st' c) = Some p" if "c \<in> set (kin_children st' p)" for c p
    using that ch(1) [of p] par [of c] kin_children_unlisted [OF inv, of c p] by (auto simp: kin_parent_def split: if_splits)
  moreover have "if kin st' p = None then \<not> validate_resource_id st' p else c \<in> set (kin_children st' p)"
    if "map_option fst (kin st' c) = Some p" for c p
  proof (cases "c = wid")
    case True
    with that par [of c] have "p = new" unfolding kin_parent_def by (metis option.inject)
    with True new(1) dom [of new] ch(1) [of new] show ?thesis by (auto simp del: not_None_eq)
  next
    case False
    with that par [of c] have "map_option fst (kin st c) = Some p" unfolding kin_parent_def by metis
    then have "if kin st p = None then \<not> validate_resource_id st p else c \<in> set (kin_children st p)"
      using inv unfolding tree_inv_def by blast
    with False dom ch(1) [of p] valid show ?thesis by (auto split: if_splits)
  qed
  moreover have "\<not> validate_resource_id st (root_window st)" using inv by (simp add: tree_inv_def)
  ultimately show ?thesis
    unfolding tree_inv_def valid same(2) using moved_rank [OF inv nb ch(1)] ch(2) same(1) by blast
qed

lemma move_in_tree_inv:
  assumes inv: "tree_inv st" and w: "map_of (windows st) wid = Some w" and p: "map_of (windows st) new = Some p"
    and nb: "\<not> (parent_of (windows st))\<^sup>*\<^sup>* new wid"
  shows "tree_inv (move_in_tree wid (w_parent w) new x y st)"
proof -
  define st' where "st' = move_in_tree wid (w_parent w) new x y st"
  have ne: "new \<noteq> wid" "w_parent w \<noteq> wid"
  proof -
    show "new \<noteq> wid" using nb by auto
    show "w_parent w \<noteq> wid"
    proof
      assume s: "w_parent w = wid"
      then have "wid \<in> set (w_children w)" using tree_inv_listed(1) [OF inv w, of w] w by simp
      then have "wid \<in> set (kin_children st wid)" using w by (simp add: kin_children_def kin_def)
      then show False using inv unfolding tree_inv_def by blast
    qed
  qed
  have at: "map_of (windows st') k = map_option (\<lambda>v.
      let v = (if k = w_parent w then v\<lparr>w_children := filter (\<lambda>c. c \<noteq> wid) (w_children v)\<rparr> else v);
          v = (if k = wid then v\<lparr>w_parent := new, w_x := x, w_y := y\<rparr> else v)
      in if k = new then v\<lparr>w_children := w_children v @ [wid]\<rparr> else v) (map_of (windows st) k)" for k
    by (cases "map_of (windows st) k") (auto simp: st'_def move_in_tree_def Let_def modify_window_def)
  have un: "wid \<notin> set (w_children v)" if "map_of (windows st) k = Some v" "k \<noteq> w_parent w" for k v
    using kin_children_unlisted [OF inv, of wid k] that w by (simp add: kin_children_def kin_def kin_parent_def)
  have dist: "distinct (w_children v)" if "map_of (windows st) k = Some v" for k v
  proof -
    have "distinct (kin_children st k)" using inv by (simp add: tree_inv_def)
    with that show ?thesis by (simp add: kin_children_def kin_def)
  qed
  have kids: "kin_children st k = (case map_of (windows st) k of Some v \<Rightarrow> sort (w_children v) | None \<Rightarrow> [])" for st k
    by (cases "map_of (windows st) k") (simp_all add: kin_children_def kin_def)
  have "set (kin_children st' k) = set (kin_children st k) - {wid} \<union> (if k = new then {wid} else {}) \<and> distinct (kin_children st' k)" for k
  proof (cases "map_of (windows st) k")
    case None
    with p show ?thesis by (auto simp: kids at)
  next
    case (Some v)
    with un [OF Some] dist [OF Some] show ?thesis
      by (cases "k = w_parent w"; cases "k = wid") (auto simp: kids at Let_def)
  qed
  then have ch: "set (kin_children st' k) = set (kin_children st k) - {wid} \<union> (if k = new then {wid} else {})"
    "distinct (kin_children st' k)" for k by blast+
  have "kin_parent st' c = (if c = wid then Some new else kin_parent st c)" for c
    using w ne by (cases "map_of (windows st) c") (auto simp: kin_parent_def kin_def at Let_def)
  moreover have "wf_table st'"
    using inv unfolding st'_def move_in_tree_def Let_def tree_inv_def
    by (intro wf_table_modify wf_table_same [OF windows_events(4)]) simp_all
  ultimately have "tree_inv st'"
    using w p ch
    by (intro moved_tree_inv [OF inv nb, of st']) (simp_all add: kin_def st'_def move_in_tree_def modify_window_def)
  then show ?thesis by (simp add: st'_def)
qed

lemma unmap_notify_kin: "same_kin st (unmap_notify E wid p st)"
  unfolding unmap_notify_def Let_def
  by (rule same_kin_trans [OF _ same_kin_modify]) (simp_all add: same_kin_frame)

lemma notify_reparented_kin: "notify_reparented E wid old new x y st = (st', ev) \<Longrightarrow> same_kin st st'"
  by (rule same_kin_frame) (auto simp: notify_reparented_def Let_def)

lemma reparent_tree_inv:
  assumes inv: "tree_inv st" and d: "tree_ok depth (windows st)"
    and r: "handle_reparent_window E wid new x y st = Some (st', ev)"
  shows "tree_inv st'"
proof (cases "map_of (windows st) wid")
  case None
  with r inv show ?thesis by (simp add: handle_reparent_window_def)
next
  case (Some w)
  show ?thesis
  proof (cases "map_of (windows st) new = None \<or> wid = new \<or> is_descendant_of (windows st) new wid")
    case True
    with r inv Some show ?thesis by (auto simp: handle_reparent_window_def split: if_splits)
  next
    case False
    have nb: "\<not> (parent_of (windows st))\<^sup>*\<^sup>* new wid"
    proof -
      have "is_descendant_of (windows st) new wid \<longleftrightarrow> (parent_of (windows st))\<^sup>+\<^sup>+ new wid"
        unfolding is_descendant_of_def using tree_okD(1) [OF d] by (intro descendant_within_exact [OF d]) auto
      with False show ?thesis by (auto simp: Nitpick.rtranclp_unfold)
    qed
    define s1 where "s1 = (if w_mapped w then unmap_notify E wid (w_parent w) st else st)"
    have k1: "same_kin st s1" by (simp add: s1_def unmap_notify_kin)
    have at: "map_option w_parent (map_of (windows s1) k) = map_option w_parent (map_of (windows st) k)" for k
    proof -
      have "kin s1 k = kin st k" using k1 by (simp add: same_kin_def)
      then show ?thesis by (cases "map_of (windows st) k"; cases "map_of (windows s1) k") (simp_all add: kin_def)
    qed
    have par: "parent_of (windows s1) = parent_of (windows st)"
    proof (intro ext)
      fix c p
      show "parent_of (windows s1) c p = parent_of (windows st) c p"
        using at [of c] by (cases "map_of (windows st) c"; cases "map_of (windows s1) c") (simp_all add: parent_of.simps)
    qed
    obtain w1 p1 where w1: "map_of (windows s1) wid = Some w1" "w_parent w1 = w_parent w" "map_of (windows s1) new = Some p1"
      using at [of wid] at [of new] Some False by (cases "map_of (windows s1) new") auto
    define s2 where "s2 = move_in_tree wid (w_parent w) new x y s1"
    have inv2: "tree_inv s2"
      unfolding s2_def w1(2) [symmetric]
      by (rule move_in_tree_inv [OF tree_inv_kin [OF k1 inv] w1(1,3)]) (use nb par in simp)
    obtain s3 e where s3: "notify_reparented E wid (w_parent w) new x y s2 = (s3, e)" by (rule prod.exhaust)
    have inv3: "tree_inv s3" by (rule tree_inv_kin [OF notify_reparented_kin [OF s3] inv2])
    have "st' = s3 \<or> (\<exists>ev. handle_map_window E wid s3 = Some (st', ev))"
      using r False unfolding handle_reparent_window_def Some option.case Let_def s1_def [symmetric] s2_def [symmetric] s3 prod.case
      by (auto split: if_splits)
    then show ?thesis using inv3 tree_inv_kin [OF map_window_kin [OF inv3] inv3] by blast
  qed
qed

section \<open>All window requests\<close>

inductive tree_step :: "encoders \<Rightarrow> input_client \<Rightarrow> input_client \<Rightarrow> bool" for E where
  tree_create: "handle_create_window E hostname fresh r st = (st', res) \<Longrightarrow>
    (validate_resource_id st (cw_parent r) \<longrightarrow> map_of (windows st) (cw_parent r) \<noteq> None) \<Longrightarrow> tree_step E st st'"
| tree_destroy: "handle_destroy_window E wid st = Some (st', res) \<Longrightarrow> tree_step E st st'"
| tree_map: "handle_map_window E wid st = Some (st', ev) \<Longrightarrow> tree_step E st st'"
| tree_map_sub: "handle_map_subwindows E wid st = Some (st', ev) \<Longrightarrow> tree_step E st st'"
| tree_unmap: "handle_unmap_window E wid st = Some (st', ev) \<Longrightarrow> tree_step E st st'"
| tree_unmap_sub: "handle_unmap_subwindows E wid st = Some (st', ev) \<Longrightarrow> tree_step E st st'"
| tree_configure: "handle_configure_window E wid v st = Some (st', ev) \<Longrightarrow> tree_step E st st'"
| tree_circulate: "handle_circulate_window E d wid st = (st', ev) \<Longrightarrow> tree_step E st st'"
| tree_reparent: "handle_reparent_window E wid new x y st = Some (st', ev) \<Longrightarrow>
    tree_ok depth (windows st) \<Longrightarrow> tree_step E st st'"

lemma tree_step_inv: "tree_step E st st' \<Longrightarrow> tree_inv st \<Longrightarrow> tree_inv st'"
proof (induction rule: tree_step.induct)
  case tree_create
  then show ?case by (blast intro: create_tree_inv)
next
  case tree_destroy
  then show ?case by (blast intro: destroy_tree_inv)
next
  case tree_reparent
  then show ?case by (blast intro: reparent_tree_inv)
qed (blast intro: tree_inv_kin map_window_kin subwindows_kin handle_configure_kin handle_circulate_kin)+

interpretation tree: invariant_system "tree_step E" tree_inv for E
  by unfold_locales (rule tree_step_inv)


lemma demo_tree_inv: "tree_inv demo_life"
proof -
  have root: "root_window demo_life = 9" by (simp add: demo_life_def)
  have zero: "\<not> validate_resource_id demo_life 0" by (simp add: validate_resource_id_def demo_life_def demo_input_def)
  have "wf_table demo_life" by (simp add: wf_table_def wf_windows_def wf_hashmap_def demo_life_def)
  moreover have "case core demo_life (w_parent w) of None \<Rightarrow> \<not> validate_resource_id demo_life (w_parent w) | Some p \<Rightarrow> c \<in> set (w_children p)"
    if "core demo_life c = Some w" for c w
    using that zero unfolding core_def root by (auto simp: demo_life_def window_at_def split: if_splits)
  ultimately show ?thesis using demo_life_ok by (simp add: tree_inv_iff life_ok_def)
qed

definition demo_tree :: input_client where
  "demo_tree = modify_window 0x400003 (\<lambda>w. w\<lparr>w_mapped := False\<rparr>) demo_life"

definition demo_reparented :: input_client where
  "demo_reparented = fst (the (handle_reparent_window demo_encoders 0x400003 0x400001 4 5 demo_tree))"


end
