(* ===== verification/Attributes.thy ===== *)
theory Attributes
  imports Map_Window
begin

text \<open>
  Window attributes, the save set and the queries of geometry and tree
  (\<open>handlers/window/attributes.rs\<close>, \<open>handlers/window/query.rs\<close>) and the announcement of a changed cursor
  (\<open>handlers/mod.rs\<close>). Of a pixmap the model keeps its size and depth.

  A request for a window of another connection first copies the window from the registry shared by all
  connections into the own table (\<open>local_window\<close>).
\<close>

unbundle bit_operations_syntax

section \<open>Replies\<close>

record window_attributes_reply =
  wr_backing_store :: u8
  wr_visual :: u32
  wr_class :: u16
  wr_bit_gravity :: u8
  wr_win_gravity :: u8
  wr_backing_planes :: u32
  wr_backing_pixel :: u32
  wr_save_under :: bool
  wr_map_state :: u8
  wr_override_redirect :: bool
  wr_colormap :: u32
  wr_all_event_masks :: u32
  wr_your_event_mask :: u32
  wr_do_not_propagate :: u32

record geometry_reply =
  gg_depth :: u8
  gg_root :: u32
  gg_x :: i16
  gg_y :: i16
  gg_width :: u16
  gg_height :: u16
  gg_border_width :: u16

record tree_reply =
  qt_root :: u32
  qt_parent :: u32
  qt_children :: "u32 list"

datatype window_reply =
    AttributesReply window_attributes_reply
  | GeometryReply geometry_reply
  | TreeReply tree_reply

definition COLOR_MAP_CHANGE :: u32 where "COLOR_MAP_CHANGE = 0x800000"

definition local_window :: "u32 \<Rightarrow> input_client \<Rightarrow> input_client option" where
  "local_window wid st =
     (if map_of (windows st) wid \<noteq> None then Some st
      else map_option (\<lambda>w. st\<lparr>windows := AList.update wid w (windows st)\<rparr>) (map_of (shared_windows st) wid))"

section \<open>ChangeWindowAttributes\<close>

definition is_some_and :: "'a option \<Rightarrow> ('a \<Rightarrow> bool) \<Rightarrow> bool" where
  "is_some_and x p = (case x of Some v \<Rightarrow> p v | None \<Rightarrow> False)"

definition attributes_error :: "u32 \<Rightarrow> create_window_values \<Rightarrow> input_client \<Rightarrow> (u8 \<times> u32) option" where
  "attributes_error wid vl st =
     (if is_some_and (vl_bit_gravity vl) (\<lambda>g. g > 10) then Some (VALUE_ERROR, the (vl_bit_gravity vl))
      else if is_some_and (vl_win_gravity vl) (\<lambda>g. g > 10) then Some (VALUE_ERROR, the (vl_win_gravity vl))
      else if is_some_and (vl_backing_store vl) (\<lambda>s. s > 2) then Some (VALUE_ERROR, the (vl_backing_store vl))
      else if is_some_and (vl_event_mask vl) (\<lambda>m. check_redirect_conflict wid m (client_id st) (event_broadcaster st) \<noteq> None)
      then Some (ACCESS_ERROR, 0)
      else if is_some_and (vl_cursor vl) (\<lambda>c. c \<noteq> 0 \<and> c \<notin> set (cursors st))
      then Some (CURSOR_ERROR, the (vl_cursor vl))
      else None)"

definition changed_attributes :: "create_window_values \<Rightarrow> window_attributes \<Rightarrow> window_attributes" where
  "changed_attributes vl a =
     a\<lparr>a_background_pixmap := (case vl_background_pixmap vl of Some v \<Rightarrow> Some v | None \<Rightarrow> a_background_pixmap a),
       a_background_pixel := or_default (a_background_pixel a) (vl_background_pixel vl),
       a_border_pixmap := (case vl_border_pixmap vl of Some v \<Rightarrow> Some v | None \<Rightarrow> a_border_pixmap a),
       a_border_pixel := or_default (a_border_pixel a) (vl_border_pixel vl),
       a_backing_store := (case vl_backing_store vl of Some v \<Rightarrow> ucast v | None \<Rightarrow> a_backing_store a),
       a_backing_planes := or_default (a_backing_planes a) (vl_backing_planes vl),
       a_backing_pixel := or_default (a_backing_pixel a) (vl_backing_pixel vl),
       a_override_redirect := (case vl_override_redirect vl of Some v \<Rightarrow> v \<noteq> 0 | None \<Rightarrow> a_override_redirect a),
       a_save_under := (case vl_save_under vl of Some v \<Rightarrow> v \<noteq> 0 | None \<Rightarrow> a_save_under a),
       a_colormap := or_default (a_colormap a) (vl_colormap vl),
       a_cursor := (case vl_cursor vl of Some v \<Rightarrow> if v = 0 then None else Some v | None \<Rightarrow> a_cursor a)\<rparr>"

definition changed_window :: "create_window_values \<Rightarrow> window_state \<Rightarrow> window_state" where
  "changed_window vl w =
     w\<lparr>w_event_mask := or_default (w_event_mask w) (vl_event_mask vl),
       w_do_not_propagate := or_default (w_do_not_propagate w) (vl_do_not_propagate vl),
       w_attrs := changed_attributes vl (w_attrs w)\<rparr>"

definition note_gravity :: "u32 \<Rightarrow> create_window_values \<Rightarrow> input_client \<Rightarrow> input_client" where
  "note_gravity wid vl st =
     st\<lparr>bit_gravity := (case vl_bit_gravity vl of Some g \<Rightarrow> AList.update wid (ucast g) (bit_gravity st) | None \<Rightarrow> bit_gravity st),
        win_gravity := (case vl_win_gravity vl of Some g \<Rightarrow> AList.update wid (ucast g) (win_gravity st) | None \<Rightarrow> win_gravity st)\<rparr>"

definition select_events :: "u32 \<Rightarrow> u32 \<Rightarrow> input_client \<Rightarrow> input_client" where
  "select_events wid m st =
     (let st = (if wid = root_window st \<and> m AND SUBSTRUCTURE_REDIRECT \<noteq> 0
                then st\<lparr>wm_client := Some (client_id st), wm_tx := Some (wm_events_tx st)\<rparr> else st)
      in subscribe_to_window_events wid m (wm_events_tx st) st)"

definition notify_window_colormap :: "encoders \<Rightarrow> u32 \<Rightarrow> u32 \<Rightarrow> input_client \<Rightarrow> input_client" where
  "notify_window_colormap E wid cmap st =
     (let ev = structure_bytes E (ColormapNotifyEv wid cmap) st
      in broadcast_event wid COLOR_MAP_CHANGE ev (push_event ev st))"

definition emit_cursor_changed :: "encoders \<Rightarrow> u32 \<Rightarrow> input_client \<Rightarrow> input_client" where
  "emit_cursor_changed E wid st =
     (let new_cursor_id = (case map_of (windows st) wid of Some w \<Rightarrow> or_default 0 (a_cursor (w_attrs w)) | None \<Rightarrow> 0);
          old_cursor_id = current_cursor st;
          st = st\<lparr>current_cursor := new_cursor_id\<rparr>
      in if new_cursor_id \<noteq> old_cursor_id
         then fold (\<lambda>sub st. push_event (structure_bytes E (CursorNotifyEv (sequence st) sub new_cursor_id (timestamp st)) st) st)
                (map fst (filter snd (cursor_watchers st))) st
         else st)"

definition announce_border :: "u32 \<Rightarrow> input_client \<Rightarrow> input_client" where
  "announce_border wid st =
     (case (map_of (windows st) wid, window_uuid wid st) of
        (Some w, Some uuid) \<Rightarrow>
          say (WindowConfigured (client_id st) uuid (w_x w) (w_y w) (w_width w) (w_height w)
                 (a_border_width (w_attrs w)) (a_border_pixel (w_attrs w))) st
      | _ \<Rightarrow> st)"

definition apply_attributes :: "encoders \<Rightarrow> u32 \<Rightarrow> create_window_values \<Rightarrow> window_state \<Rightarrow> input_client \<Rightarrow> input_client" where
  "apply_attributes E wid vl w st =
     (let w' = changed_window vl w;
          colormap_changed = is_some_and (vl_colormap vl) (\<lambda>c. c \<noteq> a_colormap (w_attrs w)) \<and>
                             w_event_mask w' AND COLOR_MAP_CHANGE \<noteq> 0;
          cursor_changed = (a_cursor (w_attrs w') \<noteq> a_cursor (w_attrs w));
          st = modify_window wid (\<lambda>_. w') (note_gravity wid vl st);
          st = (case vl_event_mask vl of Some m \<Rightarrow> select_events wid m st | None \<Rightarrow> st);
          st = (if colormap_changed then notify_window_colormap E wid (a_colormap (w_attrs w')) st else st);
          st = (if cursor_changed then emit_cursor_changed E wid st else st);
          st = (if vl_border_pixmap vl \<noteq> None \<or> vl_border_pixel vl \<noteq> None then announce_border wid st else st)
      in mark_window_shared_dirty wid st)"

definition handle_change_window_attributes ::
    "encoders \<Rightarrow> u32 \<Rightarrow> create_window_values \<Rightarrow> input_client \<Rightarrow> input_client \<times> window_reply response" where
  "handle_change_window_attributes E wid vl st =
     (case local_window wid st of
        None \<Rightarrow> (st, ErrorReply (build_error WINDOW_ERROR (sequence st) wid 2 0))
      | Some st \<Rightarrow>
          (case attributes_error wid vl st of
             Some (code, bad) \<Rightarrow> (st, ErrorReply (build_error code (sequence st) bad 2 0))
           | None \<Rightarrow>
               (case map_of (windows st) wid of
                  None \<Rightarrow> (st, NoReply)
                | Some w \<Rightarrow> (apply_attributes E wid vl w st, NoReply))))"

section \<open>GetWindowAttributes\<close>

text \<open>The walk to the root, at most 256 steps; True when no unmapped window was met.\<close>

fun viewable_from :: "nat \<Rightarrow> windows_t \<Rightarrow> u32 \<Rightarrow> u32 \<Rightarrow> bool" where
  "viewable_from 0 ws root cur = True"
| "viewable_from (Suc n) ws root cur =
     (if cur = 0 \<or> cur = root then True
      else case map_of ws cur of
             Some p \<Rightarrow> if w_mapped p then viewable_from n ws root (w_parent p) else False
           | None \<Rightarrow> True)"

definition map_state :: "windows_t \<Rightarrow> u32 \<Rightarrow> window_state \<Rightarrow> u8" where
  "map_state ws root w =
     (if \<not> w_mapped w then 0 else if viewable_from 256 ws root (w_parent w) then 2 else 1)"

definition attributes_reply :: "u32 \<Rightarrow> window_state \<Rightarrow> input_client \<Rightarrow> window_attributes_reply" where
  "attributes_reply wid w st =
     (let a = w_attrs w
      in \<lparr>wr_backing_store = a_backing_store a, wr_visual = a_visual a, wr_class = a_class a,
          wr_bit_gravity = or_default 0 (map_of (bit_gravity st) wid),
          wr_win_gravity = or_default 1 (map_of (win_gravity st) wid),
          wr_backing_planes = a_backing_planes a, wr_backing_pixel = a_backing_pixel a,
          wr_save_under = a_save_under a, wr_map_state = map_state (windows st) (root_window st) w,
          wr_override_redirect = a_override_redirect a,
          wr_colormap = (if a_colormap a \<noteq> 0 then a_colormap a else ROOT_COLORMAP),
          wr_all_event_masks = w_event_mask w OR all_event_masks wid (event_broadcaster st),
          wr_your_event_mask = w_event_mask w, wr_do_not_propagate = w_do_not_propagate w\<rparr>)"

definition handle_get_window_attributes :: "u32 \<Rightarrow> input_client \<Rightarrow> input_client \<times> window_reply response" where
  "handle_get_window_attributes wid st =
     (case local_window wid st of
        None \<Rightarrow> (st, ErrorReply (build_error WINDOW_ERROR (sequence st) wid 3 0))
      | Some st \<Rightarrow>
          (case map_of (windows st) wid of
             None \<Rightarrow> (st, ErrorReply (build_error WINDOW_ERROR (sequence st) wid 3 0))
           | Some w \<Rightarrow> (st, Reply (AttributesReply (attributes_reply wid w st)))))"

section \<open>ChangeSaveSet\<close>

definition handle_change_save_set :: "u8 \<Rightarrow> u32 \<Rightarrow> input_client \<Rightarrow> input_client \<times> window_reply response" where
  "handle_change_save_set mode window st =
     (if map_of (windows st) window = None \<or> window = root_window st
      then (st, ErrorReply (build_error WINDOW_ERROR (sequence st) window 6 0))
      else if mode > 1 then (st, ErrorReply (build_error VALUE_ERROR (sequence st) (ucast mode) 6 0))
      else if mode = 0
      then (st\<lparr>save_set := (if window \<in> set (save_set st) then save_set st else save_set st @ [window])\<rparr>, NoReply)
      else (st\<lparr>save_set := filter (\<lambda>w. w \<noteq> window) (save_set st)\<rparr>, NoReply))"

section \<open>GetGeometry and QueryTree\<close>

definition window_geometry :: "window_state \<Rightarrow> input_client \<Rightarrow> geometry_reply" where
  "window_geometry w st =
     \<lparr>gg_depth = a_depth (w_attrs w), gg_root = root_window st, gg_x = w_x w, gg_y = w_y w,
      gg_width = w_width w, gg_height = w_height w, gg_border_width = a_border_width (w_attrs w)\<rparr>"

definition handle_get_geometry :: "u32 \<Rightarrow> input_client \<Rightarrow> window_reply response" where
  "handle_get_geometry drawable st =
     (case map_of (windows st) drawable of
        Some w \<Rightarrow> Reply (GeometryReply (window_geometry w st))
      | None \<Rightarrow>
          (case map_of (pixmap_sizes st) drawable of
             Some (wd, ht, depth) \<Rightarrow>
               Reply (GeometryReply \<lparr>gg_depth = depth, gg_root = root_window st, gg_x = 0, gg_y = 0,
                        gg_width = wd, gg_height = ht, gg_border_width = 0\<rparr>)
           | None \<Rightarrow>
               (case map_of (shared_windows st) drawable of
                  Some w \<Rightarrow> Reply (GeometryReply (window_geometry w st))
                | None \<Rightarrow> ErrorReply (build_error DRAWABLE_ERROR (sequence st) drawable 14 0))))"

definition tree_children :: "u32 \<Rightarrow> window_state \<Rightarrow> windows_t \<Rightarrow> u32 list" where
  "tree_children wid w ws =
     w_children w @ map w_id (filter (\<lambda>c. w_parent c = wid \<and> w_id c \<notin> set (w_children w)) (map snd ws))"

definition handle_query_tree :: "u32 \<Rightarrow> input_client \<Rightarrow> input_client \<times> window_reply response" where
  "handle_query_tree wid st =
     (case local_window wid st of
        None \<Rightarrow> (st, ErrorReply (build_error WINDOW_ERROR (sequence st) wid 15 0))
      | Some st \<Rightarrow>
          (case map_of (windows st) wid of
             Some w \<Rightarrow> (st, Reply (TreeReply \<lparr>qt_root = root_window st, qt_parent = w_parent w,
                              qt_children = tree_children wid w (windows st)\<rparr>))
           | None \<Rightarrow> (st, Reply (TreeReply \<lparr>qt_root = root_window st, qt_parent = 0, qt_children = []\<rparr>))))"

section \<open>What the requests change\<close>

lemma is_some_and_simps [simp]: "is_some_and None p = False" "is_some_and (Some v) p = p v"
  by (simp_all add: is_some_and_def)

lemma local_window_known: "map_of (windows st) wid = Some w \<Longrightarrow> local_window wid st = Some st"
  by (simp add: local_window_def)

lemma push_all_frame:
  "windows (fold (\<lambda>x st. push_event (f x st) st) xs st) = windows st"
  "bit_gravity (fold (\<lambda>x st. push_event (f x st) st) xs (st :: input_client)) = bit_gravity st"
  "win_gravity (fold (\<lambda>x st. push_event (f x st) st) xs st) = win_gravity st"
  "root_window (fold (\<lambda>x st. push_event (f x st) st) xs st) = root_window st"
  by (induction xs arbitrary: st) (simp_all add: push_event_def)

text \<open>What follows the change of the record leaves the windows and the gravities alone.\<close>

definition same_attributes :: "input_client \<Rightarrow> input_client \<Rightarrow> bool" where
  "same_attributes st st' \<longleftrightarrow> windows st' = windows st \<and> bit_gravity st' = bit_gravity st \<and>
     win_gravity st' = win_gravity st \<and> root_window st' = root_window st"

lemma same_attributes_trans: "same_attributes a b \<Longrightarrow> same_attributes b c \<Longrightarrow> same_attributes a c"
  by (simp add: same_attributes_def)

lemma same_attributes_cursor: "same_attributes st (emit_cursor_changed E wid st)"
  by (simp add: same_attributes_def emit_cursor_changed_def Let_def push_all_frame)

lemma same_attributes_steps:
  "same_attributes st (select_events wid m st)" "same_attributes st (notify_window_colormap E wid c st)"
  "same_attributes st (announce_border wid st)"
  "same_attributes st (mark_window_shared_dirty wid st)" "same_attributes st st"
  by (simp_all add: same_attributes_def select_events_def notify_window_colormap_def announce_border_def
      subscribe_to_window_events_def broadcast_event_def push_event_def mark_window_shared_dirty_def say_def Let_def
      split: option.split)

lemma apply_attributes_effect:
  "same_attributes (modify_window wid (\<lambda>_. changed_window vl w) (note_gravity wid vl st)) (apply_attributes E wid vl w st)"
proof -
  define s0 where "s0 = modify_window wid (\<lambda>_. changed_window vl w) (note_gravity wid vl st)"
  define s1 where "s1 = (case vl_event_mask vl of Some m \<Rightarrow> select_events wid m s0 | None \<Rightarrow> s0)"
  define b1 where "b1 \<longleftrightarrow> is_some_and (vl_colormap vl) (\<lambda>c. c \<noteq> a_colormap (w_attrs w)) \<and>
    w_event_mask (changed_window vl w) AND COLOR_MAP_CHANGE \<noteq> 0"
  define s2 where "s2 = (if b1 then notify_window_colormap E wid (a_colormap (w_attrs (changed_window vl w))) s1 else s1)"
  define s3 where "s3 = (if a_cursor (w_attrs (changed_window vl w)) \<noteq> a_cursor (w_attrs w) then emit_cursor_changed E wid s2 else s2)"
  define s4 where "s4 = (if vl_border_pixmap vl \<noteq> None \<or> vl_border_pixel vl \<noteq> None then announce_border wid s3 else s3)"
  have "same_attributes s0 s1" by (simp add: s1_def same_attributes_steps split: option.split)
  moreover have "same_attributes s1 s2" by (simp add: s2_def same_attributes_steps)
  moreover have "same_attributes s2 s3" by (simp add: s3_def same_attributes_steps same_attributes_cursor)
  moreover have "same_attributes s3 s4" by (simp add: s4_def same_attributes_steps)
  moreover have "apply_attributes E wid vl w st = mark_window_shared_dirty wid s4"
    unfolding apply_attributes_def Let_def s0_def b1_def s1_def s2_def s3_def s4_def ..
  ultimately show ?thesis
    using same_attributes_steps(4) same_attributes_trans unfolding s0_def [symmetric] by metis
qed

lemma change_attributes_accepted:
  assumes "handle_change_window_attributes E wid vl st = (st', NoReply)"
  obtains st1 w where "local_window wid st = Some st1" "map_of (windows st1) wid = Some w" "attributes_error wid vl st1 = None"
    "st' = apply_attributes E wid vl w st1"
proof (cases "local_window wid st")
  case (Some st1)
  then have "map_of (windows st1) wid \<noteq> None" by (auto simp: local_window_def split: if_splits)
  then obtain w where w: "map_of (windows st1) wid = Some w" by blast
  from assms Some w have "attributes_error wid vl st1 = None \<and> st' = apply_attributes E wid vl w st1"
    by (auto simp: handle_change_window_attributes_def split: option.splits)
  with Some w that show thesis by blast
qed (use assms in \<open>simp add: handle_change_window_attributes_def\<close>)

lemma viewable_from_cong:
  assumes "\<And>k. map_option (\<lambda>w. (w_mapped w, w_parent w)) (map_of ws' k) = map_option (\<lambda>w. (w_mapped w, w_parent w)) (map_of ws k)"
  shows "viewable_from n ws' root cur = viewable_from n ws root cur"
proof (induction n arbitrary: cur)
  case (Suc n)
  show ?case
  proof (cases "map_of ws cur")
    case None
    moreover have "map_of ws' cur = None" using assms [of cur] None by simp
    ultimately show ?thesis by simp
  next
    case (Some v)
    then obtain v' where "map_of ws' cur = Some v'" "w_parent v' = w_parent v" "w_mapped v' = w_mapped v"
      using assms [of cur] by auto
    with Some show ?thesis by (simp add: Suc.IH)
  qed
qed simp

lemma changed_window_simps [simp]:
  "w_mapped (changed_window vl w) = w_mapped w" "w_parent (changed_window vl w) = w_parent w"
  "w_id (changed_window vl w) = w_id w" "w_children (changed_window vl w) = w_children w"
  "w_event_mask (changed_window vl w) = or_default (w_event_mask w) (vl_event_mask vl)"
  "w_do_not_propagate (changed_window vl w) = or_default (w_do_not_propagate w) (vl_do_not_propagate vl)"
  "w_attrs (changed_window vl w) = changed_attributes vl (w_attrs w)"
  by (simp_all add: changed_window_def)

lemma or_default_update: "or_default d (map_of (case g of Some v \<Rightarrow> AList.update k (f v) m | None \<Rightarrow> m) k) =
    (case g of Some v \<Rightarrow> f v | None \<Rightarrow> or_default d (map_of m k))"
  by (cases g) (simp_all add: AList.update_conv')

section \<open>Properties\<close>


text \<open>C39. Asking about a window of another client subscribes to its events: GetWindowAttributes and QueryTree
  of a window this connection has not seen copy it with the events its owner has selected, and from then
  on events of those kinds are put into the queue of the asking connection, which never selected any.\<close>

theorem query_imports_selection:
  assumes "map_of (windows st) wid = None" "map_of (shared_windows st) wid = Some w" "w_event_mask w AND m \<noteq> 0"
    and "st' = fst (handle_get_window_attributes wid st) \<or> st' = fst (handle_query_tree wid st)"
  shows "pending_events (deliver_event wid m ev st) = pending_events st \<and>
    pending_events (deliver_event wid m ev st') = pending_events st @ [ev] \<and>
    subs_of wid (event_broadcaster st') = subs_of wid (event_broadcaster st)"
proof -
  define s where "s = st\<lparr>windows := AList.update wid w (windows st)\<rparr>"
  have l: "local_window wid st = Some s" using assms(1,2) by (simp add: local_window_def s_def)
  have w: "map_of (windows s) wid = Some w" by (simp add: s_def AList.update_conv')
  have "st' = s" using assms(4) by (auto simp: handle_get_window_attributes_def handle_query_tree_def l w)
  moreover have "window_selects wid m s" using w assms(3) by (simp add: window_selects_def)
  moreover have "\<not> window_selects wid m st" using assms(1) by (simp add: window_selects_def)
  ultimately show ?thesis by (simp add: deliver_event_def broadcast_event_def push_event_def s_def)
qed

text \<open>C29. QueryTree answers with the tree: when the table and the children lists are well formed, the
  answer for a known window names its parent and lists exactly the windows whose parent it is, each once,
  the stacked ones first, from bottom to top.\<close>

theorem query_tree_exact:
  assumes "wf_windows (windows st)" "kids_ok st" "map_of (windows st) wid = Some w"
  shows "\<exists>cs. handle_query_tree wid st = (st, Reply (TreeReply \<lparr>qt_root = root_window st, qt_parent = w_parent w, qt_children = cs\<rparr>)) \<and>
    distinct cs \<and> take (length (w_children w)) cs = w_children w \<and>
    set cs = {c. \<exists>v. map_of (windows st) c = Some v \<and> w_parent v = wid}"
proof -
  define cs where "cs = tree_children wid w (windows st)"
  define new where "new = filter (\<lambda>c. w_parent c = wid \<and> w_id c \<notin> set (w_children w)) (map snd (windows st))"
  have cs: "cs = w_children w @ map w_id new" by (simp add: cs_def new_def tree_children_def)
  have ids: "\<forall>(k, v) \<in> set (windows st). w_id v = k" and d: "distinct (map fst (windows st))"
    using assms(1) by (simp_all add: wf_windows_def wf_hashmap_def)
  have "map w_id (map snd (windows st)) = map fst (windows st)" unfolding map_map by (rule map_cong) (use ids in auto)
  with d have "distinct (map w_id (map snd (windows st)))" by (simp only:)
  then have 0: "distinct (map w_id new)" unfolding new_def by (rule distinct_map_filter)
  define w' where "w' = (if wid = root_window st then w\<lparr>w_properties := []\<rparr> else w)"
  have w': "core st wid = Some w'" "w_children w' = w_children w" using assms(3) by (simp_all add: core_def w'_def)
  from assms(2) w'(1) have k: "distinct (w_children w') \<and> (\<forall>c \<in> set (w_children w'). \<exists>v. core st c = Some v \<and> w_parent v = wid)"
    unfolding kids_ok_def by blast
  then have kids: "\<exists>v. core st c = Some v \<and> w_parent v = wid" if "c \<in> set (w_children w)" for c
    using that unfolding w'(2) by blast
  have "distinct (w_children w)" using k unfolding w'(2) by blast
  moreover note 0
  moreover have "set (w_children w) \<inter> set (map w_id new) = {}" by (auto simp: new_def)
  ultimately have "distinct cs" unfolding cs distinct_append by blast
  moreover have "set cs = {c. \<exists>v. map_of (windows st) c = Some v \<and> w_parent v = wid}"
  proof -
    have m: "map_of (windows st) k = Some v \<longleftrightarrow> (k, v) \<in> set (windows st)" for k v using d by simp
    have 1: "\<exists>v. map_of (windows st) c = Some v \<and> w_parent v = wid" if "c \<in> set (w_children w)" for c
      using kids [OF that] by (cases "map_of (windows st) c") (auto simp: core_def split: if_splits)
    have 2: "\<exists>v. map_of (windows st) c = Some v \<and> w_parent v = wid" if "c \<in> set (map w_id new)" for c
    proof -
      from that obtain k v where kv: "(k, v) \<in> set (windows st)" "w_parent v = wid" "c = w_id v" by (auto simp: new_def)
      with ids have "c = k" by auto
      with kv(1,2) m show ?thesis by blast
    qed
    have 3: "c \<in> set (map w_id new)" if "map_of (windows st) c = Some v" "w_parent v = wid" "c \<notin> set (w_children w)" for c v
    proof -
      have "(c, v) \<in> set (windows st)" using that(1) m by blast
      with ids have "w_id v = c" "v \<in> set (map snd (windows st))" by force+
      with that(2,3) show ?thesis by (auto simp: new_def)
    qed
    show ?thesis unfolding cs set_append using 1 2 3 by blast
  qed
  moreover have "handle_query_tree wid st =
      (st, Reply (TreeReply \<lparr>qt_root = root_window st, qt_parent = w_parent w, qt_children = cs\<rparr>))"
    by (simp add: handle_query_tree_def local_window_known [OF assms(3)] assms(3) cs_def)
  moreover have "take (length (w_children w)) cs = w_children w" by (simp add: cs)
  ultimately show ?thesis by blast
qed

section \<open>Witnesses\<close>

definition demo_values :: create_window_values where
  "demo_values = (cw_values (demo_create 0 0))\<lparr>vl_event_mask := Some 0x8000, vl_win_gravity := Some 5, vl_colormap := Some 0\<rparr>"


theorem query_imports_selection_witness:
  "pending_events (deliver_event 7 0x8000 [1] (demo_map\<lparr>shared_windows :=
     [(7, (window_at 9 0 0 80 60 [])\<lparr>w_id := 7, w_event_mask := 0x8000\<rparr>)]\<rparr>)) = [] \<and>
   pending_events (deliver_event 7 0x8000 [1] (fst (handle_get_window_attributes 7 (demo_map\<lparr>shared_windows :=
     [(7, (window_at 9 0 0 80 60 [])\<lparr>w_id := 7, w_event_mask := 0x8000\<rparr>)]\<rparr>)))) = [[1]]"
  using query_imports_selection [of "demo_map\<lparr>shared_windows :=
     [(7, (window_at 9 0 0 80 60 [])\<lparr>w_id := 7, w_event_mask := 0x8000\<rparr>)]\<rparr>" 7
     "(window_at 9 0 0 80 60 [])\<lparr>w_id := 7, w_event_mask := 0x8000\<rparr>" "0x8000", OF _ _ _ disjI1 [OF refl], of "[1]"]
  by (simp add: demo_map_def demo_life_def demo_input_def)

theorem query_tree_exact_witness:
  "\<exists>cs. handle_query_tree 9 demo_map = (demo_map, Reply (TreeReply \<lparr>qt_root = 9, qt_parent = 0, qt_children = cs\<rparr>)) \<and>
     set cs = {c. \<exists>v. map_of (windows demo_map) c = Some v \<and> w_parent v = 9}"
  using query_tree_exact [OF demo_map_wf demo_map_kids demo_map_window(2)] by (auto simp: window_at_def)

end
