(* ===== verification/Devices.thy ===== *)
theory Devices
  imports Map_Window Grab
begin

text \<open>
  The core requests on input devices and server settings (\<open>handlers/input.rs\<close>): pointer position, warping and
  coordinate translation, the input focus, key symbols, keyboard and pointer control, the modifier and button
  mappings, the screen saver, the host list and property rotation.

  \<open>device_client\<close> adds the state of these requests to the connection. The key symbols of the default layout
  come from libxkbcommon and are an argument, as are the bytes of the events (\<open>N\<close>). The modifiers in effect are
  a field. A result \<open>None\<close> is a panic. KillClient is not modelled.
\<close>

unbundle bit_operations_syntax

section \<open>State\<close>

record keyboard_control =
  key_click_percent :: u8
  bell_percent :: u8
  bell_pitch :: u16
  bell_duration :: u16
  led_mask :: u32
  global_auto_repeat :: u8
  auto_repeats :: bytes

record pointer_control =
  acceleration_numerator :: u16
  acceleration_denominator :: u16
  threshold :: u16

record screen_saver_state =
  ss_timeout :: u16
  ss_interval :: u16
  ss_prefer_blanking :: u8
  ss_allow_exposures :: u8
  ss_active :: bool
  ss_last_reset :: u32
  ss_event_mask :: u32
  ss_window :: u32

record access_host =
  host_family :: u8
  host_address :: bytes

record device_client =
  dc :: input_client
  kb_control :: keyboard_control
  modifier_map :: "u8 list list"
  custom_keymap :: "(u8 \<times> u32 list) list"
  button_mask :: u16
  pointer_mapping :: bytes
  ptr_control :: pointer_control
  screen_saver :: screen_saver_state
  access_hosts :: "access_host list"
  access_control_enabled :: bool
  shared_hosts :: "access_host list"
  shared_acl_enabled :: bool
  close_down_mode :: u8
  effective_mods :: u8
  pointer_barriers :: "barrier list"
  bells :: "u8 list"

datatype device_reply =
    PointerReply u32 i16 i16 i16 i16 u16
  | MotionReply "(u32 \<times> i16 \<times> i16) list"
  | TranslateReply u32 i16 i16
  | FocusReply u8 u32
  | KeymapReply bytes
  | KeyboardMappingReply u8 "u32 list"
  | KeyboardControlReply keyboard_control
  | PointerControlReply pointer_control
  | ScreenSaverReply u16 u16 u8 u8
  | HostsReply bool "access_host list"
  | MappingStatusReply u8
  | PointerMappingReply bytes
  | ModifierMappingReply bytes
  | EventReply bytes

datatype device_notice =
    MappingNotifyEv u16 u8 u8 u8
  | ScreenSaverNotifyEv u16 u8 u32 u32 u32
  | PropertyNotifyEv u16 u32 u32 u32

definition notice_bytes :: "(device_notice \<Rightarrow> bytes) \<Rightarrow> device_notice \<Rightarrow> device_client \<Rightarrow> bytes" where
  "notice_bytes N ev st = serialize_event (N ev) (msb_first (dc st))"

definition upd_dc :: "(input_client \<Rightarrow> input_client) \<Rightarrow> device_client \<Rightarrow> device_client" where
  "upd_dc f st = st\<lparr>dc := f (dc st)\<rparr>"

definition device_error :: "u8 \<Rightarrow> u32 \<Rightarrow> u8 \<Rightarrow> device_client \<Rightarrow> device_reply response" where
  "device_error code bad major st = ErrorReply (build_error code (sequence (dc st)) bad major 0)"

text \<open>A mapping change is announced to the own client and to all others.\<close>

definition announce_mapping :: "(device_notice \<Rightarrow> bytes) \<Rightarrow> u8 \<Rightarrow> u8 \<Rightarrow> u8 \<Rightarrow> device_client \<Rightarrow> device_client" where
  "announce_mapping N request first_keycode n_keys st =
     (let ev = notice_bytes N (MappingNotifyEv (sequence (dc st)) request first_keycode n_keys) st
      in upd_dc (\<lambda>c. (push_event ev c)\<lparr>sent_events := sent_events c @ broadcast_global ev (client_id c) (event_broadcaster c)\<rparr>) st)"

section \<open>Bell\<close>

text \<open>Division by 100 truncates towards zero.\<close>

definition percent_of :: "int \<Rightarrow> int \<Rightarrow> int" where
  "percent_of base p = sgn (base * p) * (\<bar>base * p\<bar> div 100)"

definition effective_percent :: "u8 \<Rightarrow> u8 \<Rightarrow> u8" where
  "effective_percent bell percent =
     (if percent = 0 then bell
      else if percent > 0 \<and> percent \<le> 100 then percent
      else (let base = uint bell in word_of_int (max 0 (min 100 (base + percent_of base (sint percent))))))"

definition handle_bell :: "u8 \<Rightarrow> device_client \<Rightarrow> device_client" where
  "handle_bell percent st = st\<lparr>bells := bells st @ [effective_percent (bell_percent (kb_control st)) percent]\<rparr>"

section \<open>Pointer queries\<close>

definition refresh_pointer_from_shared :: "input_client \<Rightarrow> input_client" where
  "refresh_pointer_from_shared st = st\<lparr>pointer_x := fst (shared_pointer st), pointer_y := snd (shared_pointer st)\<rparr>"

definition covers :: "i16 \<Rightarrow> i16 \<Rightarrow> window_state \<Rightarrow> bool" where
  "covers x y w \<longleftrightarrow>
     sint x \<ge> sint (w_x w) \<and> sint x < sint (saturating_add_i16 (w_x w) (w_width w)) \<and>
     sint y \<ge> sint (w_y w) \<and> sint y < sint (saturating_add_i16 (w_y w) (w_height w))"

definition child_where :: "(window_state \<Rightarrow> bool) \<Rightarrow> u32 \<Rightarrow> windows_t \<Rightarrow> u32" where
  "child_where p parent ws =
     (case find (\<lambda>(_, w). w_parent w = parent \<and> p w) ws of Some (_, w) \<Rightarrow> w_id w | None \<Rightarrow> 0)"

definition handle_query_pointer :: "u32 \<Rightarrow> device_client \<Rightarrow> device_client \<times> device_reply response" where
  "handle_query_pointer window st =
     (let st = upd_dc (\<lambda>c. (refresh_pointer_from_shared c)\<lparr>motion_hint_suppressed := False\<rparr>) st; c = dc st;
          org = origin_from MAX_TREE_DEPTH (windows c) (root_window c) window (0, 0);
          win_x = word_of_int (sint (pointer_x c) - fst org);
          win_y = word_of_int (sint (pointer_y c) - snd org)
      in (st, Reply (PointerReply (child_where (covers win_x win_y) window (windows c))
                (pointer_x c) (pointer_y c) win_x win_y (ucast (effective_mods st) OR button_mask st))))"

definition handle_get_motion_events :: "u32 \<Rightarrow> u32 \<Rightarrow> device_client \<Rightarrow> device_client \<times> device_reply response" where
  "handle_get_motion_events start_time stop_time st =
     (let st = upd_dc (\<lambda>c. c\<lparr>motion_hint_suppressed := False\<rparr>) st
      in (st, Reply (MotionReply (filter (\<lambda>(ts, _, _).
                (start_time = 0 \<or> ts \<ge> start_time) \<and> (stop_time = 0 \<or> ts \<le> stop_time)) (motion_history (dc st))))))"

text \<open>From the source window to the root and from there to the destination.\<close>

definition translate :: "u32 \<Rightarrow> u32 \<Rightarrow> i16 \<Rightarrow> i16 \<Rightarrow> input_client \<Rightarrow> i16 \<times> i16" where
  "translate src dst x y c =
     (let s = origin_from MAX_TREE_DEPTH (windows c) (root_window c) src (sint x, sint y);
          d = origin_from MAX_TREE_DEPTH (windows c) (root_window c) dst (0, 0)
      in (word_of_int (fst s - fst d), word_of_int (snd s - snd d)))"

definition handle_translate_coordinates :: "u32 \<Rightarrow> u32 \<Rightarrow> i16 \<Rightarrow> i16 \<Rightarrow> device_client \<Rightarrow> device_reply response" where
  "handle_translate_coordinates src dst x y st =
     (let (dst_x, dst_y) = translate src dst x y (dc st)
      in Reply (TranslateReply (child_where (in_bounds dst_x dst_y) dst (windows (dc st))) dst_x dst_y))"

section \<open>WarpPointer\<close>

text \<open>The search of \<open>handlers/xtest.rs\<close> in the registry of all connections: down from the root over mapped
  children, then up to a window that selects the event.\<close>

definition shared_hit :: "windows_t \<Rightarrow> u32 \<Rightarrow> i16 \<Rightarrow> i16 \<Rightarrow> (u32 \<times> i16 \<times> i16) option" where
  "shared_hit ws cur x y =
     fold (\<lambda>(wid, w) hit.
       if w_parent w \<noteq> cur \<or> \<not> w_mapped w then hit
       else if in_bounds x y w
       then (case hit of
               Some prev \<Rightarrow> if fst prev > wid then hit else Some (wid, x - w_x w, y - w_y w)
             | None \<Rightarrow> Some (wid, x - w_x w, y - w_y w))
       else hit) ws None"

fun shared_descend :: "nat \<Rightarrow> windows_t \<Rightarrow> u32 \<times> i16 \<times> i16 \<Rightarrow> u32 \<times> i16 \<times> i16" where
  "shared_descend 0 ws p = p"
| "shared_descend (Suc n) ws (cur, x, y) =
     (case shared_hit ws cur x y of Some p \<Rightarrow> shared_descend n ws p | None \<Rightarrow> (cur, x, y))"

fun shared_walk :: "nat \<Rightarrow> windows_t \<Rightarrow> u32 \<Rightarrow> u32 \<times> i16 \<times> i16 \<Rightarrow> (u32 \<times> i16 \<times> i16) option" where
  "shared_walk 0 ws m p = None"
| "shared_walk (Suc n) ws m (walker, x, y) =
     (case map_of ws walker of
        None \<Rightarrow> None
      | Some w \<Rightarrow>
          if w_event_mask w AND m \<noteq> 0 then Some (walker, x, y)
          else if w_do_not_propagate w AND m \<noteq> 0 then None
          else if w_parent w = 0 \<or> w_parent w = walker then None
          else shared_walk n ws m (w_parent w, x + w_x w, y + w_y w))"

definition find_subwindow_in_shared :: "i16 \<Rightarrow> i16 \<Rightarrow> u32 \<Rightarrow> input_client \<Rightarrow> u32 \<times> i16 \<times> i16" where
  "find_subwindow_in_shared root_x root_y m st =
     (let p = shared_descend MAX_TREE_DEPTH (shared_windows st) (root_window st, root_x, root_y)
      in case shared_walk MAX_TREE_DEPTH (shared_windows st) m p of Some r \<Rightarrow> r | None \<Rightarrow> p)"

record warp_request =
  wp_src_window :: u32
  wp_dst_window :: u32
  wp_src_x :: i16
  wp_src_y :: i16
  wp_src_width :: u16
  wp_src_height :: u16
  wp_dst_x :: i16
  wp_dst_y :: i16

text \<open>Position and size of the source window, the screen for the root.\<close>

definition warp_source :: "u32 \<Rightarrow> input_client \<Rightarrow> int \<times> int \<times> int \<times> int" where
  "warp_source src c =
     (let screen = (0, 0, uint (screen_width c), uint (screen_height c))
      in if src = root_window c then screen
         else case map_of (windows c) src of
                None \<Rightarrow> screen
              | Some w \<Rightarrow>
                  (let org = origin_from MAX_TREE_DEPTH (windows c) (root_window c) (w_parent w) (sint (w_x w), sint (w_y w))
                   in (fst org, snd org, uint (w_width w), uint (w_height w))))"

definition warp_applies :: "warp_request \<Rightarrow> input_client \<Rightarrow> bool" where
  "warp_applies r c \<longleftrightarrow> wp_src_window r = 0 \<or>
     (let (ax, ay, sw, sh) = warp_source (wp_src_window r) c;
          cx = ax + sint (wp_src_x r); cy = ay + sint (wp_src_y r);
          cw = (if wp_src_width r = 0 then sw else uint (wp_src_width r));
          ch = (if wp_src_height r = 0 then sh else uint (wp_src_height r));
          px = sint (pointer_x c); py = sint (pointer_y c)
      in \<not> (px < cx \<or> py < cy \<or> px \<ge> cx + cw \<or> py \<ge> cy + ch))"

text \<open>Clamping to an empty range panics.\<close>

definition clamp_to :: "int \<Rightarrow> int \<Rightarrow> i16 option" where
  "clamp_to v hi = (if hi < 0 then None else Some (word_of_int (max 0 (min hi v))))"

definition warp_target :: "warp_request \<Rightarrow> input_client \<Rightarrow> (i16 \<times> i16) option" where
  "warp_target r c =
     (if wp_dst_window r = 0
      then Some (saturating_add_i16 (pointer_x c) (wp_dst_x r), saturating_add_i16 (pointer_y c) (wp_dst_y r))
      else
        (let org = origin_from MAX_TREE_DEPTH (windows c) (root_window c) (wp_dst_window r) (sint (wp_dst_x r), sint (wp_dst_y r))
         in case (clamp_to (fst org) (uint (screen_width c) - 1), clamp_to (snd org) (uint (screen_height c) - 1)) of
              (Some x, Some y) \<Rightarrow> Some (x, y)
            | _ \<Rightarrow> None))"

definition warp_crossing :: "encoders \<Rightarrow> i16 \<Rightarrow> i16 \<Rightarrow> u32 \<Rightarrow> input_client \<Rightarrow> input_client option" where
  "warp_crossing E old_x old_y new_window c =
     (case build_crossing_events E new_window (pointer_x c) (pointer_y c) c of
        None \<Rightarrow> None
      | Some (c, crossing) \<Rightarrow>
          if crossing \<noteq> []
          then Some (push_chunks crossing c)
          else (let (old_window, _, _) = find_subwindow_in_shared old_x old_y 0 c
                in Some (fold (\<lambda>(w, m, ev). deliver_event w m ev)
                     (build_shared_crossing_events E old_window new_window (pointer_x c) (pointer_y c) c) c)))"

definition POINTER_MOTION :: u32 where "POINTER_MOTION = 0x40"

definition handle_warp_pointer :: "encoders \<Rightarrow> warp_request \<Rightarrow> device_client \<Rightarrow> device_client option" where
  "handle_warp_pointer E r st =
     (let c = refresh_pointer_from_shared (dc st); old_px = pointer_x c; old_py = pointer_y c
      in if \<not> warp_applies r c then Some (st\<lparr>dc := c\<rparr>)
         else case warp_target r c of
                None \<Rightarrow> None
              | Some (nx, ny) \<Rightarrow>
                  (let (nx, ny) = enforce_barriers (pointer_barriers st) old_px old_py nx ny;
                       c = set_pointer nx ny c;
                       (new_window, ex, ey) = find_subwindow_in_shared nx ny POINTER_MOTION c
                   in map_option (\<lambda>c.
                        let ev = serialize_event (enc_device E \<lparr>de_code = 6, de_detail = 0, de_sequence = sequence c,
                              de_time = timestamp c, de_root = root_window c, de_event = new_window, de_child = 0,
                              de_root_x = pointer_x c, de_root_y = pointer_y c, de_event_x = ex, de_event_y = ey,
                              de_state = 0\<rparr>) (msb_first c)
                        in st\<lparr>dc := deliver_event new_window POINTER_MOTION ev c\<rparr>)
                       (warp_crossing E old_px old_py new_window c)))"

section \<open>Input focus\<close>

definition handle_set_input_focus :: "encoders \<Rightarrow> u8 \<Rightarrow> u32 \<Rightarrow> device_client \<Rightarrow> device_client \<times> device_reply response" where
  "handle_set_input_focus E revert_to focus st =
     (if revert_to > 2 then (st, device_error VALUE_ERROR (ucast revert_to) 42 st)
      else if focus > 1 \<and> map_of (windows (dc st)) focus = None \<and> map_of (shared_windows (dc st)) focus = None
      then (st, device_error WINDOW_ERROR focus 42 st)
      else (upd_dc (\<lambda>c. set_focus_window E focus (c\<lparr>focus_revert_to := revert_to\<rparr>)) st, NoReply))"

definition refresh_focus_from_shared :: "input_client \<Rightarrow> input_client" where
  "refresh_focus_from_shared c = c\<lparr>focus_window := shared_focus c\<rparr>"

definition handle_get_input_focus :: "device_client \<Rightarrow> device_client \<times> device_reply response" where
  "handle_get_input_focus st =
     (let st = upd_dc refresh_focus_from_shared st
      in (st, Reply (FocusReply (focus_revert_to (dc st)) (focus_window (dc st)))))"

definition handle_query_keymap :: "device_client \<Rightarrow> device_reply response" where
  "handle_query_keymap st = Reply (KeymapReply (take 8 (pressed_keys (dc st)) @ replicate 24 0))"

section \<open>Key symbols\<close>

record keyboard_mapping_request =
  km_first :: u8
  km_count :: u8
  km_per_keycode :: u8
  km_keysyms :: "u32 list"

definition store_keysyms :: "keyboard_mapping_request \<Rightarrow> (u8 \<times> u32 list) list \<Rightarrow> (u8 \<times> u32 list) list" where
  "store_keysyms r keymap =
     fold (\<lambda>i. AList.update (km_first r + of_nat i) (take (unat (km_per_keycode r)) (drop (i * unat (km_per_keycode r)) (km_keysyms r))))
       [0..<unat (km_count r)] keymap"

definition handle_change_keyboard_mapping ::
    "(device_notice \<Rightarrow> bytes) \<Rightarrow> keyboard_mapping_request \<Rightarrow> device_client \<Rightarrow> (device_client \<times> device_reply response) option" where
  "handle_change_keyboard_mapping N r st =
     (if km_per_keycode r = 0 then Some (st, device_error VALUE_ERROR 0 100 st)
      else if length (km_keysyms r) < unat (km_count r) * unat (km_per_keycode r) then None
      else Some (announce_mapping N 1 (km_first r) (km_count r) (st\<lparr>custom_keymap := store_keysyms r (custom_keymap st)\<rparr>), NoReply))"

definition symbols_per_keycode :: "(u8 \<times> u32 list) list \<Rightarrow> u8" where
  "symbols_per_keycode keymap = of_nat (max (foldr max (map (length \<circ> snd) keymap) 0) 4)"

definition padded :: "nat \<Rightarrow> u32 list \<Rightarrow> u32 list" where
  "padded n xs = take n xs @ replicate (n - length xs) 0"

definition keysym_row :: "(u8 \<Rightarrow> u32 \<times> u32) \<Rightarrow> nat \<Rightarrow> (u8 \<times> u32 list) list \<Rightarrow> u8 \<Rightarrow> u32 list option" where
  "keysym_row keycode_to_keysym per keymap keycode =
     (case map_of keymap keycode of
        Some syms \<Rightarrow> Some (padded per syms)
      | None \<Rightarrow>
          if per = 0 then None
          else (let (normal, shifted) = keycode_to_keysym keycode in Some (padded per [normal, shifted])))"

definition handle_get_keyboard_mapping ::
    "(u8 \<Rightarrow> u32 \<times> u32) \<Rightarrow> u8 \<Rightarrow> u8 \<Rightarrow> device_client \<Rightarrow> device_reply response option" where
  "handle_get_keyboard_mapping keycode_to_keysym first_keycode n_keys st =
     (let per = symbols_per_keycode (custom_keymap st);
          rows = map (\<lambda>i. keysym_row keycode_to_keysym (unat per) (custom_keymap st) (first_keycode + of_nat i)) [0..<unat n_keys]
      in if None \<in> set rows then None
         else Some (Reply (KeyboardMappingReply per (concat (map the rows)))))"

section \<open>Keyboard and pointer control\<close>

record keyboard_control_values =
  kv_key_click :: "i32 option"
  kv_bell_percent :: "i32 option"
  kv_bell_pitch :: "i32 option"
  kv_bell_duration :: "i32 option"
  kv_led :: "u32 option"
  kv_led_mode :: "u32 option"
  kv_key :: "u32 option"
  kv_auto_repeat :: "u32 option"

text \<open>A negative percentage is a large unsigned number and becomes 100.\<close>

definition percent_value :: "i32 \<Rightarrow> u8" where
  "percent_value v = ucast (min v 100)"

definition with_volumes :: "keyboard_control_values \<Rightarrow> keyboard_control \<Rightarrow> keyboard_control" where
  "with_volumes v k = k\<lparr>
     key_click_percent := (case kv_key_click v of Some p \<Rightarrow> percent_value p | None \<Rightarrow> key_click_percent k),
     bell_percent := (case kv_bell_percent v of Some p \<Rightarrow> percent_value p | None \<Rightarrow> bell_percent k),
     bell_pitch := (case kv_bell_pitch v of Some p \<Rightarrow> ucast p | None \<Rightarrow> bell_pitch k),
     bell_duration := (case kv_bell_duration v of Some p \<Rightarrow> ucast p | None \<Rightarrow> bell_duration k)\<rparr>"

definition with_led :: "u32 option \<Rightarrow> u32 \<Rightarrow> keyboard_control \<Rightarrow> keyboard_control" where
  "with_led led mode k =
     (case led of
        Some l \<Rightarrow>
          if 1 \<le> l \<and> l \<le> 32
          then k\<lparr>led_mask := (if mode = 1 then led_mask k OR push_bit (unat (l - 1)) 1
                              else led_mask k AND NOT (push_bit (unat (l - 1)) 1))\<rparr>
          else k
      | None \<Rightarrow> k\<lparr>led_mask := (if mode = 1 then 0xFFFFFFFF else 0)\<rparr>)"

definition with_auto_repeat :: "u32 option \<Rightarrow> u32 \<Rightarrow> keyboard_control \<Rightarrow> keyboard_control" where
  "with_auto_repeat key mode k =
     (case key of
        Some c \<Rightarrow>
          if 8 \<le> c \<and> c \<le> 255
          then (let i = unat c div 8; m = push_bit (unat c mod 8) 1; old = auto_repeats k ! i
                in k\<lparr>auto_repeats := (auto_repeats k)[i := (if mode = 0 then old AND NOT m else old OR m)]\<rparr>)
          else k
      | None \<Rightarrow> k\<lparr>global_auto_repeat := ucast (min mode 1)\<rparr>)"

definition handle_change_keyboard_control ::
    "keyboard_control_values \<Rightarrow> device_client \<Rightarrow> device_client \<times> device_reply response" where
  "handle_change_keyboard_control v st =
     (let st = st\<lparr>kb_control := with_volumes v (kb_control st)\<rparr>;
          repeat_step = (\<lambda>st. case kv_auto_repeat v of
              None \<Rightarrow> (st, NoReply)
            | Some mode \<Rightarrow>
                if mode > 2 then (st, device_error VALUE_ERROR mode 102 st)
                else (st\<lparr>kb_control := with_auto_repeat (kv_key v) mode (kb_control st)\<rparr>, NoReply))
      in case kv_led_mode v of
           None \<Rightarrow> repeat_step st
         | Some mode \<Rightarrow>
             if mode > 1 then (st, device_error VALUE_ERROR mode 102 st)
             else repeat_step (st\<lparr>kb_control := with_led (kv_led v) mode (kb_control st)\<rparr>))"

definition handle_get_keyboard_control :: "device_client \<Rightarrow> device_reply response" where
  "handle_get_keyboard_control st = Reply (KeyboardControlReply (kb_control st))"

definition handle_change_pointer_control :: "i16 \<Rightarrow> i16 \<Rightarrow> i16 \<Rightarrow> bool \<Rightarrow> bool \<Rightarrow> device_client \<Rightarrow> device_client" where
  "handle_change_pointer_control accel_num accel_den thresh do_accel do_threshold st =
     (let p = ptr_control st;
          p = (if do_accel \<and> sint accel_num > 0 then p\<lparr>acceleration_numerator := accel_num\<rparr> else p);
          p = (if do_accel \<and> sint accel_den > 0 then p\<lparr>acceleration_denominator := accel_den\<rparr> else p);
          p = (if do_threshold \<and> sint thresh \<ge> 0 then p\<lparr>threshold := thresh\<rparr> else p)
      in st\<lparr>ptr_control := p\<rparr>)"

definition handle_get_pointer_control :: "device_client \<Rightarrow> device_reply response" where
  "handle_get_pointer_control st = Reply (PointerControlReply (ptr_control st))"

section \<open>Screen saver\<close>

definition handle_set_screen_saver :: "i16 \<Rightarrow> i16 \<Rightarrow> u8 \<Rightarrow> u8 \<Rightarrow> device_client \<Rightarrow> device_client" where
  "handle_set_screen_saver timeout interval blanking exposures st =
     (let s = screen_saver st;
          s = (if sint timeout \<ge> 0 then s\<lparr>ss_timeout := timeout\<rparr> else s);
          s = (if sint interval \<ge> 0 then s\<lparr>ss_interval := interval\<rparr> else s);
          s = (if blanking \<le> 2 then s\<lparr>ss_prefer_blanking := blanking\<rparr> else s);
          s = (if exposures \<le> 2 then s\<lparr>ss_allow_exposures := exposures\<rparr> else s)
      in st\<lparr>screen_saver := s\<rparr>)"

definition handle_get_screen_saver :: "device_client \<Rightarrow> device_reply response" where
  "handle_get_screen_saver st =
     (let s = screen_saver st
      in Reply (ScreenSaverReply (ss_timeout s) (ss_interval s) (ss_prefer_blanking s) (ss_allow_exposures s)))"

definition build_screen_saver_notify :: "(device_notice \<Rightarrow> bytes) \<Rightarrow> u8 \<Rightarrow> device_client \<Rightarrow> bytes" where
  "build_screen_saver_notify N saver_state st =
     (if ss_event_mask (screen_saver st) = 0 then []
      else notice_bytes N (ScreenSaverNotifyEv (sequence (dc st)) saver_state (timestamp (dc st)) (root_window (dc st))
             (ss_window (screen_saver st))) st)"

definition expose_all :: "encoders \<Rightarrow> input_client \<Rightarrow> input_client" where
  "expose_all E c =
     fold (\<lambda>w c. deliver_event (w_id w) EXPOSURE
             (structure_bytes E (ExposeEv (sequence c) (w_id w) (w_width w) (w_height w) 0) c) c)
       (filter (\<lambda>w. w_mapped w \<and> w_id w \<noteq> root_window c) (map snd (windows c))) c"

definition handle_force_screen_saver ::
    "encoders \<Rightarrow> (device_notice \<Rightarrow> bytes) \<Rightarrow> u8 \<Rightarrow> device_client \<Rightarrow> device_client \<times> device_reply response" where
  "handle_force_screen_saver E N mode st =
     (if mode = 0
      then (let was_active = ss_active (screen_saver st);
                st = st\<lparr>screen_saver := (screen_saver st)\<lparr>ss_last_reset := timestamp (dc st), ss_active := False\<rparr>\<rparr>
            in if was_active
               then (let st = upd_dc (expose_all E) st in (st, Reply (EventReply (build_screen_saver_notify N 0 st))))
               else (st, NoReply))
      else if mode = 1
      then (let st = st\<lparr>screen_saver := (screen_saver st)\<lparr>ss_active := True\<rparr>\<rparr>
            in (st, Reply (EventReply (build_screen_saver_notify N 1 st))))
      else (st, device_error VALUE_ERROR (ucast mode) 115 st))"

section \<open>Hosts\<close>

definition handle_list_hosts :: "device_client \<Rightarrow> device_reply response" where
  "handle_list_hosts st = Reply (HostsReply (access_control_enabled st) (access_hosts st))"

definition hosts_error :: "u8 \<Rightarrow> u8 \<Rightarrow> bytes \<Rightarrow> u32 option" where
  "hosts_error mode family address =
     (let bad_length = Some (of_nat (length address))
      in if mode > 1 then Some (ucast mode)
         else if family = 0 then (if length address \<noteq> 4 then bad_length else None)
         else if family = 6 then (if length address \<noteq> 16 then bad_length else None)
         else if family = 1 then (if length address \<noteq> 2 then bad_length else None)
         else if family = 5 then (if length address < 1 then bad_length else None)
         else if family = 254 \<or> family = 2 then None
         else Some (ucast family))"

definition handle_change_hosts :: "u8 \<Rightarrow> u8 \<Rightarrow> bytes \<Rightarrow> device_client \<Rightarrow> device_client \<times> device_reply response" where
  "handle_change_hosts mode family address st =
     (case hosts_error mode family address of
        Some bad \<Rightarrow> (st, device_error VALUE_ERROR bad 109 st)
      | None \<Rightarrow>
          (let h = \<lparr>host_family = family, host_address = address\<rparr>;
               hosts = (if mode = 0 then (if h \<in> set (access_hosts st) then access_hosts st else access_hosts st @ [h])
                        else filter (\<lambda>x. x \<noteq> h) (access_hosts st))
           in (st\<lparr>access_hosts := hosts, shared_hosts := hosts\<rparr>, NoReply)))"

definition handle_set_access_control :: "u8 \<Rightarrow> device_client \<Rightarrow> device_client" where
  "handle_set_access_control mode st =
     st\<lparr>access_control_enabled := (mode \<noteq> 0), shared_acl_enabled := (mode \<noteq> 0)\<rparr>"

definition handle_set_close_down_mode :: "u8 \<Rightarrow> device_client \<Rightarrow> device_client \<times> device_reply response" where
  "handle_set_close_down_mode mode st =
     (if mode > 2 then (st, device_error VALUE_ERROR (ucast mode) 112 st)
      else (st\<lparr>close_down_mode := mode\<rparr>, NoReply))"

text \<open>Whether a peer may connect (\<open>types/control.rs\<close>); addresses are their bytes.\<close>

datatype ip_address = V4 bytes | V6 bytes

definition is_loopback :: "ip_address \<Rightarrow> bool" where
  "is_loopback ip = (case ip of V4 a \<Rightarrow> a ! 0 = 127 | V6 a \<Rightarrow> a = replicate 15 0 @ [1])"

definition host_allows :: "ip_address \<Rightarrow> access_host \<Rightarrow> bool" where
  "host_allows ip h =
     (if host_family h = 0 then length (host_address h) = 4 \<and> ip = V4 (host_address h)
      else if host_family h = 6 then length (host_address h) = 16 \<and> ip = V6 (host_address h)
      else host_family h = 5 \<or> host_family h = 254)"

definition check_tcp_address :: "bool \<Rightarrow> access_host list \<Rightarrow> ip_address \<Rightarrow> bool" where
  "check_tcp_address enabled hosts ip = (if \<not> enabled then True else list_ex (host_allows ip) hosts \<or> is_loopback ip)"

section \<open>RotateProperties\<close>

fun first_duplicate :: "u32 list \<Rightarrow> u32 list \<Rightarrow> u32 option" where
  "first_duplicate seen [] = None"
| "first_duplicate seen (a # rest) = (if a \<in> set seen then Some a else first_duplicate (a # seen) rest)"

text \<open>The arithmetic is on \<open>i16\<close>: sums wrap and remainders truncate.\<close>

definition wrap16 :: "int \<Rightarrow> int" where
  "wrap16 z = sint (word_of_int z :: i16)"

definition rem16 :: "int \<Rightarrow> int \<Rightarrow> int" where
  "rem16 a b = sgn a * (\<bar>a\<bar> mod \<bar>b\<bar>)"

definition rotated_index :: "nat \<Rightarrow> i16 \<Rightarrow> nat \<Rightarrow> int" where
  "rotated_index len delta i =
     (let n = wrap16 (int len); eff = rem16 (wrap16 (rem16 (sint delta) n + n)) n
      in rem16 (wrap16 (wrap16 (wrap16 (int i) - eff) + n)) n)"

definition rotate_values :: "u32 list \<Rightarrow> i16 \<Rightarrow> window_state \<Rightarrow> window_state" where
  "rotate_values atms delta w =
     (let vals = map (map_of (w_properties w)) atms
      in w\<lparr>w_properties := fold (\<lambda>i ps.
             let src = rotated_index (length atms) delta i
             in if 0 \<le> src \<and> src < int (length vals)
                then (case vals ! nat src of Some v \<Rightarrow> AList.update (atms ! i) v ps | None \<Rightarrow> ps)
                else ps) [0..<length atms] (w_properties w)\<rparr>)"

definition PROPERTY_CHANGE_MASK :: u32 where "PROPERTY_CHANGE_MASK = 0x400000"

definition handle_rotate_properties ::
    "(device_notice \<Rightarrow> bytes) \<Rightarrow> u32 \<Rightarrow> u32 list \<Rightarrow> i16 \<Rightarrow> device_client \<Rightarrow> (device_client \<times> device_reply response) option" where
  "handle_rotate_properties N window atms delta st =
     (if map_of (windows (dc st)) window = None then Some (st, device_error WINDOW_ERROR window 114 st)
      else if atms = [] \<or> delta = 0 then Some (st, NoReply)
      else case first_duplicate [] atms of
             Some a \<Rightarrow> Some (st, device_error MATCH_ERROR a 114 st)
           | None \<Rightarrow>
               if length atms < 2 then Some (st, NoReply)
               else if wrap16 (int (length atms)) = 0 \<or> wrap16 (int (length atms)) = - 1 \<and> sint delta = - 32768 then None
               else (let st = upd_dc (modify_window window (rotate_values atms delta)) st
                     in Some (fold (\<lambda>a st. upd_dc (deliver_event window PROPERTY_CHANGE_MASK
                                  (notice_bytes N (PropertyNotifyEv (sequence (dc st)) window a (timestamp (dc st))) st)) st) atms st,
                              NoReply)))"

section \<open>Button and modifier mappings\<close>

definition handle_set_pointer_mapping ::
    "(device_notice \<Rightarrow> bytes) \<Rightarrow> bytes \<Rightarrow> device_client \<Rightarrow> device_client \<times> device_reply response" where
  "handle_set_pointer_mapping N mp st =
     (let st = (if length mp \<le> length (pointer_mapping st)
                then announce_mapping N 2 0 0 (st\<lparr>pointer_mapping := mp @ drop (length mp) (pointer_mapping st)\<rparr>)
                else st)
      in (st, Reply (MappingStatusReply 0)))"

definition handle_get_pointer_mapping :: "device_client \<Rightarrow> device_reply response" where
  "handle_get_pointer_mapping st = Reply (PointerMappingReply (pointer_mapping st))"

text \<open>One of the eight groups of a list of keycodes.\<close>

definition modifier_group :: "bytes \<Rightarrow> nat \<Rightarrow> bytes" where
  "modifier_group kcs m = (let per = length kcs div 8 in filter (\<lambda>k. k \<noteq> 0) (take per (drop (m * per) kcs)))"

definition handle_set_modifier_mapping ::
    "(device_notice \<Rightarrow> bytes) \<Rightarrow> bytes \<Rightarrow> device_client \<Rightarrow> device_client \<times> device_reply response" where
  "handle_set_modifier_mapping N kcs st =
     (let st = (if length kcs div 8 > 0
                then announce_mapping N 0 0 0 (st\<lparr>modifier_map := map (modifier_group kcs) [0..<8]\<rparr>) else st)
      in (st, Reply (MappingStatusReply 0)))"

definition keycodes_per_modifier :: "u8 list list \<Rightarrow> nat" where
  "keycodes_per_modifier mm = max (if mm = [] then 2 else foldr max (map length mm) 0) 2"

definition handle_get_modifier_mapping :: "device_client \<Rightarrow> device_reply response" where
  "handle_get_modifier_mapping st =
     (let mm = modifier_map st; per = keycodes_per_modifier mm
      in Reply (ModifierMappingReply (concat (map (\<lambda>i.
           if i < length mm then take per (mm ! i) @ replicate (per - length (mm ! i)) 0 else replicate per 0) [0..<8]))))"

section \<open>Coordinates\<close>

lemma origin_from_shift:
  "origin_from n ws root w (x, y) =
     (x + fst (origin_from n ws root w (0, 0)), y + snd (origin_from n ws root w (0, 0)))"
proof (induction n arbitrary: w x y)
  case (Suc n)
  show ?case
  proof (cases "w = root \<or> w = 0")
    case False
    show ?thesis
    proof (cases "map_of ws w")
      case (Some v)
      with False show ?thesis
        using Suc.IH [of "w_parent v" "x + sint (w_x v)" "y + sint (w_y v)"] Suc.IH [of "w_parent v" "sint (w_x v)" "sint (w_y v)"]
        by simp
    qed (use False in simp)
  qed auto
qed simp

lemma word_of_int_sint_cancel: "(word_of_int (sint (word_of_int a :: i16) + b) :: i16) = word_of_int (a + b)"
  by simp

text \<open>Translating coordinates from one window to a second and from there to a third is translating from
  the first to the third, whatever the windows are and however large the coordinates, and there and back again gives the
  coordinates one started with.\<close>

theorem translate_composes:
  "(let (x', y') = translate a b x y c in translate b d x' y' c) = translate a d x y c \<and>
   (let (x', y') = translate a b x y c in translate b a x' y' c) = (x, y)"
proof -
  have shift: "translate p q u v c =
      (word_of_int (sint u + (fst (origin_from MAX_TREE_DEPTH (windows c) (root_window c) p (0, 0)) -
          fst (origin_from MAX_TREE_DEPTH (windows c) (root_window c) q (0, 0)))),
       word_of_int (sint v + (snd (origin_from MAX_TREE_DEPTH (windows c) (root_window c) p (0, 0)) -
          snd (origin_from MAX_TREE_DEPTH (windows c) (root_window c) q (0, 0)))))" for p q u v
    unfolding translate_def Let_def origin_from_shift [of _ _ _ p "sint u" "sint v"] by (simp add: algebra_simps)
  show ?thesis unfolding shift Let_def prod.case word_of_int_sint_cancel by (simp add: algebra_simps)
qed

section \<open>Warping\<close>

lemma barriers_none [simp]: "enforce_barriers [] ox oy x y = (x, y)"
  by (simp add: enforce_barriers_def)

lemma crossing_pointer:
  assumes "build_crossing_events E w x y c = Some (c', evs)"
  shows "pointer_x c' = pointer_x c" "pointer_y c' = pointer_y c" "shared_pointer c' = shared_pointer c"
    "screen_width c' = screen_width c"
  using assms by (auto simp: build_crossing_events_def build_crossing_events_with_mode_def Let_def split: option.splits if_splits)

lemma pointer_deliver [simp]:
  fixes c :: input_client
  shows "pointer_x (deliver_event w m ev c) = pointer_x c" "pointer_y (deliver_event w m ev c) = pointer_y c"
    "shared_pointer (deliver_event w m ev c) = shared_pointer c"
  by (simp_all add: deliver_event_def broadcast_event_def push_event_def)

lemma pointer_deliver_all:
  fixes c :: input_client
  shows "pointer_x (fold (\<lambda>(w, m, ev). deliver_event w m ev) evs c) = pointer_x c"
    "pointer_y (fold (\<lambda>(w, m, ev). deliver_event w m ev) evs c) = pointer_y c"
    "shared_pointer (fold (\<lambda>(w, m, ev). deliver_event w m ev) evs c) = shared_pointer c"
  by (induction evs arbitrary: c) auto

lemma warp_crossing_pointer:
  assumes "warp_crossing E ox oy w c = Some c'"
  shows "pointer_x c' = pointer_x c \<and> pointer_y c' = pointer_y c \<and> shared_pointer c' = shared_pointer c"
proof -
  obtain c1 evs where 1: "build_crossing_events E w (pointer_x c) (pointer_y c) c = Some (c1, evs)"
    using assms by (cases "build_crossing_events E w (pointer_x c) (pointer_y c) c") (auto simp: warp_crossing_def)
  show ?thesis
    using assms crossing_pointer [OF 1] unfolding warp_crossing_def 1 option.case prod.case
    by (auto simp: push_chunks_def pointer_deliver_all split: if_splits prod.splits)
qed

lemma clamp_to_bounds:
  assumes "clamp_to v hi = Some x" "hi < 32768"
  shows "0 \<le> sint x \<and> sint x \<le> hi"
proof -
  have x: "x = word_of_int (max 0 (min hi v))" and "0 \<le> hi" using assms(1) by (auto simp: clamp_to_def split: if_splits)
  have "sint x = max 0 (min hi v)"
    unfolding x using \<open>0 \<le> hi\<close> assms(2) by (intro sint_word_of_int16) auto
  with \<open>0 \<le> hi\<close> show ?thesis by simp
qed

lemma warp_outcome:
  assumes "handle_warp_pointer E r st = Some st'" "pointer_barriers st = []"
    and "warp_applies r (refresh_pointer_from_shared (dc st))"
  obtains x y where "warp_target r (refresh_pointer_from_shared (dc st)) = Some (x, y)"
    "pointer_x (dc st') = x" "pointer_y (dc st') = y" "shared_pointer (dc st') = (x, y)"
proof -
  define c where "c = refresh_pointer_from_shared (dc st)"
  obtain x y where t: "warp_target r c = Some (x, y)"
    using assms(1,3) by (cases "warp_target r c") (auto simp: handle_warp_pointer_def Let_def c_def)
  obtain w ex ey where f: "find_subwindow_in_shared x y POINTER_MOTION (set_pointer x y c) = (w, ex, ey)" by (rule prod_cases3)
  from assms(1,3) t f assms(2) obtain c' ev where
    c': "warp_crossing E (pointer_x c) (pointer_y c) w (set_pointer x y c) = Some c'"
      "st' = st\<lparr>dc := deliver_event w POINTER_MOTION ev c'\<rparr>"
    by (auto simp: handle_warp_pointer_def Let_def c_def [symmetric])
  from warp_crossing_pointer [OF c'(1)] show thesis
    using that [OF t [unfolded c_def]] c'(2) by (simp add: set_pointer_def)
qed

text \<open>C40. Warping the pointer to a position in a window puts it on the screen, for this connection and for all
  others, wherever the position is (without pointer barriers, on a screen of at most 32768 by 32768). A warp relative to
  the current position is not limited to the screen.\<close>

theorem warp_stays_on_screen:
  assumes "handle_warp_pointer E r st = Some st'" "pointer_barriers st = []"
    and "warp_applies r (refresh_pointer_from_shared (dc st))"
    and "screen_width (dc st) \<le> 32768" "screen_height (dc st) \<le> 32768"
  shows "shared_pointer (dc st') = (pointer_x (dc st'), pointer_y (dc st')) \<and>
    (wp_dst_window r \<noteq> 0 \<longrightarrow>
       0 \<le> sint (pointer_x (dc st')) \<and> sint (pointer_x (dc st')) < uint (screen_width (dc st)) \<and>
       0 \<le> sint (pointer_y (dc st')) \<and> sint (pointer_y (dc st')) < uint (screen_height (dc st))) \<and>
    (wp_dst_window r = 0 \<longrightarrow>
       pointer_x (dc st') = saturating_add_i16 (fst (shared_pointer (dc st))) (wp_dst_x r))"
proof -
  let ?c = "refresh_pointer_from_shared (dc st)"
  from warp_outcome [OF assms(1-3)] obtain x y where xy: "warp_target r ?c = Some (x, y)"
    "pointer_x (dc st') = x" "pointer_y (dc st') = y" "shared_pointer (dc st') = (x, y)" .
  have "uint (screen_width (dc st)) \<le> 32768" "uint (screen_height (dc st)) \<le> 32768"
    using assms(4,5) by (simp_all add: word_le_def)
  then have small: "uint (screen_width (dc st)) - 1 < 32768" "uint (screen_height (dc st)) - 1 < 32768" by simp_all
  have "0 \<le> sint x \<and> sint x < uint (screen_width (dc st)) \<and> 0 \<le> sint y \<and> sint y < uint (screen_height (dc st))"
    if "wp_dst_window r \<noteq> 0"
  proof -
    obtain ox oy where o: "origin_from MAX_TREE_DEPTH (windows ?c) (root_window ?c) (wp_dst_window r) (sint (wp_dst_x r), sint (wp_dst_y r)) = (ox, oy)"
      by (rule prod.exhaust)
    have "clamp_to ox (uint (screen_width (dc st)) - 1) = Some x" "clamp_to oy (uint (screen_height (dc st)) - 1) = Some y"
      using xy(1) that o by (auto simp: warp_target_def Let_def refresh_pointer_from_shared_def split: option.splits)
    from clamp_to_bounds [OF this(1) small(1)] clamp_to_bounds [OF this(2) small(2)] show ?thesis by simp
  qed
  moreover have "x = saturating_add_i16 (fst (shared_pointer (dc st))) (wp_dst_x r)" if "wp_dst_window r = 0"
    using xy(1) that by (simp add: warp_target_def refresh_pointer_from_shared_def)
  ultimately show ?thesis using xy by simp
qed

section \<open>Mappings\<close>

declare upt_rec_numeral [simp del]

lemma announce_mapping_fields [simp]:
  "modifier_map (announce_mapping N a b c st) = modifier_map st"
  "custom_keymap (announce_mapping N a b c st) = custom_keymap st"
  "pointer_mapping (announce_mapping N a b c st) = pointer_mapping st"
  by (simp_all add: announce_mapping_def upd_dc_def Let_def)

lemma foldr_max_ge: "x \<in> set xs \<Longrightarrow> x \<le> foldr max xs (0 :: nat)"
  by (induction xs) auto

lemma drop_concat_rows:
  assumes "\<And>i. i < n \<Longrightarrow> length (f i) = k" "m < n"
  shows "take k (drop (m * k) (concat (map f [0..<n]))) = f m"
proof -
  have len: "length (concat (map f [0..<j])) = j * k" if "j \<le> n" for j
    using that by (induction j) (auto simp: assms(1))
  have "[0..<n] = [0..<m] @ [m] @ [Suc m..<n]"
    using assms(2) upt_add_eq_append [of 0 m "n - m"] upt_conv_Cons [of m n] by simp
  then have "concat (map f [0..<n]) = concat (map f [0..<m]) @ f m @ concat (map f [Suc m..<n])" by simp
  then show ?thesis using len [of m] assms by simp
qed

lemma length_rows: "(\<And>i. i < n \<Longrightarrow> length (f i) = k) \<Longrightarrow> length (concat (map f [0..<n])) = n * k"
  by (induction n) auto


text \<open>The keycodes of a request are distinct, as there are at most 255.\<close>

lemma unat_less_256: "unat (k :: u8) < 256"
  by (rule order_less_le_trans [OF unsigned_less]) simp

lemma keycode_inj:
  assumes "i < 256" "j < 256" "(k :: u8) + of_nat i = k + of_nat j"
  shows "i = j"
proof -
  have "unat (of_nat i :: u8) = i" "unat (of_nat j :: u8) = j" using assms(1,2) by (simp_all add: unat_of_nat)
  with assms(3) show ?thesis by (metis add_left_cancel)
qed

definition request_row :: "keyboard_mapping_request \<Rightarrow> nat \<Rightarrow> u32 list" where
  "request_row r i = take (unat (km_per_keycode r)) (drop (i * unat (km_per_keycode r)) (km_keysyms r))"

lemma fold_update_rows:
  assumes "n \<le> 256" "j < 256"
  shows "map_of (fold (\<lambda>i. AList.update (k + of_nat i) (f i)) [0..<n] m) (k + of_nat j) =
    (if j < n then Some (f j) else map_of m (k + of_nat j :: u8))"
  using assms(1)
proof (induction n)
  case (Suc n)
  then have IH: "map_of (fold (\<lambda>i. AList.update (k + of_nat i) (f i)) [0..<n] m) (k + of_nat j) =
    (if j < n then Some (f j) else map_of m (k + of_nat j))" by simp
  have "(k + of_nat j = k + of_nat n) = (j = n)" using keycode_inj [of j n k] assms(2) Suc.prems by auto
  with IH show ?case by (auto simp: AList.update_conv')
qed simp

lemma fold_update_lengths:
  assumes "\<forall>v \<in> snd ` set m. P v" "\<And>i. P (f i)"
  shows "\<forall>v \<in> snd ` set (fold (\<lambda>i. AList.update (g i) (f i)) xs m). P v"
  using assms(1)
proof (induction xs arbitrary: m)
  case (Cons x xs)
  have "\<forall>v \<in> snd ` set (AList.update (g x) (f x) m). P v"
    using Cons.prems assms(2) AList.update_Some_unfold
    by (induction m) (auto split: if_splits)
  then show ?case using Cons.IH by simp
qed simp

lemma foldr_max_le: "(\<And>x. x \<in> set xs \<Longrightarrow> x \<le> b) \<Longrightarrow> foldr max xs (0 :: nat) \<le> b"
  by (induction xs) auto

text \<open>The key symbols a client sets are the ones every client reads back: for every keycode of the request its
  symbols, filled up with NoSymbol.\<close>

theorem keyboard_mapping_roundtrip:
  assumes "handle_change_keyboard_mapping N r st = Some (st', NoReply)"
    and "\<forall>v \<in> snd ` set (custom_keymap st). length v \<le> 255"
  shows "\<exists>per syms. handle_get_keyboard_mapping kts (km_first r) (km_count r) st' = Some (Reply (KeyboardMappingReply per syms)) \<and>
    (\<forall>i < unat (km_count r). take (unat per) (drop (i * unat per) syms) =
       request_row r i @ replicate (unat per - length (request_row r i)) 0)"
proof -
  let ?n = "unat (km_count r)"
  have st': "custom_keymap st' = fold (\<lambda>i. AList.update (km_first r + of_nat i) (request_row r i)) [0..<?n] (custom_keymap st)"
    using assms(1)
    by (auto simp: handle_change_keyboard_mapping_def store_keysyms_def request_row_def device_error_def split: if_splits)
  have n: "?n < 256" by (rule unat_less_256)
  have at: "map_of (custom_keymap st') (km_first r + of_nat i) = Some (request_row r i)" if "i < ?n" for i
    unfolding st' using that n by (subst fold_update_rows) auto
  have small: "length v \<le> 255" if "v \<in> snd ` set (custom_keymap st')" for v
  proof -
    have "length (request_row r i) \<le> 255" for i
      using unat_less_256 [of "km_per_keycode r"] by (simp add: request_row_def)
    from fold_update_lengths [where P = "\<lambda>v. length v \<le> 255" and f = "request_row r"
        and g = "\<lambda>i. km_first r + of_nat i" and xs = "[0..<?n]", OF assms(2) this]
    show ?thesis using that unfolding st' by (rule bspec)
  qed
  define mx where "mx = max (foldr max (map (length \<circ> snd) (custom_keymap st')) 0) 4"
  have mx: "mx \<le> 255" unfolding mx_def using small by (force intro!: foldr_max_le)
  then have per: "unat (symbols_per_keycode (custom_keymap st')) = mx"
    by (simp add: symbols_per_keycode_def mx_def [symmetric] unat_of_nat)
  have fits: "length (request_row r i) \<le> mx" if "i < ?n" for i
    using map_of_SomeD [OF at [OF that]] unfolding mx_def
    by (intro max.coboundedI1 foldr_max_ge) (force intro: rev_image_eqI)
  define row where "row i = request_row r i @ replicate (mx - length (request_row r i)) 0" for i
  have rows: "map (\<lambda>i. keysym_row kts mx (custom_keymap st') (km_first r + of_nat i)) [0..<?n] = map (\<lambda>i. Some (row i)) [0..<?n]"
    using at fits by (auto simp: keysym_row_def padded_def row_def)
  have reply: "handle_get_keyboard_mapping kts (km_first r) (km_count r) st' =
      Some (Reply (KeyboardMappingReply (symbols_per_keycode (custom_keymap st')) (concat (map row [0..<?n]))))"
    unfolding handle_get_keyboard_mapping_def Let_def per rows by (auto simp: comp_def)
  have len: "length (row i) = mx" if "i < ?n" for i using fits [OF that] by (simp add: row_def)
  have "take mx (drop (i * mx) (concat (map row [0..<?n]))) = row i" if "i < ?n" for i
    by (rule drop_concat_rows [OF len that])
  then show ?thesis using reply per unfolding row_def by auto
qed

section \<open>Rotating properties\<close>

lemma first_duplicate_distinct: "distinct seen \<Longrightarrow> (first_duplicate seen xs = None) = (distinct xs \<and> set xs \<inter> set seen = {})"
  by (induction xs arbitrary: seen) auto

lemma wrap16_id: "- 32768 \<le> z \<Longrightarrow> z < 32768 \<Longrightarrow> wrap16 z = z"
  by (simp add: wrap16_def sint_word_of_int16)

lemma rem16_mod: "0 < n \<Longrightarrow> 0 \<le> a \<Longrightarrow> rem16 a n = a mod n"
  by (cases "a = 0") (simp_all add: rem16_def)

lemma rem16_range: "0 < n \<Longrightarrow> - n < rem16 a n \<and> rem16 a n < n \<and> (rem16 a n + n) mod n = a mod n"
proof -
  assume n: "0 < n"
  consider "a = 0" | "0 < a" | "a < 0" by linarith
  then show ?thesis
  proof cases
    case 3
    have "rem16 a n = - ((- a) mod n)" using 3 n by (simp add: rem16_def)
    moreover have "(- ((- a) mod n) + n) mod n = a mod n" by (metis mod_add_self2 mod_minus_eq minus_minus)
    ultimately show ?thesis using n pos_mod_bound [OF n, of "- a"] pos_mod_sign [OF n, of "- a"] by auto
  next
    case 2
    with n pos_mod_sign [OF n, of a] pos_mod_bound [OF n, of a] show ?thesis by (simp add: rem16_def)
  qed (use n in \<open>simp add: rem16_def\<close>)
qed

lemma rotated_index_mod:
  assumes "2 \<le> n" "n \<le> 16384" "i < n"
  shows "rotated_index n delta i = (int i - sint delta) mod int n"
proof -
  have n: "wrap16 (int n) = int n" "0 < int n" using assms by (simp_all add: wrap16_id)
  let ?d = "sint delta mod int n"
  have r: "rem16 (sint delta) (int n) + int n < 32768" "- 32768 \<le> rem16 (sint delta) (int n) + int n"
    "0 \<le> rem16 (sint delta) (int n) + int n" "(rem16 (sint delta) (int n) + int n) mod int n = ?d"
    using rem16_range [OF n(2), of "sint delta"] assms by auto
  have eff: "rem16 (wrap16 (rem16 (sint delta) (int n) + int n)) (int n) = ?d"
    unfolding wrap16_id [OF r(2,1)] rem16_mod [OF n(2) r(3)] by (rule r(4))
  have d: "0 \<le> ?d" "?d < int n" using n(2) by (simp_all add: pos_mod_bound)
  have w: "wrap16 (int i) = int i" "wrap16 (int i - ?d) = int i - ?d" "wrap16 (int i - ?d + int n) = int i - ?d + int n"
    by (rule wrap16_id; use assms d in linarith)+
  have "0 \<le> int i - ?d + int n" using d by linarith
  then show ?thesis
    unfolding rotated_index_def Let_def n(1) eff w rem16_mod [OF n(2) \<open>0 \<le> int i - ?d + int n\<close>]
    by (simp add: mod_diff_right_eq)
qed

lemma fold_rotate:
  assumes "distinct atms" "k \<le> length atms"
  shows "j < length atms \<Longrightarrow> map_of (fold (\<lambda>i ps. AList.update (atms ! i) (f i) ps) [0..<k] ps) (atms ! j) =
      (if j < k then Some (f j) else map_of ps (atms ! j))"
    "a \<notin> set atms \<Longrightarrow> map_of (fold (\<lambda>i ps. AList.update (atms ! i) (f i) ps) [0..<k] ps) a = map_of ps a"
  using assms(2)
proof (induction k)
  case (Suc k)
  {
    case 1
    then have "(atms ! j = atms ! k) = (j = k)" using assms(1) by (simp add: nth_eq_iff_index_eq)
    then show ?case using Suc.IH(1) 1 by (auto simp: AList.update_conv')
  next
    case 2
    then have "a \<noteq> atms ! k" by auto
    then show ?case using Suc.IH(2) 2 by (simp add: AList.update_conv')
  }
qed simp_all

lemma rotate_values_effect:
  assumes "distinct atms" "2 \<le> length atms" "length atms \<le> 16384" "\<forall>a \<in> set atms. map_of (w_properties w) a \<noteq> None"
  shows "i < length atms \<Longrightarrow> map_of (w_properties (rotate_values atms delta w)) (atms ! i) =
       map_of (w_properties w) (atms ! nat ((int i - sint delta) mod int (length atms)))"
    "a \<notin> set atms \<Longrightarrow> map_of (w_properties (rotate_values atms delta w)) a = map_of (w_properties w) a"
proof -
  let ?n = "length atms" and ?ps = "w_properties w"
  define src where "src i = nat ((int i - sint delta) mod int ?n)" for i
  have n: "0 < int ?n" using assms(2) by linarith
  have src: "src i < ?n" for i
    unfolding src_def using pos_mod_bound [OF n, of "int i - sint delta"] pos_mod_sign [OF n, of "int i - sint delta"]
    by (simp add: nat_less_iff)
  have val: "map_of ?ps (atms ! src i) = Some (the (map_of ?ps (atms ! src i)))" for i
    using assms(4) src [of i] by (metis nth_mem option.collapse)
  have body: "(let s = rotated_index ?n delta i
       in if 0 \<le> s \<and> s < int (length (map (map_of ?ps) atms))
          then (case map (map_of ?ps) atms ! nat s of Some v \<Rightarrow> AList.update (atms ! i) v ps | None \<Rightarrow> ps) else ps) =
      AList.update (atms ! i) (the (map_of ?ps (atms ! src i))) ps" if "i < ?n" for i ps
  proof -
    have s: "rotated_index ?n delta i = int (src i)"
      unfolding rotated_index_mod [OF assms(2,3) that] src_def using pos_mod_sign [OF n, of "int i - sint delta"] by simp
    obtain v where "map_of ?ps (atms ! src i) = Some v" using val [of i] by blast
    with src [of i] show ?thesis unfolding s Let_def by simp
  qed
  have "w_properties (rotate_values atms delta w) =
      fold (\<lambda>i ps. AList.update (atms ! i) (the (map_of ?ps (atms ! src i))) ps) [0..<?n] ?ps"
  proof -
    have proj: "w_properties (w\<lparr>w_properties := x\<rparr>) = x" for x by simp
    show ?thesis
      unfolding rotate_values_def Let_def proj by (rule fold_cong) (use body in \<open>auto simp: Let_def fun_eq_iff\<close>)
  qed
  note eq = this and rot = fold_rotate [OF assms(1) order_refl, where ps = ?ps and f = "\<lambda>i. the (map_of ?ps (atms ! src i))"]
  show "map_of (w_properties (rotate_values atms delta w)) (atms ! i) =
       map_of (w_properties w) (atms ! nat ((int i - sint delta) mod int ?n))" if "i < ?n"
    unfolding eq rot(1) [OF that] using that val [of i] by (simp add: src_def)
  show "map_of (w_properties (rotate_values atms delta w)) a = map_of (w_properties w) a" if "a \<notin> set atms"
    unfolding eq by (rule rot(2) [OF that])
qed

lemma windows_notify_all:
  "windows (dc (fold (\<lambda>a st. upd_dc (deliver_event wid m (notice_bytes N (f a st) st)) st) xs st)) = windows (dc st)"
  by (induction xs arbitrary: st) (simp_all add: upd_dc_def)

text \<open>C22. Rotating the properties named in a list moves every value by the requested number of places round the list,
  whichever sign it has, and leaves all other properties alone (for lists of at most 16384 properties, all of which exist).\<close>

theorem rotate_properties_exact:
  assumes "handle_rotate_properties N wid atms delta st = Some (st', NoReply)"
    and "map_of (windows (dc st)) wid = Some w" "distinct atms" "2 \<le> length atms" "length atms \<le> 16384"
    and "\<forall>a \<in> set atms. map_of (w_properties w) a \<noteq> None"
  shows "\<exists>w'. map_of (windows (dc st')) wid = Some w' \<and>
    (\<forall>i < length atms. map_of (w_properties w') (atms ! i) =
       map_of (w_properties w) (atms ! nat ((int i - sint delta) mod int (length atms)))) \<and>
    (\<forall>a. a \<notin> set atms \<longrightarrow> map_of (w_properties w') a = map_of (w_properties w) a)"
proof (cases "delta = 0")
  case True
  with assms(1,2,4) have "st' = st" by (auto simp: handle_rotate_properties_def)
  with True assms(2) show ?thesis by (auto simp flip: zmod_int)
next
  case False
  have "first_duplicate [] atms = None" using assms(3) first_duplicate_distinct [of "[]" atms] by simp
  moreover have "wrap16 (int (length atms)) = int (length atms)" using assms(5) by (simp add: wrap16_id)
  moreover have "atms \<noteq> []" "\<not> length atms < 2" "int (length atms) \<noteq> 0" using assms(4) by auto
  ultimately have st': "st' = fold (\<lambda>a st. upd_dc (deliver_event wid PROPERTY_CHANGE_MASK
      (notice_bytes N (PropertyNotifyEv (sequence (dc st)) wid a (timestamp (dc st))) st)) st) atms
      (upd_dc (modify_window wid (rotate_values atms delta)) st)"
    using assms(1,2) False unfolding handle_rotate_properties_def Let_def by simp
  have "windows (dc st') = windows (dc (upd_dc (modify_window wid (rotate_values atms delta)) st))"
    unfolding st' by (rule windows_notify_all)
  then have "map_of (windows (dc st')) wid = Some (rotate_values atms delta w)"
    using assms(2) by (simp add: upd_dc_def modify_window_def)
  with rotate_values_effect [OF assms(3-6), of _ delta] show ?thesis by auto
qed

section \<open>Hosts and keymap\<close>

text \<open>The list of hosts that may connect is kept for each connection, and a change replaces the list that is enforced by
  that of the last connection that changed anything: a host added by one connection is shut out when another connection
  adds a different one.\<close>

theorem host_list_overwritten:
  assumes "access_hosts b = []" "shared_hosts b = shared_hosts a'" "shared_acl_enabled b"
    and "handle_change_hosts 0 0 h1 a = (a', NoReply)" "handle_change_hosts 0 0 h2 b = (b', NoReply)"
    and "h1 \<noteq> h2" "h1 ! 0 \<noteq> 127"
  shows "check_tcp_address True (shared_hosts a') (V4 h1) \<and>
    \<not> check_tcp_address (shared_acl_enabled b') (shared_hosts b') (V4 h1)"
proof -
  have len: "length h1 = 4" "length h2 = 4"
    using assms(4,5) by (auto simp: handle_change_hosts_def hosts_error_def Let_def device_error_def split: if_splits)
  then have a': "\<lparr>host_family = 0, host_address = h1\<rparr> \<in> set (shared_hosts a')"
    and b': "shared_hosts b' = [\<lparr>host_family = 0, host_address = h2\<rparr>]" "shared_acl_enabled b' = shared_acl_enabled b"
    using assms(1,4,5) by (auto simp: handle_change_hosts_def hosts_error_def Let_def split: if_splits)
  have "list_ex (host_allows (V4 h1)) (shared_hosts a')"
    using a' len(1) by (auto simp: list_ex_iff host_allows_def intro!: bexI [of _ "\<lparr>host_family = 0, host_address = h1\<rparr>"])
  with b' assms(3,6,7) show ?thesis by (simp add: check_tcp_address_def host_allows_def is_loopback_def)
qed

text \<open>QueryKeymap copies the first eight of the 32 bytes: keys with codes of 64 and more, among them the space bar and the
  cursor keys, are never reported as pressed.\<close>

theorem query_keymap_truncated:
  assumes "length (pressed_keys (dc st)) = 32" "8 \<le> i" "i < 32"
  shows "\<exists>ks. handle_query_keymap st = Reply (KeymapReply ks) \<and> length ks = 32 \<and> ks ! i = 0"
  using assms by (simp add: handle_query_keymap_def nth_append)

section \<open>Witnesses\<close>

definition demo_device :: device_client where
  "demo_device = \<lparr>dc = demo_life\<lparr>pressed_keys := (replicate 32 0)[8 := 2], last_entered_window := 9\<rparr>,
     kb_control = \<lparr>key_click_percent = 0, bell_percent = 50, bell_pitch = 400, bell_duration = 100, led_mask = 0,
       global_auto_repeat = 1, auto_repeats = replicate 32 0xFF\<rparr>,
     modifier_map = [], custom_keymap = [], button_mask = 0, pointer_mapping = [1, 2, 3, 4, 5, 6, 7],
     ptr_control = \<lparr>acceleration_numerator = 2, acceleration_denominator = 1, threshold = 4\<rparr>,
     screen_saver = \<lparr>ss_timeout = 0, ss_interval = 0, ss_prefer_blanking = 0, ss_allow_exposures = 0, ss_active = False,
       ss_last_reset = 0, ss_event_mask = 0, ss_window = 0\<rparr>,
     access_hosts = [], access_control_enabled = False, shared_hosts = [], shared_acl_enabled = True, close_down_mode = 0,
     effective_mods = 0, pointer_barriers = [], bells = []\<rparr>"

theorem query_keymap_truncated_witness:
  "pressed_keys (dc demo_device) ! 8 = 2 \<and>
   (\<exists>ks. handle_query_keymap demo_device = Reply (KeymapReply ks) \<and> length ks = 32 \<and> ks ! 8 = 0)"
  using query_keymap_truncated [of demo_device 8] by (simp add: demo_device_def)

theorem host_list_overwritten_witness:
  "let a' = fst (handle_change_hosts 0 0 [10, 0, 0, 1] demo_device);
       b' = fst (handle_change_hosts 0 0 [10, 0, 0, 2] (demo_device\<lparr>shared_hosts := shared_hosts a'\<rparr>))
   in check_tcp_address True (shared_hosts a') (V4 [10, 0, 0, 1]) \<and>
      \<not> check_tcp_address (shared_acl_enabled b') (shared_hosts b') (V4 [10, 0, 0, 1])"
  unfolding Let_def
  by (rule host_list_overwritten [of "demo_device\<lparr>shared_hosts := shared_hosts (fst (handle_change_hosts 0 0 [10, 0, 0, 1] demo_device))\<rparr>"
        _ "[10, 0, 0, 1]" demo_device "[10, 0, 0, 2]"])
    (simp_all add: handle_change_hosts_def hosts_error_def demo_device_def Let_def)


definition demo_keysyms :: keyboard_mapping_request where
  "demo_keysyms = \<lparr>km_first = 255, km_count = 2, km_per_keycode = 1, km_keysyms = [0x61, 0x62]\<rparr>"

theorem keyboard_mapping_roundtrip_witness:
  "\<exists>st' per syms. handle_change_keyboard_mapping (\<lambda>_. replicate 32 0) demo_keysyms demo_device = Some (st', NoReply) \<and>
     handle_get_keyboard_mapping (\<lambda>_. (0, 0)) 255 2 st' = Some (Reply (KeyboardMappingReply per syms)) \<and>
     take (unat per) syms = request_row demo_keysyms 0 @ replicate (unat per - 1) 0"
proof -
  obtain st' where st': "handle_change_keyboard_mapping (\<lambda>_. replicate 32 0) demo_keysyms demo_device = Some (st', NoReply)"
    by (simp add: handle_change_keyboard_mapping_def demo_keysyms_def)
  have "\<forall>v \<in> snd ` set (custom_keymap demo_device). length v \<le> 255" by (simp add: demo_device_def)
  from keyboard_mapping_roundtrip [OF st' this, of "\<lambda>_. (0, 0)"] obtain per syms where
    g: "handle_get_keyboard_mapping (\<lambda>_. (0, 0)) 255 2 st' = Some (Reply (KeyboardMappingReply per syms))"
      "\<forall>i < 2. take (unat per) (drop (i * unat per) syms) =
         request_row demo_keysyms i @ replicate (unat per - length (request_row demo_keysyms i)) 0"
    by (auto simp: demo_keysyms_def)
  have "length (request_row demo_keysyms 0) = 1" by (simp add: request_row_def demo_keysyms_def)
  with st' g(1) g(2) [rule_format, of 0] show ?thesis by auto
qed

definition demo_warp :: warp_request where
  "demo_warp = \<lparr>wp_src_window = 0, wp_dst_window = 0x400001, wp_src_x = 0, wp_src_y = 0, wp_src_width = 0, wp_src_height = 0,
     wp_dst_x = 5000, wp_dst_y = - 20\<rparr>"

theorem warp_stays_on_screen_witness:
  "\<exists>st'. handle_warp_pointer demo_encoders demo_warp demo_device = Some st' \<and>
     0 \<le> sint (pointer_x (dc st')) \<and> sint (pointer_x (dc st')) < 800 \<and> 0 \<le> sint (pointer_y (dc st'))"
proof -
  have "map_option (\<lambda>_. ()) (handle_warp_pointer demo_encoders demo_warp demo_device) = Some ()" by code_simp
  then obtain st' where w: "handle_warp_pointer demo_encoders demo_warp demo_device = Some st'" by auto
  have "screen_width (dc demo_device) = 800" "screen_height (dc demo_device) = 600"
    by (simp_all add: demo_device_def demo_life_def demo_input_def)
  then show ?thesis
    using warp_stays_on_screen [OF w] w by (simp add: demo_device_def demo_warp_def warp_applies_def)
qed

definition demo_rotate :: device_client where
  "demo_rotate = upd_dc (modify_window 0x400001 (\<lambda>w. w\<lparr>w_properties :=
     [(1, \<lparr>pv_type = 31, pv_format = 8, pv_data = [1]\<rparr>), (2, \<lparr>pv_type = 31, pv_format = 8, pv_data = [2]\<rparr>),
      (3, \<lparr>pv_type = 31, pv_format = 8, pv_data = [3]\<rparr>)]\<rparr>)) demo_device"

theorem rotate_properties_exact_witness:
  "\<exists>st' w'. handle_rotate_properties (\<lambda>_. replicate 32 0) 0x400001 [1, 2, 3] 1 demo_rotate = Some (st', NoReply) \<and>
     map_of (windows (dc st')) 0x400001 = Some w' \<and>
     map_option pv_data (map_of (w_properties w') 1) = Some [3] \<and> map_option pv_data (map_of (w_properties w') 2) = Some [1]"
proof -
  have "map_option snd (handle_rotate_properties (\<lambda>_. replicate 32 0) 0x400001 [1, 2, 3] 1 demo_rotate) = Some NoReply"
    by code_simp
  then obtain st' where r: "handle_rotate_properties (\<lambda>_. replicate 32 0) 0x400001 [1, 2, 3] 1 demo_rotate = Some (st', NoReply)" by auto
  obtain w where w: "map_of (windows (dc demo_rotate)) 0x400001 = Some w"
    "w_properties w = [(1, \<lparr>pv_type = 31, pv_format = 8, pv_data = [1]\<rparr>), (2, \<lparr>pv_type = 31, pv_format = 8, pv_data = [2]\<rparr>),
      (3, \<lparr>pv_type = 31, pv_format = 8, pv_data = [3]\<rparr>)]"
    by (simp add: demo_rotate_def upd_dc_def modify_window_def demo_device_def demo_life_def)
  have all: "\<forall>a \<in> set [1, 2, 3]. map_of (w_properties w) a \<noteq> None" by (simp add: w(2))
  have "\<exists>w'. map_of (windows (dc st')) 0x400001 = Some w' \<and>
    (\<forall>i < length [1, 2, 3 :: u32]. map_of (w_properties w') ([1, 2, 3] ! i) =
       map_of (w_properties w) ([1, 2, 3] ! nat ((int i - sint (1 :: i16)) mod int (length [1, 2, 3 :: u32])))) \<and>
    (\<forall>a. a \<notin> set [1, 2, 3] \<longrightarrow> map_of (w_properties w') a = map_of (w_properties w) a)"
    by (rule rotate_properties_exact [OF r w(1) _ _ _ all]) simp_all
  then obtain w' where w': "map_of (windows (dc st')) 0x400001 = Some w'"
    "\<forall>i < 3. map_of (w_properties w') ([1, 2, 3] ! i) = map_of (w_properties w) ([1, 2, 3] ! nat ((int i - 1) mod 3))"
    by auto
  from w'(2) [rule_format, of 0] w'(2) [rule_format, of 1] show ?thesis using r w'(1) w(2) by auto
qed

end
