(* ===== verification/Extensions.thy ===== *)
theory Extensions
  imports Framing "HOL-Library.AList"
begin

text \<open>
  The registry of extensions (\<open>extensions.rs\<close>), the requests that read it (\<open>handlers/query.rs\<close>) and the
  dispatch on extension opcodes (\<open>dispatch.rs\<close>).

  The groups of extensions that can be compiled out are an argument. Names are byte strings; a requested name
  that is not UTF-8 is looked up as the empty name, and no extension has either. The list of extensions to
  disable is an ASCII string.
\<close>

section \<open>The registry\<close>

datatype extension_id =
    Shape | MitShm | XInput | BigRequests | SyncExt | GenericEvent | Xkb | XfixesExt | Render | Randr | XcMisc
  | Composite | Damage | Present | Xtest | Dpms | ScreenSaver | VidMode | Record | Security | XVideo | Dbe
  | Xinerama | Glx | XResource

datatype extension_group = ExtCore | ExtInput | ExtRender | ExtGlx | ExtMedia | ExtCompat

record extension_info =
  ext_id :: extension_id
  wire_name :: string
  ext_opcode :: u8
  first_event :: u8
  first_error :: u8
  ext_enabled :: bool

record extension_registry =
  ext_entries :: "extension_info list"
  name_index :: "(string \<times> nat) list"
  opcode_index :: "(u8 \<times> nat) list"

definition add_extension :: "extension_id \<Rightarrow> string \<Rightarrow> u8 \<Rightarrow> u8 \<Rightarrow> u8 \<Rightarrow> extension_registry \<Rightarrow> extension_registry" where
  "add_extension i name opcode event error reg =
     (let idx = length (ext_entries reg)
      in reg\<lparr>ext_entries := ext_entries reg @ [\<lparr>ext_id = i, wire_name = name, ext_opcode = opcode, first_event = event,
               first_error = error, ext_enabled = True\<rparr>],
             name_index := AList.update name idx (name_index reg),
             opcode_index := AList.update opcode idx (opcode_index reg)\<rparr>)"

definition extension_table :: "(extension_group \<times> extension_id \<times> string \<times> u8 \<times> u8 \<times> u8) list" where
  "extension_table =
    [(ExtCore, Shape, ''SHAPE'', 128, 64, 0),
     (ExtCore, MitShm, ''MIT-SHM'', 130, 65, 128),
     (ExtCore, BigRequests, ''BIG-REQUESTS'', 133, 0, 0),
     (ExtCore, SyncExt, ''SYNC'', 134, 83, 0),
     (ExtCore, GenericEvent, ''Generic Event Extension'', 135, 0, 0),
     (ExtCore, XfixesExt, ''XFIXES'', 138, 87, 0),
     (ExtCore, Randr, ''RANDR'', 140, 89, 0),
     (ExtCore, XcMisc, ''XC-MISC'', 141, 0, 0),
     (ExtCore, XResource, ''X-Resource'', 160, 0, 0),
     (ExtInput, XInput, ''XInputExtension'', 131, 105, 152),
     (ExtInput, Xtest, ''XTEST'', 150, 0, 0),
     (ExtInput, Xkb, ''XKEYBOARD'', 136, 85, 0),
     (ExtRender, Render, ''RENDER'', 139, 0, 142),
     (ExtRender, Composite, ''Composite'', 142, 0, 0),
     (ExtRender, Damage, ''DAMAGE'', 143, 91, 153),
     (ExtRender, Present, ''Present'', 148, 0, 0),
     (ExtGlx, Glx, ''GLX'', 159, 66, 159),
     (ExtMedia, XVideo, ''XVideo'', 156, 95, 156),
     (ExtMedia, Dbe, ''DOUBLE-BUFFER'', 157, 0, 157),
     (ExtCompat, Dpms, ''DPMS'', 151, 0, 0),
     (ExtCompat, ScreenSaver, ''MIT-SCREEN-SAVER'', 152, 92, 0),
     (ExtCompat, VidMode, ''XFree86-VidModeExtension'', 153, 0, 0),
     (ExtCompat, Record, ''RECORD'', 154, 0, 154),
     (ExtCompat, Security, ''SECURITY'', 155, 93, 155),
     (ExtCompat, Xinerama, ''XINERAMA'', 158, 0, 0)]"

text \<open>The core group is always compiled in.\<close>

definition registry_new :: "(extension_group \<Rightarrow> bool) \<Rightarrow> extension_registry" where
  "registry_new compiled =
     fold (\<lambda>(_, i, name, opcode, event, error). add_extension i name opcode event error)
       (filter (\<lambda>e. fst e = ExtCore \<or> compiled (fst e)) extension_table)
       \<lparr>ext_entries = [], name_index = [], opcode_index = []\<rparr>"

definition by_name :: "string \<Rightarrow> extension_registry \<Rightarrow> extension_info option" where
  "by_name name reg = map_option (\<lambda>i. ext_entries reg ! i) (map_of (name_index reg) name)"

definition by_opcode :: "u8 \<Rightarrow> extension_registry \<Rightarrow> extension_info option" where
  "by_opcode opcode reg = map_option (\<lambda>i. ext_entries reg ! i) (map_of (opcode_index reg) opcode)"

definition enabled_extensions :: "extension_registry \<Rightarrow> extension_info list" where
  "enabled_extensions reg = filter ext_enabled (ext_entries reg)"

section \<open>Disabling by name\<close>

fun split_commas :: "string \<Rightarrow> string list" where
  "split_commas [] = [[]]"
| "split_commas (c # cs) =
     (if c = CHR '','' then [] # split_commas cs
      else case split_commas cs of r # rs \<Rightarrow> (c # r) # rs | [] \<Rightarrow> [[c]])"

definition is_space :: "char \<Rightarrow> bool" where
  "is_space c \<longleftrightarrow> c = CHR '' '' \<or> 9 \<le> (of_char c :: nat) \<and> (of_char c :: nat) \<le> 13"

definition trim :: "string \<Rightarrow> string" where
  "trim s = rev (dropWhile is_space (rev (dropWhile is_space s)))"

definition ascii_lower :: "char \<Rightarrow> nat" where
  "ascii_lower c = (let n = of_char c in if 65 \<le> n \<and> n \<le> 90 then n + 32 else n)"

definition eq_ignore_ascii_case :: "string \<Rightarrow> string \<Rightarrow> bool" where
  "eq_ignore_ascii_case a b \<longleftrightarrow> map ascii_lower a = map ascii_lower b"

definition disable_one :: "string \<Rightarrow> extension_registry \<Rightarrow> extension_registry" where
  "disable_one raw reg =
     (let name = trim raw
      in if name = [] then reg
         else reg\<lparr>ext_entries := map (\<lambda>e. if eq_ignore_ascii_case (wire_name e) name then e\<lparr>ext_enabled := False\<rparr> else e)
                                  (ext_entries reg)\<rparr>)"

definition disable_by_names :: "string \<Rightarrow> extension_registry \<Rightarrow> extension_registry" where
  "disable_by_names l reg = fold disable_one (split_commas l) reg"

section \<open>Lookups for the protocol library\<close>

definition get_from_major_opcode :: "u8 \<Rightarrow> extension_registry \<Rightarrow> extension_info option" where
  "get_from_major_opcode opcode reg =
     (case by_opcode opcode reg of Some e \<Rightarrow> if ext_enabled e then Some e else None | None \<Rightarrow> None)"

definition get_from_event_code :: "u8 \<Rightarrow> extension_registry \<Rightarrow> extension_info option" where
  "get_from_event_code code reg = find (\<lambda>e. ext_enabled e \<and> first_event e \<noteq> 0 \<and> code \<ge> first_event e) (ext_entries reg)"

definition get_from_error_code :: "u8 \<Rightarrow> extension_registry \<Rightarrow> extension_info option" where
  "get_from_error_code code reg = find (\<lambda>e. ext_enabled e \<and> first_error e \<noteq> 0 \<and> code \<ge> first_error e) (ext_entries reg)"

section \<open>Requests\<close>

datatype query_reply = BestSizeReply u16 u16 | ExtensionReply bool u8 u8 u8 | ExtensionsReply "string list"

definition handle_query_extension :: "string \<Rightarrow> extension_registry \<Rightarrow> query_reply" where
  "handle_query_extension name reg =
     (case by_name name reg of
        Some e \<Rightarrow> if ext_enabled e then ExtensionReply True (ext_opcode e) (first_event e) (first_error e)
                   else ExtensionReply False 0 0 0
      | None \<Rightarrow> ExtensionReply False 0 0 0)"

definition handle_list_extensions :: "extension_registry \<Rightarrow> query_reply" where
  "handle_list_extensions reg = ExtensionsReply (map wire_name (enabled_extensions reg))"

text \<open>The registry as the request loop sees it, with the handler of each extension.\<close>

definition dispatch_table :: "(extension_id \<Rightarrow> 's handler) \<Rightarrow> extension_registry \<Rightarrow> u8 \<Rightarrow> (bool \<times> 's handler) option" where
  "dispatch_table handlers reg opcode = map_option (\<lambda>e. (ext_enabled e, handlers (ext_id e))) (by_opcode opcode reg)"

text \<open>\<open>u32::next_power_of_two\<close>, for values below \<open>2 ^ 31\<close>.\<close>

fun power_from :: "nat \<Rightarrow> nat \<Rightarrow> nat \<Rightarrow> nat" where
  "power_from 0 p v = p"
| "power_from (Suc n) p v = (if v \<le> p then p else power_from n (2 * p) v)"

definition next_power_of_two :: "u16 \<Rightarrow> u16" where
  "next_power_of_two v = (if v = 0 then 1 else max (of_nat (power_from 31 1 (unat v))) 1)"

definition handle_query_best_size :: "u16 \<Rightarrow> u8 \<Rightarrow> u16 \<Rightarrow> u16 \<Rightarrow> query_reply response" where
  "handle_query_best_size seq cls width height =
     (if cls > 2 then ErrorReply (build_error VALUE_ERROR seq (ucast cls) 97 0)
      else if cls = 0 then Reply (BestSizeReply (max 1 (min 256 width)) (max 1 (min 256 height)))
      else Reply (BestSizeReply (next_power_of_two width) (next_power_of_two height)))"

section \<open>Well-formedness\<close>

text \<open>The two indices point at the entries with that name or opcode, and at no others.\<close>

definition registry_ok :: "extension_registry \<Rightarrow> bool" where
  "registry_ok reg \<longleftrightarrow>
     distinct (map wire_name (ext_entries reg)) \<and> distinct (map ext_opcode (ext_entries reg)) \<and>
     (\<forall>name i. map_of (name_index reg) name = Some i \<longleftrightarrow> i < length (ext_entries reg) \<and> wire_name (ext_entries reg ! i) = name) \<and>
     (\<forall>opcode i. map_of (opcode_index reg) opcode = Some i \<longleftrightarrow>
        i < length (ext_entries reg) \<and> ext_opcode (ext_entries reg ! i) = opcode)"

lemma add_extension_ok:
  assumes "registry_ok reg" "name \<notin> wire_name ` set (ext_entries reg)" "opcode \<notin> ext_opcode ` set (ext_entries reg)"
  shows "registry_ok (add_extension i name opcode event error reg)"
proof -
  have n: "wire_name (ext_entries reg ! j) \<noteq> name" "ext_opcode (ext_entries reg ! j) \<noteq> opcode" if "j < length (ext_entries reg)" for j
    using assms(2,3) that nth_mem by blast+
  show ?thesis
    using assms n unfolding registry_ok_def
    by (auto simp: add_extension_def Let_def AList.update_conv' nth_append less_Suc_eq)
qed

lemma add_all_ok:
  assumes "registry_ok reg" "distinct (map (\<lambda>(_, _, name, _). name) xs)" "distinct (map (\<lambda>(_, _, _, opcode, _). opcode) xs)"
    and "\<forall>(_, _, name, opcode, _) \<in> set xs. name \<notin> wire_name ` set (ext_entries reg) \<and> opcode \<notin> ext_opcode ` set (ext_entries reg)"
  shows "registry_ok (fold (\<lambda>(_, i, name, opcode, event, error). add_extension i name opcode event error) xs reg)"
  using assms
proof (induction xs arbitrary: reg)
  case (Cons x xs)
  obtain g i name opcode event error where x: "x = (g, i, name, opcode, event, error)" by (metis prod_cases6)
  have new: "ext_entries (add_extension i name opcode event error reg) = ext_entries reg @ [\<lparr>ext_id = i, wire_name = name,
      ext_opcode = opcode, first_event = event, first_error = error, ext_enabled = True\<rparr>]" by (simp add: add_extension_def Let_def)
  have "registry_ok (add_extension i name opcode event error reg)"
    using Cons.prems by (intro add_extension_ok) (auto simp: x)
  then have "registry_ok (fold (\<lambda>(_, i, name, opcode, event, error). add_extension i name opcode event error) xs
      (add_extension i name opcode event error reg))"
  proof (rule Cons.IH)
    show "distinct (map (\<lambda>(_, _, name, _). name) xs)" "distinct (map (\<lambda>(_, _, _, opcode, _). opcode) xs)"
      using Cons.prems by simp_all
    have "n \<noteq> name" "c \<noteq> opcode" if "(h, j, n, c, ev, er) \<in> set xs" for h j n c ev er
      using Cons.prems(2,3) that by (force simp: x)+
    then show "\<forall>(_, _, n, c, _) \<in> set xs. n \<notin> wire_name ` set (ext_entries (add_extension i name opcode event error reg)) \<and>
        c \<notin> ext_opcode ` set (ext_entries (add_extension i name opcode event error reg))"
      using Cons.prems(4) unfolding new by fastforce
  qed
  then show ?case by (simp add: x)
qed simp

lemma registry_new_ok: "registry_ok (registry_new compiled)"
proof -
  let ?xs = "filter (\<lambda>e. fst e = ExtCore \<or> compiled (fst e)) extension_table"
  have "distinct (map (\<lambda>(_, _, name, _). name) extension_table)" "distinct (map (\<lambda>(_, _, _, opcode, _). opcode) extension_table)"
    by (simp_all add: extension_table_def)
  then have "distinct (map (\<lambda>(_, _, name, _). name) ?xs)" "distinct (map (\<lambda>(_, _, _, opcode, _). opcode) ?xs)"
    by (simp_all add: distinct_map_filter)
  then show ?thesis
    unfolding registry_new_def by (intro add_all_ok) (auto simp: registry_ok_def)
qed

lemma disable_one_ok: "registry_ok reg \<Longrightarrow> registry_ok (disable_one raw reg)"
proof -
  assume ok: "registry_ok reg"
  define f where "f e = (if eq_ignore_ascii_case (wire_name e) (trim raw) then e\<lparr>ext_enabled := False\<rparr> else e)" for e :: extension_info
  have f: "wire_name (f e) = wire_name e" "ext_opcode (f e) = ext_opcode e" for e by (simp_all add: f_def)
  then have "wire_name \<circ> f = wire_name" "ext_opcode \<circ> f = ext_opcode" by auto
  then have "registry_ok (reg\<lparr>ext_entries := map f (ext_entries reg)\<rparr>)"
    using ok f unfolding registry_ok_def by (simp cong: conj_cong)
  with ok show ?thesis unfolding disable_one_def Let_def f_def [abs_def] by simp
qed

lemma disable_by_names_ok: "registry_ok reg \<Longrightarrow> registry_ok (disable_by_names l reg)"
proof -
  have "registry_ok reg \<Longrightarrow> registry_ok (fold disable_one xs reg)" for xs
    by (induction xs arbitrary: reg) (auto intro: disable_one_ok)
  then show "registry_ok reg \<Longrightarrow> registry_ok (disable_by_names l reg)" by (simp add: disable_by_names_def)
qed

lemma by_name_iff: "registry_ok reg \<Longrightarrow> by_name name reg = Some e \<longleftrightarrow> e \<in> set (ext_entries reg) \<and> wire_name e = name"
  unfolding registry_ok_def by_name_def by (auto simp: in_set_conv_nth)

lemma by_opcode_iff: "registry_ok reg \<Longrightarrow> by_opcode opcode reg = Some e \<longleftrightarrow> e \<in> set (ext_entries reg) \<and> ext_opcode e = opcode"
  unfolding registry_ok_def by_opcode_def by (auto simp: in_set_conv_nth)

lemma query_extension_iff:
  assumes ok: "registry_ok reg"
  shows "handle_query_extension name reg = ExtensionReply True opcode event error \<longleftrightarrow>
    (\<exists>e \<in> set (ext_entries reg). wire_name e = name \<and> ext_enabled e \<and> ext_opcode e = opcode \<and> first_event e = event \<and> first_error e = error)"
proof (cases "by_name name reg")
  case None
  then have "\<forall>e \<in> set (ext_entries reg). wire_name e \<noteq> name" using by_name_iff [OF ok, of name] by (metis option.distinct(1))
  with None show ?thesis by (auto simp: handle_query_extension_def)
next
  case (Some e)
  then have e: "e \<in> set (ext_entries reg)" "wire_name e = name" using by_name_iff [OF ok] by auto
  have "e' = e" if "e' \<in> set (ext_entries reg)" "wire_name e' = name" for e'
    using that by_name_iff [OF ok, of name e'] Some by simp
  with e have "(\<exists>e \<in> set (ext_entries reg). wire_name e = name \<and> P e) = P e" for P by blast
  with Some show ?thesis by (simp add: handle_query_extension_def)
qed

lemma listed_iff:
  "(\<exists>names. handle_list_extensions reg = ExtensionsReply names \<and> name \<in> set names) =
    (\<exists>e \<in> set (ext_entries reg). wire_name e = name \<and> ext_enabled e)"
  by (auto simp: handle_list_extensions_def enabled_extensions_def)

text \<open>C25. Whatever groups are compiled in and whatever list of names is disabled, the three views of the extensions agree:
  QueryExtension reports an extension exactly when ListExtensions lists it, and requests with the opcode it reports
  are served by that extension; requests of all other extension opcodes are answered with BadRequest.\<close>

theorem extension_views_agree:
  assumes "reg = disable_by_names l (registry_new compiled)" "4 \<le> length data" "127 < data ! 0"
  shows "(\<exists>opcode event error. handle_query_extension name reg = ExtensionReply True opcode event error) =
       (\<exists>names. handle_list_extensions reg = ExtensionsReply names \<and> name \<in> set names) \<and>
     (case by_opcode (data ! 0) reg of
        Some e \<Rightarrow>
          if (\<exists>event error. handle_query_extension (wire_name e) reg = ExtensionReply True (data ! 0) event error)
          then handle_request core (dispatch_table handlers reg) seq st data = handlers (ext_id e) seq st data
          else handle_request core (dispatch_table handlers reg) seq st data =
                 (st, build_error REQUEST_ERROR seq (ucast (data ! 0)) (data ! 0) (ucast (data ! 1)))
      | None \<Rightarrow>
          (\<forall>name event error. handle_query_extension name reg \<noteq> ExtensionReply True (data ! 0) event error) \<and>
          handle_request core (dispatch_table handlers reg) seq st data =
            (st, build_error REQUEST_ERROR seq (ucast (data ! 0)) (data ! 0) (ucast (data ! 1))))"
proof -
  have ok: "registry_ok reg" unfolding assms(1) by (intro disable_by_names_ok registry_new_ok)
  note query = query_extension_iff [OF ok]
  have "(\<exists>opcode event error. handle_query_extension name reg = ExtensionReply True opcode event error) =
       (\<exists>names. handle_list_extensions reg = ExtensionsReply names \<and> name \<in> set names)"
    unfolding query listed_iff by blast
  moreover have "case by_opcode (data ! 0) reg of
        Some e \<Rightarrow>
          if (\<exists>event error. handle_query_extension (wire_name e) reg = ExtensionReply True (data ! 0) event error)
          then handle_request core (dispatch_table handlers reg) seq st data = handlers (ext_id e) seq st data
          else handle_request core (dispatch_table handlers reg) seq st data =
                 (st, build_error REQUEST_ERROR seq (ucast (data ! 0)) (data ! 0) (ucast (data ! 1)))
      | None \<Rightarrow>
          (\<forall>name event error. handle_query_extension name reg \<noteq> ExtensionReply True (data ! 0) event error) \<and>
          handle_request core (dispatch_table handlers reg) seq st data =
            (st, build_error REQUEST_ERROR seq (ucast (data ! 0)) (data ! 0) (ucast (data ! 1)))"
  proof -
    have long: "\<not> length data < 4" "\<not> data ! 0 \<le> 127" using assms(2,3) by (simp_all add: not_less)
    show ?thesis
    proof (cases "by_opcode (data ! 0) reg")
      case None
      then have "\<forall>e \<in> set (ext_entries reg). ext_opcode e \<noteq> data ! 0"
        using by_opcode_iff [OF ok, of "data ! 0"] by (metis option.distinct(1))
      with None long show ?thesis unfolding query by (auto simp: handle_request_def dispatch_table_def Let_def)
    next
      case (Some e)
      then have e: "e \<in> set (ext_entries reg)" "ext_opcode e = data ! 0" using by_opcode_iff [OF ok] by auto
      have "(\<exists>event error. handle_query_extension (wire_name e) reg = ExtensionReply True (data ! 0) event error) = ext_enabled e"
      proof -
        have "e' = e" if "e' \<in> set (ext_entries reg)" "ext_opcode e' = data ! 0" for e'
          using that by_opcode_iff [OF ok, of "data ! 0" e'] Some by simp
        with e show ?thesis unfolding query by blast
      qed
      with Some long show ?thesis by (simp add: handle_request_def dispatch_table_def Let_def)
    qed
  qed
  ultimately show ?thesis by (rule conjI)
qed

text \<open>The event and error codes of an extension are looked up by the first entry whose base is not above the code, so
  they all belong to the first entries that have a base.\<close>

lemma registry_entries:
  "ext_entries (fold (\<lambda>(_, i, name, opcode, event, error). add_extension i name opcode event error) xs reg) =
     ext_entries reg @ map (\<lambda>(_, i, name, opcode, event, error). \<lparr>ext_id = i, wire_name = name, ext_opcode = opcode,
       first_event = event, first_error = error, ext_enabled = True\<rparr>) xs"
  by (induction xs arbitrary: reg) (auto simp: add_extension_def Let_def)

theorem codes_attributed_to_first:
  "64 \<le> code \<Longrightarrow> map_option ext_id (get_from_event_code code (registry_new compiled)) = Some Shape"
  "128 \<le> code \<Longrightarrow> map_option ext_id (get_from_error_code code (registry_new compiled)) = Some MitShm"
  unfolding registry_new_def get_from_event_code_def get_from_error_code_def registry_entries
  by (simp_all add: extension_table_def)

text \<open>Sizes above 32768 have no power of two above them in 16 bits: the best tile size reported for them is 1.\<close>

lemma power_from_numeral:
  "power_from (numeral k) p v = (if v \<le> p then p else power_from (pred_numeral k) (2 * p) v)"
  by (simp add: numeral_eq_Suc)

theorem best_size_wraps: "32768 < v \<Longrightarrow> next_power_of_two v = 1"
proof -
  assume v: "32768 < v"
  then have "32768 < unat v" by (simp add: word_less_nat_alt)
  moreover have "unat v < 65536" by (rule order_less_le_trans [OF unsigned_less]) simp
  ultimately have "power_from 31 1 (unat v) = 65536" by (simp add: power_from_numeral)
  moreover have "(of_nat 65536 :: u16) = 0" unfolding word_of_nat_eq_0_iff by simp
  ultimately show ?thesis by (simp only: next_power_of_two_def) (simp add: max_def)
qed

lemma demo_registry_views:
  "handle_query_extension ''GLX'' (disable_by_names '' shape ,Glx'' (registry_new (\<lambda>_. True))) = ExtensionReply False 0 0 0"
  "handle_query_extension ''SYNC'' (disable_by_names '' shape ,Glx'' (registry_new (\<lambda>_. True))) = ExtensionReply True 134 83 0"
  by code_simp+

theorem extension_views_agree_witness:
  "let reg = disable_by_names '' shape ,Glx'' (registry_new (\<lambda>_. True))
   in map_option ext_id (by_opcode 134 reg) = Some SyncExt \<and>
      handle_request (\<lambda>seq st data. (st, [])) (dispatch_table (\<lambda>i seq st data. (st, if i = SyncExt then [7] else [])) reg)
        5 () [134, 0, 1, 0] = ((), [7])"
proof -
  define reg where "reg = disable_by_names '' shape ,Glx'' (registry_new (\<lambda>_. True))"
  have e: "map_option (\<lambda>e. (ext_id e, wire_name e)) (by_opcode 134 reg) = Some (SyncExt, ''SYNC'')" unfolding reg_def by code_simp
  then obtain e where e: "by_opcode 134 reg = Some e" "ext_id e = SyncExt" "wire_name e = ''SYNC''" by auto
  have q: "\<exists>event error. handle_query_extension ''SYNC'' reg = ExtensionReply True 134 event error"
    unfolding reg_def demo_registry_views(2) by blast
  have "4 \<le> length [134, 0, 1, 0 :: u8]" "127 < [134, 0, 1, 0 :: u8] ! 0" by simp_all
  from extension_views_agree [OF reg_def this, of "''SYNC''" "\<lambda>seq st data. (st, [])"
      "\<lambda>i seq st data. (st, if i = SyncExt then [7] else [])" 5 "()"]
  show ?thesis using e q unfolding reg_def [symmetric] Let_def by simp
qed

end
