(* ===== verification/Pixel_Codec.thy ===== *)
theory Pixel_Codec
  imports Wire
begin

text \<open>
  The choice of the image codec (\<open>crates/pixel-codec/src/lib.rs\<close>): counting the distinct colours of a
  sample of the pixels in a fixed open-addressed hash table, and choosing the lossless or the lossy mode of
  the encoder by that count. The encoders themselves are third-party code and arguments of the model.

  A result \<open>None\<close> stands for a panic or a loop that does not end; the theorems show that there is always a
  result. Indices are \<open>usize\<close> values bounded by the length of the buffer and the count is at most 1023, so both
  are natural numbers.
\<close>

section \<open>Definitions\<close>

datatype codec = Lossless | Lossy nat

definition AUTO_LOSSY_QUALITY :: nat where "AUTO_LOSSY_QUALITY = 90"
definition AUTO_DISTINCT_CAP :: u32 where "AUTO_DISTINCT_CAP = 40"
definition PROBE_MAX_SAMPLES :: nat where "PROBE_MAX_SAMPLES = 2048"
definition PROBE_TABLE_SLOTS :: nat where "PROBE_TABLE_SLOTS = 1024"

text \<open>The four bytes of a pixel as a little-endian word; reading beyond the buffer panics.\<close>

definition pixel_key :: "bytes \<Rightarrow> nat \<Rightarrow> u32 option" where
  "pixel_key rgba i =
     (let p = i * 4
      in if p + 3 < length rgba
         then Some (of_le_bytes [rgba ! p, rgba ! (p + 1), rgba ! (p + 2), rgba ! (p + 3)])
         else None)"

definition home_slot :: "u32 \<Rightarrow> nat" where
  "home_slot key = unat (drop_bit 22 (key * 0x9E3779B1))"

text \<open>The inner loop: the first slot, going round from the home slot, that is free or holds the key.\<close>

partial_function (option) find_slot :: "bool list \<Rightarrow> u32 list \<Rightarrow> u32 \<Rightarrow> nat \<Rightarrow> nat option" where
  "find_slot used keys key slot =
     (if \<not> used ! slot then Some slot
      else if keys ! slot = key then Some slot
      else find_slot used keys key ((slot + 1) mod PROBE_TABLE_SLOTS))"

declare find_slot.simps [code]

text \<open>The outer loop over the sampled pixels.\<close>

partial_function (option) probe_loop ::
  "bytes \<Rightarrow> nat \<Rightarrow> nat \<Rightarrow> u32 \<Rightarrow> nat \<Rightarrow> bool list \<Rightarrow> u32 list \<Rightarrow> nat \<Rightarrow> nat option" where
  "probe_loop rgba pxs stride cap i used keys distinct_count =
     (if i < pxs
      then (case pixel_key rgba i of
              None \<Rightarrow> None
            | Some key \<Rightarrow>
                (case find_slot used keys key (home_slot key) of
                   None \<Rightarrow> None
                 | Some slot \<Rightarrow>
                     if \<not> used ! slot
                     then (if distinct_count + 1 > unat cap then Some (distinct_count + 1)
                           else probe_loop rgba pxs stride cap (i + stride) (used[slot := True]) (keys[slot := key])
                                  (distinct_count + 1))
                     else probe_loop rgba pxs stride cap (i + stride) used keys distinct_count))
      else Some distinct_count)"

declare probe_loop.simps [code]

definition probe_pixels :: "bytes \<Rightarrow> u32 \<Rightarrow> u32 \<Rightarrow> nat" where
  "probe_pixels rgba width height = min (min (unat width * unat height) (2 ^ 64 - 1)) (length rgba div 4)"

definition probe_distinct_colors :: "bytes \<Rightarrow> u32 \<Rightarrow> u32 \<Rightarrow> u32 \<Rightarrow> nat option" where
  "probe_distinct_colors rgba width height cap =
     (let cap = min cap (of_nat PROBE_TABLE_SLOTS - 2);
          pxs = probe_pixels rgba width height
      in if pxs = 0 then Some 0
         else probe_loop rgba pxs (div_ceil pxs PROBE_MAX_SAMPLES) cap 0
                (replicate PROBE_TABLE_SLOTS False) (replicate PROBE_TABLE_SLOTS 0) 0)"

definition select_codec :: "bytes \<Rightarrow> u32 \<Rightarrow> u32 \<Rightarrow> codec option" where
  "select_codec rgba width height =
     map_option (\<lambda>n. if n \<le> unat AUTO_DISTINCT_CAP then Lossless else Lossy AUTO_LOSSY_QUALITY)
       (probe_distinct_colors rgba width height AUTO_DISTINCT_CAP)"

text \<open>The two modes of the third-party encoder are arguments.\<close>

definition encode_rgba ::
  "(bytes \<Rightarrow> u32 \<Rightarrow> u32 \<Rightarrow> bytes) \<Rightarrow> (bytes \<Rightarrow> u32 \<Rightarrow> u32 \<Rightarrow> nat \<Rightarrow> bytes) \<Rightarrow> bytes \<Rightarrow> u32 \<Rightarrow> u32 \<Rightarrow> codec \<Rightarrow> bytes" where
  "encode_rgba lossless lossy rgba width height codec =
     (case codec of Lossless \<Rightarrow> lossless rgba width height | Lossy quality \<Rightarrow> lossy rgba width height quality)"

definition encode_rgba_auto ::
  "(bytes \<Rightarrow> u32 \<Rightarrow> u32 \<Rightarrow> bytes) \<Rightarrow> (bytes \<Rightarrow> u32 \<Rightarrow> u32 \<Rightarrow> nat \<Rightarrow> bytes) \<Rightarrow> bytes \<Rightarrow> u32 \<Rightarrow> u32 \<Rightarrow> bytes option" where
  "encode_rgba_auto lossless lossy rgba width height =
     map_option (encode_rgba lossless lossy rgba width height) (select_codec rgba width height)"

section \<open>The table\<close>

text \<open>The slots in use hold the keys of a set, each once, and no free slot lies between the home slot of a key
  and the slot that holds it.\<close>

definition table_ok :: "bool list \<Rightarrow> u32 list \<Rightarrow> u32 set \<Rightarrow> bool" where
  "table_ok used keys S \<longleftrightarrow> length used = PROBE_TABLE_SLOTS \<and> length keys = PROBE_TABLE_SLOTS \<and>
     bij_betw (\<lambda>s. keys ! s) {s. s < PROBE_TABLE_SLOTS \<and> used ! s} S \<and>
     (\<forall>s < PROBE_TABLE_SLOTS. used ! s \<longrightarrow>
        (\<exists>d. s = (home_slot (keys ! s) + d) mod PROBE_TABLE_SLOTS \<and>
           (\<forall>e < d. used ! ((home_slot (keys ! s) + e) mod PROBE_TABLE_SLOTS))))"

lemma home_slot_less: "home_slot key < PROBE_TABLE_SLOTS"
proof -
  have less: "unat (k :: u32) < 2 ^ 32" for k by (rule order_less_le_trans [OF unsigned_less]) simp
  have "unat (drop_bit 22 (k :: u32)) = unat k div 2 ^ 22" for k
    unfolding unsigned_drop_bit_eq using take_bit_nat_eq_self [OF less] by (simp add: drop_bit_eq_div)
  with less show ?thesis
    by (simp add: home_slot_def PROBE_TABLE_SLOTS_def less_mult_imp_div_less)
qed

lemma table_ok_empty: "table_ok (replicate PROBE_TABLE_SLOTS False) (replicate PROBE_TABLE_SLOTS 0) {}"
proof -
  have none: "{s. s < n \<and> replicate n False ! s} = {}" for n :: nat by auto
  show ?thesis unfolding table_ok_def none by (auto simp: bij_betw_def)
qed

lemma table_ok_card: "table_ok used keys S \<Longrightarrow> finite S \<and> card {s. s < PROBE_TABLE_SLOTS \<and> used ! s} = card S"
  unfolding table_ok_def by (auto dest: bij_betw_same_card simp: bij_betw_finite [symmetric])

text \<open>The inner loop returns the first slot on the way at which it can stop.\<close>

lemma find_slot_first:
  assumes "\<forall>e < d. used ! ((h + e) mod PROBE_TABLE_SLOTS) \<and> keys ! ((h + e) mod PROBE_TABLE_SLOTS) \<noteq> key"
    and "used ! ((h + d) mod PROBE_TABLE_SLOTS) \<longrightarrow> keys ! ((h + d) mod PROBE_TABLE_SLOTS) = key"
  shows "find_slot used keys key (h mod PROBE_TABLE_SLOTS) = Some ((h + d) mod PROBE_TABLE_SLOTS)"
  using assms
proof (induction d arbitrary: h)
  case 0
  then show ?case by (subst find_slot.simps) simp
next
  case (Suc d)
  have "find_slot used keys key ((h + 1) mod PROBE_TABLE_SLOTS) = Some ((h + 1 + d) mod PROBE_TABLE_SLOTS)"
    using Suc.prems(1) [rule_format, of "Suc _"] Suc.prems(2) by (intro Suc.IH) simp_all
  moreover have "used ! (h mod PROBE_TABLE_SLOTS) \<and> keys ! (h mod PROBE_TABLE_SLOTS) \<noteq> key"
    using Suc.prems(1) [rule_format, of 0] by simp
  ultimately show ?case by (subst find_slot.simps) (simp add: mod_Suc_eq)
qed

text \<open>A table with a free slot finds a key it holds, and a free slot for any other.\<close>

lemma find_slot_total:
  assumes ok: "table_ok used keys S" and free: "f < PROBE_TABLE_SLOTS" "\<not> used ! f"
  obtains d slot where "find_slot used keys key (home_slot key) = Some slot" "slot = (home_slot key + d) mod PROBE_TABLE_SLOTS"
    "\<forall>e < d. used ! ((home_slot key + e) mod PROBE_TABLE_SLOTS)" "used ! slot \<longleftrightarrow> key \<in> S"
proof -
  let ?N = PROBE_TABLE_SLOTS and ?h = "home_slot key"
  define stop where "stop d \<longleftrightarrow> (used ! ((?h + d) mod ?N) \<longrightarrow> keys ! ((?h + d) mod ?N) = key)" for d
  have h: "?h mod ?N = ?h" using home_slot_less by simp
  have "(?h + (f + ?N - ?h)) mod ?N = f" using free(1) home_slot_less [of key] by simp
  then have "stop (f + ?N - ?h)" using free(2) by (simp add: stop_def)
  then obtain d where d: "stop d" "\<forall>e < d. \<not> stop e" using LeastI [of stop] not_less_Least [of _ stop] by metis
  let ?slot = "(?h + d) mod ?N"
  have before: "\<forall>e < d. used ! ((?h + e) mod ?N) \<and> keys ! ((?h + e) mod ?N) \<noteq> key" using d(2) by (simp add: stop_def)
  have found: "find_slot used keys key ?h = Some ?slot"
    using find_slot_first [OF before] d(1) h by (simp add: stop_def)
  have slot: "?slot < ?N" by (simp add: PROBE_TABLE_SLOTS_def)
  have S: "S = (\<lambda>s. keys ! s) ` {s. s < ?N \<and> used ! s}" using ok by (simp add: table_ok_def bij_betw_def)
  have "used ! ?slot \<longleftrightarrow> key \<in> S"
  proof
    assume "used ! ?slot"
    with d(1) have "keys ! ?slot = key" by (simp add: stop_def)
    then show "key \<in> S" unfolding S using \<open>used ! ?slot\<close> slot by (intro image_eqI [of _ _ ?slot]) simp_all
  next
    assume "key \<in> S"
    then obtain s where s: "s < ?N" "used ! s" "keys ! s = key" unfolding S by blast
    with ok obtain d' where d': "s = (?h + d') mod ?N" "\<forall>e < d'. used ! ((?h + e) mod ?N)"
      unfolding table_ok_def by blast
    then have "stop d'" using s by (simp add: stop_def)
    then have "d \<le> d'" using d(2) by (meson not_less)
    then show "used ! ?slot" using d' s(2) by (cases "d = d'") simp_all
  qed
  with found before that show thesis by blast
qed

lemma table_ok_insert:
  assumes ok: "table_ok used keys S" and slot: "slot = (home_slot key + d) mod PROBE_TABLE_SLOTS" "\<not> used ! slot" "key \<notin> S"
    and path: "\<forall>e < d. used ! ((home_slot key + e) mod PROBE_TABLE_SLOTS)"
  shows "table_ok (used[slot := True]) (keys[slot := key]) (insert key S)"
proof -
  let ?N = PROBE_TABLE_SLOTS
  let ?U = "{s. s < ?N \<and> used ! s}"
  have len: "length used = ?N" "length keys = ?N" using ok by (simp_all add: table_ok_def)
  have less: "slot < ?N" by (simp add: slot(1) PROBE_TABLE_SLOTS_def)
  have U: "{s. s < ?N \<and> used[slot := True] ! s} = insert slot ?U" using len less by (auto simp: nth_list_update)
  have nin: "slot \<notin> ?U" using slot(2) by simp
  have "bij_betw (\<lambda>s. keys[slot := key] ! s) ?U S"
  proof (rule bij_betw_cong [THEN iffD1])
    show "bij_betw (\<lambda>s. keys ! s) ?U S" using ok by (simp add: table_ok_def)
    show "keys ! s = keys[slot := key] ! s" if "s \<in> ?U" for s using that nin by (cases "s = slot") simp_all
  qed
  then have "bij_betw (\<lambda>s. keys[slot := key] ! s) (insert slot ?U) (insert key S)"
    using nin slot(3) len less notIn_Un_bij_betw [of slot ?U "\<lambda>s. keys[slot := key] ! s" S] by simp
  moreover have "\<exists>d. s = (home_slot (keys[slot := key] ! s) + d) mod ?N \<and>
      (\<forall>e < d. used[slot := True] ! ((home_slot (keys[slot := key] ! s) + e) mod ?N))"
    if s: "s < ?N" "used[slot := True] ! s" for s
  proof -
    have mono: "used[slot := True] ! k" if "used ! k" "k < ?N" for k using that len by (cases "k = slot") simp_all
    have N: "k mod ?N < ?N" for k by (simp add: PROBE_TABLE_SLOTS_def)
    show ?thesis
    proof (cases "s = slot")
      case True
      with slot(1) path len less mono N show ?thesis by auto
    next
      case False
      with s len have "used ! s" by simp
      with ok s(1) obtain d where "s = (home_slot (keys ! s) + d) mod ?N" "\<forall>e < d. used ! ((home_slot (keys ! s) + e) mod ?N)"
        unfolding table_ok_def by blast
      with False mono N show ?thesis by auto
    qed
  qed
  ultimately show ?thesis unfolding table_ok_def U using len by simp
qed

section \<open>The count\<close>

definition pixel :: "bytes \<Rightarrow> nat \<Rightarrow> u32" where
  "pixel rgba i = of_le_bytes [rgba ! (4 * i), rgba ! (4 * i + 1), rgba ! (4 * i + 2), rgba ! (4 * i + 3)]"

lemma pixel_key_inside: "i < length rgba div 4 \<Longrightarrow> pixel_key rgba i = Some (pixel rgba i)"
  by (simp add: pixel_key_def pixel_def mult.commute Let_def)

text \<open>The pixels the outer loop still has to look at.\<close>

definition ahead :: "nat \<Rightarrow> nat \<Rightarrow> nat \<Rightarrow> nat set" where
  "ahead pxs stride i = {j. i \<le> j \<and> j < pxs \<and> stride dvd (j - i)}"

lemma ahead_step: "0 < stride \<Longrightarrow> i < pxs \<Longrightarrow> ahead pxs stride i = insert i (ahead pxs stride (i + stride))"
proof -
  assume s: "0 < stride" and i: "i < pxs"
  have "stride dvd (j - i) \<longleftrightarrow> stride dvd (j - (i + stride))" if "i + stride \<le> j" for j
    using that by (metis diff_diff_left dvd_minus_self le_add_diff_inverse2 add_le_imp_le_diff add.commute less_imp_le nat_neq_iff not_less)
  moreover have "i + stride \<le> j" if "i \<le> j" "j \<noteq> i" "stride dvd (j - i)" for j
    using that dvd_imp_le [of stride "j - i"] by simp
  ultimately show ?thesis using i unfolding ahead_def by auto
qed

lemma ahead_end: "pxs \<le> i \<Longrightarrow> ahead pxs stride i = {}"
  by (auto simp: ahead_def)

lemma finite_ahead [simp]: "finite (ahead pxs stride i)"
  by (simp add: ahead_def)

lemma probe_loop_count:
  assumes "0 < stride" "pxs \<le> length rgba div 4" "unat cap < PROBE_TABLE_SLOTS - 1"
    and "table_ok used keys S" "card S \<le> unat cap"
  shows "probe_loop rgba pxs stride cap i used keys (card S) =
    Some (min (unat cap + 1) (card (S \<union> pixel rgba ` ahead pxs stride i)))"
  using assms(4,5)
proof (induction "pxs - i" arbitrary: i used keys S rule: less_induct)
  case less
  have fin: "finite S" using table_ok_card [OF less.prems(1)] by simp
  show ?case
  proof (cases "i < pxs")
    case False
    with less.prems(2) show ?thesis by (subst probe_loop.simps) (simp add: ahead_end)
  next
    case True
    let ?key = "pixel rgba i"
    have key: "pixel_key rgba i = Some ?key" using True assms(2) by (intro pixel_key_inside) simp
    have rest: "S \<union> pixel rgba ` ahead pxs stride i = insert ?key S \<union> pixel rgba ` ahead pxs stride (i + stride)"
      unfolding ahead_step [OF assms(1) True] by auto
    have dec: "pxs - (i + stride) < pxs - i" using True assms(1) by simp
    have "\<exists>f < PROBE_TABLE_SLOTS. \<not> used ! f"
    proof (rule ccontr)
      assume "\<not> (\<exists>f < PROBE_TABLE_SLOTS. \<not> used ! f)"
      then have "{s. s < PROBE_TABLE_SLOTS \<and> used ! s} = {..< PROBE_TABLE_SLOTS}" by auto
      with table_ok_card [OF less.prems(1)] less.prems(2) assms(3) show False by simp
    qed
    then obtain f where "f < PROBE_TABLE_SLOTS" "\<not> used ! f" by blast
    from find_slot_total [OF less.prems(1) this, of ?key] obtain d slot where
      slot: "find_slot used keys ?key (home_slot ?key) = Some slot" "slot = (home_slot ?key + d) mod PROBE_TABLE_SLOTS"
        "\<forall>e < d. used ! ((home_slot ?key + e) mod PROBE_TABLE_SLOTS)" "used ! slot \<longleftrightarrow> ?key \<in> S" .
    show ?thesis
    proof (cases "?key \<in> S")
      case True
      then have "insert ?key S = S" by blast
      with True \<open>i < pxs\<close> less.hyps [OF dec less.prems] show ?thesis
        by (subst probe_loop.simps) (simp add: key slot(1,4) rest)
    next
      case False
      then have c: "card (insert ?key S) = card S + 1" using fin by simp
      have ok: "table_ok (used[slot := True]) (keys[slot := ?key]) (insert ?key S)"
        using table_ok_insert [OF less.prems(1) slot(2) _ False slot(3)] slot(4) False by blast
      show ?thesis
      proof (cases "unat cap < card S + 1")
        case True
        have "card (insert ?key S) \<le> card (insert ?key S \<union> pixel rgba ` ahead pxs stride (i + stride))"
          using fin by (intro card_mono) auto
        with True c less.prems(2) have "min (unat cap + 1) (card (S \<union> pixel rgba ` ahead pxs stride i)) = card S + 1"
          unfolding rest by simp
        with True False \<open>i < pxs\<close> show ?thesis by (subst probe_loop.simps) (simp add: key slot(1,4))
      next
        case small: False
        have "probe_loop rgba pxs stride cap (i + stride) (used[slot := True]) (keys[slot := ?key]) (card S + 1) =
            Some (min (unat cap + 1) (card (S \<union> pixel rgba ` ahead pxs stride i)))"
          unfolding rest c [symmetric] using small c by (intro less.hyps [OF dec ok]) simp
        with small False \<open>i < pxs\<close> show ?thesis by (subst probe_loop.simps) (simp add: key slot(1,4))
      qed
    qed
  qed
qed

text \<open>The sample: every \<open>stride\<close>-th pixel.\<close>

definition sampled_colors :: "bytes \<Rightarrow> u32 \<Rightarrow> u32 \<Rightarrow> u32 set" where
  "sampled_colors rgba width height =
     (let pxs = probe_pixels rgba width height; stride = div_ceil pxs PROBE_MAX_SAMPLES
      in pixel rgba ` {j. j < pxs \<and> stride dvd j})"

lemma probe_count:
  "probe_distinct_colors rgba width height cap =
     Some (min (min (unat cap) 1022 + 1) (card (sampled_colors rgba width height)))"
proof (cases "probe_pixels rgba width height = 0")
  case True
  then show ?thesis by (simp add: probe_distinct_colors_def sampled_colors_def Let_def)
next
  case False
  let ?p = "probe_pixels rgba width height" and ?cap = "min cap (of_nat PROBE_TABLE_SLOTS - 2) :: u32"
  let ?s = "div_ceil ?p PROBE_MAX_SAMPLES"
  have cap: "unat ?cap = min (unat cap) 1022"
    by (simp add: PROBE_TABLE_SLOTS_def min_def word_le_nat_alt)
  have "probe_loop rgba ?p ?s ?cap 0 (replicate PROBE_TABLE_SLOTS False) (replicate PROBE_TABLE_SLOTS 0) (card ({} :: u32 set)) =
      Some (min (unat ?cap + 1) (card ({} \<union> pixel rgba ` ahead ?p ?s 0)))"
  proof (rule probe_loop_count [OF _ _ _ table_ok_empty])
    show "0 < ?s" using False by (simp add: div_ceil_def PROBE_MAX_SAMPLES_def div_greater_zero_iff)
    show "?p \<le> length rgba div 4" by (simp add: probe_pixels_def)
    show "unat ?cap < PROBE_TABLE_SLOTS - 1" unfolding cap by (simp add: PROBE_TABLE_SLOTS_def)
  qed simp
  moreover have "ahead ?p ?s 0 = {j. j < ?p \<and> ?s dvd j}" by (auto simp: ahead_def)
  ultimately show ?thesis using False by (simp add: probe_distinct_colors_def sampled_colors_def Let_def cap)
qed

text \<open>Up to 2048 pixels the sample is the whole image.\<close>

lemma small_image_sampled:
  assumes "probe_pixels rgba width height \<in> {1..2048}"
  shows "sampled_colors rgba width height = pixel rgba ` {..< probe_pixels rgba width height}"
proof -
  have "div_ceil p PROBE_MAX_SAMPLES = 1" if "p \<in> {1..2048}" for p
    using that by (auto simp: div_ceil_def PROBE_MAX_SAMPLES_def intro!: div_nat_eqI)
  with assms show ?thesis by (auto simp: sampled_colors_def Let_def)
qed

text \<open>C21. Counting colours with the open-addressed table always returns, never reads outside the buffer, and gives
  the number of distinct colours among the sampled pixels, cut off at one above the cap (which is limited to 1022).
  So a buffer is encoded losslessly exactly when its sample has at most 40 colours.\<close>

theorem probe_counts_colors:
  "probe_distinct_colors rgba width height cap =
     Some (min (min (unat cap) 1022 + 1) (card (sampled_colors rgba width height))) \<and>
   encode_rgba_auto lossless lossy rgba width height =
     Some (if card (sampled_colors rgba width height) \<le> 40 then lossless rgba width height
           else lossy rgba width height 90)"
proof -
  have "probe_distinct_colors rgba width height AUTO_DISTINCT_CAP =
      Some (min 41 (card (sampled_colors rgba width height)))"
    unfolding probe_count by (simp add: AUTO_DISTINCT_CAP_def)
  then show ?thesis
    by (auto simp: probe_count encode_rgba_auto_def select_codec_def encode_rgba_def AUTO_DISTINCT_CAP_def AUTO_LOSSY_QUALITY_def)
qed

end
