(* ===== verification/Spec2Isabelle.thy ===== *)
theory Spec2Isabelle
  imports Xfixes Xid Sync Atoms Color Framing Shape Selection Grab Window_Table Chunking Tree_Requests Attributes Devices
    Extensions Pixel_Codec
begin

text \<open>
  x11-web runs X11 programs in a browser. Its centre is an X server written in Rust
  (\<open>src/crates/x11-server\<close>): one task per client reads requests from a socket, changes the state of
  the connection and of tables shared between connections, and queues replies and events; the window
  contents go to the browser through the backend crates. This development models the server's own
  logic: \<open>xserver/\<close> with its handlers, and the chunking of messages in the backend. Paths below are relative
  to \<open>src/crates/x11-server/src/xserver\<close> unless they start with \<open>src/\<close>.

  \<^bold>\<open>Conventions.\<close> Machine integers are words of their width; \<open>+\<close> wraps as it does in a release build.
  A hash map is an association list updated with \<open>AList\<close> (\<open>hashmap\<close> in Prelude). Handlers are functions
  from a request and a state to a new state and a response; an error reply is a value. A panic, or a
  loop that does not return, is the value \<open>None\<close>. State shared between connections (the shared window
  table, the event broadcaster, the atom table, the shared focus) is a component of the state of the
  connection that runs; mutexes never fail. Event layouts of the third-party crate \<open>x11rb-protocol\<close>
  are parameters (\<open>encoders\<close>), as are the parsers of requests, the clock, the host name and fresh UUIDs.

  \<^bold>\<open>Theories.\<close>
  \<^item> Prelude: types of words, hash maps, byte lists in both byte orders, list and word lemmas, the spans of
    positions that satisfy a test, and the locale \<open>invariant_system\<close>: what every step keeps holds in every
    reachable state. It is interpreted by the event broadcaster, SYNC, the grabs, the window tables, the
    window requests and the colour requests.
  \<^item> Wire (\<open>core.rs\<close>, \<open>reply.rs\<close>, \<open>event.rs\<close>, \<open>request.rs\<close>): errors, replies, events, byte swapping.
    Round trip of errors, framing of replies, and the exchange of 16-bit fields in swapped events.
  \<^item> Client: the part of \<open>ClientState\<close> every handler uses and the response type.
  \<^item> Region (\<open>types/region.rs\<close>, \<open>handlers/shape.rs\<close>): the rectangle algebra, against sets of points. The
    locale \<open>region_algebra\<close> states what intersection and subtraction promise; it is interpreted by the
    XFIXES and by the SHAPE routines.
  \<^item> Clip (\<open>types/gc.rs\<close>, \<open>handlers/drawing.rs\<close>): clip bitmaps, the pixel test, raster operations.
  \<^item> Shape (\<open>handlers/shape.rs\<close>): the SHAPE requests. Combining is the set operation of the protocol except
    where the code takes an empty result for the unshaped window; shapes from bitmaps are exact.
  \<^item> Xfixes (\<open>handlers/xfixes\<close>): region requests refine operations on a map from identifiers to sets.
  \<^item> Xid (\<open>handlers/xc_misc.rs\<close>, \<open>client/io.rs\<close>): identifiers handed out are valid and fresh.
  \<^item> Sync (\<open>handlers/sync\<close>): counters, alarms, Await and fences as a step relation; a connection is
    blocked exactly while it waits.
  \<^item> Atoms (\<open>atoms.rs\<close>, \<open>handlers/property/atom.rs\<close>): interning and names are inverse and stable.
  \<^item> Colormap (\<open>types/colormap.rs\<close>): allocation of cells, all or nothing, and lookup.
  \<^item> Color\<open>_\<close>Names (\<open>src/crates/x11-server/src/colors.rs\<close>): colour specifications; hexadecimal colours are read
    back exactly.
  \<^item> Color (\<open>handlers/color.rs\<close>): colormap, colour cell and cursor requests; the tables stay well formed.
  \<^item> Framing (\<open>connection/mod.rs\<close>, \<open>dispatch.rs\<close>): the request loop serves the requests of the byte
    stream however it is cut. The locale \<open>stream_server\<close> holds for every dispatcher; it is interpreted
    by the XC-MISC handler.
  \<^item> Windows (\<open>window_tree.rs\<close>, \<open>types/window.rs\<close>, \<open>types/routing.rs\<close>, \<open>handlers/window/mod.rs\<close>,
    \<open>client/sync_flush.rs\<close>): tree walks, visibility, stacking, the event broadcaster, the shared table.
  \<^item> Ewmh (\<open>client/focus.rs\<close>, \<open>client/helpers.rs\<close>): the properties kept on the root window.
  \<^item> Property (\<open>handlers/property.rs\<close>, \<open>handlers/property/crud.rs\<close>): property requests and incremental
    transfers; pieces read back give the value, a transfer delivers every byte in order.
  \<^item> Selection (\<open>handlers/property/selection.rs\<close>, \<open>handlers/property.rs\<close>, \<open>connection/mod.rs\<close>): owners of selections,
    conversion, and the clipboard the server keeps after its owner has gone, over several connections.
  \<^item> Input (\<open>input.rs\<close>, \<open>xinput2/events.rs\<close>): hit testing, propagation, crossing events, delivery.
  \<^item> Grab (\<open>grab.rs\<close>): grabs and frozen queues; no sequence of grab operations loses an event.
  \<^item> Focus (\<open>client/focus.rs\<close>, \<open>xinput2/events.rs\<close>): focus changes and their events.
  \<^item> Lifecycle, Window\<open>_\<close>Table (\<open>handlers/window/create.rs\<close>): creating and destroying windows keeps the
    tree a tree and the table a map, and destroys exactly the subtree.
  \<^item> Map\<open>_\<close>Window (\<open>handlers/window/map.rs\<close>, \<open>client/focus.rs\<close>): MapWindow, UnmapWindow and their variants for
    subwindows, with redirection to a window manager, placement by hints, WM\<open>_\<close>STATE, exposures and
    transient windows; unmapping ends and unmaps exactly the group.
  \<^item> Attributes (\<open>handlers/window/attributes.rs\<close>, \<open>handlers/window/query.rs\<close>): changing and reading window
    attributes, save sets, GetGeometry, QueryTree.
  \<^item> Configure (\<open>handlers/window/configure.rs\<close>): ConfigureWindow with size hints, gravity, the five stack modes and the
    resize synchronisation, CirculateWindow, ReparentWindow.
  \<^item> Tree\<open>_\<close>Requests: all window requests together as a step relation that keeps the tree, an
    instance of \<open>invariant_system\<close>.
  \<^item> Devices (\<open>handlers/input.rs\<close>, \<open>types/control.rs\<close>, \<open>handlers/xtest.rs\<close>): pointer, keyboard, screen saver, host
    access and mapping requests, RotateProperties; mappings are read back as set, coordinates compose.
  \<^item> Extensions (\<open>extensions.rs\<close>, \<open>handlers/query.rs\<close>, \<open>dispatch.rs\<close>): the registry of extensions; queries, lists
    and dispatch agree whatever is compiled in or disabled.
  \<^item> Pixel\<open>_\<close>Codec (\<open>src/crates/pixel-codec/src/lib.rs\<close>): the probe that chooses the image codec; its hash
    table counts colours exactly and its loops end.
  \<^item> Chunking (\<open>src/crates/backend/src/chunking.rs\<close>): messages cut into numbered chunks reassemble in any order.
  \<^item> This theory: properties that span components.

  \<^bold>\<open>Bounds and fuel.\<close> The walks of the code that stop after \<open>MAX_TREE_DEPTH = 128\<close> steps use this
  number as fuel, which is the code's own bound. Hit testing recurses on the nesting of windows without
  a bound in the code; its fuel stands for the stack, and the nesting depth is proved to be enough. The
  searches for descendants have no bound in the code; they are partial functions, and on trees they are
  proved to return. Unmapping calls itself for transient windows; its fuel is one more than the number of windows,
  which is proved to be enough. The two loops of the colour probe are partial functions and proved to
  return. The request loop ends because it consumes its input.

  \<^bold>\<open>Not modelled.\<close> Drawing, fonts, RENDER and GLX (third-party rasterisers and foreign functions),
  shared memory and file descriptors, the keymap of the third-party \<open>libxkbcommon\<close>, RandR, XInput and most
  of the smaller extensions, connection setup, D-Bus menus, KillClient (it ends other tasks through a channel),
  and the backend, transport, Wayland and sidecar crates (I/O around third-party libraries). Framebuffers are
  not part of a window's model, so background painting after a resize is left out. Floating-point
  intensities of colours (\<open>rgbi:\<close>) are an argument of the model.
\<close>

section \<open>Properties that span components\<close>

lemma grab_pointer_same_core:
  assumes "handle_grab_pointer E r st = Some (st1, Reply 0)"
  shows "core st1 = core st \<and> windows st1 = windows st \<and> root_window st1 = root_window st \<and>
    (\<exists>g. pointer_grab (grabs st1) = Some g \<and> pg_window g = gpr_window r)"
  using assms by (auto simp: handle_grab_pointer_def Let_def same_grabs_def split: if_splits
      dest!: emit_grab_crossing_same intro!: core_cong)

text \<open>C35. Grabs survive the destruction of their window: when a client grabs the pointer on a window,
  destroys the window and releases the grab, the server panics, whether the grab is released by
  UngrabPointer, by the release of the last button or by AllowEvents(ReplayPointer).\<close>

theorem grab_destroy_ungrab_panics:
  assumes "window_tree_ok st" "map_of (windows st) (gpr_window r) = Some win" "gpr_window r \<noteq> root_window st"
    and "handle_grab_pointer E r st = Some (st1, Reply 0)"
  shows "\<exists>st2. handle_destroy_window E (gpr_window r) st1 = Some (st2, NoReply) \<and>
    handle_ungrab_pointer E st2 = None \<and> check_button_release_ungrab E 0 st2 = None \<and>
    handle_allow_events E 2 st2 = None"
proof -
  note same = grab_pointer_same_core [OF assms(4)]
  then obtain g where g: "pointer_grab (grabs st1) = Some g" "pg_window g = gpr_window r" by blast
  have "window_tree_ok st1" using assms(1) same by (simp add: window_tree_ok_def kids_ok_def kids_ranked_def)
  from destroy_removes [OF this, of "gpr_window r" win E] assms(2) same obtain st2 where
    st2: "handle_destroy_window E (gpr_window r) st1 = Some (st2, NoReply)"
      "core st2 (gpr_window r) = None" "grabs st2 = grabs st1" "root_window st2 = root_window st1"
    by (auto simp: subtree_def)
  have "map_of (windows st2) (pg_window g) = None" using st2(2) g(2) core_dom by simp
  moreover have "pg_window g \<noteq> root_window st2" using g(2) st2(4) same assms(3) by simp
  ultimately show ?thesis
    using st2(1,3) g(1) ungrab_destroyed_window_panics [of st2 g E] by simp
qed

theorem grab_destroy_ungrab_panics_witness:
  "\<exists>st1 st2. handle_grab_pointer demo_encoders (demo_grab_pointer\<lparr>gpr_window := 0x400003\<rparr>)
       (demo_life\<lparr>last_entered_window := 0x400003\<rparr>) = Some (st1, Reply 0) \<and>
     handle_destroy_window demo_encoders 0x400003 st1 = Some (st2, NoReply) \<and>
     handle_ungrab_pointer demo_encoders st2 = None"
proof -
  let ?r = "demo_grab_pointer\<lparr>gpr_window := 0x400003\<rparr>" and ?st = "demo_life\<lparr>last_entered_window := 0x400003\<rparr>"
  have "is_viewable (windows ?st) 0x400003 (root_window ?st)" by code_simp
  then obtain st1 where st1: "handle_grab_pointer demo_encoders ?r ?st = Some (st1, Reply 0)"
    by (simp add: handle_grab_pointer_def demo_grab_pointer_def demo_life_def demo_defs window_known_def
        invalid_time_def emit_grab_crossing_events_def build_crossing_events_with_mode_def upd_grabs_def)
  have "window_tree_ok ?st"
    using demo_life_ok by (simp add: life_ok_def window_tree_ok_def kids_ok_def kids_ranked_def core_def)
  from grab_destroy_ungrab_panics [OF this _ _ st1, of "(window_at 9 0 0 8 6 [])\<lparr>w_id := 0x400003\<rparr>"] st1
  show ?thesis by (auto simp: demo_life_def)
qed

end
